(* ===== verification/XePrelude.thy ===== *)
theory XePrelude
  imports Main "HOL-Library.Word" "HOL-Library.State_Monad"
begin

text \<open>
  Shared vocabulary of the development: names for the fixed-width integers of the
  C and C++ sources, the collections of rewrite rules that the component theories fill,
  generic facts on words and lists, and a small Hoare calculus for the library's state
  monad. Nothing in this theory models code of the repository.
\<close>

unbundle bit_operations_syntax

section \<open>Machine integers\<close>

type_synonym u8 = "8 word"
type_synonym u16 = "16 word"
type_synonym u32 = "32 word"
type_synonym u64 = "64 word"
type_synonym s32 = "32 word" \<comment> \<open>read through \<open>sint\<close>\<close>

named_theorems hw_consts \<open>values of the register offsets and hardware constants\<close>
named_theorems codes \<open>values of the return codes\<close>
named_theorems run_simps \<open>one-step execution equations of the primitive effects\<close>
named_theorems safe_intros \<open>compositional rules of the event-safety judgement\<close>

lemma unat_le_mask_32: "(x :: u32) \<le> n \<Longrightarrow> unat x \<le> unat n"
  by (simp add: word_le_nat_alt)

lemma drop_bit_word_unat:
  "unat (drop_bit n (x :: 'a :: len word)) = unat x div 2 ^ n"
  by (simp add: unat_drop_bit_eq) (simp add: drop_bit_eq_div)

lemma and_3_iff: "(x :: u32) AND 3 = 0 \<longleftrightarrow> 4 dvd unat x"
proof -
  have "x AND 3 = take_bit 2 x"
    by (simp add: take_bit_eq_mask mask_numeral)
  moreover have "unat (take_bit 2 x) = unat x mod 4"
    by (simp add: unsigned_take_bit_eq) (simp add: take_bit_eq_mod)
  ultimately show ?thesis
    by (metis unat_eq_zero dvd_eq_mod_eq_0)
qed

lemma unat_ucast_u64 [simp]: "unat (ucast (x :: u32) :: u64) = unat x"
proof -
  have "unat x < 2 ^ 64"
    using unsigned_less [of x, where 'a = nat] by simp
  then show ?thesis by (simp add: unsigned_ucast_eq take_bit_nat_eq_self)
qed

lemma take_bit_self:
  "unat (x :: 'a :: len word) < 2 ^ n \<Longrightarrow> take_bit n x = x"
  by (simp add: word_unat_eq_iff unsigned_take_bit_eq take_bit_nat_eq_self)

lemma bit_unat_bound: "unat (x :: 'a :: len word) < 2 ^ n \<Longrightarrow> bit x i \<Longrightarrow> i < n"
  using take_bit_self [of x n] by (metis bit_take_bit_iff)

lemma dword_index_bound:
  fixes off :: u32
  assumes "unat off < L" and "4 dvd L"
  shows "4 * unat (drop_bit 2 off) + 4 \<le> L"
proof -
  from assms(2) obtain k where k: "L = 4 * k" by (auto elim: dvdE)
  with assms(1) have "unat off div 4 < k" by (simp add: less_mult_imp_div_less mult.commute)
  then show ?thesis by (simp add: drop_bit_word_unat k)
qed

section \<open>Execution of the state monad\<close>

definition gets :: "('s \<Rightarrow> 'a) \<Rightarrow> ('s, 'a) state" where
  "gets f = State (\<lambda>s. (f s, s))"

definition modify :: "('s \<Rightarrow> 's) \<Rightarrow> ('s, unit) state" where
  "modify f = State (\<lambda>s. ((), f s))"

lemma run_gets [simp]: "run_state (gets f) s = (f s, s)"
  by (simp add: gets_def)

lemma run_modify [simp]: "run_state (modify f) s = ((), f s)"
  by (simp add: modify_def)

abbreviation ret :: "'a \<Rightarrow> ('s, 'a) state" where
  "ret \<equiv> State_Monad.return"

definition skip :: "('s, unit) state" where
  "skip = ret ()"

lemma run_skip [simp]: "run_state skip s = ((), s)"
  by (simp add: skip_def)

definition hoare :: "('s \<Rightarrow> bool) \<Rightarrow> ('s, 'a) state \<Rightarrow> ('a \<Rightarrow> 's \<Rightarrow> bool) \<Rightarrow> bool" where
  "hoare P m Q \<longleftrightarrow> (\<forall>s. P s \<longrightarrow> (case run_state m s of (a, s') \<Rightarrow> Q a s'))"

lemma hoareI: "(\<And>s a s'. P s \<Longrightarrow> run_state m s = (a, s') \<Longrightarrow> Q a s') \<Longrightarrow> hoare P m Q"
  by (auto simp: hoare_def)

lemma hoareD: "hoare P m Q \<Longrightarrow> P s \<Longrightarrow> run_state m s = (a, s') \<Longrightarrow> Q a s'"
  by (auto simp: hoare_def)

lemma hoare_bind:
  "hoare P m R \<Longrightarrow> (\<And>a. hoare (R a) (f a) Q) \<Longrightarrow> hoare P (m \<bind> f) Q"
  by (fastforce simp: hoare_def split: prod.splits)

lemma hoare_return: "(\<And>s. P s \<Longrightarrow> Q a s) \<Longrightarrow> hoare P (ret a) Q"
  by (simp add: hoare_def)

lemma hoare_weaken:
  "hoare P' m Q' \<Longrightarrow> (\<And>s. P s \<Longrightarrow> P' s) \<Longrightarrow> (\<And>a s. Q' a s \<Longrightarrow> Q a s) \<Longrightarrow> hoare P m Q"
  by (fastforce simp: hoare_def split: prod.splits)

lemma hoare_if:
  "(b \<Longrightarrow> hoare P m Q) \<Longrightarrow> (\<not> b \<Longrightarrow> hoare P n Q) \<Longrightarrow> hoare P (if b then m else n) Q"
  by simp

end
