(* ===== verification/ReturnCodes.thy ===== *)
theory ReturnCodes
  imports XePrelude
begin

text \<open>
  The return codes the driver hands to its callers, from the kernel SDK headers
  \<^verbatim>\<open>mach/error.h\<close>, \<^verbatim>\<open>IOKit/IOReturn.h\<close> and \<^verbatim>\<open>libkern/OSReturn.h\<close>
  (under \<^verbatim>\<open>src/MacKernelSDK/Headers\<close>): the composition macros, their selectors and
  the code tables. The lemmas show that composition and selection are inverse, so distinct
  codes stay distinct and none of the error codes is the success code.
\<close>

section \<open>Layout of a Mach error number\<close>

text \<open>
  \<^verbatim>\<open>mach/error.h\<close>: an error number is \<open>system(6) | subsystem(12) | code(14)\<close>.
  \<open>mach_error_t\<close> is a signed 32-bit integer, so the selectors shift arithmetically.
\<close>

definition err_system :: "u32 \<Rightarrow> u32" where
  "err_system x = push_bit 26 (x AND 0x3f)"

definition err_sub :: "u32 \<Rightarrow> u32" where
  "err_sub x = push_bit 14 (x AND 0xfff)"

definition err_get_system :: "u32 \<Rightarrow> u32" where
  "err_get_system err = signed_drop_bit 26 err AND 0x3f"

definition err_get_sub :: "u32 \<Rightarrow> u32" where
  "err_get_sub err = signed_drop_bit 14 err AND 0xfff"

definition err_get_code :: "u32 \<Rightarrow> u32" where
  "err_get_code err = err AND 0x3fff"

definition system_emask :: u32 where
  "system_emask = err_system 0x3f"

definition sub_emask :: u32 where
  "sub_emask = err_sub 0xfff"

definition code_emask :: u32 where
  "code_emask = 0x3fff"

definition unix_err :: "u32 \<Rightarrow> u32" where
  "unix_err errno = err_system 0 OR err_sub 3 OR errno"

text \<open>The major error systems.\<close>

definition err_kern :: u32 where
  [codes]: "err_kern = err_system 0x0"

definition err_us :: u32 where
  [codes]: "err_us = err_system 0x1"

definition err_server :: u32 where
  [codes]: "err_server = err_system 0x2"

definition err_ipc :: u32 where
  [codes]: "err_ipc = err_system 0x3"

definition err_mach_ipc :: u32 where
  [codes]: "err_mach_ipc = err_system 0x4"

definition err_dipc :: u32 where
  [codes]: "err_dipc = err_system 0x7"

definition err_local :: u32 where
  [codes]: "err_local = err_system 0x3e"

definition err_ipc_compat :: u32 where
  [codes]: "err_ipc_compat = err_system 0x3f"

section \<open>I/O Kit return codes\<close>

definition sys_iokit :: u32 where
  "sys_iokit = err_system 0x38"

definition sub_iokit_common :: u32 where
  [codes]: "sub_iokit_common = err_sub 0"

definition sub_iokit_usb :: u32 where
  [codes]: "sub_iokit_usb = err_sub 1"

definition sub_iokit_firewire :: u32 where
  [codes]: "sub_iokit_firewire = err_sub 2"

definition sub_iokit_block_storage :: u32 where
  [codes]: "sub_iokit_block_storage = err_sub 4"

definition sub_iokit_graphics :: u32 where
  [codes]: "sub_iokit_graphics = err_sub 5"

definition sub_iokit_networking :: u32 where
  [codes]: "sub_iokit_networking = err_sub 6"

definition sub_iokit_bluetooth :: u32 where
  [codes]: "sub_iokit_bluetooth = err_sub 8"

definition sub_iokit_pmu :: u32 where
  [codes]: "sub_iokit_pmu = err_sub 9"

definition sub_iokit_acpi :: u32 where
  [codes]: "sub_iokit_acpi = err_sub 10"

definition sub_iokit_smbus :: u32 where
  [codes]: "sub_iokit_smbus = err_sub 11"

definition sub_iokit_ahci :: u32 where
  [codes]: "sub_iokit_ahci = err_sub 12"

definition sub_iokit_powermanagement :: u32 where
  [codes]: "sub_iokit_powermanagement = err_sub 13"

definition sub_iokit_hidsystem :: u32 where
  [codes]: "sub_iokit_hidsystem = err_sub 14"

definition sub_iokit_scsi :: u32 where
  [codes]: "sub_iokit_scsi = err_sub 16"

definition sub_iokit_usbaudio :: u32 where
  [codes]: "sub_iokit_usbaudio = err_sub 17"

definition sub_iokit_wirelesscharging :: u32 where
  [codes]: "sub_iokit_wirelesscharging = err_sub 18"

definition sub_iokit_thunderbolt :: u32 where
  [codes]: "sub_iokit_thunderbolt = err_sub 29"

definition sub_iokit_graphics_acceleration :: u32 where
  [codes]: "sub_iokit_graphics_acceleration = err_sub 30"

definition sub_iokit_keystore :: u32 where
  [codes]: "sub_iokit_keystore = err_sub 31"

definition sub_iokit_apfs :: u32 where
  [codes]: "sub_iokit_apfs = err_sub 33"

definition sub_iokit_acpiec :: u32 where
  [codes]: "sub_iokit_acpiec = err_sub 34"

definition sub_iokit_timesync_avb :: u32 where
  [codes]: "sub_iokit_timesync_avb = err_sub 35"

definition sub_iokit_platform :: u32 where
  [codes]: "sub_iokit_platform = err_sub 0x2A"

definition sub_iokit_audio_video :: u32 where
  [codes]: "sub_iokit_audio_video = err_sub 0x45"

definition sub_iokit_cec :: u32 where
  [codes]: "sub_iokit_cec = err_sub 0x46"

definition sub_iokit_baseband :: u32 where
  [codes]: "sub_iokit_baseband = err_sub 0x80"

definition sub_iokit_HDA :: u32 where
  [codes]: "sub_iokit_HDA = err_sub 0xFE"

definition sub_iokit_hsic :: u32 where
  [codes]: "sub_iokit_hsic = err_sub 0x147"

definition sub_iokit_sdio :: u32 where
  [codes]: "sub_iokit_sdio = err_sub 0x174"

definition sub_iokit_wlan :: u32 where
  [codes]: "sub_iokit_wlan = err_sub 0x208"

definition sub_iokit_appleembeddedsleepwakehandler :: u32 where
  [codes]: "sub_iokit_appleembeddedsleepwakehandler = err_sub 0x209"

definition sub_iokit_appleppm :: u32 where
  [codes]: "sub_iokit_appleppm = err_sub 0x20A"

definition sub_iokit_vendor_specific :: u32 where
  [codes]: "sub_iokit_vendor_specific = err_sub (- 2)"

definition sub_iokit_reserved :: u32 where
  [codes]: "sub_iokit_reserved = err_sub (- 1)"

definition iokit_common_err :: "u32 \<Rightarrow> u32" where
  "iokit_common_err r = sys_iokit OR sub_iokit_common OR r"

definition iokit_family_err :: "u32 \<Rightarrow> u32 \<Rightarrow> u32" where
  "iokit_family_err sub r = sys_iokit OR sub OR r"

definition iokit_vendor_specific_err :: "u32 \<Rightarrow> u32" where
  "iokit_vendor_specific_err r = sys_iokit OR sub_iokit_vendor_specific OR r"

definition kIOReturnSuccess :: u32 where
  [codes]: "kIOReturnSuccess = 0"

definition kIOReturnError :: u32 where
  [codes]: "kIOReturnError = iokit_common_err 0x2bc"

definition kIOReturnNoMemory :: u32 where
  [codes]: "kIOReturnNoMemory = iokit_common_err 0x2bd"

definition kIOReturnNoResources :: u32 where
  [codes]: "kIOReturnNoResources = iokit_common_err 0x2be"

definition kIOReturnIPCError :: u32 where
  [codes]: "kIOReturnIPCError = iokit_common_err 0x2bf"

definition kIOReturnNoDevice :: u32 where
  [codes]: "kIOReturnNoDevice = iokit_common_err 0x2c0"

definition kIOReturnNotPrivileged :: u32 where
  [codes]: "kIOReturnNotPrivileged = iokit_common_err 0x2c1"

definition kIOReturnBadArgument :: u32 where
  [codes]: "kIOReturnBadArgument = iokit_common_err 0x2c2"

definition kIOReturnLockedRead :: u32 where
  [codes]: "kIOReturnLockedRead = iokit_common_err 0x2c3"

definition kIOReturnLockedWrite :: u32 where
  [codes]: "kIOReturnLockedWrite = iokit_common_err 0x2c4"

definition kIOReturnExclusiveAccess :: u32 where
  [codes]: "kIOReturnExclusiveAccess = iokit_common_err 0x2c5"

definition kIOReturnBadMessageID :: u32 where
  [codes]: "kIOReturnBadMessageID = iokit_common_err 0x2c6"

definition kIOReturnUnsupported :: u32 where
  [codes]: "kIOReturnUnsupported = iokit_common_err 0x2c7"

definition kIOReturnVMError :: u32 where
  [codes]: "kIOReturnVMError = iokit_common_err 0x2c8"

definition kIOReturnInternalError :: u32 where
  [codes]: "kIOReturnInternalError = iokit_common_err 0x2c9"

definition kIOReturnIOError :: u32 where
  [codes]: "kIOReturnIOError = iokit_common_err 0x2ca"

definition kIOReturnCannotLock :: u32 where
  [codes]: "kIOReturnCannotLock = iokit_common_err 0x2cc"

definition kIOReturnNotOpen :: u32 where
  [codes]: "kIOReturnNotOpen = iokit_common_err 0x2cd"

definition kIOReturnNotReadable :: u32 where
  [codes]: "kIOReturnNotReadable = iokit_common_err 0x2ce"

definition kIOReturnNotWritable :: u32 where
  [codes]: "kIOReturnNotWritable = iokit_common_err 0x2cf"

definition kIOReturnNotAligned :: u32 where
  [codes]: "kIOReturnNotAligned = iokit_common_err 0x2d0"

definition kIOReturnBadMedia :: u32 where
  [codes]: "kIOReturnBadMedia = iokit_common_err 0x2d1"

definition kIOReturnStillOpen :: u32 where
  [codes]: "kIOReturnStillOpen = iokit_common_err 0x2d2"

definition kIOReturnRLDError :: u32 where
  [codes]: "kIOReturnRLDError = iokit_common_err 0x2d3"

definition kIOReturnDMAError :: u32 where
  [codes]: "kIOReturnDMAError = iokit_common_err 0x2d4"

definition kIOReturnBusy :: u32 where
  [codes]: "kIOReturnBusy = iokit_common_err 0x2d5"

definition kIOReturnTimeout :: u32 where
  [codes]: "kIOReturnTimeout = iokit_common_err 0x2d6"

definition kIOReturnOffline :: u32 where
  [codes]: "kIOReturnOffline = iokit_common_err 0x2d7"

definition kIOReturnNotReady :: u32 where
  [codes]: "kIOReturnNotReady = iokit_common_err 0x2d8"

definition kIOReturnNotAttached :: u32 where
  [codes]: "kIOReturnNotAttached = iokit_common_err 0x2d9"

definition kIOReturnNoChannels :: u32 where
  [codes]: "kIOReturnNoChannels = iokit_common_err 0x2da"

definition kIOReturnNoSpace :: u32 where
  [codes]: "kIOReturnNoSpace = iokit_common_err 0x2db"

definition kIOReturnPortExists :: u32 where
  [codes]: "kIOReturnPortExists = iokit_common_err 0x2dd"

definition kIOReturnCannotWire :: u32 where
  [codes]: "kIOReturnCannotWire = iokit_common_err 0x2de"

definition kIOReturnNoInterrupt :: u32 where
  [codes]: "kIOReturnNoInterrupt = iokit_common_err 0x2df"

definition kIOReturnNoFrames :: u32 where
  [codes]: "kIOReturnNoFrames = iokit_common_err 0x2e0"

definition kIOReturnMessageTooLarge :: u32 where
  [codes]: "kIOReturnMessageTooLarge = iokit_common_err 0x2e1"

definition kIOReturnNotPermitted :: u32 where
  [codes]: "kIOReturnNotPermitted = iokit_common_err 0x2e2"

definition kIOReturnNoPower :: u32 where
  [codes]: "kIOReturnNoPower = iokit_common_err 0x2e3"

definition kIOReturnNoMedia :: u32 where
  [codes]: "kIOReturnNoMedia = iokit_common_err 0x2e4"

definition kIOReturnUnformattedMedia :: u32 where
  [codes]: "kIOReturnUnformattedMedia = iokit_common_err 0x2e5"

definition kIOReturnUnsupportedMode :: u32 where
  [codes]: "kIOReturnUnsupportedMode = iokit_common_err 0x2e6"

definition kIOReturnUnderrun :: u32 where
  [codes]: "kIOReturnUnderrun = iokit_common_err 0x2e7"

definition kIOReturnOverrun :: u32 where
  [codes]: "kIOReturnOverrun = iokit_common_err 0x2e8"

definition kIOReturnDeviceError :: u32 where
  [codes]: "kIOReturnDeviceError = iokit_common_err 0x2e9"

definition kIOReturnNoCompletion :: u32 where
  [codes]: "kIOReturnNoCompletion = iokit_common_err 0x2ea"

definition kIOReturnAborted :: u32 where
  [codes]: "kIOReturnAborted = iokit_common_err 0x2eb"

definition kIOReturnNoBandwidth :: u32 where
  [codes]: "kIOReturnNoBandwidth = iokit_common_err 0x2ec"

definition kIOReturnNotResponding :: u32 where
  [codes]: "kIOReturnNotResponding = iokit_common_err 0x2ed"

definition kIOReturnIsoTooOld :: u32 where
  [codes]: "kIOReturnIsoTooOld = iokit_common_err 0x2ee"

definition kIOReturnIsoTooNew :: u32 where
  [codes]: "kIOReturnIsoTooNew = iokit_common_err 0x2ef"

definition kIOReturnNotFound :: u32 where
  [codes]: "kIOReturnNotFound = iokit_common_err 0x2f0"

definition kIOReturnInvalid :: u32 where
  [codes]: "kIOReturnInvalid = iokit_common_err 0x1"

definition iokit_subsystems :: "u32 list" where
  "iokit_subsystems = [
    sub_iokit_common, sub_iokit_usb, sub_iokit_firewire, sub_iokit_block_storage,
    sub_iokit_graphics, sub_iokit_networking, sub_iokit_bluetooth, sub_iokit_pmu,
    sub_iokit_acpi, sub_iokit_smbus, sub_iokit_ahci, sub_iokit_powermanagement,
    sub_iokit_hidsystem, sub_iokit_scsi, sub_iokit_usbaudio, sub_iokit_wirelesscharging,
    sub_iokit_thunderbolt, sub_iokit_graphics_acceleration, sub_iokit_keystore,
    sub_iokit_apfs, sub_iokit_acpiec, sub_iokit_timesync_avb, sub_iokit_platform,
    sub_iokit_audio_video, sub_iokit_cec, sub_iokit_baseband, sub_iokit_HDA,
    sub_iokit_hsic, sub_iokit_sdio, sub_iokit_wlan,
    sub_iokit_appleembeddedsleepwakehandler, sub_iokit_appleppm,
    sub_iokit_vendor_specific, sub_iokit_reserved]"

definition iokit_common_codes :: "u32 list" where
  "iokit_common_codes = [
    kIOReturnError, kIOReturnNoMemory, kIOReturnNoResources, kIOReturnIPCError,
    kIOReturnNoDevice, kIOReturnNotPrivileged, kIOReturnBadArgument,
    kIOReturnLockedRead, kIOReturnLockedWrite, kIOReturnExclusiveAccess,
    kIOReturnBadMessageID, kIOReturnUnsupported, kIOReturnVMError,
    kIOReturnInternalError, kIOReturnIOError, kIOReturnCannotLock, kIOReturnNotOpen,
    kIOReturnNotReadable, kIOReturnNotWritable, kIOReturnNotAligned, kIOReturnBadMedia,
    kIOReturnStillOpen, kIOReturnRLDError, kIOReturnDMAError, kIOReturnBusy,
    kIOReturnTimeout, kIOReturnOffline, kIOReturnNotReady, kIOReturnNotAttached,
    kIOReturnNoChannels, kIOReturnNoSpace, kIOReturnPortExists, kIOReturnCannotWire,
    kIOReturnNoInterrupt, kIOReturnNoFrames, kIOReturnMessageTooLarge,
    kIOReturnNotPermitted, kIOReturnNoPower, kIOReturnNoMedia,
    kIOReturnUnformattedMedia, kIOReturnUnsupportedMode, kIOReturnUnderrun,
    kIOReturnOverrun, kIOReturnDeviceError, kIOReturnNoCompletion, kIOReturnAborted,
    kIOReturnNoBandwidth, kIOReturnNotResponding, kIOReturnIsoTooOld,
    kIOReturnIsoTooNew, kIOReturnNotFound, kIOReturnInvalid]"

section \<open>Libkern return codes\<close>

definition sys_libkern :: u32 where
  "sys_libkern = err_system 0x37"

definition sub_libkern_common :: u32 where
  "sub_libkern_common = err_sub 0"

definition sub_libkern_metaclass :: u32 where
  "sub_libkern_metaclass = err_sub 1"

definition sub_libkern_reserved :: u32 where
  "sub_libkern_reserved = err_sub (- 1)"

definition libkern_common_err :: "u32 \<Rightarrow> u32" where
  "libkern_common_err r = sys_libkern OR sub_libkern_common OR r"

definition libkern_metaclass_err :: "u32 \<Rightarrow> u32" where
  "libkern_metaclass_err r = sys_libkern OR sub_libkern_metaclass OR r"

definition kOSReturnSuccess :: u32 where
  [codes]: "kOSReturnSuccess = 0"

definition kOSReturnError :: u32 where
  [codes]: "kOSReturnError = libkern_common_err 1"

definition kOSMetaClassInternal :: u32 where
  [codes]: "kOSMetaClassInternal = libkern_metaclass_err 1"

definition kOSMetaClassHasInstances :: u32 where
  [codes]: "kOSMetaClassHasInstances = libkern_metaclass_err 2"

definition kOSMetaClassNoInit :: u32 where
  [codes]: "kOSMetaClassNoInit = libkern_metaclass_err 3"

definition kOSMetaClassNoTempData :: u32 where
  [codes]: "kOSMetaClassNoTempData = libkern_metaclass_err 4"

definition kOSMetaClassNoDicts :: u32 where
  [codes]: "kOSMetaClassNoDicts = libkern_metaclass_err 5"

definition kOSMetaClassNoKModSet :: u32 where
  [codes]: "kOSMetaClassNoKModSet = libkern_metaclass_err 6"

definition kOSMetaClassNoInsKModSet :: u32 where
  [codes]: "kOSMetaClassNoInsKModSet = libkern_metaclass_err 7"

definition kOSMetaClassNoSuper :: u32 where
  [codes]: "kOSMetaClassNoSuper = libkern_metaclass_err 8"

definition kOSMetaClassInstNoSuper :: u32 where
  [codes]: "kOSMetaClassInstNoSuper = libkern_metaclass_err 9"

definition kOSMetaClassDuplicateClass :: u32 where
  [codes]: "kOSMetaClassDuplicateClass = libkern_metaclass_err 10"

definition kOSMetaClassNoKext :: u32 where
  [codes]: "kOSMetaClassNoKext = libkern_metaclass_err 11"

definition libkern_codes :: "u32 list" where
  "libkern_codes = [
    kOSReturnError, kOSMetaClassInternal, kOSMetaClassHasInstances, kOSMetaClassNoInit,
    kOSMetaClassNoTempData, kOSMetaClassNoDicts, kOSMetaClassNoKModSet,
    kOSMetaClassNoInsKModSet, kOSMetaClassNoSuper, kOSMetaClassInstNoSuper,
    kOSMetaClassDuplicateClass, kOSMetaClassNoKext]"

section \<open>Composition and selection are inverse\<close>

text \<open>
  Composing an error number from a system below 64, a subsystem below 4096 and a code
  below 16384 and selecting the three parts gives them back: no part leaks into another.
\<close>

theorem err_compose_select:
  fixes s u c :: u32
  assumes "unat s < 64" and "unat u < 4096" and "unat c < 16384"
  shows "err_get_system (err_system s OR err_sub u OR c) = s \<and>
    err_get_sub (err_system s OR err_sub u OR c) = u \<and>
    err_get_code (err_system s OR err_sub u OR c) = c"
proof -
  have s: "\<And>i. bit s i \<Longrightarrow> i < 6" and u: "\<And>i. bit u i \<Longrightarrow> i < 12" and c: "\<And>i. bit c i \<Longrightarrow> i < 14"
    using bit_unat_bound [of s 6] bit_unat_bound [of u 12] bit_unat_bound [of c 14] assms
    by auto
  note defs = err_get_system_def err_get_sub_def err_get_code_def err_system_def err_sub_def
  have m: "(0x3f :: u32) = mask 6" "(0xfff :: u32) = mask 12" "(0x3fff :: u32) = mask 14"
    by (simp_all add: mask_numeral)
  have "err_get_system (err_system s OR err_sub u OR c) = s"
    unfolding defs m
    by (rule bit_word_eqI) (auto simp: bit_simps dest: s u c)
  moreover have "err_get_sub (err_system s OR err_sub u OR c) = u"
    unfolding defs m
    by (rule bit_word_eqI) (auto simp: bit_simps dest: s u c)
  moreover have "err_get_code (err_system s OR err_sub u OR c) = c"
    unfolding defs m
    by (rule bit_word_eqI) (auto simp: bit_simps dest: s u c)
  ultimately show ?thesis by blast
qed

theorem err_compose_select_witness:
  "err_get_system kIOReturnNotReady = 0x38 \<and> err_get_sub kIOReturnNotReady = 0 \<and>
   err_get_code kIOReturnNotReady = 0x2d8"
  using err_compose_select [of "0x38" 0 "0x2d8"]
  by (simp add: kIOReturnNotReady_def iokit_common_err_def sys_iokit_def sub_iokit_common_def)

section \<open>The tables\<close>

lemmas code_layout =
  iokit_common_err_def libkern_common_err_def libkern_metaclass_err_def sys_iokit_def
  sub_iokit_common_def sys_libkern_def sub_libkern_common_def sub_libkern_metaclass_def
  err_system_def err_sub_def

text \<open>
  The I/O Kit codes are pairwise distinct, each is a negative \<open>kern_return_t\<close> (hence
  never mistaken for \<open>kIOReturnSuccess\<close>), and each belongs to system 0x38, subsystem 0.
\<close>

theorem iokit_codes_distinct_errors:
  "distinct (kIOReturnSuccess # iokit_common_codes) \<and>
   list_all (\<lambda>r. sint r < 0 \<and> err_get_system r = 0x38 \<and> err_get_sub r = 0) iokit_common_codes"
proof
  have "distinct (map unat (kIOReturnSuccess # iokit_common_codes))"
    by (simp add: iokit_common_codes_def codes code_layout)
  then show "distinct (kIOReturnSuccess # iokit_common_codes)"
    by (simp only: distinct_map)
  show "list_all (\<lambda>r. sint r < 0 \<and> err_get_system r = 0x38 \<and> err_get_sub r = 0)
      iokit_common_codes"
    by (simp add: iokit_common_codes_def codes code_layout err_get_system_def err_get_sub_def)
qed

lemma libkern_codes_distinct:
  "distinct (kOSReturnSuccess # libkern_codes)" "set libkern_codes \<inter> set iokit_common_codes = {}"
  by (simp_all add: libkern_codes_def iokit_common_codes_def codes code_layout)

lemma iokit_subsystems_distinct: "distinct iokit_subsystems"
proof -
  have "distinct (map unat iokit_subsystems)"
    by (simp add: iokit_subsystems_def codes err_sub_def)
  then show ?thesis by (simp add: distinct_map)
qed

end
