(* ===== verification/HwOffsets.thy ===== *)
theory HwOffsets
  imports XePrelude
begin

text \<open>
  The hardware constants of \<^verbatim>\<open>src/kexts/xe_hw_offsets.hpp\<close>, one definition per
  constant with its source name and value, followed by one list of offsets per section of
  that header. The lemmas give what the driver relies on when it dereferences these
  offsets: they are distinct, dword aligned and lie in the first 0x140000 bytes of BAR0;
  the fence register pairs are disjoint from one another and from every named register.
\<close>

section \<open>Constants of namespace XeHW\<close>

subsection \<open>Basic Device Identification Registers\<close>

definition DEVICE_ID_REG0 :: u32 where
  [hw_consts]: "DEVICE_ID_REG0 = 0x00000000"

definition DEVICE_ID_REG1 :: u32 where
  [hw_consts]: "DEVICE_ID_REG1 = 0x00000004"

definition DEVICE_ID_REG2 :: u32 where
  [hw_consts]: "DEVICE_ID_REG2 = 0x00000010"

definition DEVICE_ID_REG3 :: u32 where
  [hw_consts]: "DEVICE_ID_REG3 = 0x00000014"

definition DEVICE_ID_REG4 :: u32 where
  [hw_consts]: "DEVICE_ID_REG4 = 0x00000100"

definition DEVICE_ID_REG5 :: u32 where
  [hw_consts]: "DEVICE_ID_REG5 = 0x00000104"

definition device_id_regs :: "u32 list" where
  "device_id_regs = [
    DEVICE_ID_REG0, DEVICE_ID_REG1, DEVICE_ID_REG2, DEVICE_ID_REG3, DEVICE_ID_REG4,
    DEVICE_ID_REG5]"

subsection \<open>Engine / Ring Registers\<close>

definition RCS0_BASE :: u32 where
  [hw_consts]: "RCS0_BASE = 0x00002000"

definition RCS0_RING_TAIL :: u32 where
  [hw_consts]: "RCS0_RING_TAIL = RCS0_BASE + 0x30"

definition RCS0_RING_HEAD :: u32 where
  [hw_consts]: "RCS0_RING_HEAD = RCS0_BASE + 0x34"

definition RCS0_RING_CTL :: u32 where
  [hw_consts]: "RCS0_RING_CTL = RCS0_BASE + 0x2C"

definition RCS0_MI_MODE :: u32 where
  [hw_consts]: "RCS0_MI_MODE = RCS0_BASE + 0x9C"

definition GFX_MODE :: u32 where
  [hw_consts]: "GFX_MODE = 0x00002500"

definition PGTBL_CTL :: u32 where
  [hw_consts]: "PGTBL_CTL = 0x00002020"

definition GGTT_ApertureBytes :: u32 where
  [hw_consts]: "GGTT_ApertureBytes = 256 * 1024 * 1024"

definition MI_NOOP :: u32 where
  [hw_consts]: "MI_NOOP = 0x00000000"

definition MI_BATCH_BUFFER_END :: u32 where
  [hw_consts]: "MI_BATCH_BUFFER_END = 0x0A000000"

definition engine_regs :: "u32 list" where
  "engine_regs = [
    RCS0_RING_TAIL, RCS0_RING_HEAD, RCS0_RING_CTL, RCS0_MI_MODE, GFX_MODE, PGTBL_CTL]"

subsection \<open>Forcewake Registers\<close>

definition FORCEWAKE_REQ :: u32 where
  [hw_consts]: "FORCEWAKE_REQ = 0x000A188"

definition FORCEWAKE_ACK :: u32 where
  [hw_consts]: "FORCEWAKE_ACK = 0x000A18C"

definition forcewake_regs :: "u32 list" where
  "forcewake_regs = [
    FORCEWAKE_REQ, FORCEWAKE_ACK]"

subsection \<open>Power Management Registers\<close>

definition GEN6_RP_CONTROL :: u32 where
  [hw_consts]: "GEN6_RP_CONTROL = 0x0000A024"

definition GEN6_RPNSWREQ :: u32 where
  [hw_consts]: "GEN6_RPNSWREQ = 0x0000A008"

definition GEN6_RP_DOWN_TIMEOUT :: u32 where
  [hw_consts]: "GEN6_RP_DOWN_TIMEOUT = 0x0000A010"

definition GEN6_RP_INTERRUPT_LIMITS :: u32 where
  [hw_consts]: "GEN6_RP_INTERRUPT_LIMITS = 0x0000A014"

definition GEN6_RP_UP_THRESHOLD :: u32 where
  [hw_consts]: "GEN6_RP_UP_THRESHOLD = 0x0000A02C"

definition GEN6_RP_UP_EI :: u32 where
  [hw_consts]: "GEN6_RP_UP_EI = 0x0000A068"

definition GEN6_RP_DOWN_EI :: u32 where
  [hw_consts]: "GEN6_RP_DOWN_EI = 0x0000A06C"

definition GEN6_RP_IDLE_HYSTERESIS :: u32 where
  [hw_consts]: "GEN6_RP_IDLE_HYSTERESIS = 0x0000A070"

definition GEN6_RC_STATE :: u32 where
  [hw_consts]: "GEN6_RC_STATE = 0x0000A094"

definition GEN6_RC_CONTROL :: u32 where
  [hw_consts]: "GEN6_RC_CONTROL = 0x0000A090"

definition GEN6_RC1_WAKE_RATE_LIMIT :: u32 where
  [hw_consts]: "GEN6_RC1_WAKE_RATE_LIMIT = 0x0000A098"

definition GEN6_RC6_WAKE_RATE_LIMIT :: u32 where
  [hw_consts]: "GEN6_RC6_WAKE_RATE_LIMIT = 0x0000A09C"

definition GEN6_RC_EVALUATION_INTERVAL :: u32 where
  [hw_consts]: "GEN6_RC_EVALUATION_INTERVAL = 0x0000A0A8"

definition GEN6_RC_IDLE_HYSTERESIS :: u32 where
  [hw_consts]: "GEN6_RC_IDLE_HYSTERESIS = 0x0000A0AC"

definition GEN6_RC_SLEEP :: u32 where
  [hw_consts]: "GEN6_RC_SLEEP = 0x0000A0B0"

definition GEN6_RC1e_THRESHOLD :: u32 where
  [hw_consts]: "GEN6_RC1e_THRESHOLD = 0x0000A0B4"

definition GEN6_RC6_THRESHOLD :: u32 where
  [hw_consts]: "GEN6_RC6_THRESHOLD = 0x0000A0B8"

definition GEN6_RC_VIDEO_FREQ :: u32 where
  [hw_consts]: "GEN6_RC_VIDEO_FREQ = 0x0000A00C"

definition GEN6_PMIER :: u32 where
  [hw_consts]: "GEN6_PMIER = 0x0004402C"

definition GEN6_PMIMR :: u32 where
  [hw_consts]: "GEN6_PMIMR = 0x00044024"

definition GEN6_PMINTRMSK :: u32 where
  [hw_consts]: "GEN6_PMINTRMSK = 0x0000A168"

definition power_management_regs :: "u32 list" where
  "power_management_regs = [
    GEN6_RP_CONTROL, GEN6_RPNSWREQ, GEN6_RP_DOWN_TIMEOUT, GEN6_RP_INTERRUPT_LIMITS,
    GEN6_RP_UP_THRESHOLD, GEN6_RP_UP_EI, GEN6_RP_DOWN_EI, GEN6_RP_IDLE_HYSTERESIS,
    GEN6_RC_STATE, GEN6_RC_CONTROL, GEN6_RC1_WAKE_RATE_LIMIT, GEN6_RC6_WAKE_RATE_LIMIT,
    GEN6_RC_EVALUATION_INTERVAL, GEN6_RC_IDLE_HYSTERESIS, GEN6_RC_SLEEP,
    GEN6_RC1e_THRESHOLD, GEN6_RC6_THRESHOLD, GEN6_RC_VIDEO_FREQ, GEN6_PMIER, GEN6_PMIMR,
    GEN6_PMINTRMSK]"

subsection \<open>Power Well Control Registers\<close>

definition HSW_PWR_WELL_CTL1 :: u32 where
  [hw_consts]: "HSW_PWR_WELL_CTL1 = 0x00045400"

definition HSW_PWR_WELL_CTL2 :: u32 where
  [hw_consts]: "HSW_PWR_WELL_CTL2 = 0x00045404"

definition HSW_PWR_WELL_CTL3 :: u32 where
  [hw_consts]: "HSW_PWR_WELL_CTL3 = 0x00045408"

definition HSW_PWR_WELL_CTL4 :: u32 where
  [hw_consts]: "HSW_PWR_WELL_CTL4 = 0x0004540C"

definition HSW_PWR_WELL_CTL5 :: u32 where
  [hw_consts]: "HSW_PWR_WELL_CTL5 = 0x00045410"

definition HSW_PWR_WELL_CTL6 :: u32 where
  [hw_consts]: "HSW_PWR_WELL_CTL6 = 0x00045414"

definition power_well_regs :: "u32 list" where
  "power_well_regs = [
    HSW_PWR_WELL_CTL1, HSW_PWR_WELL_CTL2, HSW_PWR_WELL_CTL3, HSW_PWR_WELL_CTL4,
    HSW_PWR_WELL_CTL5, HSW_PWR_WELL_CTL6]"

subsection \<open>Fence Registers\<close>

definition FENCE_REG_BASE :: u32 where
  [hw_consts]: "FENCE_REG_BASE = 0x00100000"

definition FENCE_REG_COUNT :: u32 where
  [hw_consts]: "FENCE_REG_COUNT = 32"

definition FENCE_START :: "u32 \<Rightarrow> u32" where
  "FENCE_START n = FENCE_REG_BASE + n * 8"

definition FENCE_END :: "u32 \<Rightarrow> u32" where
  "FENCE_END n = FENCE_REG_BASE + n * 8 + 4"

subsection \<open>Display Pipeline Registers - DDI/Transcoder\<close>

definition PIPE_DDI_FUNC_CTL_A :: u32 where
  [hw_consts]: "PIPE_DDI_FUNC_CTL_A = 0x00060400"

definition PIPE_DDI_FUNC_CTL_B :: u32 where
  [hw_consts]: "PIPE_DDI_FUNC_CTL_B = 0x00061400"

definition PIPE_DDI_FUNC_CTL_C :: u32 where
  [hw_consts]: "PIPE_DDI_FUNC_CTL_C = 0x00062400"

definition PIPE_DDI_FUNC_CTL_EDP :: u32 where
  [hw_consts]: "PIPE_DDI_FUNC_CTL_EDP = 0x0006F400"

definition DDI_BUF_CTL_A :: u32 where
  [hw_consts]: "DDI_BUF_CTL_A = 0x00064000"

definition DDI_BUF_CTL_B :: u32 where
  [hw_consts]: "DDI_BUF_CTL_B = 0x00064100"

definition DDI_BUF_CTL_C :: u32 where
  [hw_consts]: "DDI_BUF_CTL_C = 0x00064200"

definition DDI_BUF_CTL_D :: u32 where
  [hw_consts]: "DDI_BUF_CTL_D = 0x00064300"

definition DDI_BUF_CTL_E :: u32 where
  [hw_consts]: "DDI_BUF_CTL_E = 0x00064400"

definition DP_TP_CTL_A :: u32 where
  [hw_consts]: "DP_TP_CTL_A = 0x00064040"

definition DP_TP_CTL_B :: u32 where
  [hw_consts]: "DP_TP_CTL_B = 0x00064140"

definition DP_TP_CTL_C :: u32 where
  [hw_consts]: "DP_TP_CTL_C = 0x00064240"

definition DP_TP_CTL_D :: u32 where
  [hw_consts]: "DP_TP_CTL_D = 0x00064340"

definition DP_TP_CTL_E :: u32 where
  [hw_consts]: "DP_TP_CTL_E = 0x00064440"

definition DP_TP_STATUS_B :: u32 where
  [hw_consts]: "DP_TP_STATUS_B = 0x00064144"

definition DP_TP_STATUS_C :: u32 where
  [hw_consts]: "DP_TP_STATUS_C = 0x00064244"

definition DP_TP_STATUS_D :: u32 where
  [hw_consts]: "DP_TP_STATUS_D = 0x00064344"

definition DP_TP_STATUS_E :: u32 where
  [hw_consts]: "DP_TP_STATUS_E = 0x00064444"

definition ddi_regs :: "u32 list" where
  "ddi_regs = [
    PIPE_DDI_FUNC_CTL_A, PIPE_DDI_FUNC_CTL_B, PIPE_DDI_FUNC_CTL_C, PIPE_DDI_FUNC_CTL_EDP,
    DDI_BUF_CTL_A, DDI_BUF_CTL_B, DDI_BUF_CTL_C, DDI_BUF_CTL_D, DDI_BUF_CTL_E, DP_TP_CTL_A,
    DP_TP_CTL_B, DP_TP_CTL_C, DP_TP_CTL_D, DP_TP_CTL_E, DP_TP_STATUS_B, DP_TP_STATUS_C,
    DP_TP_STATUS_D, DP_TP_STATUS_E]"

subsection \<open>Display Timing Registers - Pipe A\<close>

definition HTOTAL_A :: u32 where
  [hw_consts]: "HTOTAL_A = 0x00060000"

definition HBLANK_A :: u32 where
  [hw_consts]: "HBLANK_A = 0x00060004"

definition HSYNC_A :: u32 where
  [hw_consts]: "HSYNC_A = 0x00060008"

definition VTOTAL_A :: u32 where
  [hw_consts]: "VTOTAL_A = 0x0006000C"

definition VBLANK_A :: u32 where
  [hw_consts]: "VBLANK_A = 0x00060010"

definition VSYNC_A :: u32 where
  [hw_consts]: "VSYNC_A = 0x00060014"

definition VSYNCSHIFT_A :: u32 where
  [hw_consts]: "VSYNCSHIFT_A = 0x00060028"

definition PIPEA_DATA_M1 :: u32 where
  [hw_consts]: "PIPEA_DATA_M1 = 0x00060030"

definition PIPEA_DATA_N1 :: u32 where
  [hw_consts]: "PIPEA_DATA_N1 = 0x00060034"

definition PIPEA_LINK_M1 :: u32 where
  [hw_consts]: "PIPEA_LINK_M1 = 0x00060040"

definition PIPEA_LINK_N1 :: u32 where
  [hw_consts]: "PIPEA_LINK_N1 = 0x00060044"

definition timing_a_regs :: "u32 list" where
  "timing_a_regs = [
    HTOTAL_A, HBLANK_A, HSYNC_A, VTOTAL_A, VBLANK_A, VSYNC_A, VSYNCSHIFT_A, PIPEA_DATA_M1,
    PIPEA_DATA_N1, PIPEA_LINK_M1, PIPEA_LINK_N1]"

subsection \<open>Display Timing Registers - Pipe B\<close>

definition HTOTAL_B :: u32 where
  [hw_consts]: "HTOTAL_B = 0x00061000"

definition HBLANK_B :: u32 where
  [hw_consts]: "HBLANK_B = 0x00061004"

definition HSYNC_B :: u32 where
  [hw_consts]: "HSYNC_B = 0x00061008"

definition VTOTAL_B :: u32 where
  [hw_consts]: "VTOTAL_B = 0x0006100C"

definition VBLANK_B :: u32 where
  [hw_consts]: "VBLANK_B = 0x00061010"

definition VSYNC_B :: u32 where
  [hw_consts]: "VSYNC_B = 0x00061014"

definition VSYNCSHIFT_B :: u32 where
  [hw_consts]: "VSYNCSHIFT_B = 0x00061028"

definition PIPEB_DATA_M1 :: u32 where
  [hw_consts]: "PIPEB_DATA_M1 = 0x00061030"

definition PIPEB_DATA_N1 :: u32 where
  [hw_consts]: "PIPEB_DATA_N1 = 0x00061034"

definition PIPEB_LINK_M1 :: u32 where
  [hw_consts]: "PIPEB_LINK_M1 = 0x00061040"

definition PIPEB_LINK_N1 :: u32 where
  [hw_consts]: "PIPEB_LINK_N1 = 0x00061044"

definition timing_b_regs :: "u32 list" where
  "timing_b_regs = [
    HTOTAL_B, HBLANK_B, HSYNC_B, VTOTAL_B, VBLANK_B, VSYNC_B, VSYNCSHIFT_B, PIPEB_DATA_M1,
    PIPEB_DATA_N1, PIPEB_LINK_M1, PIPEB_LINK_N1]"

subsection \<open>Display Timing Registers - Pipe C\<close>

definition HTOTAL_C :: u32 where
  [hw_consts]: "HTOTAL_C = 0x00062000"

definition HBLANK_C :: u32 where
  [hw_consts]: "HBLANK_C = 0x00062004"

definition HSYNC_C :: u32 where
  [hw_consts]: "HSYNC_C = 0x00062008"

definition VTOTAL_C :: u32 where
  [hw_consts]: "VTOTAL_C = 0x0006200C"

definition VBLANK_C :: u32 where
  [hw_consts]: "VBLANK_C = 0x00062010"

definition VSYNC_C :: u32 where
  [hw_consts]: "VSYNC_C = 0x00062014"

definition VSYNCSHIFT_C :: u32 where
  [hw_consts]: "VSYNCSHIFT_C = 0x00062028"

definition PIPEC_DATA_M1 :: u32 where
  [hw_consts]: "PIPEC_DATA_M1 = 0x00062030"

definition PIPEC_DATA_N1 :: u32 where
  [hw_consts]: "PIPEC_DATA_N1 = 0x00062034"

definition PIPEC_LINK_M1 :: u32 where
  [hw_consts]: "PIPEC_LINK_M1 = 0x00062040"

definition PIPEC_LINK_N1 :: u32 where
  [hw_consts]: "PIPEC_LINK_N1 = 0x00062044"

definition timing_c_regs :: "u32 list" where
  "timing_c_regs = [
    HTOTAL_C, HBLANK_C, HSYNC_C, VTOTAL_C, VBLANK_C, VSYNC_C, VSYNCSHIFT_C, PIPEC_DATA_M1,
    PIPEC_DATA_N1, PIPEC_LINK_M1, PIPEC_LINK_N1]"

subsection \<open>Display Timing Registers - EDP Pipe\<close>

definition HTOTAL_EDP :: u32 where
  [hw_consts]: "HTOTAL_EDP = 0x0006F000"

definition HBLANK_EDP :: u32 where
  [hw_consts]: "HBLANK_EDP = 0x0006F004"

definition HSYNC_EDP :: u32 where
  [hw_consts]: "HSYNC_EDP = 0x0006F008"

definition VTOTAL_EDP :: u32 where
  [hw_consts]: "VTOTAL_EDP = 0x0006F00C"

definition VBLANK_EDP :: u32 where
  [hw_consts]: "VBLANK_EDP = 0x0006F010"

definition VSYNC_EDP :: u32 where
  [hw_consts]: "VSYNC_EDP = 0x0006F014"

definition VSYNCSHIFT_EDP :: u32 where
  [hw_consts]: "VSYNCSHIFT_EDP = 0x0006F028"

definition PIPEEDP_DATA_M1 :: u32 where
  [hw_consts]: "PIPEEDP_DATA_M1 = 0x0006F030"

definition PIPEEDP_DATA_N1 :: u32 where
  [hw_consts]: "PIPEEDP_DATA_N1 = 0x0006F034"

definition PIPEEDP_LINK_M1 :: u32 where
  [hw_consts]: "PIPEEDP_LINK_M1 = 0x0006F040"

definition PIPEEDP_LINK_N1 :: u32 where
  [hw_consts]: "PIPEEDP_LINK_N1 = 0x0006F044"

definition timing_edp_regs :: "u32 list" where
  "timing_edp_regs = [
    HTOTAL_EDP, HBLANK_EDP, HSYNC_EDP, VTOTAL_EDP, VBLANK_EDP, VSYNC_EDP, VSYNCSHIFT_EDP,
    PIPEEDP_DATA_M1, PIPEEDP_DATA_N1, PIPEEDP_LINK_M1, PIPEEDP_LINK_N1]"

subsection \<open>Pipe/Plane Source Size Registers\<close>

definition PIPEASRC :: u32 where
  [hw_consts]: "PIPEASRC = 0x0006001C"

definition PIPEBSRC :: u32 where
  [hw_consts]: "PIPEBSRC = 0x0006101C"

definition PIPECSRC :: u32 where
  [hw_consts]: "PIPECSRC = 0x0006201C"

definition pipe_src_regs :: "u32 list" where
  "pipe_src_regs = [
    PIPEASRC, PIPEBSRC, PIPECSRC]"

subsection \<open>Pipe Configuration Registers\<close>

definition PIPEACONF :: u32 where
  [hw_consts]: "PIPEACONF = 0x00070008"

definition PIPEBCONF :: u32 where
  [hw_consts]: "PIPEBCONF = 0x00071008"

definition PIPECCONF :: u32 where
  [hw_consts]: "PIPECCONF = 0x00072008"

definition PIPEEDPCONF :: u32 where
  [hw_consts]: "PIPEEDPCONF = 0x0007F008"

definition pipe_conf_regs :: "u32 list" where
  "pipe_conf_regs = [
    PIPEACONF, PIPEBCONF, PIPECCONF, PIPEEDPCONF]"

subsection \<open>Display Plane Control Registers\<close>

definition DSPACNTR :: u32 where
  [hw_consts]: "DSPACNTR = 0x00070180"

definition DSPASTRIDE :: u32 where
  [hw_consts]: "DSPASTRIDE = 0x00070188"

definition DSPASURF :: u32 where
  [hw_consts]: "DSPASURF = 0x0007019C"

definition DSPATILEOFF :: u32 where
  [hw_consts]: "DSPATILEOFF = 0x000701A4"

definition DSPBCNTR :: u32 where
  [hw_consts]: "DSPBCNTR = 0x00071180"

definition DSPBSTRIDE :: u32 where
  [hw_consts]: "DSPBSTRIDE = 0x00071188"

definition DSPBSURF :: u32 where
  [hw_consts]: "DSPBSURF = 0x0007119C"

definition DSPBTILEOFF :: u32 where
  [hw_consts]: "DSPBTILEOFF = 0x000711A4"

definition DSPCCNTR :: u32 where
  [hw_consts]: "DSPCCNTR = 0x00072180"

definition DSPCSTRIDE :: u32 where
  [hw_consts]: "DSPCSTRIDE = 0x00072188"

definition DSPCSURF :: u32 where
  [hw_consts]: "DSPCSURF = 0x0007219C"

definition DSPCTILEOFF :: u32 where
  [hw_consts]: "DSPCTILEOFF = 0x000721A4"

definition plane_regs :: "u32 list" where
  "plane_regs = [
    DSPACNTR, DSPASTRIDE, DSPASURF, DSPATILEOFF, DSPBCNTR, DSPBSTRIDE, DSPBSURF,
    DSPBTILEOFF, DSPCCNTR, DSPCSTRIDE, DSPCSURF, DSPCTILEOFF]"

subsection \<open>Panel Fitter Registers\<close>

definition PFA_CTL_1 :: u32 where
  [hw_consts]: "PFA_CTL_1 = 0x00068080"

definition PFA_WIN_POS :: u32 where
  [hw_consts]: "PFA_WIN_POS = 0x00068070"

definition PFA_WIN_SIZE :: u32 where
  [hw_consts]: "PFA_WIN_SIZE = 0x00068074"

definition PFB_CTL_1 :: u32 where
  [hw_consts]: "PFB_CTL_1 = 0x00068880"

definition PFB_WIN_POS :: u32 where
  [hw_consts]: "PFB_WIN_POS = 0x00068870"

definition PFB_WIN_SIZE :: u32 where
  [hw_consts]: "PFB_WIN_SIZE = 0x00068874"

definition PFC_CTL_1 :: u32 where
  [hw_consts]: "PFC_CTL_1 = 0x00069080"

definition PFC_WIN_POS :: u32 where
  [hw_consts]: "PFC_WIN_POS = 0x00069070"

definition PFC_WIN_SIZE :: u32 where
  [hw_consts]: "PFC_WIN_SIZE = 0x00069074"

definition panel_fitter_regs :: "u32 list" where
  "panel_fitter_regs = [
    PFA_CTL_1, PFA_WIN_POS, PFA_WIN_SIZE, PFB_CTL_1, PFB_WIN_POS, PFB_WIN_SIZE, PFC_CTL_1,
    PFC_WIN_POS, PFC_WIN_SIZE]"

subsection \<open>Transcoder Registers\<close>

definition TRANS_HTOTAL_A :: u32 where
  [hw_consts]: "TRANS_HTOTAL_A = 0x000E0000"

definition TRANS_HBLANK_A :: u32 where
  [hw_consts]: "TRANS_HBLANK_A = 0x000E0004"

definition TRANS_HSYNC_A :: u32 where
  [hw_consts]: "TRANS_HSYNC_A = 0x000E0008"

definition TRANS_VTOTAL_A :: u32 where
  [hw_consts]: "TRANS_VTOTAL_A = 0x000E000C"

definition TRANS_VBLANK_A :: u32 where
  [hw_consts]: "TRANS_VBLANK_A = 0x000E0010"

definition TRANS_VSYNC_A :: u32 where
  [hw_consts]: "TRANS_VSYNC_A = 0x000E0014"

definition TRANS_VSYNCSHIFT_A :: u32 where
  [hw_consts]: "TRANS_VSYNCSHIFT_A = 0x000E0028"

definition TRANSACONF :: u32 where
  [hw_consts]: "TRANSACONF = 0x000F0008"

definition FDI_RXA_MISC :: u32 where
  [hw_consts]: "FDI_RXA_MISC = 0x000F0010"

definition FDI_RXA_TUSIZE1 :: u32 where
  [hw_consts]: "FDI_RXA_TUSIZE1 = 0x000F0030"

definition FDI_RXA_IIR :: u32 where
  [hw_consts]: "FDI_RXA_IIR = 0x000F0014"

definition FDI_RXA_IMR :: u32 where
  [hw_consts]: "FDI_RXA_IMR = 0x000F0018"

definition transcoder_regs :: "u32 list" where
  "transcoder_regs = [
    TRANS_HTOTAL_A, TRANS_HBLANK_A, TRANS_HSYNC_A, TRANS_VTOTAL_A, TRANS_VBLANK_A,
    TRANS_VSYNC_A, TRANS_VSYNCSHIFT_A, TRANSACONF, FDI_RXA_MISC, FDI_RXA_TUSIZE1,
    FDI_RXA_IIR, FDI_RXA_IMR]"

subsection \<open>Clock Registers\<close>

definition SPLL_CTL :: u32 where
  [hw_consts]: "SPLL_CTL = 0x00046020"

definition LCPLL_CTL :: u32 where
  [hw_consts]: "LCPLL_CTL = 0x00130040"

definition WRPLL_CTL1 :: u32 where
  [hw_consts]: "WRPLL_CTL1 = 0x00046040"

definition WRPLL_CTL2 :: u32 where
  [hw_consts]: "WRPLL_CTL2 = 0x00046060"

definition PORT_CLK_SEL_A :: u32 where
  [hw_consts]: "PORT_CLK_SEL_A = 0x00046100"

definition PORT_CLK_SEL_B :: u32 where
  [hw_consts]: "PORT_CLK_SEL_B = 0x00046104"

definition PORT_CLK_SEL_C :: u32 where
  [hw_consts]: "PORT_CLK_SEL_C = 0x00046108"

definition PORT_CLK_SEL_D :: u32 where
  [hw_consts]: "PORT_CLK_SEL_D = 0x0004610C"

definition PORT_CLK_SEL_E :: u32 where
  [hw_consts]: "PORT_CLK_SEL_E = 0x00046110"

definition PIPE_CLK_SEL_A :: u32 where
  [hw_consts]: "PIPE_CLK_SEL_A = 0x00046140"

definition PIPE_CLK_SEL_B :: u32 where
  [hw_consts]: "PIPE_CLK_SEL_B = 0x00046144"

definition PIPE_CLK_SEL_C :: u32 where
  [hw_consts]: "PIPE_CLK_SEL_C = 0x00046148"

definition clock_regs :: "u32 list" where
  "clock_regs = [
    SPLL_CTL, LCPLL_CTL, WRPLL_CTL1, WRPLL_CTL2, PORT_CLK_SEL_A, PORT_CLK_SEL_B,
    PORT_CLK_SEL_C, PORT_CLK_SEL_D, PORT_CLK_SEL_E, PIPE_CLK_SEL_A, PIPE_CLK_SEL_B,
    PIPE_CLK_SEL_C]"

subsection \<open>Watermark Registers\<close>

definition WM_PIPE_A :: u32 where
  [hw_consts]: "WM_PIPE_A = 0x00045100"

definition WM_PIPE_B :: u32 where
  [hw_consts]: "WM_PIPE_B = 0x00045104"

definition WM_PIPE_C :: u32 where
  [hw_consts]: "WM_PIPE_C = 0x00045200"

definition WM_LP1 :: u32 where
  [hw_consts]: "WM_LP1 = 0x00045108"

definition WM_LP2 :: u32 where
  [hw_consts]: "WM_LP2 = 0x0004510C"

definition WM_LP3 :: u32 where
  [hw_consts]: "WM_LP3 = 0x00045110"

definition WM_LP1_SPR :: u32 where
  [hw_consts]: "WM_LP1_SPR = 0x00045120"

definition WM_LP2_SPR :: u32 where
  [hw_consts]: "WM_LP2_SPR = 0x00045124"

definition WM_LP3_SPR :: u32 where
  [hw_consts]: "WM_LP3_SPR = 0x00045128"

definition WM_MISC :: u32 where
  [hw_consts]: "WM_MISC = 0x00045260"

definition WM_SR_CNT :: u32 where
  [hw_consts]: "WM_SR_CNT = 0x00045264"

definition PIPE_WM_LINETIME_A :: u32 where
  [hw_consts]: "PIPE_WM_LINETIME_A = 0x00045270"

definition PIPE_WM_LINETIME_B :: u32 where
  [hw_consts]: "PIPE_WM_LINETIME_B = 0x00045274"

definition PIPE_WM_LINETIME_C :: u32 where
  [hw_consts]: "PIPE_WM_LINETIME_C = 0x00045278"

definition WM_DBG :: u32 where
  [hw_consts]: "WM_DBG = 0x00045280"

definition watermark_regs :: "u32 list" where
  "watermark_regs = [
    WM_PIPE_A, WM_PIPE_B, WM_PIPE_C, WM_LP1, WM_LP2, WM_LP3, WM_LP1_SPR, WM_LP2_SPR,
    WM_LP3_SPR, WM_MISC, WM_SR_CNT, PIPE_WM_LINETIME_A, PIPE_WM_LINETIME_B,
    PIPE_WM_LINETIME_C, WM_DBG]"

subsection \<open>Backlight / PWM Registers\<close>

definition BLC_PWM_CPU_CTL2 :: u32 where
  [hw_consts]: "BLC_PWM_CPU_CTL2 = 0x00048250"

definition BLC_PWM_CPU_CTL :: u32 where
  [hw_consts]: "BLC_PWM_CPU_CTL = 0x00048254"

definition BLC_PWM2_CPU_CTL2 :: u32 where
  [hw_consts]: "BLC_PWM2_CPU_CTL2 = 0x00048350"

definition BLC_PWM2_CPU_CTL :: u32 where
  [hw_consts]: "BLC_PWM2_CPU_CTL = 0x00048354"

definition BLC_MISC_CTL :: u32 where
  [hw_consts]: "BLC_MISC_CTL = 0x00048360"

definition BLC_PWM_PCH_CTL1 :: u32 where
  [hw_consts]: "BLC_PWM_PCH_CTL1 = 0x000C8250"

definition BLC_PWM_PCH_CTL2 :: u32 where
  [hw_consts]: "BLC_PWM_PCH_CTL2 = 0x000C8254"

definition UTIL_PIN_CTL :: u32 where
  [hw_consts]: "UTIL_PIN_CTL = 0x00048400"

definition backlight_regs :: "u32 list" where
  "backlight_regs = [
    BLC_PWM_CPU_CTL2, BLC_PWM_CPU_CTL, BLC_PWM2_CPU_CTL2, BLC_PWM2_CPU_CTL, BLC_MISC_CTL,
    BLC_PWM_PCH_CTL1, BLC_PWM_PCH_CTL2, UTIL_PIN_CTL]"

subsection \<open>Panel Power Registers\<close>

definition PCH_PP_STATUS :: u32 where
  [hw_consts]: "PCH_PP_STATUS = 0x000C7200"

definition PCH_PP_CONTROL :: u32 where
  [hw_consts]: "PCH_PP_CONTROL = 0x000C7204"

definition PCH_PP_ON_DELAYS :: u32 where
  [hw_consts]: "PCH_PP_ON_DELAYS = 0x000C7208"

definition PCH_PP_OFF_DELAYS :: u32 where
  [hw_consts]: "PCH_PP_OFF_DELAYS = 0x000C720C"

definition PCH_PP_DIVISOR :: u32 where
  [hw_consts]: "PCH_PP_DIVISOR = 0x000C7210"

definition panel_power_regs :: "u32 list" where
  "panel_power_regs = [
    PCH_PP_STATUS, PCH_PP_CONTROL, PCH_PP_ON_DELAYS, PCH_PP_OFF_DELAYS, PCH_PP_DIVISOR]"

subsection \<open>Other Display Registers\<close>

definition SFUSE_STRAP :: u32 where
  [hw_consts]: "SFUSE_STRAP = 0x000C2014"

definition PIXCLK_GATE :: u32 where
  [hw_consts]: "PIXCLK_GATE = 0x000C6020"

definition SDEISR :: u32 where
  [hw_consts]: "SDEISR = 0x000C4000"

definition other_display_regs :: "u32 list" where
  "other_display_regs = [
    SFUSE_STRAP, PIXCLK_GATE, SDEISR]"

subsection \<open>RC6 Residency\<close>

definition RC6_RESIDENCY_TIME :: u32 where
  [hw_consts]: "RC6_RESIDENCY_TIME = 0x00138108"

definition rc6_regs :: "u32 list" where
  "rc6_regs = [
    RC6_RESIDENCY_TIME]"

subsection \<open>Working Display Mode from Raptor Lake dump: 2560x1600@60Hz\<close>

record display_mode =
  ACTIVE_WIDTH :: u32
  ACTIVE_HEIGHT :: u32
  HTOTAL :: u32
  VTOTAL :: u32
  HSYNC_START :: u32
  HSYNC_END :: u32
  VSYNC_START :: u32
  VSYNC_END :: u32
  PIXEL_CLOCK_KHZ :: u32

definition RaptorLakeMode :: display_mode where
  "RaptorLakeMode = \<lparr>ACTIVE_WIDTH = 2560, ACTIVE_HEIGHT = 1600, HTOTAL = 2720, VTOTAL = 1760,
     HSYNC_START = 2608, HSYNC_END = 2640, VSYNC_START = 1603, VSYNC_END = 1609, PIXEL_CLOCK_KHZ = 287232\<rparr>"

subsection \<open>The whole register map\<close>

definition all_regs :: "u32 list" where
  "all_regs = concat [
    device_id_regs, engine_regs, forcewake_regs, power_management_regs, power_well_regs,
    ddi_regs, timing_a_regs, timing_b_regs, timing_c_regs, timing_edp_regs,
    pipe_src_regs, pipe_conf_regs, plane_regs, panel_fitter_regs, transcoder_regs,
    clock_regs, watermark_regs, backlight_regs, panel_power_regs, other_display_regs,
    rc6_regs]"

lemmas reg_lists =
  device_id_regs_def engine_regs_def forcewake_regs_def power_management_regs_def
  power_well_regs_def ddi_regs_def timing_a_regs_def timing_b_regs_def timing_c_regs_def
  timing_edp_regs_def pipe_src_regs_def pipe_conf_regs_def plane_regs_def
  panel_fitter_regs_def transcoder_regs_def clock_regs_def watermark_regs_def
  backlight_regs_def panel_power_regs_def other_display_regs_def rc6_regs_def

section \<open>Shape of the register map\<close>

text \<open>The byte window that covers every register the header names, fences included.\<close>

definition reg_window :: nat where
  "reg_window = 0x140000"

definition dword_aligned :: "u32 \<Rightarrow> bool" where
  "dword_aligned off \<longleftrightarrow> off AND 3 = 0"

definition reg_ok :: "u32 \<Rightarrow> bool" where
  "reg_ok off \<longleftrightarrow> dword_aligned off \<and> unat off + 4 \<le> reg_window"

lemma all_regs_ok: "list_all reg_ok all_regs"
  by (simp add: all_regs_def reg_lists hw_consts reg_ok_def dword_aligned_def reg_window_def)

lemma all_regs_distinct: "distinct all_regs"
proof -
  have "distinct (map unat all_regs)"
    by (simp add: all_regs_def reg_lists hw_consts)
  then show ?thesis by (simp add: distinct_map)
qed

lemma reg_okD:
  assumes "reg_ok off"
  shows "4 * unat (drop_bit 2 off) = unat off" and "unat off < 0x1000000" and "off \<le> 0xFFFFFF"
proof -
  from assms have "4 dvd unat off"
    by (simp add: reg_ok_def dword_aligned_def and_3_iff)
  then show "4 * unat (drop_bit 2 off) = unat off"
    by (simp add: drop_bit_word_unat)
  from assms show lt: "unat off < 0x1000000"
    by (simp add: reg_ok_def reg_window_def)
  then show "off \<le> 0xFFFFFF"
    by (simp add: word_le_nat_alt)
qed

subsection \<open>Fence registers\<close>

lemma fence_unat:
  assumes "n < FENCE_REG_COUNT"
  shows "unat (FENCE_START n) = 0x100000 + 8 * unat n"
    and "unat (FENCE_END n) = 0x100004 + 8 * unat n"
proof -
  from assms have n: "unat n < 32"
    by (simp add: FENCE_REG_COUNT_def word_less_nat_alt)
  have m: "unat (n * 8) = 8 * unat n"
    using n by (simp add: unat_word_ariths)
  show "unat (FENCE_START n) = 0x100000 + 8 * unat n"
    using n by (simp add: FENCE_START_def FENCE_REG_BASE_def unat_word_ariths m)
  show "unat (FENCE_END n) = 0x100004 + 8 * unat n"
    using n by (simp add: FENCE_END_def FENCE_REG_BASE_def unat_word_ariths m)
qed

lemma fence_reg_ok:
  assumes "n < FENCE_REG_COUNT"
  shows "reg_ok (FENCE_START n)" and "reg_ok (FENCE_END n)"
proof -
  from assms have n: "unat n < 32"
    by (simp add: FENCE_REG_COUNT_def word_less_nat_alt)
  have "4 dvd 0x100000 + 8 * unat n" "4 dvd 0x100004 + 8 * unat n"
    by presburger+
  then show "reg_ok (FENCE_START n)" "reg_ok (FENCE_END n)"
    using n by (simp_all add: reg_ok_def dword_aligned_def and_3_iff fence_unat [OF assms] reg_window_def)
qed

lemma no_reg_in_fence_block:
  "list_all (\<lambda>off. unat off < 0x100000 \<or> 0x100100 \<le> unat off) all_regs"
  by (simp add: all_regs_def reg_lists hw_consts)

text \<open>
  Every register offset of the header is dword aligned and lies in the first 0x140000
  bytes of BAR0, no two constants share an offset, and the 32 fence pairs occupy
  consecutive dwords that collide neither with one another nor with a named register.
\<close>

theorem register_map_sound:
  "list_all reg_ok all_regs \<and> distinct all_regs \<and>
   (\<forall>n < FENCE_REG_COUNT.
      reg_ok (FENCE_START n) \<and> reg_ok (FENCE_END n) \<and>
      unat (FENCE_END n) = unat (FENCE_START n) + 4 \<and>
      FENCE_START n \<notin> set all_regs \<and> FENCE_END n \<notin> set all_regs \<and>
      (\<forall>k < FENCE_REG_COUNT. FENCE_START n = FENCE_START k \<longrightarrow> n = k) \<and>
      (\<forall>k < FENCE_REG_COUNT. FENCE_START n \<noteq> FENCE_END k))"
proof (intro conjI allI impI all_regs_ok all_regs_distinct)
  fix n assume n: "n < FENCE_REG_COUNT"
  then have n32: "unat n < 32"
    by (simp add: FENCE_REG_COUNT_def word_less_nat_alt)
  show "reg_ok (FENCE_START n)" "reg_ok (FENCE_END n)"
    using n by (rule fence_reg_ok)+
  show "unat (FENCE_END n) = unat (FENCE_START n) + 4"
    using n by (simp add: fence_unat)
  show "FENCE_START n \<notin> set all_regs" "FENCE_END n \<notin> set all_regs"
    using no_reg_in_fence_block n32 fence_unat [OF n] by (force simp: list_all_iff)+
  fix k assume k: "k < FENCE_REG_COUNT"
  show "n = k" if "FENCE_START n = FENCE_START k"
    using that fence_unat(1) [OF n] fence_unat(1) [OF k] by (simp add: word_unat_eq_iff)
  show "FENCE_START n \<noteq> FENCE_END k"
  proof
    assume "FENCE_START n = FENCE_END k"
    then have "0x100000 + 8 * unat n = 0x100004 + 8 * unat k"
      using fence_unat [OF n] fence_unat [OF k] by simp
    then show False by presburger
  qed
qed

theorem register_map_sound_witness:
  "(31 :: u32) < FENCE_REG_COUNT \<and> FENCE_END 31 \<notin> set all_regs \<and> unat (FENCE_END 31) = 0x1000FC"
proof -
  have lt: "(31 :: u32) < FENCE_REG_COUNT" by (simp add: FENCE_REG_COUNT_def)
  moreover have "FENCE_END 31 \<notin> set all_regs"
    using register_map_sound lt by blast
  moreover have "unat (FENCE_END 31) = 0x1000FC"
    by (simp add: FENCE_END_def FENCE_REG_BASE_def)
  ultimately show ?thesis by blast
qed

end
