(* ===== verification/KernelModel.thy ===== *)
theory KernelModel
  imports ReturnCodes HwOffsets
begin

text \<open>
  The machine the kext runs on, as far as its sources see it. The driver's own state is
  the global boot flags and the \<open>XeService\<close> object. Everything it does to the outside
  (MMIO accesses, PCI configuration, object creation and release, log lines) is appended
  to a trace of events; everything it asks of the outside (register values, allocation
  results, results of superclass methods) is answered by a \<open>kernel_env\<close>, a parameter of
  the model whose answers may depend on the whole history. \<open>safe\<close> is the judgement the
  component theories use: starting from states that satisfy an invariant, a computation
  keeps the invariant and emits only events of a given kind.
\<close>

section \<open>Driver state\<close>

text \<open>\<^verbatim>\<open>struct XeBootFlags\<close> of \<^verbatim>\<open>XeBootArgs.hpp\<close>; all flags start false.\<close>

record XeBootFlags =
  verbose :: bool
  disableForcewake :: bool
  disableCommandStream :: bool
  strictSafe :: bool

definition XeBootFlags_init :: XeBootFlags where
  "XeBootFlags_init = \<lparr>verbose = False, disableForcewake = False,
     disableCommandStream = False, strictSafe = False\<rparr>"

text \<open>
  Reference-counted kernel objects are named by the moment of their creation (the length
  of the trace then), so no two objects share a name.
\<close>

type_synonym obj = nat

text \<open>
  An \<^verbatim>\<open>IOBufferMemoryDescriptor\<close> as the driver sees it: its name, what
  \<^verbatim>\<open>getBytesNoCopy()\<close> answers (0 is null) and what \<^verbatim>\<open>getLength()\<close> answers.
\<close>

record BufferMD =
  md_obj :: obj
  md_addr :: u64
  md_len :: u64

text \<open>
  The private fields of \<^verbatim>\<open>class XeService\<close>. \<open>pci\<close> records whether the pointer is set,
  \<open>bar0\<close> holds the mapping object, \<open>mmio\<close> is the virtual address (0 is the null
  pointer), \<open>m_boList\<close> holds the array object and its elements.
\<close>

record XeService =
  pci :: bool
  bar0 :: "obj option"
  mmio :: u64
  bar0Length :: u64
  m_boList :: "(obj \<times> BufferMD list) option"

definition XeService_new :: XeService where
  "XeService_new = \<lparr>pci = False, bar0 = None, mmio = 0, bar0Length = 0, m_boList = None\<rparr>"

section \<open>Events\<close>

text \<open>
  A log line is identified by the file and line of the call and the arguments given to the
  format string found there.
\<close>

datatype src_file =
  ForcewakeGuard_hpp | XeBootArgs_cpp | XeCommandStream_cpp | XeGGTT_hpp | XeService_cpp |
  XeUserClient_cpp

datatype log_arg = LU32 u32 | LU64 u64 | LInt int | LBool bool | LStr string

datatype event =
    Log src_file nat "log_arg list"
  | MmioRd u64 u32 u32 \<comment> \<open>base pointer, dword index, value read\<close>
  | MmioWr u64 u32 u32 \<comment> \<open>base pointer, dword index, value written\<close>
  | SyncIO \<comment> \<open>\<^verbatim>\<open>OSSynchronizeIO\<close>\<close>
  | Delay u32 \<comment> \<open>\<^verbatim>\<open>IODelay\<close>, microseconds\<close>
  | PciMemoryEnable bool
  | PciIOEnable bool
  | PciBusMasterEnable bool
  | MapBar obj u64 u64 \<comment> \<open>a mapping created: its name, virtual address and length\<close>
  | New obj \<comment> \<open>an object created with one reference owned by the caller\<close>
  | ArrayAdd obj obj \<comment> \<open>array, element: a successful \<^verbatim>\<open>OSArray::setObject\<close>\<close>
  | Release obj \<comment> \<open>a \<^verbatim>\<open>release()\<close> call made by the driver\<close>
  | ReleaseArray obj "obj list" \<comment> \<open>\<^verbatim>\<open>release()\<close> of an array holding these elements\<close>
  | BufWr obj nat u32 \<comment> \<open>store to a dword of a memory descriptor's buffer\<close>
  | RegisterService
  | SuperStop
  | SuperFree
  | Attach obj \<comment> \<open>user client attached to the service\<close>
  | Detach obj
  | Terminate
  | HandOut obj \<comment> \<open>the driver's reference to an object passed to its caller\<close>
  | Fault \<comment> \<open>an access outside its object: undefined behaviour of the C++ program\<close>

record world =
  gXeBoot :: XeBootFlags
  svc :: XeService
  trace :: "event list"

type_synonym 'a io = "(world, 'a) state"

section \<open>The kernel and the device\<close>

text \<open>
  Answers of code that is not in the repository. \<open>gpu\<close> is the device: the value a read
  of a dword index returns after a history. The \<open>new_\<close> fields are allocation results,
  the \<open>super_\<close> fields are results of superclass methods, \<open>boot_arg\<close> is what
  \<^verbatim>\<open>PE_parse_boot_argn("xepci", buf, 128)\<close> leaves in \<open>buf\<close> (\<open>None\<close>: it returned
  false).
\<close>

record kernel_env =
  boot_arg :: "char list option"
  gpu :: "event list \<Rightarrow> u32 \<Rightarrow> u32"
  super_init :: "event list \<Rightarrow> bool"
  super_probe :: "event list \<Rightarrow> bool"
  super_start :: "event list \<Rightarrow> bool"
  is_IOPCIDevice :: bool
  configRead16 :: "event list \<Rightarrow> u8 \<Rightarrow> u16"
  configRead8 :: "event list \<Rightarrow> u8 \<Rightarrow> u8"
  map_bar0 :: "event list \<Rightarrow> (u64 \<times> u64) option" \<comment> \<open>virtual address and length\<close>
  new_array :: "event list \<Rightarrow> bool"
  setObject_ok :: "event list \<Rightarrow> bool"
  new_buffer :: "event list \<Rightarrow> u64 \<Rightarrow> (u64 \<times> u64) option" \<comment> \<open>\<^verbatim>\<open>getBytesNoCopy()\<close>, \<^verbatim>\<open>getLength()\<close>\<close>
  new_client :: "event list \<Rightarrow> bool"
  client_super_init :: "event list \<Rightarrow> bool"
  client_attach :: "event list \<Rightarrow> bool"
  client_super_start :: "event list \<Rightarrow> bool"

text \<open>
  A concrete environment and a fresh world, used to instantiate the parameter: every
  allocation and superclass call succeeds, BAR0 is 16 MiB as \<^verbatim>\<open>research/lspci.txt\<close>
  shows it, and every register reads zero.
\<close>

definition kernel_ok :: kernel_env where
  "kernel_ok = \<lparr>boot_arg = None, gpu = (\<lambda>_ _. 0), super_init = (\<lambda>_. True),
     super_probe = (\<lambda>_. True), super_start = (\<lambda>_. True), is_IOPCIDevice = True,
     configRead16 = (\<lambda>_ r. if r = 0 then 0x8086 else 0xA788), configRead8 = (\<lambda>_ _. 4),
     map_bar0 = (\<lambda>_. Some (0xFFFFFF8000000000, 0x1000000)), new_array = (\<lambda>_. True),
     setObject_ok = (\<lambda>_. True), new_buffer = (\<lambda>_ n. Some (0xFFFFFF9000000000, n)),
     new_client = (\<lambda>_. True), client_super_init = (\<lambda>_. True),
     client_attach = (\<lambda>_. True), client_super_start = (\<lambda>_. True)\<rparr>"

definition init_world :: world where
  "init_world = \<lparr>gXeBoot = XeBootFlags_init, svc = XeService_new, trace = []\<rparr>"

section \<open>Primitive effects\<close>

definition emit :: "event \<Rightarrow> unit io" where
  "emit e = modify (\<lambda>w. w\<lparr>trace := trace w @ [e]\<rparr>)"

text \<open>\<^verbatim>\<open>XeLog\<close> forwards its arguments to \<^verbatim>\<open>IOLogv\<close>.\<close>

definition XeLog :: "src_file \<Rightarrow> nat \<Rightarrow> log_arg list \<Rightarrow> unit io" where
  "XeLog f line args = emit (Log f line args)"

definition mmio_load :: "kernel_env \<Rightarrow> u64 \<Rightarrow> u32 \<Rightarrow> u32 io" where
  "mmio_load K base i = do {
     v \<leftarrow> gets (\<lambda>w. gpu K (trace w) i);
     emit (MmioRd base i v);
     ret v }"

definition mmio_store :: "u64 \<Rightarrow> u32 \<Rightarrow> u32 \<Rightarrow> unit io" where
  "mmio_store base i v = emit (MmioWr base i v)"

definition OSSynchronizeIO :: "unit io" where
  "OSSynchronizeIO = emit SyncIO"

definition IODelay :: "u32 \<Rightarrow> unit io" where
  "IODelay us = emit (Delay us)"

text \<open>Ask the environment a question about the current history.\<close>

definition ask :: "(event list \<Rightarrow> 'a) \<Rightarrow> 'a io" where
  "ask q = gets (\<lambda>w. q (trace w))"

text \<open>Create an object: its name is the current time.\<close>

definition create :: "obj io" where
  "create = do { n \<leftarrow> gets (\<lambda>w. length (trace w)); emit (New n); ret n }"

text \<open>Create the mapping object of BAR0.\<close>

definition create_map :: "u64 \<Rightarrow> u64 \<Rightarrow> obj io" where
  "create_map vaddr len = do { n \<leftarrow> gets (\<lambda>w. length (trace w)); emit (MapBar n vaddr len); ret n }"

definition set_svc :: "(XeService \<Rightarrow> XeService) \<Rightarrow> unit io" where
  "set_svc f = modify (\<lambda>w. w\<lparr>svc := f (svc w)\<rparr>)"

lemma run_emit [simp]: "run_state (emit e) w = ((), w\<lparr>trace := trace w @ [e]\<rparr>)"
  by (simp add: emit_def)

lemma run_XeLog [simp]: "run_state (XeLog f l a) w = ((), w\<lparr>trace := trace w @ [Log f l a]\<rparr>)"
  by (simp add: XeLog_def)

lemma run_mmio_load [simp]:
  "run_state (mmio_load K b i) w =
     (gpu K (trace w) i, w\<lparr>trace := trace w @ [MmioRd b i (gpu K (trace w) i)]\<rparr>)"
  by (simp add: mmio_load_def)

lemma run_mmio_store [simp]:
  "run_state (mmio_store b i v) w = ((), w\<lparr>trace := trace w @ [MmioWr b i v]\<rparr>)"
  by (simp add: mmio_store_def)

lemma run_sync [simp]: "run_state OSSynchronizeIO w = ((), w\<lparr>trace := trace w @ [SyncIO]\<rparr>)"
  by (simp add: OSSynchronizeIO_def)

lemma run_delay [simp]: "run_state (IODelay us) w = ((), w\<lparr>trace := trace w @ [Delay us]\<rparr>)"
  by (simp add: IODelay_def)

lemma run_ask [simp]: "run_state (ask q) w = (q (trace w), w)"
  by (simp add: ask_def)

lemma run_create [simp]:
  "run_state create w = (length (trace w), w\<lparr>trace := trace w @ [New (length (trace w))]\<rparr>)"
  by (simp add: create_def)

lemma run_create_map [simp]:
  "run_state (create_map v l) w = (length (trace w), w\<lparr>trace := trace w @ [MapBar (length (trace w)) v l]\<rparr>)"
  by (simp add: create_map_def)

lemma run_set_svc [simp]: "run_state (set_svc f) w = ((), w\<lparr>svc := f (svc w)\<rparr>)"
  by (simp add: set_svc_def)

section \<open>Event safety\<close>

text \<open>
  \<open>safe I P m\<close>: from a driver state that satisfies \<open>I\<close>, the computation \<open>m\<close> ends in one
  that satisfies \<open>I\<close>, and all it adds to the trace are events that satisfy \<open>P\<close>. The
  invariant speaks of the boot flags and the service object, never of the trace.
\<close>

definition safe :: "(XeBootFlags \<Rightarrow> XeService \<Rightarrow> bool) \<Rightarrow> (event \<Rightarrow> bool) \<Rightarrow> 'a io \<Rightarrow> bool" where
  "safe I P m \<longleftrightarrow> (\<forall>w a w'. I (gXeBoot w) (svc w) \<longrightarrow> run_state m w = (a, w') \<longrightarrow>
     I (gXeBoot w') (svc w') \<and> (\<exists>es. trace w' = trace w @ es \<and> list_all P es))"

lemma safeI:
  assumes "\<And>w a w'. I (gXeBoot w) (svc w) \<Longrightarrow> run_state m w = (a, w') \<Longrightarrow>
    I (gXeBoot w') (svc w') \<and> (\<exists>es. trace w' = trace w @ es \<and> list_all P es)"
  shows "safe I P m"
  using assms by (auto simp: safe_def)

lemma safeE:
  assumes "safe I P m" and "I (gXeBoot w) (svc w)" and "run_state m w = (a, w')"
  obtains es where "trace w' = trace w @ es" and "list_all P es" and "I (gXeBoot w') (svc w')"
  using assms unfolding safe_def by blast

lemma safe_return [safe_intros]: "safe I P (ret a)"
  by (rule safeI) auto

lemma safe_skip [safe_intros]: "safe I P skip"
  by (simp add: skip_def safe_return)

lemma safe_bind:
  assumes "safe I P m" and "\<And>a. safe I P (f a)"
  shows "safe I P (m \<bind> f)"
proof (rule safeI)
  fix w b w''
  assume I: "I (gXeBoot w) (svc w)" and r: "run_state (m \<bind> f) w = (b, w'')"
  obtain a w' where m: "run_state m w = (a, w')" by (rule prod.exhaust)
  with r have f: "run_state (f a) w' = (b, w'')" by simp
  from assms(1) I m obtain es where 1: "trace w' = trace w @ es" "list_all P es" "I (gXeBoot w') (svc w')"
    by (rule safeE)
  from assms(2) 1(3) f obtain es' where "trace w'' = trace w' @ es'" "list_all P es'" "I (gXeBoot w'') (svc w'')"
    by (rule safeE)
  with 1 show "I (gXeBoot w'') (svc w'') \<and> (\<exists>es. trace w'' = trace w @ es \<and> list_all P es)"
    by auto
qed

lemma safe_gets_bind:
  assumes "\<And>w. I (gXeBoot w) (svc w) \<Longrightarrow> safe I P (f (g w))"
  shows "safe I P (gets g \<bind> f)"
proof (rule safeI)
  fix w a w'
  assume I: "I (gXeBoot w) (svc w)" and "run_state (gets g \<bind> f) w = (a, w')"
  then have "run_state (f (g w)) w = (a, w')" by simp
  with assms [OF I] I obtain es where "trace w' = trace w @ es" "list_all P es" "I (gXeBoot w') (svc w')"
    by (rule safeE)
  then show "I (gXeBoot w') (svc w') \<and> (\<exists>es. trace w' = trace w @ es \<and> list_all P es)"
    by blast
qed

lemma safe_gets [safe_intros]: "safe I P (gets g)"
  by (rule safeI) auto

lemma safe_ask [safe_intros]: "safe I P (ask q)"
  by (simp add: ask_def safe_gets)

lemma safe_emit: "P e \<Longrightarrow> safe I P (emit e)"
  by (rule safeI) auto

lemma safe_XeLog: "P (Log f l a) \<Longrightarrow> safe I P (XeLog f l a)"
  by (simp add: XeLog_def safe_emit)

lemma safe_sync: "P SyncIO \<Longrightarrow> safe I P OSSynchronizeIO"
  by (simp add: OSSynchronizeIO_def safe_emit)

lemma safe_delay: "P (Delay us) \<Longrightarrow> safe I P (IODelay us)"
  by (simp add: IODelay_def safe_emit)

lemma safe_store: "P (MmioWr b i v) \<Longrightarrow> safe I P (mmio_store b i v)"
  by (simp add: mmio_store_def safe_emit)

lemma safe_load: "(\<And>v. P (MmioRd b i v)) \<Longrightarrow> safe I P (mmio_load K b i)"
  by (rule safeI) auto

lemma safe_create: "(\<And>n. P (New n)) \<Longrightarrow> safe I P create"
  by (rule safeI) auto

lemma safe_set_svc: "(\<And>B S. I B S \<Longrightarrow> I B (f S)) \<Longrightarrow> safe I P (set_svc f)"
  by (rule safeI) auto

lemma safe_if:
  "(b \<Longrightarrow> safe I P m) \<Longrightarrow> (\<not> b \<Longrightarrow> safe I P n) \<Longrightarrow> safe I P (if b then m else n)"
  by simp

lemma safe_option:
  "(x = None \<Longrightarrow> safe I P m) \<Longrightarrow> (\<And>y. x = Some y \<Longrightarrow> safe I P (f y)) \<Longrightarrow>
   safe I P (case x of None \<Rightarrow> m | Some y \<Rightarrow> f y)"
  by (cases x) auto

lemma safe_prod: "(\<And>a b. x = (a, b) \<Longrightarrow> safe I P (f a b)) \<Longrightarrow> safe I P (case x of (a, b) \<Rightarrow> f a b)"
  by (cases x) auto

lemma safe_traverse:
  "(\<And>x. x \<in> set xs \<Longrightarrow> safe I P (f x)) \<Longrightarrow> safe I P (State_Monad.traverse_list f xs)"
  by (induction xs) (auto intro!: safe_bind safe_return)

lemma safe_weaken:
  assumes "safe I P m" and "\<And>e. P e \<Longrightarrow> Q e"
  shows "safe I Q m"
proof (rule safeI)
  fix w a w'
  assume "I (gXeBoot w) (svc w)" "run_state m w = (a, w')"
  with assms(1) obtain es where "trace w' = trace w @ es" "list_all P es" "I (gXeBoot w') (svc w')"
    by (rule safeE)
  moreover have "list_all Q es"
    using \<open>list_all P es\<close> assms(2) by (simp add: list_all_iff)
  ultimately show "I (gXeBoot w') (svc w') \<and> (\<exists>es. trace w' = trace w @ es \<and> list_all Q es)"
    by blast
qed

lemmas safe_rules = safe_bind safe_if safe_option safe_prod safe_XeLog safe_sync safe_delay safe_intros

section \<open>Guarded register readers\<close>

text \<open>
  The kext has four copies of a guarded register read: \<^verbatim>\<open>ForcewakeGuard::rd\<close>,
  \<^verbatim>\<open>XeGGTT::safeRead\<close>, \<^verbatim>\<open>safeRd\<close> of \<^verbatim>\<open>XeCommandStream.cpp\<close> and
  \<^verbatim>\<open>XeService::readRegSafe\<close>. This is their common contract: a null base pointer and an
  offset beyond the limit are answered by the two sentinels without touching the device;
  any other offset costs exactly one device read, of the dword that contains it.
\<close>

abbreviation sentinel_null :: u32 where
  "sentinel_null \<equiv> 0xDEADBEEF"

abbreviation sentinel_range :: u32 where
  "sentinel_range \<equiv> 0xBAD0FFFF"

locale guarded_reader =
  fixes K :: kernel_env
    and rd :: "u32 \<Rightarrow> u32 io"
    and ptr :: "XeService \<Rightarrow> u64"
    and lim :: "XeService \<Rightarrow> nat"
  assumes rd_null: "ptr (svc w) = 0 \<Longrightarrow> run_state (rd off) w = (sentinel_null, w)"
    and rd_out: "ptr (svc w) \<noteq> 0 \<Longrightarrow> lim (svc w) \<le> unat off \<Longrightarrow>
      run_state (rd off) w = (sentinel_range, w)"
    and rd_in: "ptr (svc w) \<noteq> 0 \<Longrightarrow> unat off < lim (svc w) \<Longrightarrow>
      \<exists>post. set post \<subseteq> {SyncIO} \<and> run_state (rd off) w =
        (gpu K (trace w) (drop_bit 2 off),
         w\<lparr>trace := trace w @ MmioRd (ptr (svc w)) (drop_bit 2 off) (gpu K (trace w) (drop_bit 2 off)) # post\<rparr>)"
begin

lemma rd_safe:
  assumes "\<And>B S v. I B S \<Longrightarrow> ptr S \<noteq> 0 \<Longrightarrow> unat off < lim S \<Longrightarrow> P (MmioRd (ptr S) (drop_bit 2 off) v)"
    and "P SyncIO"
  shows "safe I P (rd off)"
proof (rule safeI)
  fix w a w'
  assume I: "I (gXeBoot w) (svc w)" and r: "run_state (rd off) w = (a, w')"
  consider "ptr (svc w) = 0" | "ptr (svc w) \<noteq> 0" "lim (svc w) \<le> unat off"
    | "ptr (svc w) \<noteq> 0" "unat off < lim (svc w)" by linarith
  then show "I (gXeBoot w') (svc w') \<and> (\<exists>es. trace w' = trace w @ es \<and> list_all P es)"
  proof cases
    case 1
    with I r rd_null [of w off] show ?thesis by simp
  next
    case 2
    with I r rd_out [of w off] show ?thesis by simp
  next
    case 3
    from rd_in [OF this] obtain post where post: "set post \<subseteq> {SyncIO}"
      and run: "run_state (rd off) w = (gpu K (trace w) (drop_bit 2 off),
         w\<lparr>trace := trace w @ MmioRd (ptr (svc w)) (drop_bit 2 off) (gpu K (trace w) (drop_bit 2 off)) # post\<rparr>)"
      by blast
    have "list_all P (MmioRd (ptr (svc w)) (drop_bit 2 off) (gpu K (trace w) (drop_bit 2 off)) # post)"
      using post assms(2) assms(1) [OF I 3] by (auto simp: list_all_iff)
    with I r run show ?thesis by auto
  qed
qed

lemma rd_keeps_state:
  assumes "run_state (rd off) w = (v, w')"
  shows "gXeBoot w' = gXeBoot w \<and> svc w' = svc w"
proof -
  consider "ptr (svc w) = 0" | "ptr (svc w) \<noteq> 0" "lim (svc w) \<le> unat off"
    | "ptr (svc w) \<noteq> 0" "unat off < lim (svc w)" by linarith
  then show ?thesis
  proof cases
    case 1
    with assms rd_null [of w off] show ?thesis by simp
  next
    case 2
    with assms rd_out [of w off] show ?thesis by simp
  next
    case 3
    from rd_in [OF this] assms show ?thesis by auto
  qed
qed

text \<open>Reading a list of offsets through a live pointer answers each from the device.\<close>

lemma rd_all_length:
  "run_state (State_Monad.traverse_list rd offs) w = (vs, w') \<Longrightarrow> length vs = length offs"
  by (induction offs arbitrary: w vs w') (auto split: prod.splits)

end

end
