(* ===== verification/BootArgs.thy ===== *)
theory BootArgs
  imports KernelModel
begin

text \<open>
  \<^verbatim>\<open>src/kexts/XeBootArgs.cpp\<close>: the parser of the \<^verbatim>\<open>xepci=\<close> boot argument. The
  128-byte stack buffer is a list of characters addressed by index; a read outside it is
  the value \<open>None\<close>. The parser is proved to stay inside the buffer and to compute the
  reference \<open>boot_spec\<close>, which splits the argument at commas and looks at each field on
  its own.
\<close>

section \<open>The parser\<close>

abbreviation NUL :: char where
  "NUL \<equiv> CHR 0x00"

definition xe_tolower :: "char \<Rightarrow> char" where
  "xe_tolower c =
     (if of_char CHR ''A'' \<le> (of_char c :: nat) \<and> of_char c \<le> (of_char CHR ''Z'' :: nat)
      then char_of (of_char c + (of_char CHR ''a'' - of_char CHR ''A'') :: nat) else c)"

text \<open>An access of \<open>buf\<close> or of the string that \<open>p\<close> points into.\<close>

definition peek :: "char list \<Rightarrow> nat \<Rightarrow> char option" where
  "peek buf i = (if i < length buf then Some (buf ! i) else None)"

text \<open>The C library's \<^verbatim>\<open>strchr\<close>: \<open>Some None\<close> is its null result, \<open>None\<close> a read past the buffer.\<close>

function strchr :: "char list \<Rightarrow> nat \<Rightarrow> char \<Rightarrow> nat option option" where
  "strchr buf p c =
     (case peek buf p of
        None \<Rightarrow> None
      | Some d \<Rightarrow> if d = c then Some (Some p) else if d = NUL then Some None else strchr buf (Suc p) c)"
  by pat_completeness auto
termination
  by (relation "measure (\<lambda>(buf, p, c). length buf - p)") (auto simp: peek_def split: if_splits)

declare strchr.simps [simp del]

text \<open>\<^verbatim>\<open>while (*p == ' ' || *p == '\t') ++p;\<close>\<close>

function skip_blanks :: "char list \<Rightarrow> nat \<Rightarrow> nat option" where
  "skip_blanks buf p =
     (case peek buf p of
        None \<Rightarrow> None
      | Some d \<Rightarrow> if d = CHR '' '' \<or> d = CHR 0x09 then skip_blanks buf (Suc p) else Some p)"
  by pat_completeness auto
termination
  by (relation "measure (\<lambda>(buf, p). length buf - p)") (auto simp: peek_def split: if_splits)

declare skip_blanks.simps [simp del]

text \<open>
  \<^verbatim>\<open>while (p[i] && i < sizeof(token)-1) { token[i] = xe_tolower(p[i]); ++i; }\<close> with
  \<^verbatim>\<open>token\<close> of 64 bytes. The character is read before the index is compared. \<open>token\<close>
  holds the first \<open>i\<close> bytes of the array.
\<close>

function copy_token :: "char list \<Rightarrow> nat \<Rightarrow> nat \<Rightarrow> char list \<Rightarrow> char list option" where
  "copy_token buf p i token =
     (case peek buf (p + i) of
        None \<Rightarrow> None
      | Some d \<Rightarrow> if d \<noteq> NUL \<and> i < 64 - 1 then copy_token buf p (Suc i) (token @ [xe_tolower d])
          else Some token)"
  by pat_completeness auto
termination
  by (relation "measure (\<lambda>(buf, p, i, token). 64 - i)") auto

declare copy_token.simps [simp del]

definition apply_token :: "string \<Rightarrow> XeBootFlags \<Rightarrow> XeBootFlags" where
  "apply_token token f =
     (if token = ''verbose'' then f\<lparr>verbose := True\<rparr>
      else if token = ''noforcewake'' then f\<lparr>disableForcewake := True\<rparr>
      else if token = ''nocs'' then f\<lparr>disableCommandStream := True\<rparr>
      else if token = ''strictsafe'' then
        f\<lparr>strictSafe := True, disableForcewake := True, disableCommandStream := True\<rparr>
      else f)"

lemma strchr_Some_Some: "strchr buf p c = Some (Some q) \<Longrightarrow> p \<le> q \<and> q < length buf"
proof (induction buf p c rule: strchr.induct)
  case (1 buf p c)
  then show ?case
    by (subst (asm) strchr.simps [of buf p c])
      (fastforce simp: peek_def split: option.splits if_splits)
qed

function parse_loop :: "char list \<Rightarrow> nat \<Rightarrow> XeBootFlags \<Rightarrow> XeBootFlags option" where
  "parse_loop buf p f =
     (case peek buf p of
        None \<Rightarrow> None
      | Some d \<Rightarrow>
          if d = NUL then Some f
          else (case strchr buf p (CHR '','') of
              None \<Rightarrow> None
            | Some comma \<Rightarrow>
                let buf' = (case comma of Some q \<Rightarrow> buf[q := NUL] | None \<Rightarrow> buf) in
                (case skip_blanks buf' p of
                   None \<Rightarrow> None
                 | Some p' \<Rightarrow>
                     (case copy_token buf' p' 0 [] of
                        None \<Rightarrow> None
                      | Some token \<Rightarrow>
                          (case comma of
                             None \<Rightarrow> Some (apply_token token f)
                           | Some q \<Rightarrow> parse_loop buf' (q + 1) (apply_token token f))))))"
  by pat_completeness auto
termination
  by (relation "measure (\<lambda>(buf, p, f). length buf - p)")
    (auto simp: Let_def dest!: strchr_Some_Some split: option.splits)

declare parse_loop.simps [simp del]

text \<open>
  \<^verbatim>\<open>XeParseBootArgs\<close>. The argument is what \<^verbatim>\<open>PE_parse_boot_argn\<close> left in \<open>buf\<close>.
\<close>

definition XeParseBootArgs :: "kernel_env \<Rightarrow> unit io" where
  "XeParseBootArgs K =
     (case boot_arg K of
        None \<Rightarrow> skip
      | Some buf \<Rightarrow> do {
          f \<leftarrow> gets gXeBoot;
          (case parse_loop buf 0 f of
             None \<Rightarrow> emit Fault
           | Some f' \<Rightarrow> do {
               modify (\<lambda>w. w\<lparr>gXeBoot := f'\<rparr>);
               emit (Log XeBootArgs_cpp 45 [LBool (verbose f'), LBool (disableForcewake f'),
                 LBool (disableCommandStream f'), LBool (strictSafe f')]) }) })"

section \<open>Reference: split at commas, look at each field\<close>

fun split_commas :: "string \<Rightarrow> string list" where
  "split_commas [] = [[]]"
| "split_commas (c # cs) =
     (if c = CHR '','' then [] # split_commas cs
      else (case split_commas cs of t # ts \<Rightarrow> (c # t) # ts | [] \<Rightarrow> [[c]]))"

definition blank :: "char \<Rightarrow> bool" where
  "blank c \<longleftrightarrow> c = CHR '' '' \<or> c = CHR 0x09"

text \<open>Leading blanks are dropped, at most 63 characters are kept, case is folded.\<close>

definition norm_token :: "string \<Rightarrow> string" where
  "norm_token t = map xe_tolower (take 63 (dropWhile blank t))"

definition boot_spec :: "string \<Rightarrow> XeBootFlags \<Rightarrow> XeBootFlags" where
  "boot_spec s f = fold apply_token (map norm_token (split_commas s)) f"

text \<open>What the parser relies on: the buffer holds a terminated string.\<close>

definition c_string :: "char list \<Rightarrow> string \<Rightarrow> bool" where
  "c_string buf s \<longleftrightarrow> NUL \<notin> set s \<and> (\<exists>rest. buf = s @ NUL # rest)"

section \<open>The pointer loops compute the reference\<close>

lemma peek_drop:
  assumes "drop p buf = x # xs"
  shows "peek buf p = Some x" and "drop (Suc p) buf = xs"
proof -
  have "p < length buf" using assms by (metis drop_all leI list.distinct(1))
  moreover have "buf ! p = x" using assms calculation by (metis Cons_nth_drop_Suc list.inject)
  ultimately show "peek buf p = Some x" by (simp add: peek_def)
  show "drop (Suc p) buf = xs" using assms by (metis drop_Suc list.sel(3) tl_drop)
qed

lemma strchr_found:
  "drop p buf = a @ c # rest \<Longrightarrow> c \<notin> set a \<Longrightarrow> NUL \<notin> set a \<Longrightarrow>
   strchr buf p c = Some (Some (p + length a))"
proof (induction a arbitrary: p)
  case Nil
  then show ?case by (subst strchr.simps) (simp add: peek_drop)
next
  case (Cons x a)
  from Cons.prems(1) have "peek buf p = Some x" and d: "drop (Suc p) buf = a @ c # rest"
    by (auto dest: peek_drop)
  then have "strchr buf p c = strchr buf (Suc p) c"
    using Cons.prems(2,3) by (subst strchr.simps) auto
  with Cons.IH [OF d] Cons.prems show ?case by simp
qed

lemma strchr_missing:
  "drop p buf = a @ NUL # rest \<Longrightarrow> c \<notin> set a \<Longrightarrow> NUL \<notin> set a \<Longrightarrow> c \<noteq> NUL \<Longrightarrow>
   strchr buf p c = Some None"
proof (induction a arbitrary: p)
  case Nil
  then show ?case by (subst strchr.simps) (simp add: peek_drop)
next
  case (Cons x a)
  from Cons.prems(1) have "peek buf p = Some x" and d: "drop (Suc p) buf = a @ NUL # rest"
    by (auto dest: peek_drop)
  then have "strchr buf p c = strchr buf (Suc p) c"
    using Cons.prems(2,3) by (subst strchr.simps) auto
  with Cons.IH [OF d] Cons.prems show ?case by simp
qed

lemma skip_blanks_spec:
  "drop p buf = a @ NUL # rest \<Longrightarrow>
   \<exists>p'. skip_blanks buf p = Some p' \<and> drop p' buf = dropWhile blank a @ NUL # rest"
proof (induction a arbitrary: p)
  case Nil
  then show ?case by (subst skip_blanks.simps) (simp add: peek_drop blank_def)
next
  case (Cons x a)
  from Cons.prems have "peek buf p = Some x" and d: "drop (Suc p) buf = a @ NUL # rest"
    by (auto dest: peek_drop)
  with Cons.IH [OF d] Cons.prems show ?case
    by (subst skip_blanks.simps) (auto simp flip: blank_def)
qed

lemma copy_token_spec:
  "drop (p + i) buf = a @ NUL # rest \<Longrightarrow> NUL \<notin> set a \<Longrightarrow>
   copy_token buf p i token = Some (token @ map xe_tolower (take (63 - i) a))"
proof (induction a arbitrary: i token)
  case Nil
  then show ?case by (subst copy_token.simps) (simp add: peek_drop)
next
  case (Cons x a)
  from Cons.prems have x: "peek buf (p + i) = Some x" and d: "drop (p + Suc i) buf = a @ NUL # rest"
    by (auto dest: peek_drop)
  show ?case
  proof (cases "i < 63")
    case True
    then have "63 - i = Suc (63 - Suc i)" by simp
    with True x Cons.IH [OF d] Cons.prems(2) show ?thesis
      by (subst copy_token.simps) auto
  next
    case False
    with x show ?thesis by (subst copy_token.simps) simp
  qed
qed

lemma split_commas_none: "CHR '','' \<notin> set s \<Longrightarrow> split_commas s = [s]"
  by (induction s) auto

lemma split_commas_some:
  "CHR '','' \<notin> set a \<Longrightarrow> split_commas (a @ CHR '','' # b) = a # split_commas b"
  by (induction a) auto

lemma boot_spec_nil: "boot_spec [] f = f"
  by (simp add: boot_spec_def norm_token_def apply_token_def)

lemma boot_spec_one: "CHR '','' \<notin> set s \<Longrightarrow> boot_spec s f = apply_token (norm_token s) f"
  by (simp add: boot_spec_def split_commas_none)

lemma boot_spec_comma:
  "CHR '','' \<notin> set a \<Longrightarrow>
   boot_spec (a @ CHR '','' # b) f = boot_spec b (apply_token (norm_token a) f)"
  by (simp add: boot_spec_def split_commas_some)

lemma field_token:
  assumes "drop p buf = a @ NUL # rest" and "NUL \<notin> set a"
  obtains p' where "skip_blanks buf p = Some p'" and "copy_token buf p' 0 [] = Some (norm_token a)"
proof -
  from skip_blanks_spec [OF assms(1)] obtain p' where p': "skip_blanks buf p = Some p'"
    and d: "drop (p' + 0) buf = dropWhile blank a @ NUL # rest" by auto
  have "NUL \<notin> set (dropWhile blank a)" using assms(2) by (meson set_dropWhileD)
  from copy_token_spec [OF d this] p' that show thesis by (simp add: norm_token_def)
qed

lemma parse_loop_spec:
  "drop p buf = s @ NUL # rest \<Longrightarrow> NUL \<notin> set s \<Longrightarrow> parse_loop buf p f = Some (boot_spec s f)"
proof (induction s arbitrary: buf p f rule: length_induct)
  case (1 s)
  show ?case
  proof (cases s)
    case Nil
    with 1 show ?thesis by (subst parse_loop.simps) (simp add: peek_drop boot_spec_nil)
  next
    case (Cons x xs)
    with "1.prems" have x: "peek buf p = Some x" "x \<noteq> NUL" by (auto dest: peek_drop)
    show ?thesis
    proof (cases "CHR '','' \<in> set s")
      case False
      from "1.prems" obtain p' where t: "skip_blanks buf p = Some p'" "copy_token buf p' 0 [] = Some (norm_token s)"
        by (rule field_token)
      with x False strchr_missing [OF "1.prems"(1) False "1.prems"(2)] show ?thesis
        by (subst parse_loop.simps) (simp add: boot_spec_one)
    next
      case True
      then obtain a b where s: "s = a @ CHR '','' # b" and a: "CHR '','' \<notin> set a"
        by (meson split_list_first)
      let ?q = "p + length a"
      let ?buf = "buf[?q := NUL]"
      have d: "drop p buf = a @ CHR '','' # b @ NUL # rest" using "1.prems"(1) s by simp
      have na: "NUL \<notin> set a" "NUL \<notin> set b" using "1.prems"(2) s by auto
      have "drop p ?buf = a @ NUL # b @ NUL # rest"
        using d by (simp add: drop_update_swap list_update_append)
      from this na(1) obtain p' where t: "skip_blanks ?buf p = Some p'" "copy_token ?buf p' 0 [] = Some (norm_token a)"
        by (rule field_token)
      have "drop (?q + 1) ?buf = b @ NUL # rest"
      proof -
        have "drop (Suc ?q) ?buf = drop (Suc ?q) buf" by (simp add: drop_update_cancel)
        also have "\<dots> = drop (Suc (length a)) (drop p buf)" by (simp add: add.commute)
        finally show ?thesis using d by simp
      qed
      with "1.IH" s na(2) have "parse_loop ?buf (?q + 1) (apply_token (norm_token a) f) =
          Some (boot_spec b (apply_token (norm_token a) f))" by simp
      with x t strchr_found [OF d a na(1)] show ?thesis
        by (subst parse_loop.simps) (simp add: s boot_spec_comma [OF a])
    qed
  qed
qed

section \<open>What the parser guarantees\<close>

definition boot_tokens :: "string \<Rightarrow> string set" where
  "boot_tokens s = norm_token ` set (split_commas s)"

lemma fold_apply_token:
  "verbose (fold apply_token ts f) \<longleftrightarrow> verbose f \<or> ''verbose'' \<in> set ts"
  "strictSafe (fold apply_token ts f) \<longleftrightarrow> strictSafe f \<or> ''strictsafe'' \<in> set ts"
  "disableForcewake (fold apply_token ts f) \<longleftrightarrow>
     disableForcewake f \<or> ''noforcewake'' \<in> set ts \<or> ''strictsafe'' \<in> set ts"
  "disableCommandStream (fold apply_token ts f) \<longleftrightarrow>
     disableCommandStream f \<or> ''nocs'' \<in> set ts \<or> ''strictsafe'' \<in> set ts"
  by (induction ts arbitrary: f) (auto simp: apply_token_def)

lemma XeParseBootArgs_run:
  assumes "boot_arg K = Some buf" and "c_string buf s"
  shows "run_state (XeParseBootArgs K) w =
    (let f' = boot_spec s (gXeBoot w) in
     ((), w\<lparr>gXeBoot := f', trace := trace w @ [Log XeBootArgs_cpp 45
        [LBool (verbose f'), LBool (disableForcewake f'), LBool (disableCommandStream f'),
         LBool (strictSafe f')]]\<rparr>))"
proof -
  from assms(2) obtain rest where "drop 0 buf = s @ NUL # rest" and "NUL \<notin> set s"
    by (auto simp: c_string_def)
  from parse_loop_spec [OF this] assms(1) show ?thesis
    by (simp add: XeParseBootArgs_def Let_def)
qed

text \<open>
  C15. On a terminated boot argument the parser never reads outside its buffers and sets
  the global flags to the reference value, then logs them: the pointer loops with their
  in-place edits agree with splitting the string at its commas.
\<close>

theorem XeParseBootArgs_refines_spec:
  assumes "boot_arg K = Some buf" and "c_string buf s"
  shows "run_state (XeParseBootArgs K) w =
    (let f' = boot_spec s (gXeBoot w) in
     ((), w\<lparr>gXeBoot := f', trace := trace w @ [Log XeBootArgs_cpp 45
        [LBool (verbose f'), LBool (disableForcewake f'), LBool (disableCommandStream f'),
         LBool (strictSafe f')]]\<rparr>))"
  using assms by (rule XeParseBootArgs_run)

definition boot_example :: "char list" where
  "boot_example = ''Verbose, NOCS,'' @ replicate 114 NUL"

lemma boot_example_c_string: "c_string boot_example ''Verbose, NOCS,''"
  by (simp add: c_string_def boot_example_def numeral_eq_Suc)

lemmas boot_eval = boot_spec_def norm_token_def blank_def xe_tolower_def apply_token_def
  XeBootFlags_init_def char_of_def bit_0

theorem XeParseBootArgs_refines_spec_witness:
  "gXeBoot (snd (run_state (XeParseBootArgs (undefined\<lparr>boot_arg := Some boot_example\<rparr>))
     \<lparr>gXeBoot = XeBootFlags_init, svc = XeService_new, trace = []\<rparr>)) =
   \<lparr>verbose = True, disableForcewake = False, disableCommandStream = True, strictSafe = False\<rparr>"
  by (subst XeParseBootArgs_refines_spec [OF _ boot_example_c_string])
    (simp_all add: Let_def boot_eval)

text \<open>
  Which flags the parser sets: a flag is set exactly when it was set before or one of
  the comma-separated fields, blanks in front dropped, cut to 63 characters and case
  folded, is its name; \<open>strictsafe\<close> sets the two disabling flags as well.
\<close>

theorem XeParseBootArgs_flags:
  assumes "boot_arg K = Some buf" and "c_string buf s"
    and "f = gXeBoot w" and "f' = gXeBoot (snd (run_state (XeParseBootArgs K) w))"
  shows "(verbose f' \<longleftrightarrow> verbose f \<or> ''verbose'' \<in> boot_tokens s) \<and>
    (strictSafe f' \<longleftrightarrow> strictSafe f \<or> ''strictsafe'' \<in> boot_tokens s) \<and>
    (disableForcewake f' \<longleftrightarrow>
       disableForcewake f \<or> ''noforcewake'' \<in> boot_tokens s \<or> ''strictsafe'' \<in> boot_tokens s) \<and>
    (disableCommandStream f' \<longleftrightarrow>
       disableCommandStream f \<or> ''nocs'' \<in> boot_tokens s \<or> ''strictsafe'' \<in> boot_tokens s)"
proof -
  have "f' = boot_spec s f"
    using assms XeParseBootArgs_run [OF assms(1,2), of w] by (simp add: Let_def)
  then show ?thesis
    by (simp add: boot_spec_def boot_tokens_def fold_apply_token)
qed

theorem XeParseBootArgs_flags_witness:
  "disableCommandStream (gXeBoot (snd (run_state
     (XeParseBootArgs (undefined\<lparr>boot_arg := Some boot_example\<rparr>))
     \<lparr>gXeBoot = XeBootFlags_init, svc = XeService_new, trace = []\<rparr>)))"
proof -
  have "''nocs'' \<in> boot_tokens ''Verbose, NOCS,''"
    by (simp add: boot_tokens_def boot_eval)
  then show ?thesis
    using XeParseBootArgs_flags [OF _ boot_example_c_string refl refl] by simp
qed

text \<open>The invariant of the global flags: strict safe mode implies both disabling flags.\<close>

definition boot_wf :: "XeBootFlags \<Rightarrow> bool" where
  "boot_wf f \<longleftrightarrow> (strictSafe f \<longrightarrow> disableForcewake f \<and> disableCommandStream f)"

lemma boot_wf_init: "boot_wf XeBootFlags_init"
  by (simp add: boot_wf_def XeBootFlags_init_def)

lemma apply_token_wf: "boot_wf f \<Longrightarrow> boot_wf (apply_token t f)"
  by (simp add: boot_wf_def apply_token_def)

lemma parse_loop_wf: "parse_loop buf p f = Some f' \<Longrightarrow> boot_wf f \<Longrightarrow> boot_wf f'"
proof (induction buf p f rule: parse_loop.induct)
  case (1 buf p f)
  from "1.prems" show ?case
    by (subst (asm) parse_loop.simps [of buf p f])
      (auto simp: Let_def apply_token_wf split: option.splits if_splits intro: "1.IH")
qed

lemma XeParseBootArgs_wf:
  assumes "run_state (XeParseBootArgs K) w = (u, w')" and "boot_wf (gXeBoot w)"
  shows "boot_wf (gXeBoot w') \<and> svc w' = svc w"
  using assms by (auto simp: XeParseBootArgs_def split: option.splits dest: parse_loop_wf)

text \<open>
  Only blanks in front of a field are dropped: one behind it makes the name unknown.
\<close>

lemma trailing_blank_not_trimmed: "boot_spec ''verbose ,nocs'' f = f\<lparr>disableCommandStream := True\<rparr>"
  by (simp add: boot_eval)

end
