(* ===== verification/GGTT.thy ===== *)
theory GGTT
  imports KernelModel
begin

text \<open>
  \<^verbatim>\<open>src/kexts/XeGGTT.hpp\<close>: the read-only probe of the graphics translation table and of
  the fence registers. The lemmas give the results of the three operations on every branch
  and the registers each of them touches.
\<close>

section \<open>Operations\<close>

definition kGGTTMaxOffset :: u32 where
  [hw_consts]: "kGGTTMaxOffset = 0x00FFFFFF"

definition ggtt_kErrorNullMMIO :: u32 where
  [hw_consts]: "ggtt_kErrorNullMMIO = 0xDEADBEEF"

definition ggtt_kErrorOutOfRange :: u32 where
  [hw_consts]: "ggtt_kErrorOutOfRange = 0xBAD0FFFF"

definition XeGGTT_safeRead :: "kernel_env \<Rightarrow> u64 \<Rightarrow> u32 \<Rightarrow> u32 io" where
  "XeGGTT_safeRead K base off =
     (if base = 0 then ret ggtt_kErrorNullMMIO
      else if off > kGGTTMaxOffset then ret ggtt_kErrorOutOfRange
      else mmio_load K base (drop_bit 2 off))"

definition XeGGTT_probe :: "kernel_env \<Rightarrow> u64 \<Rightarrow> bool io" where
  "XeGGTT_probe K base = do {
     XeLog XeGGTT_hpp 32 [];
     (if base = 0 then do { XeLog XeGGTT_hpp 35 []; ret False }
      else do {
        pgtblCtl \<leftarrow> XeGGTT_safeRead K base PGTBL_CTL;
        (if pgtblCtl = ggtt_kErrorNullMMIO \<or> pgtblCtl = ggtt_kErrorOutOfRange
         then do { XeLog XeGGTT_hpp 42 []; ret False }
         else do {
           pwrWell1 \<leftarrow> XeGGTT_safeRead K base HSW_PWR_WELL_CTL1;
           pwrWell2 \<leftarrow> XeGGTT_safeRead K base HSW_PWR_WELL_CTL2;
           XeLog XeGGTT_hpp 51 [LU32 pgtblCtl];
           XeLog XeGGTT_hpp 52 [LU32 pwrWell1, LU32 pwrWell2];
           (if FENCE_START 0 \<le> kGGTTMaxOffset \<and> FENCE_END 0 \<le> kGGTTMaxOffset then do {
              fence0Start \<leftarrow> XeGGTT_safeRead K base (FENCE_START 0);
              fence0End \<leftarrow> XeGGTT_safeRead K base (FENCE_END 0);
              XeLog XeGGTT_hpp 58 [LU32 fence0Start, LU32 fence0End] }
            else XeLog XeGGTT_hpp 60 []);
           XeLog XeGGTT_hpp 63 [];
           ret True }) }) }"

record GGTTInfo =
  gi_pgtblCtl :: u32
  gi_apertureSize :: u32
  gi_isValid :: bool

definition XeGGTT_getInfo :: "kernel_env \<Rightarrow> u64 \<Rightarrow> GGTTInfo io" where
  "XeGGTT_getInfo K base = (let info = \<lparr>gi_pgtblCtl = 0, gi_apertureSize = 0, gi_isValid = False\<rparr> in
     if base = 0 then do { XeLog XeGGTT_hpp 78 []; ret info }
     else do {
       ctl \<leftarrow> XeGGTT_safeRead K base PGTBL_CTL;
       let info = info\<lparr>gi_pgtblCtl := ctl\<rparr>;
       (if ctl = ggtt_kErrorNullMMIO \<or> ctl = ggtt_kErrorOutOfRange
        then do { XeLog XeGGTT_hpp 84 []; ret info }
        else do {
          let info = info\<lparr>gi_apertureSize := GGTT_ApertureBytes, gi_isValid := True\<rparr>;
          XeLog XeGGTT_hpp 91 [LU32 (gi_pgtblCtl info), LU32 (gi_apertureSize info div (1024 * 1024))];
          ret info }) })"

record FenceInfo =
  fi_start :: u32
  fi_end :: u32
  fi_active :: bool
  fi_valid :: bool

definition XeGGTT_getFence :: "kernel_env \<Rightarrow> u64 \<Rightarrow> u32 \<Rightarrow> FenceInfo io" where
  "XeGGTT_getFence K base index =
     (let info = \<lparr>fi_start = 0, fi_end = 0, fi_active = False, fi_valid = False\<rparr> in
      if base = 0 then do { XeLog XeGGTT_hpp 109 []; ret info }
      else if index \<ge> FENCE_REG_COUNT
        then do { XeLog XeGGTT_hpp 114 [LU32 index, LU32 (FENCE_REG_COUNT - 1)]; ret info }
      else let startOff = FENCE_START index; endOff = FENCE_END index in
        if startOff > kGGTTMaxOffset \<or> endOff > kGGTTMaxOffset
        then do { XeLog XeGGTT_hpp 123 [LU32 index]; ret info }
        else do {
          s \<leftarrow> XeGGTT_safeRead K base startOff;
          e \<leftarrow> XeGGTT_safeRead K base endOff;
          let info = \<lparr>fi_start = s, fi_end = e, fi_active = (s \<noteq> 0 \<or> e \<noteq> 0), fi_valid = True\<rparr>;
          XeLog XeGGTT_hpp 132 [LU32 index, LU32 s, LU32 e, LBool (fi_active info)];
          ret info })"

section \<open>The probe's register read meets the reader contract\<close>

interpretation gr: guarded_reader K "XeGGTT_safeRead K base" "\<lambda>_. base" "\<lambda>_. 0x1000000"
  for K base
  by unfold_locales
    (auto simp: XeGGTT_safeRead_def hw_consts word_less_nat_alt intro: exI [of _ "[]"])

text \<open>On an offset within the limit, the read is one device access.\<close>

lemma safeRead_run:
  assumes "base \<noteq> 0" and "off \<le> 0xFFFFFF"
  shows "run_state (XeGGTT_safeRead K base off) w =
    (gpu K (trace w) (drop_bit 2 off),
     w\<lparr>trace := trace w @ [MmioRd base (drop_bit 2 off) (gpu K (trace w) (drop_bit 2 off))]\<rparr>)"
  using assms by (simp add: XeGGTT_safeRead_def hw_consts flip: not_less)

section \<open>Footprint and results\<close>

text \<open>Reads through \<open>b\<close> of a dword in \<open>ix\<close>, and log lines of this file.\<close>

fun ggtt_event :: "u64 \<Rightarrow> u32 set \<Rightarrow> event \<Rightarrow> bool" where
  "ggtt_event b ix (Log f l a) = (f = XeGGTT_hpp)"
| "ggtt_event b ix SyncIO = True"
| "ggtt_event b ix (MmioRd p i v) = (p = b \<and> i \<in> ix)"
| "ggtt_event b ix _ = False"

definition probe_regs :: "u32 set" where
  "probe_regs = drop_bit 2 ` {PGTBL_CTL, HSW_PWR_WELL_CTL1, HSW_PWR_WELL_CTL2, FENCE_START 0, FENCE_END 0}"

lemma safeRead_safe:
  "drop_bit 2 off \<in> ix \<Longrightarrow> safe I (ggtt_event base ix) (XeGGTT_safeRead K base off)"
  by (rule gr.rd_safe) simp_all

lemma probe_safe: "safe I (ggtt_event base probe_regs) (XeGGTT_probe K base)"
  unfolding XeGGTT_probe_def
  by (intro safe_rules safeRead_safe) (simp_all add: probe_regs_def)

lemma probe_result:
  "fst (run_state (XeGGTT_probe K base) w) \<longleftrightarrow> base \<noteq> 0 \<and>
     gpu K (trace w @ [Log XeGGTT_hpp 32 []]) (drop_bit 2 PGTBL_CTL) \<notin> {sentinel_null, sentinel_range}"
  by (simp add: XeGGTT_probe_def safeRead_run ggtt_kErrorNullMMIO_def ggtt_kErrorOutOfRange_def
      FENCE_START_def FENCE_END_def hw_consts)

text \<open>
  Fence lookup on every branch: a null base or an index of 32 and more gives the
  invalid (all zero) answer without a device access; for an index below 32 the answer is
  valid, holds the two dwords of that fence pair as the device returns them, and is active
  exactly when one of them is not zero. No range sentinel can reach the caller.
\<close>

theorem getFence_correct:
  "run_state (XeGGTT_getFence K base index) w =
   (if base = 0 then
      (\<lparr>fi_start = 0, fi_end = 0, fi_active = False, fi_valid = False\<rparr>,
       w\<lparr>trace := trace w @ [Log XeGGTT_hpp 109 []]\<rparr>)
    else if 32 \<le> index then
      (\<lparr>fi_start = 0, fi_end = 0, fi_active = False, fi_valid = False\<rparr>,
       w\<lparr>trace := trace w @ [Log XeGGTT_hpp 114 [LU32 index, LU32 31]]\<rparr>)
    else
      let i = 0x40000 + 2 * index;
          s = gpu K (trace w) i;
          h = trace w @ [MmioRd base i s];
          e = gpu K h (i + 1);
          a = (\<not> (s = 0 \<and> e = 0))
      in (\<lparr>fi_start = s, fi_end = e, fi_active = a, fi_valid = True\<rparr>,
          w\<lparr>trace := h @ [MmioRd base (i + 1) e,
             Log XeGGTT_hpp 132 [LU32 index, LU32 s, LU32 e, LBool a]]\<rparr>))"
proof (cases "base = 0 \<or> 32 \<le> index")
  case True
  then show ?thesis
    by (auto simp: XeGGTT_getFence_def Let_def FENCE_REG_COUNT_def)
next
  case False
  then have n: "index < FENCE_REG_COUNT" and b: "base \<noteq> 0"
    by (simp_all add: FENCE_REG_COUNT_def not_le)
  note r = reg_okD(3) [OF fence_reg_ok(1) [OF n]] reg_okD(3) [OF fence_reg_ok(2) [OF n]]
  have n32: "unat index < 32"
    using n by (simp add: FENCE_REG_COUNT_def word_less_nat_alt)
  have i: "drop_bit 2 (FENCE_START index) = 0x40000 + 2 * index"
      "drop_bit 2 (FENCE_END index) = 0x40000 + 2 * index + 1"
    using fence_unat [OF n] n32
    by (simp_all add: word_unat_eq_iff drop_bit_word_unat unat_word_ariths)
  have "\<not> FENCE_REG_COUNT \<le> index" "\<not> kGGTTMaxOffset < FENCE_START index"
      "\<not> kGGTTMaxOffset < FENCE_END index"
    using n r by (simp_all add: kGGTTMaxOffset_def not_less not_le)
  with False r i show ?thesis
    by (simp add: XeGGTT_getFence_def Let_def safeRead_run)
qed

text \<open>
  The probe only reads, and only five registers (page table control, two power wells
  and the first fence pair); it succeeds exactly when the base is not null and the page
  table control register does not read as one of the two sentinels.
\<close>

lemma probe_read_only:
  "\<exists>ok w' es. run_state (XeGGTT_probe K base) w = (ok, w') \<and> trace w' = trace w @ es \<and>
     list_all (ggtt_event base probe_regs) es \<and> gXeBoot w' = gXeBoot w \<and> svc w' = svc w \<and>
     (ok \<longleftrightarrow> base \<noteq> 0 \<and>
        gpu K (trace w @ [Log XeGGTT_hpp 32 []]) 0x808 \<notin> {sentinel_null, sentinel_range})"
proof -
  obtain ok w' where run: "run_state (XeGGTT_probe K base) w = (ok, w')" by (rule prod.exhaust)
  from safeE [OF probe_safe [of "\<lambda>B S. B = gXeBoot w \<and> S = svc w"] _ run] obtain es
    where "trace w' = trace w @ es" "list_all (ggtt_event base probe_regs) es"
      "gXeBoot w' = gXeBoot w" "svc w' = svc w" by auto
  moreover have "drop_bit 2 PGTBL_CTL = 0x808" by (simp add: hw_consts)
  ultimately show ?thesis using run probe_result [of K base w] by auto
qed

lemma getInfo_valid:
  "gi_isValid (fst (run_state (XeGGTT_getInfo K base) w)) \<longleftrightarrow> base \<noteq> 0 \<and>
     gpu K (trace w) (drop_bit 2 PGTBL_CTL) \<notin> {sentinel_null, sentinel_range}"
  "gi_isValid (fst (run_state (XeGGTT_getInfo K base) w)) \<Longrightarrow>
     gi_apertureSize (fst (run_state (XeGGTT_getInfo K base) w)) = 0x10000000"
  by (simp_all add: XeGGTT_getInfo_def Let_def safeRead_run hw_consts split: if_splits)

end
