(* ===== verification/Forcewake.thy ===== *)
theory Forcewake
  imports KernelModel
begin

text \<open>
  \<^verbatim>\<open>src/kexts/ForcewakeGuard.hpp\<close>: the RAII guard that asks the GPU to keep its GT
  domain powered. The constructor writes the request and polls the acknowledge register at
  most 50 times, one millisecond apart; the destructor withdraws the request of an
  acquired guard. The lemmas give the guard's footprint on the device, the outcome of the
  polling loop as a function of the device's answers, its time bound, and the state in
  which the request register is left.
\<close>

section \<open>The guard\<close>

record ForcewakeGuard =
  fw_m :: u64
  acquired :: bool

definition kForcewakeMaxOffset :: u32 where
  [hw_consts]: "kForcewakeMaxOffset = 0x00FFFFFF"

definition fw_kErrorNullMMIO :: u32 where
  [hw_consts]: "fw_kErrorNullMMIO = 0xDEADBEEF"

definition fw_kErrorOutOfRange :: u32 where
  [hw_consts]: "fw_kErrorOutOfRange = 0xBAD0FFFF"

definition ForcewakeGuard_rd :: "kernel_env \<Rightarrow> ForcewakeGuard \<Rightarrow> u32 \<Rightarrow> u32 io" where
  "ForcewakeGuard_rd K g off =
     (if fw_m g = 0 then ret fw_kErrorNullMMIO
      else if off > kForcewakeMaxOffset then ret fw_kErrorOutOfRange
      else mmio_load K (fw_m g) (drop_bit 2 off))"

definition ForcewakeGuard_wr :: "ForcewakeGuard \<Rightarrow> u32 \<Rightarrow> u32 \<Rightarrow> unit io" where
  "ForcewakeGuard_wr g off v =
     (if fw_m g = 0 then skip
      else if off > kForcewakeMaxOffset then skip
      else do { mmio_store (fw_m g) (drop_bit 2 off) v; OSSynchronizeIO })"

definition maxIterations :: nat where
  "maxIterations = 50"

definition delayPerIteration :: u32 where
  "delayPerIteration = 1000"

text \<open>The polling loop: \<open>i\<close> counts iterations done, the last argument those left.\<close>

primrec ForcewakeGuard_poll :: "kernel_env \<Rightarrow> ForcewakeGuard \<Rightarrow> nat \<Rightarrow> nat \<Rightarrow> ForcewakeGuard io" where
  "ForcewakeGuard_poll K g i 0 = do {
     XeLog ForcewakeGuard_hpp 106 [LInt (int maxIterations * uint delayPerIteration div 1000)];
     ret g }"
| "ForcewakeGuard_poll K g i (Suc n) = do {
     ack \<leftarrow> ForcewakeGuard_rd K g FORCEWAKE_ACK;
     (if ack = fw_kErrorNullMMIO \<or> ack = fw_kErrorOutOfRange then do {
        XeLog ForcewakeGuard_hpp 93 [LU32 ack];
        ret g }
      else if ack AND 0x1 \<noteq> 0 then do {
        XeLog ForcewakeGuard_hpp 99 [LInt (int i + 1), LU32 ack];
        ret (g\<lparr>acquired := True\<rparr>) }
      else do {
        IODelay delayPerIteration;
        ForcewakeGuard_poll K g (Suc i) n }) }"

definition ForcewakeGuard_acquire :: "kernel_env \<Rightarrow> ForcewakeGuard \<Rightarrow> ForcewakeGuard io" where
  "ForcewakeGuard_acquire K g = do {
     XeLog ForcewakeGuard_hpp 76 [];
     ForcewakeGuard_wr g FORCEWAKE_REQ 0x00010001;
     ForcewakeGuard_poll K g 0 maxIterations }"

definition ForcewakeGuard_release :: "ForcewakeGuard \<Rightarrow> ForcewakeGuard io" where
  "ForcewakeGuard_release g =
     (if fw_m g = 0 then ret g
      else do {
        XeLog ForcewakeGuard_hpp 113 [];
        ForcewakeGuard_wr g FORCEWAKE_REQ 0x00010000;
        XeLog ForcewakeGuard_hpp 119 [];
        ret (g\<lparr>acquired := False\<rparr>) })"

text \<open>The constructor.\<close>

definition ForcewakeGuard_ctor :: "kernel_env \<Rightarrow> u64 \<Rightarrow> ForcewakeGuard io" where
  "ForcewakeGuard_ctor K base = (let g = \<lparr>fw_m = base, acquired = False\<rparr> in
     if base = 0 then do { XeLog ForcewakeGuard_hpp 24 []; ret g }
     else do {
       f \<leftarrow> gets gXeBoot;
       (if disableForcewake f \<or> strictSafe f then do { XeLog ForcewakeGuard_hpp 30 []; ret g }
        else if FORCEWAKE_REQ > kForcewakeMaxOffset \<or> FORCEWAKE_ACK > kForcewakeMaxOffset
          then do { XeLog ForcewakeGuard_hpp 37 []; ret g }
        else ForcewakeGuard_acquire K g) })"

text \<open>The destructor.\<close>

definition ForcewakeGuard_dtor :: "ForcewakeGuard \<Rightarrow> unit io" where
  "ForcewakeGuard_dtor g =
     (if acquired g \<and> fw_m g \<noteq> 0 then do { ForcewakeGuard_release g; skip } else skip)"

text \<open>A C++ block that starts with \<^verbatim>\<open>ForcewakeGuard fw(mmio);\<close> and runs to any of its exits.\<close>

definition ForcewakeGuard_scope :: "kernel_env \<Rightarrow> u64 \<Rightarrow> (ForcewakeGuard \<Rightarrow> 'a io) \<Rightarrow> 'a io" where
  "ForcewakeGuard_scope K base body = do {
     g \<leftarrow> ForcewakeGuard_ctor K base;
     r \<leftarrow> body g;
     ForcewakeGuard_dtor g;
     ret r }"

section \<open>The guard's register read meets the reader contract\<close>

interpretation fw: guarded_reader K "ForcewakeGuard_rd K g" "\<lambda>_. fw_m g" "\<lambda>_. 0x1000000"
  for K g
  by unfold_locales
    (auto simp: ForcewakeGuard_rd_def hw_consts word_less_nat_alt intro: exI [of _ "[]"])

section \<open>Footprint\<close>

definition req_index :: u32 where
  "req_index = drop_bit 2 FORCEWAKE_REQ"

definition ack_index :: u32 where
  "ack_index = drop_bit 2 FORCEWAKE_ACK"

lemma fw_indices: "req_index = 0x2862" "ack_index = 0x2863"
  by (simp_all add: req_index_def ack_index_def hw_consts)

text \<open>The events a guard on base pointer \<open>b\<close> may cause.\<close>

fun fw_event :: "u64 \<Rightarrow> event \<Rightarrow> bool" where
  "fw_event b (Log f l a) = (f = ForcewakeGuard_hpp)"
| "fw_event b SyncIO = True"
| "fw_event b (Delay d) = (d = delayPerIteration)"
| "fw_event b (MmioRd p i v) = (p = b \<and> i = ack_index)"
| "fw_event b (MmioWr p i v) = (p = b \<and> i = req_index \<and> v \<in> {0x00010001, 0x00010000})"
| "fw_event b _ = False"

lemma fw_rd_ack_run:
  assumes "fw_m g \<noteq> 0"
  shows "run_state (ForcewakeGuard_rd K g FORCEWAKE_ACK) w =
    (gpu K (trace w) ack_index,
     w\<lparr>trace := trace w @ [MmioRd (fw_m g) ack_index (gpu K (trace w) ack_index)]\<rparr>)"
  using assms by (simp add: ForcewakeGuard_rd_def hw_consts ack_index_def)

lemma fw_wr_run:
  assumes "fw_m g \<noteq> 0"
  shows "run_state (ForcewakeGuard_wr g FORCEWAKE_REQ v) w =
    ((), w\<lparr>trace := trace w @ [MmioWr (fw_m g) req_index v, SyncIO]\<rparr>)"
  using assms by (simp add: ForcewakeGuard_wr_def hw_consts req_index_def)

lemma poll_safe: "safe I (fw_event (fw_m g)) (ForcewakeGuard_poll K g i n)"
proof (induction n arbitrary: i)
  case 0
  show ?case by (auto intro!: safe_rules)
next
  case (Suc n)
  have "safe I (fw_event (fw_m g)) (ForcewakeGuard_rd K g FORCEWAKE_ACK)"
    by (rule fw.rd_safe) (simp_all add: ack_index_def)
  with Suc.IH show ?case
    by (auto intro!: safe_rules)
qed

lemma wr_safe: "v \<in> {0x00010001, 0x00010000} \<Longrightarrow> safe I (fw_event (fw_m g)) (ForcewakeGuard_wr g FORCEWAKE_REQ v)"
  unfolding ForcewakeGuard_wr_def by (auto intro!: safe_rules safe_store simp: req_index_def)

lemma ctor_safe: "safe I (fw_event b) (ForcewakeGuard_ctor K b)"
proof -
  let ?g = "\<lparr>fw_m = b, acquired = False\<rparr>"
  have "safe I (fw_event b) (ForcewakeGuard_poll K ?g 0 maxIterations)"
    using poll_safe [of I ?g] by simp
  moreover have "safe I (fw_event b) (ForcewakeGuard_wr ?g FORCEWAKE_REQ 0x00010001)"
    using wr_safe [of _ I ?g] by simp
  ultimately show ?thesis
    unfolding ForcewakeGuard_ctor_def ForcewakeGuard_acquire_def Let_def
    by (auto intro!: safe_rules)
qed

lemma dtor_safe: "safe I (fw_event (fw_m g)) (ForcewakeGuard_dtor g)"
  unfolding ForcewakeGuard_dtor_def ForcewakeGuard_release_def
  by (auto intro!: safe_rules wr_safe)

section \<open>Outcome of the polling loop\<close>

text \<open>
  The history after \<open>j\<close> idle polls that start from history \<open>h\<close>, and the device's answer to
  the poll that follows.
\<close>

primrec fw_hist :: "kernel_env \<Rightarrow> u64 \<Rightarrow> event list \<Rightarrow> nat \<Rightarrow> event list" where
  "fw_hist K b h 0 = h"
| "fw_hist K b h (Suc j) =
     fw_hist K b (h @ [MmioRd b ack_index (gpu K h ack_index), Delay delayPerIteration]) j"

definition fw_ack :: "kernel_env \<Rightarrow> u64 \<Rightarrow> event list \<Rightarrow> nat \<Rightarrow> u32" where
  "fw_ack K b h j = gpu K (fw_hist K b h j) ack_index"

definition ack_valid :: "u32 \<Rightarrow> bool" where
  "ack_valid v \<longleftrightarrow> v \<noteq> sentinel_null \<and> v \<noteq> sentinel_range"

text \<open>Some poll within \<open>n\<close> sees the acknowledge bit, and every earlier one was idle.\<close>

definition acked_within :: "kernel_env \<Rightarrow> u64 \<Rightarrow> event list \<Rightarrow> nat \<Rightarrow> bool" where
  "acked_within K b h n \<longleftrightarrow> (\<exists>j<n.
     (ack_valid (fw_ack K b h j) \<and> fw_ack K b h j AND 1 \<noteq> 0) \<and>
     (\<forall>k<j. ack_valid (fw_ack K b h k) \<and> fw_ack K b h k AND 1 = 0))"

lemma fw_ack_Suc:
  "fw_ack K b h (Suc j) =
   fw_ack K b (h @ [MmioRd b ack_index (gpu K h ack_index), Delay delayPerIteration]) j"
  by (simp add: fw_ack_def)

lemma acked_within_Suc:
  "acked_within K b h (Suc n) \<longleftrightarrow>
     (let v = gpu K h ack_index in ack_valid v \<and>
       (v AND 1 \<noteq> 0 \<or> acked_within K b (h @ [MmioRd b ack_index v, Delay delayPerIteration]) n))"
  unfolding acked_within_def Let_def Ex_less_Suc2
  by (auto simp: All_less_Suc2 fw_ack_Suc fw_ack_def [of _ _ _ 0])

lemmas fw_sentinels = fw_kErrorNullMMIO_def fw_kErrorOutOfRange_def

lemma poll_outcome:
  assumes "fw_m g \<noteq> 0" and "\<not> acquired g"
  shows "acquired (fst (run_state (ForcewakeGuard_poll K g i n) w)) \<longleftrightarrow>
    acked_within K (fw_m g) (trace w) n"
proof (induction n arbitrary: i w)
  case 0
  with assms(2) show ?case by (simp add: acked_within_def)
next
  case (Suc n)
  show ?case
    using assms by (simp add: fw_rd_ack_run acked_within_Suc Let_def ack_valid_def fw_sentinels Suc.IH)
qed

lemma poll_guard:
  assumes "fw_m g \<noteq> 0"
  shows "fw_m (fst (run_state (ForcewakeGuard_poll K g i n) w)) = fw_m g"
proof (induction n arbitrary: i w)
  case 0
  show ?case by simp
next
  case (Suc n)
  then show ?case using assms by (simp add: fw_rd_ack_run)
qed

section \<open>Time bound\<close>

fun delay_us :: "event \<Rightarrow> nat" where
  "delay_us (Delay d) = unat d"
| "delay_us _ = 0"

fun is_mmio_rd :: "event \<Rightarrow> bool" where
  "is_mmio_rd (MmioRd b i v) = True"
| "is_mmio_rd _ = False"

lemma poll_cost:
  assumes "fw_m g \<noteq> 0" and "run_state (ForcewakeGuard_poll K g i n) w = (g', w')"
  shows "\<exists>es. trace w' = trace w @ es \<and> sum_list (map delay_us es) \<le> 1000 * n \<and>
    length (filter is_mmio_rd es) \<le> n"
  using assms(2)
proof (induction n arbitrary: i w)
  case 0
  then show ?case by auto
next
  case (Suc n)
  let ?v = "gpu K (trace w) ack_index"
  let ?r = "MmioRd (fw_m g) ack_index ?v"
  show ?case
  proof (cases "ack_valid ?v \<and> ?v AND 1 = 0")
    case True
    with Suc.prems assms(1) have
      "run_state (ForcewakeGuard_poll K g (Suc i) n) (w\<lparr>trace := trace w @ [?r, Delay delayPerIteration]\<rparr>) = (g', w')"
      by (simp add: fw_rd_ack_run ack_valid_def fw_sentinels)
    from Suc.IH [OF this] obtain es where
      "trace w' = trace w @ [?r, Delay delayPerIteration] @ es"
      "sum_list (map delay_us es) \<le> 1000 * n" "length (filter is_mmio_rd es) \<le> n"
      by auto
    then show ?thesis
      by (intro exI [of _ "[?r, Delay delayPerIteration] @ es"]) (simp add: delayPerIteration_def)
  next
    case False
    with Suc.prems assms(1) show ?thesis
      by (auto simp: fw_rd_ack_run ack_valid_def fw_sentinels split: if_splits)
  qed
qed

section \<open>State of the request register\<close>

text \<open>
  The request register takes masked writes (comment in \<^verbatim>\<open>acquire\<close>): the upper half of the
  value selects the bits that the lower half sets. \<open>fw_req\<close> is its content after a history.
\<close>

definition fw_masked_write :: "u16 \<Rightarrow> u32 \<Rightarrow> u16" where
  "fw_masked_write old v =
     (let msk = ucast (drop_bit 16 v) in (old AND NOT msk) OR (ucast v AND msk))"

fun fw_req_step :: "event \<Rightarrow> u16 \<Rightarrow> u16" where
  "fw_req_step (MmioWr b i v) old = (if i = req_index then fw_masked_write old v else old)"
| "fw_req_step _ old = old"

definition fw_req :: "event list \<Rightarrow> u16" where
  "fw_req tr = fold fw_req_step tr 0"

fun fw_neutral :: "event \<Rightarrow> bool" where
  "fw_neutral (MmioWr b i v) = (i \<noteq> req_index)"
| "fw_neutral _ = True"

lemma fw_neutral_step: "fw_neutral e \<Longrightarrow> fw_req_step e x = x"
  by (cases e) auto

lemma fw_req_neutral: "list_all fw_neutral es \<Longrightarrow> fw_req (tr @ es) = fw_req tr"
proof -
  assume "list_all fw_neutral es"
  then have "fold fw_req_step es x = x" for x
    by (induction es arbitrary: x) (auto simp: fw_neutral_step)
  then show ?thesis by (simp add: fw_req_def)
qed

lemma fw_masked_write_bit0:
  "fw_masked_write x 0x00010001 = x OR 1" "fw_masked_write x 0x00010000 = x AND NOT 1"
proof -
  have "(x AND NOT 1) OR 1 = x OR 1"
    by (rule bit_word_eqI) (auto simp: bit_simps)
  then show "fw_masked_write x 0x00010001 = x OR 1" "fw_masked_write x 0x00010000 = x AND NOT 1"
    by (simp_all add: fw_masked_write_def Let_def)
qed

lemma fw_req_request:
  "fw_req (tr @ [MmioWr b req_index 0x00010001, SyncIO]) = fw_req tr OR 1"
  "fw_req (tr @ [MmioWr b req_index 0x00010000, SyncIO]) = fw_req tr AND NOT 1"
  by (simp_all add: fw_req_def fw_masked_write_bit0)

section \<open>The guard as a whole\<close>

definition fw_enabled :: "XeBootFlags \<Rightarrow> bool" where
  "fw_enabled f \<longleftrightarrow> \<not> disableForcewake f \<and> \<not> strictSafe f"

text \<open>The history at the first poll of a guard constructed after history \<open>h\<close>.\<close>

definition fw_start_hist :: "u64 \<Rightarrow> event list \<Rightarrow> event list" where
  "fw_start_hist b h = h @ [Log ForcewakeGuard_hpp 76 [], MmioWr b req_index 0x00010001, SyncIO]"

lemma ctor_enabled:
  assumes "b \<noteq> 0" and "fw_enabled (gXeBoot w)"
  shows "run_state (ForcewakeGuard_ctor K b) w =
    run_state (ForcewakeGuard_poll K \<lparr>fw_m = b, acquired = False\<rparr> 0 maxIterations)
      (w\<lparr>trace := fw_start_hist b (trace w)\<rparr>)"
proof -
  have "\<not> FORCEWAKE_REQ > kForcewakeMaxOffset" "\<not> FORCEWAKE_ACK > kForcewakeMaxOffset"
    by (simp_all add: hw_consts)
  with assms show ?thesis
    by (simp add: ForcewakeGuard_ctor_def ForcewakeGuard_acquire_def fw_enabled_def fw_wr_run
        fw_start_hist_def Let_def)
qed

lemma ctor_disabled:
  assumes "b = 0 \<or> \<not> fw_enabled (gXeBoot w)"
  shows "\<exists>l. run_state (ForcewakeGuard_ctor K b) w =
    (\<lparr>fw_m = b, acquired = False\<rparr>, w\<lparr>trace := trace w @ [Log ForcewakeGuard_hpp l []]\<rparr>)"
  using assms by (auto simp: ForcewakeGuard_ctor_def fw_enabled_def Let_def)

lemma poll_neutral: "fw_m g \<noteq> 0 \<Longrightarrow> safe I fw_neutral (ForcewakeGuard_poll K g i n)"
proof (induction n arbitrary: i)
  case 0
  show ?case by (auto intro!: safe_rules)
next
  case (Suc n)
  have "safe I fw_neutral (ForcewakeGuard_rd K g FORCEWAKE_ACK)"
    by (rule fw.rd_safe) simp_all
  with Suc show ?case by (auto intro!: safe_rules)
qed

lemma dtor_run:
  "run_state (ForcewakeGuard_dtor g) w = ((), if acquired g \<and> fw_m g \<noteq> 0
     then w\<lparr>trace := trace w @ [Log ForcewakeGuard_hpp 113 [], MmioWr (fw_m g) req_index 0x00010000,
       SyncIO, Log ForcewakeGuard_hpp 119 []]\<rparr>
     else w)"
  by (simp add: ForcewakeGuard_dtor_def ForcewakeGuard_release_def fw_wr_run)

lemma fw_req_log: "fw_req (tr @ [Log f l a]) = fw_req tr"
  by (simp add: fw_req_def)

lemma ctor_summary:
  assumes "b \<noteq> 0" and "fw_enabled (gXeBoot w)" and "run_state (ForcewakeGuard_ctor K b) w = (g, w')"
  shows "fw_m g = b" and "acquired g \<longleftrightarrow> acked_within K b (fw_start_hist b (trace w)) maxIterations"
    and "fw_req (trace w') = fw_req (trace w) OR 1"
    and "gXeBoot w' = gXeBoot w" and "svc w' = svc w"
proof -
  let ?g = "\<lparr>fw_m = b, acquired = False\<rparr>"
  let ?w = "w\<lparr>trace := fw_start_hist b (trace w)\<rparr>"
  from assms have run: "run_state (ForcewakeGuard_poll K ?g 0 maxIterations) ?w = (g, w')"
    by (simp add: ctor_enabled)
  show "fw_m g = b" using poll_guard [of ?g K 0 maxIterations ?w] assms(1) run by simp
  show "acquired g \<longleftrightarrow> acked_within K b (fw_start_hist b (trace w)) maxIterations"
    using poll_outcome [of ?g K 0 maxIterations ?w] assms(1) run by simp
  have "safe (\<lambda>B S. B = gXeBoot w \<and> S = svc w) fw_neutral (ForcewakeGuard_poll K ?g 0 maxIterations)"
    using assms(1) by (intro poll_neutral) simp
  from safeE [OF this _ run] obtain es where es: "trace w' = fw_start_hist b (trace w) @ es"
      "list_all fw_neutral es" and keep: "gXeBoot w' = gXeBoot w" "svc w' = svc w"
    by auto
  show "gXeBoot w' = gXeBoot w" "svc w' = svc w" by (fact keep)+
  have "fw_req (fw_start_hist b (trace w)) = fw_req (trace w) OR 1"
    using fw_req_request(1) [of "trace w @ [Log ForcewakeGuard_hpp 76 []]" b]
    by (simp add: fw_start_hist_def fw_req_log)
  with es show "fw_req (trace w') = fw_req (trace w) OR 1"
    by (simp add: fw_req_neutral)
qed

lemma ctor_ptr:
  assumes "run_state (ForcewakeGuard_ctor K b) w = (g, w')"
  shows "fw_m g = b"
proof (cases "b = 0 \<or> \<not> fw_enabled (gXeBoot w)")
  case True
  with ctor_disabled [OF this, of K] assms show ?thesis by auto
next
  case False
  with ctor_summary(1) [OF _ _ assms] show ?thesis by blast
qed

lemma scope_request:
  assumes "b \<noteq> 0" and "fw_enabled (gXeBoot w)"
    and "\<And>g. safe (\<lambda>_ _. True) fw_neutral (body g)"
    and "run_state (ForcewakeGuard_scope K b body) w = (r, w')"
  shows "fw_req (trace w') =
    (if acked_within K b (fw_start_hist b (trace w)) maxIterations
     then fw_req (trace w) AND NOT 1 else fw_req (trace w) OR 1)"
proof -
  obtain g w1 where 1: "run_state (ForcewakeGuard_ctor K b) w = (g, w1)" by (rule prod.exhaust)
  note c = ctor_summary [OF assms(1,2) 1]
  obtain r' w2 where 2: "run_state (body g) w1 = (r', w2)" by (rule prod.exhaust)
  from safeE [OF assms(3) _ 2] obtain es where es: "trace w2 = trace w1 @ es" "list_all fw_neutral es"
    by auto
  from assms(4) have w': "w' = snd (run_state (ForcewakeGuard_dtor g) w2)"
    using 1 2 by (auto simp: ForcewakeGuard_scope_def split: prod.splits)
  have r2: "fw_req (trace w2) = fw_req (trace w) OR 1"
    using es c(3) by (simp add: fw_req_neutral)
  show ?thesis
  proof (cases "acquired g")
    case True
    have "fw_req (trace w') = fw_req (trace w2) AND NOT 1"
      using True c(1) assms(1) by (simp add: w' dtor_run fw_req_def fw_masked_write_bit0)
    also have "\<dots> = fw_req (trace w) AND NOT 1"
      unfolding r2 by (rule bit_word_eqI) (auto simp: bit_simps)
    finally show ?thesis using True c(2) by simp
  next
    case False
    with c(2) r2 show ?thesis by (simp add: w' dtor_run)
  qed
qed

text \<open>
  C16. A block guarded by a \<open>ForcewakeGuard\<close> whose body leaves the request register alone
  ends with the GT request withdrawn exactly when the guard acquired forcewake, that is,
  when the device raised the acknowledge bit within 50 polls. On a timeout (or a sentinel
  value) the request bit set by the constructor stays set after the block. No other
  request bit changes.
\<close>

theorem forcewake_scope_request:
  assumes "b \<noteq> 0" and "fw_enabled (gXeBoot w)"
    and "\<And>g. safe (\<lambda>_ _. True) fw_neutral (body g)"
    and "run_state (ForcewakeGuard_scope K b body) w = (r, w')"
  shows "fw_req (trace w') =
    (if acked_within K b (fw_start_hist b (trace w)) maxIterations
     then fw_req (trace w) AND NOT 1 else fw_req (trace w) OR 1)"
  using assms by (rule scope_request)

text \<open>A device whose acknowledge register mirrors the request bit.\<close>

definition ack_device :: "event list \<Rightarrow> u32 \<Rightarrow> u32" where
  "ack_device h i = (if i = ack_index \<and> bit (fw_req h) 0 then 1 else 0)"

theorem forcewake_scope_request_witness:
  "fw_req (trace (snd (run_state
     (ForcewakeGuard_scope (kernel_ok\<lparr>gpu := ack_device\<rparr>) 0x1000 (\<lambda>_. skip)) init_world))) = 0"
proof -
  let ?K = "kernel_ok\<lparr>gpu := ack_device\<rparr>"
  have "acked_within ?K 0x1000 (fw_start_hist 0x1000 []) maxIterations"
    unfolding acked_within_def
    by (rule exI [of _ 0])
      (simp add: maxIterations_def fw_ack_def ack_device_def fw_start_hist_def fw_req_def
        fw_masked_write_bit0 ack_valid_def)
  moreover have "fw_enabled (gXeBoot init_world)" "trace init_world = []"
    by (simp_all add: init_world_def XeBootFlags_init_def fw_enabled_def)
  ultimately show ?thesis
    using forcewake_scope_request [where b = "0x1000" and w = init_world and body = "\<lambda>_. skip" and K = ?K]
    by (cases "run_state (ForcewakeGuard_scope ?K 0x1000 (\<lambda>_. skip)) init_world")
      (simp add: safe_skip fw_req_def)
qed

text \<open>
  A device that never acknowledges: the guard gives up and the request stays asserted.
\<close>

lemma forcewake_timeout_leaks_request:
  "fw_req (trace (snd (run_state (ForcewakeGuard_scope kernel_ok 0x1000 (\<lambda>_. skip)) init_world))) = 1"
proof -
  obtain g w1 where 1: "run_state (ForcewakeGuard_ctor kernel_ok 0x1000) init_world = (g, w1)" by (rule prod.exhaust)
  have e: "fw_enabled (gXeBoot init_world)" "trace init_world = []"
    by (simp_all add: init_world_def XeBootFlags_init_def fw_enabled_def)
  have "\<not> acked_within kernel_ok 0x1000 (fw_start_hist 0x1000 []) maxIterations"
    by (simp add: acked_within_def fw_ack_def kernel_ok_def)
  with ctor_summary [OF _ e(1) 1] e(2) 1 show ?thesis
    by (simp add: ForcewakeGuard_scope_def dtor_run fw_req_def)
qed

text \<open>
  C17. Whatever the device answers, the constructor returns after at most 50 reads of the
  acknowledge register and at most 50 milliseconds of delay, and it touches no register
  but the request and acknowledge registers.
\<close>

theorem forcewake_ctor_bounded:
  "\<exists>g w' es. run_state (ForcewakeGuard_ctor K b) w = (g, w') \<and> trace w' = trace w @ es \<and>
     list_all (fw_event b) es \<and> length (filter is_mmio_rd es) \<le> 50 \<and>
     sum_list (map delay_us es) \<le> 50000"
proof -
  obtain g w' where run: "run_state (ForcewakeGuard_ctor K b) w = (g, w')" by (rule prod.exhaust)
  from safeE [OF ctor_safe [of "\<lambda>_ _. True"] _ run] obtain es
    where es: "trace w' = trace w @ es" "list_all (fw_event b) es" by auto
  have "length (filter is_mmio_rd es) \<le> 50 \<and> sum_list (map delay_us es) \<le> 50000"
  proof (cases "b = 0 \<or> \<not> fw_enabled (gXeBoot w)")
    case True
    from ctor_disabled [OF this, of K] run es show ?thesis by auto
  next
    case False
    then have "run_state (ForcewakeGuard_poll K \<lparr>fw_m = b, acquired = False\<rparr> 0 maxIterations)
        (w\<lparr>trace := fw_start_hist b (trace w)\<rparr>) = (g, w')"
      using run by (simp add: ctor_enabled)
    from poll_cost [OF _ this] False obtain es' where
      "trace w' = fw_start_hist b (trace w) @ es'" "sum_list (map delay_us es') \<le> 1000 * maxIterations"
      "length (filter is_mmio_rd es') \<le> maxIterations" by auto
    with es(1) show ?thesis by (auto simp: fw_start_hist_def maxIterations_def)
  qed
  with run es show ?thesis by blast
qed

lemma scope_disabled:
  assumes "b = 0 \<or> \<not> fw_enabled (gXeBoot w)"
  obtains l where "run_state (ForcewakeGuard_scope K b body) w =
    run_state (body \<lparr>fw_m = b, acquired = False\<rparr>)
      (w\<lparr>trace := trace w @ [Log ForcewakeGuard_hpp l []]\<rparr>)"
proof -
  from ctor_disabled [OF assms, of K] obtain l where
    "run_state (ForcewakeGuard_ctor K b) w =
      (\<lparr>fw_m = b, acquired = False\<rparr>, w\<lparr>trace := trace w @ [Log ForcewakeGuard_hpp l []]\<rparr>)" ..
  then show ?thesis
    by (intro that [of l]) (auto simp: ForcewakeGuard_scope_def dtor_run split: prod.splits)
qed

text \<open>
  With forcewake disabled by a boot flag, or with a null base pointer, a guarded block
  adds only log lines around its body: the guard reads and writes no register at all.
\<close>

lemma forcewake_disabled_no_access:
  assumes "b = 0 \<or> \<not> fw_enabled (gXeBoot w)"
  shows "\<exists>l. run_state (ForcewakeGuard_scope K b body) w =
    run_state (body \<lparr>fw_m = b, acquired = False\<rparr>)
      (w\<lparr>trace := trace w @ [Log ForcewakeGuard_hpp l []]\<rparr>)"
  using scope_disabled [OF assms] by metis

lemma forcewake_disabled_no_access_witness:
  "\<exists>l. run_state (ForcewakeGuard_scope kernel_ok 0x1000 (\<lambda>g. ret (acquired g)))
     (init_world\<lparr>gXeBoot := XeBootFlags_init\<lparr>strictSafe := True\<rparr>\<rparr>) =
     (False, init_world\<lparr>gXeBoot := XeBootFlags_init\<lparr>strictSafe := True\<rparr>,
        trace := [Log ForcewakeGuard_hpp l []]\<rparr>)"
  using forcewake_disabled_no_access [where b = "0x1000" and K = kernel_ok and
      w = "init_world\<lparr>gXeBoot := XeBootFlags_init\<lparr>strictSafe := True\<rparr>\<rparr>" and
      body = "\<lambda>g. ret (acquired g)"]
  by (simp add: fw_enabled_def init_world_def)

end
