(* ===== verification/CommandStream.thy ===== *)
theory CommandStream
  imports Forcewake
begin

text \<open>
  \<^verbatim>\<open>src/kexts/XeCommandStream.cpp\<close> and \<^verbatim>\<open>.hpp\<close>: reading the render ring's state under
  forcewake, and preparing (not executing) a batch of three no-ops. The lemmas give the
  return code of \<open>submitNoop\<close> on every branch, the batch it leaves in the buffer and that
  it stays inside it, and the registers the two operations touch.
\<close>

section \<open>Operations\<close>

text \<open>An \<open>XeCommandStream\<close> is its base pointer.\<close>

record XeCommandStream =
  cs_m :: u64

definition XeCommandStream_ctor :: "u64 \<Rightarrow> XeCommandStream" where
  "XeCommandStream_ctor base = \<lparr>cs_m = base\<rparr>"

definition XeCommandStream_valid :: "XeCommandStream \<Rightarrow> bool" where
  "XeCommandStream_valid cs \<longleftrightarrow> cs_m cs \<noteq> 0"

text \<open>The private accessors of the class, which no method calls: they check for null only.\<close>

definition XeCommandStream_rd :: "kernel_env \<Rightarrow> XeCommandStream \<Rightarrow> u32 \<Rightarrow> u32 io" where
  "XeCommandStream_rd K cs off = (if cs_m cs \<noteq> 0 then mmio_load K (cs_m cs) (drop_bit 2 off) else ret 0)"

definition XeCommandStream_wr :: "XeCommandStream \<Rightarrow> u32 \<Rightarrow> u32 \<Rightarrow> unit io" where
  "XeCommandStream_wr cs off v =
     (if cs_m cs \<noteq> 0 then do { mmio_store (cs_m cs) (drop_bit 2 off) v; OSSynchronizeIO } else skip)"

definition kCSMaxOffset :: u32 where
  [hw_consts]: "kCSMaxOffset = 0x00FFFFFF"

definition safeRd :: "kernel_env \<Rightarrow> u64 \<Rightarrow> u32 \<Rightarrow> u32 io" where
  "safeRd K base off =
     (if base = 0 then ret 0xDEADBEEF
      else if off > kCSMaxOffset then ret 0xBAD0FFFF
      else mmio_load K base (drop_bit 2 off))"

text \<open>The part of \<^verbatim>\<open>logRcs0State\<close> that runs while the guard is alive.\<close>

definition logRcs0State_guarded :: "kernel_env \<Rightarrow> u64 \<Rightarrow> ForcewakeGuard \<Rightarrow> unit io" where
  "logRcs0State_guarded K base g = do {
     (if \<not> acquired g then do {
        f \<leftarrow> gets gXeBoot;
        (if disableForcewake f then XeLog XeCommandStream_cpp 42 []
         else XeLog XeCommandStream_cpp 44 []) }
      else skip);
     XeLog XeCommandStream_cpp 49 [];
     ringHead \<leftarrow> safeRd K base RCS0_RING_HEAD;
     ringTail \<leftarrow> safeRd K base RCS0_RING_TAIL;
     ringCtl \<leftarrow> safeRd K base RCS0_RING_CTL;
     (if ringHead = 0xDEADBEEF \<or> ringTail = 0xDEADBEEF \<or> ringCtl = 0xDEADBEEF
      then XeLog XeCommandStream_cpp 57 []
      else if ringHead = 0xBAD0FFFF \<or> ringTail = 0xBAD0FFFF \<or> ringCtl = 0xBAD0FFFF
      then XeLog XeCommandStream_cpp 61 []
      else do {
        XeLog XeCommandStream_cpp 65 [LU32 ringHead, LU32 ringTail, LU32 ringCtl];
        (if RCS0_MI_MODE \<le> kCSMaxOffset \<and> GFX_MODE \<le> kCSMaxOffset then do {
           miMode \<leftarrow> safeRd K base RCS0_MI_MODE;
           gfxMode \<leftarrow> safeRd K base GFX_MODE;
           XeLog XeCommandStream_cpp 72 [LU32 miMode, LU32 gfxMode] }
         else skip);
        let ringEnabled = (ringCtl AND push_bit 0 1 \<noteq> 0);
        let ringSize = drop_bit 12 ringCtl AND 0x1FF;
        XeLog XeCommandStream_cpp 78 [LStr (if ringEnabled then ''ENABLED'' else ''DISABLED''), LU32 ringSize];
        XeLog XeCommandStream_cpp 81 [] }) }"

definition logRcs0State :: "kernel_env \<Rightarrow> XeCommandStream \<Rightarrow> unit io" where
  "logRcs0State K cs = do {
     XeLog XeCommandStream_cpp 16 [];
     (if cs_m cs = 0 then XeLog XeCommandStream_cpp 19 []
      else do {
        f \<leftarrow> gets gXeBoot;
        (if disableCommandStream f \<or> strictSafe f then XeLog XeCommandStream_cpp 24 []
         else if RCS0_RING_HEAD > kCSMaxOffset \<or> RCS0_RING_TAIL > kCSMaxOffset \<or> RCS0_RING_CTL > kCSMaxOffset
         then XeLog XeCommandStream_cpp 32 []
         else do {
           XeLog XeCommandStream_cpp 37 [];
           ForcewakeGuard_scope K (cs_m cs) (logRcs0State_guarded K (cs_m cs)) }) }) }"

text \<open>
  \<^verbatim>\<open>submitNoop\<close>; the buffer argument is \<open>None\<close> for a null pointer. The values logged at
  line 128 are read back from the dwords just stored.
\<close>

definition submitNoop :: "kernel_env \<Rightarrow> XeCommandStream \<Rightarrow> BufferMD option \<Rightarrow> u32 io" where
  "submitNoop K cs bo = do {
     XeLog XeCommandStream_cpp 85 [];
     (if cs_m cs = 0 then do { XeLog XeCommandStream_cpp 89 []; ret kIOReturnNotReady }
      else (case bo of
        None \<Rightarrow> do { XeLog XeCommandStream_cpp 94 []; ret kIOReturnBadArgument }
      | Some md \<Rightarrow> do {
          f \<leftarrow> gets gXeBoot;
          (if disableCommandStream f \<or> strictSafe f
           then do { XeLog XeCommandStream_cpp 99 []; ret kIOReturnNotReady }
           else if md_addr md = 0
           then do { XeLog XeCommandStream_cpp 106 []; ret kIOReturnNoMemory }
           else if md_len md < 16
           then do { XeLog XeCommandStream_cpp 113 [LU64 (md_len md)]; ret kIOReturnNoSpace }
           else do {
             XeLog XeCommandStream_cpp 118 [LU64 (md_addr md), LU64 (md_len md)];
             emit (BufWr (md_obj md) 0 MI_NOOP);
             emit (BufWr (md_obj md) 1 MI_NOOP);
             emit (BufWr (md_obj md) 2 MI_NOOP);
             emit (BufWr (md_obj md) 3 MI_BATCH_BUFFER_END);
             OSSynchronizeIO;
             XeLog XeCommandStream_cpp 128 [LU32 MI_NOOP, LU32 MI_NOOP, LU32 MI_NOOP, LU32 MI_BATCH_BUFFER_END];
             XeLog XeCommandStream_cpp 132 [];
             logRcs0State K cs;
             XeLog XeCommandStream_cpp 139 [];
             ret kIOReturnSuccess }) })) }"

section \<open>The ring's register read meets the reader contract\<close>

interpretation sr: guarded_reader K "safeRd K base" "\<lambda>_. base" "\<lambda>_. 0x1000000"
  for K base
  by unfold_locales
    (auto simp: safeRd_def hw_consts word_less_nat_alt intro: exI [of _ "[]"])

lemma safeRd_run:
  assumes "base \<noteq> 0" and "off \<le> 0xFFFFFF"
  shows "run_state (safeRd K base off) w =
    (gpu K (trace w) (drop_bit 2 off),
     w\<lparr>trace := trace w @ [MmioRd base (drop_bit 2 off) (gpu K (trace w) (drop_bit 2 off))]\<rparr>)"
  using assms by (simp add: safeRd_def hw_consts flip: not_less)

section \<open>Footprint\<close>

definition ring_regs :: "u32 set" where
  "ring_regs = drop_bit 2 ` {RCS0_RING_HEAD, RCS0_RING_TAIL, RCS0_RING_CTL, RCS0_MI_MODE, GFX_MODE}"

text \<open>Events of the ring dump on base pointer \<open>b\<close>, without and with those of its guard.\<close>

fun ring_read_event :: "u64 \<Rightarrow> event \<Rightarrow> bool" where
  "ring_read_event b (MmioRd p i v) = (p = b \<and> i \<in> ring_regs)"
| "ring_read_event b (Log f l a) = (f = XeCommandStream_cpp)"
| "ring_read_event b SyncIO = True"
| "ring_read_event b e = False"

definition ring_event :: "u64 \<Rightarrow> event \<Rightarrow> bool" where
  "ring_event b e \<longleftrightarrow> ring_read_event b e \<or> fw_event b e"

lemma safeRd_safe:
  assumes "drop_bit 2 off \<in> ring_regs"
  shows "safe I (ring_read_event base) (safeRd K base off)"
  using assms by (intro sr.rd_safe) simp_all

lemma guarded_safe: "safe I (ring_read_event base) (logRcs0State_guarded K base g)"
  unfolding logRcs0State_guarded_def Let_def
  by (intro safe_rules safeRd_safe) (simp_all add: ring_regs_def)

lemma guarded_neutral: "safe I fw_neutral (logRcs0State_guarded K base g)"
  by (rule safe_weaken [OF guarded_safe]) (auto elim!: ring_read_event.elims)

lemma scope_safe:
  assumes "\<And>g. safe I P (body g)" and "\<And>e. fw_event b e \<Longrightarrow> P e"
  shows "safe I P (ForcewakeGuard_scope K b body)"
proof (rule safeI)
  fix w a w'
  assume I: "I (gXeBoot w) (svc w)" and run: "run_state (ForcewakeGuard_scope K b body) w = (a, w')"
  obtain g w1 where 1: "run_state (ForcewakeGuard_ctor K b) w = (g, w1)" by (rule prod.exhaust)
  obtain r w2 where 2: "run_state (body g) w1 = (r, w2)" by (rule prod.exhaust)
  obtain u w3 where 3: "run_state (ForcewakeGuard_dtor g) w2 = (u, w3)" by (rule prod.exhaust)
  from run 1 2 3 have "w3 = w'" by (simp add: ForcewakeGuard_scope_def)
  have g: "fw_m g = b" using 1 by (rule ctor_ptr)
  have "safe I P (ForcewakeGuard_ctor K b)"
    using ctor_safe by (rule safe_weaken) (rule assms(2))
  from safeE [OF this I 1] obtain es1 where
    1: "trace w1 = trace w @ es1" "list_all P es1" "I (gXeBoot w1) (svc w1)" .
  from safeE [OF assms(1) 1(3) 2] obtain es2 where
    2: "trace w2 = trace w1 @ es2" "list_all P es2" "I (gXeBoot w2) (svc w2)" .
  have "safe I P (ForcewakeGuard_dtor g)"
    using dtor_safe by (rule safe_weaken) (simp add: g assms(2))
  from safeE [OF this 2(3) 3] obtain es3 where
    "trace w3 = trace w2 @ es3" "list_all P es3" "I (gXeBoot w3) (svc w3)" .
  with 1 2 \<open>w3 = w'\<close> show "I (gXeBoot w') (svc w') \<and> (\<exists>es. trace w' = trace w @ es \<and> list_all P es)"
    by auto
qed

lemma logRcs0State_safe: "safe I (ring_event (cs_m cs)) (logRcs0State K cs)"
  unfolding logRcs0State_def
  by (intro safe_rules scope_safe safe_weaken [OF guarded_safe])
    (simp_all add: ring_event_def)

lemma logRcs0State_off:
  assumes "disableCommandStream (gXeBoot w) \<or> strictSafe (gXeBoot w)"
  shows "\<exists>l. run_state (logRcs0State K cs) w =
    ((), w\<lparr>trace := trace w @ [Log XeCommandStream_cpp 16 [], Log XeCommandStream_cpp l []]\<rparr>)"
  using assms by (auto simp: logRcs0State_def)

section \<open>Submission\<close>

text \<open>
  The return code of \<open>submitNoop\<close> on every branch, in the order of the checks: a null
  device pointer, a null buffer, the disabling boot flags, an unmapped buffer, a buffer
  below 16 bytes; otherwise success.
\<close>

theorem submitNoop_result:
  "fst (run_state (submitNoop K cs bo) w) =
   (if cs_m cs = 0 then kIOReturnNotReady
    else case bo of
      None \<Rightarrow> kIOReturnBadArgument
    | Some md \<Rightarrow>
        if disableCommandStream (gXeBoot w) \<or> strictSafe (gXeBoot w) then kIOReturnNotReady
        else if md_addr md = 0 then kIOReturnNoMemory
        else if md_len md < 16 then kIOReturnNoSpace
        else kIOReturnSuccess)"
  by (auto simp: submitNoop_def split: option.splits prod.splits)

fun buf_store :: "event \<Rightarrow> (obj \<times> nat \<times> u32) option" where
  "buf_store (BufWr b i v) = Some (b, i, v)"
| "buf_store _ = None"

lemma no_buf_stores: "list_all (ring_event b) es \<Longrightarrow> List.map_filter buf_store es = []"
  by (induction es) (auto simp: ring_event_def map_filter_simps elim!: ring_read_event.elims fw_event.elims)

text \<open>
  C18. A successful \<open>submitNoop\<close> stores exactly the four dwords no-op, no-op, no-op,
  batch-end, in this order, at the start of the caller's buffer and inside its length; an
  unsuccessful one stores nothing and does not touch the device.
\<close>

theorem submitNoop_batch:
  assumes "run_state (submitNoop K cs (Some md)) w = (kr, w')"
  shows "\<exists>es. trace w' = trace w @ es \<and>
    (if kr = kIOReturnSuccess
     then 4 * 4 \<le> unat (md_len md) \<and>
       List.map_filter buf_store es =
         [(md_obj md, 0, MI_NOOP), (md_obj md, 1, MI_NOOP), (md_obj md, 2, MI_NOOP),
          (md_obj md, 3, MI_BATCH_BUFFER_END)]
     else list_all (\<lambda>e. \<exists>l a. e = Log XeCommandStream_cpp l a) es)"
proof -
  have codes: "kIOReturnNotReady \<noteq> kIOReturnSuccess" "kIOReturnNoMemory \<noteq> kIOReturnSuccess"
      "kIOReturnNoSpace \<noteq> kIOReturnSuccess"
    by (simp_all add: codes code_layout)
  show ?thesis
  proof (cases "cs_m cs = 0 \<or> disableCommandStream (gXeBoot w) \<or> strictSafe (gXeBoot w) \<or>
      md_addr md = 0 \<or> md_len md < 16")
    case True
    with assms codes show ?thesis
      by (auto simp: submitNoop_def split: if_splits)
  next
    case False
    let ?h = "trace w @ [Log XeCommandStream_cpp 85 [],
        Log XeCommandStream_cpp 118 [LU64 (md_addr md), LU64 (md_len md)],
        BufWr (md_obj md) 0 MI_NOOP, BufWr (md_obj md) 1 MI_NOOP, BufWr (md_obj md) 2 MI_NOOP,
        BufWr (md_obj md) 3 MI_BATCH_BUFFER_END, SyncIO,
        Log XeCommandStream_cpp 128 [LU32 MI_NOOP, LU32 MI_NOOP, LU32 MI_NOOP, LU32 MI_BATCH_BUFFER_END],
        Log XeCommandStream_cpp 132 []]"
    obtain u w1 where l: "run_state (logRcs0State K cs) (w\<lparr>trace := ?h\<rparr>) = (u, w1)" by (rule prod.exhaust)
    from safeE [OF logRcs0State_safe [of "\<lambda>_ _. True"] _ l] obtain es where
      es: "trace w1 = ?h @ es" "list_all (ring_event (cs_m cs)) es" by auto
    from False assms l have "kr = kIOReturnSuccess" "trace w' = trace w1 @ [Log XeCommandStream_cpp 139 []]"
      by (auto simp: submitNoop_def)
    moreover have "16 \<le> unat (md_len md)"
      using False by (simp add: not_less word_le_nat_alt)
    ultimately show ?thesis
      using es no_buf_stores [OF es(2)] by (auto simp: map_filter_simps List.map_filter_def)
  qed
qed

theorem submitNoop_batch_witness:
  "\<exists>es. trace (snd (run_state (submitNoop kernel_ok \<lparr>cs_m = 0x1000\<rparr>
       (Some \<lparr>md_obj = 7, md_addr = 0x2000, md_len = 4096\<rparr>)) init_world)) = es \<and>
     List.map_filter buf_store es =
       [(7, 0, 0), (7, 1, 0), (7, 2, 0), (7, 3, 0x0A000000)]"
proof -
  let ?cs = "\<lparr>cs_m = 0x1000\<rparr>" and ?md = "\<lparr>md_obj = 7, md_addr = 0x2000, md_len = 4096\<rparr>"
  obtain kr w' where run: "run_state (submitNoop kernel_ok ?cs (Some ?md)) init_world = (kr, w')"
    by (rule prod.exhaust)
  then have "kr = kIOReturnSuccess"
    by (auto simp: submitNoop_def init_world_def XeBootFlags_init_def split: prod.splits)
  with submitNoop_batch [OF run] run show ?thesis
    by (auto simp: init_world_def MI_NOOP_def MI_BATCH_BUFFER_END_def)
qed

section \<open>Forcewake around the ring dump\<close>

text \<open>
  C19. The ring dump runs its register reads under a forcewake guard and releases it on each
  of its exits: when the device acknowledges within 50 polls, the GT request bit is clear
  after the dump, whatever the ring registers read; when it does not, the bit is left set.
\<close>

theorem logRcs0State_forcewake:
  assumes "cs_m cs \<noteq> 0" and "fw_enabled (gXeBoot w)" and "\<not> disableCommandStream (gXeBoot w)"
    and "h = trace w @ [Log XeCommandStream_cpp 16 [], Log XeCommandStream_cpp 37 []]"
  shows "fw_req (trace (snd (run_state (logRcs0State K cs) w))) =
    (if acked_within K (cs_m cs) (fw_start_hist (cs_m cs) h) maxIterations
     then fw_req (trace w) AND NOT 1 else fw_req (trace w) OR 1)"
proof -
  obtain r w' where run: "run_state (ForcewakeGuard_scope K (cs_m cs)
      (logRcs0State_guarded K (cs_m cs))) (w\<lparr>trace := h\<rparr>) = (r, w')"
    by (rule prod.exhaust)
  have r: "\<not> RCS0_RING_HEAD > kCSMaxOffset" "\<not> RCS0_RING_TAIL > kCSMaxOffset"
      "\<not> RCS0_RING_CTL > kCSMaxOffset"
    by (simp_all add: hw_consts)
  have "run_state (logRcs0State K cs) w = (r, w')"
    using assms r run by (simp add: logRcs0State_def fw_enabled_def)
  moreover have "fw_req h = fw_req (trace w)"
    by (simp add: assms(4) fw_req_def)
  ultimately show ?thesis
    using scope_request [OF assms(1) _ guarded_neutral run] assms(2) by simp
qed

theorem logRcs0State_forcewake_witness:
  "fw_req (trace (snd (run_state (logRcs0State (kernel_ok\<lparr>gpu := ack_device\<rparr>) \<lparr>cs_m = 0x1000\<rparr>) init_world))) = 0"
proof -
  let ?K = "kernel_ok\<lparr>gpu := ack_device\<rparr>" and ?cs = "\<lparr>cs_m = 0x1000\<rparr>"
  let ?h = "[Log XeCommandStream_cpp 16 [], Log XeCommandStream_cpp 37 []]"
  have "acked_within ?K 0x1000 (fw_start_hist 0x1000 ?h) maxIterations"
    unfolding acked_within_def
    by (rule exI [of _ 0])
      (simp add: maxIterations_def fw_ack_def ack_device_def fw_start_hist_def fw_req_def
        fw_masked_write_bit0 ack_valid_def)
  moreover have "fw_enabled (gXeBoot init_world)" "\<not> disableCommandStream (gXeBoot init_world)"
      "trace init_world = []"
    by (simp_all add: init_world_def XeBootFlags_init_def fw_enabled_def)
  ultimately show ?thesis
    using logRcs0State_forcewake [where cs = ?cs and w = init_world and h = ?h and K = ?K]
    by (simp add: fw_req_def)
qed

end
