(* ===== verification/PciConfig.thy ===== *)
theory PciConfig
  imports XePrelude
begin

text \<open>
  PCI definitions the driver uses, from \<^verbatim>\<open>IOKit/pci/IOPCIFamilyDefinitions.h\<close> and
  \<^verbatim>\<open>IOKit/pci/IOPCIDevice.h\<close> of the kernel SDK: the offsets of the configuration header
  and the packed address \<open>IOPCIAddressSpace\<close> with its two views. Shown: the header fields
  do not overlap and fit in the 64-byte header; packing and unpacking an address are
  inverse.
\<close>

section \<open>Configuration header\<close>

definition kIOPCIConfigurationOffsetVendorID :: u8 where
  [hw_consts]: "kIOPCIConfigurationOffsetVendorID = 0x00"

definition kIOPCIConfigVendorID :: u8 where
  [hw_consts]: "kIOPCIConfigVendorID = kIOPCIConfigurationOffsetVendorID"

definition kIOPCIConfigurationOffsetDeviceID :: u8 where
  [hw_consts]: "kIOPCIConfigurationOffsetDeviceID = 0x02"

definition kIOPCIConfigDeviceID :: u8 where
  [hw_consts]: "kIOPCIConfigDeviceID = kIOPCIConfigurationOffsetDeviceID"

definition kIOPCIConfigurationOffsetCommand :: u8 where
  [hw_consts]: "kIOPCIConfigurationOffsetCommand = 0x04"

definition kIOPCIConfigCommand :: u8 where
  [hw_consts]: "kIOPCIConfigCommand = kIOPCIConfigurationOffsetCommand"

definition kIOPCIConfigurationOffsetStatus :: u8 where
  [hw_consts]: "kIOPCIConfigurationOffsetStatus = 0x06"

definition kIOPCIConfigStatus :: u8 where
  [hw_consts]: "kIOPCIConfigStatus = kIOPCIConfigurationOffsetStatus"

definition kIOPCIConfigurationOffsetRevisionID :: u8 where
  [hw_consts]: "kIOPCIConfigurationOffsetRevisionID = 0x08"

definition kIOPCIConfigRevisionID :: u8 where
  [hw_consts]: "kIOPCIConfigRevisionID = kIOPCIConfigurationOffsetRevisionID"

definition kIOPCIConfigurationOffsetClassCode :: u8 where
  [hw_consts]: "kIOPCIConfigurationOffsetClassCode = 0x09"

definition kIOPCIConfigClassCode :: u8 where
  [hw_consts]: "kIOPCIConfigClassCode = kIOPCIConfigurationOffsetClassCode"

definition kIOPCIConfigurationOffsetCacheLineSize :: u8 where
  [hw_consts]: "kIOPCIConfigurationOffsetCacheLineSize = 0x0C"

definition kIOPCIConfigCacheLineSize :: u8 where
  [hw_consts]: "kIOPCIConfigCacheLineSize = kIOPCIConfigurationOffsetCacheLineSize"

definition kIOPCIConfigurationOffsetLatencyTimer :: u8 where
  [hw_consts]: "kIOPCIConfigurationOffsetLatencyTimer = 0x0D"

definition kIOPCIConfigLatencyTimer :: u8 where
  [hw_consts]: "kIOPCIConfigLatencyTimer = kIOPCIConfigurationOffsetLatencyTimer"

definition kIOPCIConfigurationOffsetHeaderType :: u8 where
  [hw_consts]: "kIOPCIConfigurationOffsetHeaderType = 0x0E"

definition kIOPCIConfigHeaderType :: u8 where
  [hw_consts]: "kIOPCIConfigHeaderType = kIOPCIConfigurationOffsetHeaderType"

definition kIOPCIConfigurationOffsetBIST :: u8 where
  [hw_consts]: "kIOPCIConfigurationOffsetBIST = 0x0F"

definition kIOPCIConfigBIST :: u8 where
  [hw_consts]: "kIOPCIConfigBIST = kIOPCIConfigurationOffsetBIST"

definition kIOPCIConfigurationOffsetBaseAddress0 :: u8 where
  [hw_consts]: "kIOPCIConfigurationOffsetBaseAddress0 = 0x10"

definition kIOPCIConfigBaseAddress0 :: u8 where
  [hw_consts]: "kIOPCIConfigBaseAddress0 = kIOPCIConfigurationOffsetBaseAddress0"

definition kIOPCIConfigurationOffsetBaseAddress1 :: u8 where
  [hw_consts]: "kIOPCIConfigurationOffsetBaseAddress1 = 0x14"

definition kIOPCIConfigBaseAddress1 :: u8 where
  [hw_consts]: "kIOPCIConfigBaseAddress1 = kIOPCIConfigurationOffsetBaseAddress1"

definition kIOPCIConfigurationOffsetBaseAddress2 :: u8 where
  [hw_consts]: "kIOPCIConfigurationOffsetBaseAddress2 = 0x18"

definition kIOPCIConfigBaseAddress2 :: u8 where
  [hw_consts]: "kIOPCIConfigBaseAddress2 = kIOPCIConfigurationOffsetBaseAddress2"

definition kIOPCIConfigurationOffsetBaseAddress3 :: u8 where
  [hw_consts]: "kIOPCIConfigurationOffsetBaseAddress3 = 0x1C"

definition kIOPCIConfigBaseAddress3 :: u8 where
  [hw_consts]: "kIOPCIConfigBaseAddress3 = kIOPCIConfigurationOffsetBaseAddress3"

definition kIOPCIConfigurationOffsetBaseAddress4 :: u8 where
  [hw_consts]: "kIOPCIConfigurationOffsetBaseAddress4 = 0x20"

definition kIOPCIConfigBaseAddress4 :: u8 where
  [hw_consts]: "kIOPCIConfigBaseAddress4 = kIOPCIConfigurationOffsetBaseAddress4"

definition kIOPCIConfigurationOffsetBaseAddress5 :: u8 where
  [hw_consts]: "kIOPCIConfigurationOffsetBaseAddress5 = 0x24"

definition kIOPCIConfigBaseAddress5 :: u8 where
  [hw_consts]: "kIOPCIConfigBaseAddress5 = kIOPCIConfigurationOffsetBaseAddress5"

definition kIOPCIConfigurationOffsetCardBusCISPtr :: u8 where
  [hw_consts]: "kIOPCIConfigurationOffsetCardBusCISPtr = 0x28"

definition kIOPCIConfigCardBusCISPtr :: u8 where
  [hw_consts]: "kIOPCIConfigCardBusCISPtr = kIOPCIConfigurationOffsetCardBusCISPtr"

definition kIOPCIConfigurationOffsetSubSystemVendorID :: u8 where
  [hw_consts]: "kIOPCIConfigurationOffsetSubSystemVendorID = 0x2C"

definition kIOPCIConfigSubSystemVendorID :: u8 where
  [hw_consts]: "kIOPCIConfigSubSystemVendorID = kIOPCIConfigurationOffsetSubSystemVendorID"

definition kIOPCIConfigurationOffsetSubSystemID :: u8 where
  [hw_consts]: "kIOPCIConfigurationOffsetSubSystemID = 0x2E"

definition kIOPCIConfigSubSystemID :: u8 where
  [hw_consts]: "kIOPCIConfigSubSystemID = kIOPCIConfigurationOffsetSubSystemID"

definition kIOPCIConfigurationOffsetExpansionROMBase :: u8 where
  [hw_consts]: "kIOPCIConfigurationOffsetExpansionROMBase = 0x30"

definition kIOPCIConfigExpansionROMBase :: u8 where
  [hw_consts]: "kIOPCIConfigExpansionROMBase = kIOPCIConfigurationOffsetExpansionROMBase"

definition kIOPCIConfigurationOffsetCapabilitiesPtr :: u8 where
  [hw_consts]: "kIOPCIConfigurationOffsetCapabilitiesPtr = 0x34"

definition kIOPCIConfigCapabilitiesPtr :: u8 where
  [hw_consts]: "kIOPCIConfigCapabilitiesPtr = kIOPCIConfigurationOffsetCapabilitiesPtr"

definition kIOPCIConfigurationOffsetInterruptLine :: u8 where
  [hw_consts]: "kIOPCIConfigurationOffsetInterruptLine = 0x3C"

definition kIOPCIConfigInterruptLine :: u8 where
  [hw_consts]: "kIOPCIConfigInterruptLine = kIOPCIConfigurationOffsetInterruptLine"

definition kIOPCIConfigurationOffsetInterruptPin :: u8 where
  [hw_consts]: "kIOPCIConfigurationOffsetInterruptPin = 0x3D"

definition kIOPCIConfigInterruptPin :: u8 where
  [hw_consts]: "kIOPCIConfigInterruptPin = kIOPCIConfigurationOffsetInterruptPin"

definition kIOPCIConfigurationOffsetMinimumGrant :: u8 where
  [hw_consts]: "kIOPCIConfigurationOffsetMinimumGrant = 0x3E"

definition kIOPCIConfigMinimumGrant :: u8 where
  [hw_consts]: "kIOPCIConfigMinimumGrant = kIOPCIConfigurationOffsetMinimumGrant"

definition kIOPCIConfigurationOffsetMaximumLatency :: u8 where
  [hw_consts]: "kIOPCIConfigurationOffsetMaximumLatency = 0x3F"

definition kIOPCIConfigMaximumLatency :: u8 where
  [hw_consts]: "kIOPCIConfigMaximumLatency = kIOPCIConfigurationOffsetMaximumLatency"

text \<open>The configuration header: offset and width in bytes of each field.\<close>

definition config_header :: "(u8 \<times> nat) list" where
  "config_header = [
    (kIOPCIConfigVendorID, 2), (kIOPCIConfigDeviceID, 2), (kIOPCIConfigCommand, 2),
    (kIOPCIConfigStatus, 2), (kIOPCIConfigRevisionID, 1), (kIOPCIConfigClassCode, 3),
    (kIOPCIConfigCacheLineSize, 1), (kIOPCIConfigLatencyTimer, 1),
    (kIOPCIConfigHeaderType, 1), (kIOPCIConfigBIST, 1), (kIOPCIConfigBaseAddress0, 4),
    (kIOPCIConfigBaseAddress1, 4), (kIOPCIConfigBaseAddress2, 4),
    (kIOPCIConfigBaseAddress3, 4), (kIOPCIConfigBaseAddress4, 4),
    (kIOPCIConfigBaseAddress5, 4), (kIOPCIConfigCardBusCISPtr, 4),
    (kIOPCIConfigSubSystemVendorID, 2), (kIOPCIConfigSubSystemID, 2),
    (kIOPCIConfigExpansionROMBase, 4), (kIOPCIConfigCapabilitiesPtr, 1),
    (kIOPCIConfigInterruptLine, 1), (kIOPCIConfigInterruptPin, 1),
    (kIOPCIConfigMinimumGrant, 1), (kIOPCIConfigMaximumLatency, 1)]"

text \<open>The fields, in the order of the header, end before the next one starts.\<close>

fun fields_disjoint :: "(u8 \<times> nat) list \<Rightarrow> bool" where
  "fields_disjoint ((o1, n1) # (o2, n2) # fs) \<longleftrightarrow>
     unat o1 + n1 \<le> unat o2 \<and> fields_disjoint ((o2, n2) # fs)"
| "fields_disjoint [(o1, n1)] \<longleftrightarrow> unat o1 + n1 \<le> 64"
| "fields_disjoint [] \<longleftrightarrow> True"

lemma config_header_disjoint: "fields_disjoint config_header"
  by (simp add: config_header_def hw_consts)

section \<open>Packed addresses\<close>

text \<open>The bit fields of the little-endian views \<open>s\<close> and \<open>es\<close> of the union.\<close>

record pci_addr_s =
  s_registerNum :: u32
  s_functionNum :: u32
  s_deviceNum :: u32
  s_busNum :: u32
  s_space :: u32
  s_resv :: u32
  s_t :: u32
  s_prefetch :: u32
  s_reloc :: u32

definition bitfield :: "nat \<Rightarrow> nat \<Rightarrow> u32 \<Rightarrow> u32" where
  "bitfield pos width bits = take_bit width (drop_bit pos bits)"

definition IOPCIAddressSpace_s :: "u32 \<Rightarrow> pci_addr_s" where
  "IOPCIAddressSpace_s bits = \<lparr>
     s_registerNum = bitfield 0 8 bits, s_functionNum = bitfield 8 3 bits,
     s_deviceNum = bitfield 11 5 bits, s_busNum = bitfield 16 8 bits,
     s_space = bitfield 24 2 bits, s_resv = bitfield 26 3 bits, s_t = bitfield 29 1 bits,
     s_prefetch = bitfield 30 1 bits, s_reloc = bitfield 31 1 bits\<rparr>"

definition IOPCIAddressSpace_of_s :: "pci_addr_s \<Rightarrow> u32" where
  "IOPCIAddressSpace_of_s a =
     take_bit 8 (s_registerNum a) OR push_bit 8 (take_bit 3 (s_functionNum a)) OR
     push_bit 11 (take_bit 5 (s_deviceNum a)) OR push_bit 16 (take_bit 8 (s_busNum a)) OR
     push_bit 24 (take_bit 2 (s_space a)) OR push_bit 26 (take_bit 3 (s_resv a)) OR
     push_bit 29 (take_bit 1 (s_t a)) OR push_bit 30 (take_bit 1 (s_prefetch a)) OR
     push_bit 31 (take_bit 1 (s_reloc a))"

record pci_addr_es =
  es_registerNum :: u32
  es_functionNum :: u32
  es_deviceNum :: u32
  es_busNum :: u32
  es_registerNumExtended :: u32
  es_resv :: u32

definition IOPCIAddressSpace_es :: "u32 \<Rightarrow> pci_addr_es" where
  "IOPCIAddressSpace_es bits = \<lparr>
     es_registerNum = bitfield 0 8 bits, es_functionNum = bitfield 8 3 bits,
     es_deviceNum = bitfield 11 5 bits, es_busNum = bitfield 16 8 bits,
     es_registerNumExtended = bitfield 24 4 bits, es_resv = bitfield 28 4 bits\<rparr>"

lemma bit_bitfield: "bit (bitfield p n x) i \<longleftrightarrow> i < n \<and> bit x (p + i)"
  by (simp add: bitfield_def bit_simps)

text \<open>
  The packed PCI address is a faithful encoding: reading the nine bit fields of any
  32-bit value and packing them again gives the value back, and the extended view agrees
  with the plain one on the register, function, device and bus numbers.
\<close>

theorem pci_address_roundtrip:
  "IOPCIAddressSpace_of_s (IOPCIAddressSpace_s bits) = bits \<and>
   es_registerNum (IOPCIAddressSpace_es bits) = s_registerNum (IOPCIAddressSpace_s bits) \<and>
   es_functionNum (IOPCIAddressSpace_es bits) = s_functionNum (IOPCIAddressSpace_s bits) \<and>
   es_deviceNum (IOPCIAddressSpace_es bits) = s_deviceNum (IOPCIAddressSpace_s bits) \<and>
   es_busNum (IOPCIAddressSpace_es bits) = s_busNum (IOPCIAddressSpace_s bits)"
proof -
  have "IOPCIAddressSpace_of_s (IOPCIAddressSpace_s bits) = bits"
  proof (rule bit_word_eqI)
    fix i assume "i < LENGTH(32)"
    then have "i < 32" by simp
    then consider "i < 8" | "8 \<le> i" "i < 11" | "11 \<le> i" "i < 16" | "16 \<le> i" "i < 24"
      | "24 \<le> i" "i < 26" | "26 \<le> i" "i < 29" | "i = 29" | "i = 30" | "i = 31" by linarith
    then show "bit (IOPCIAddressSpace_of_s (IOPCIAddressSpace_s bits)) i \<longleftrightarrow> bit bits i"
      by cases (auto simp: IOPCIAddressSpace_of_s_def IOPCIAddressSpace_s_def bit_simps bit_bitfield
          less_diff_conv2 simp flip: bit_0)
  qed
  then show ?thesis
    by (simp add: IOPCIAddressSpace_s_def IOPCIAddressSpace_es_def)
qed

end
