(* ===== verification/Service.thy ===== *)
theory Service
  imports BootArgs GGTT CommandStream PciConfig
begin

text \<open>
  \<^verbatim>\<open>src/kexts/XeService.cpp\<close> and \<^verbatim>\<open>.hpp\<close>: the IOService. Its guarded MMIO accessors,
  the dumps of power and display state, and the life cycle \<open>init\<close>, \<open>probe\<close>, \<open>start\<close>,
  \<open>stop\<close>, \<open>free\<close>.
\<close>

section \<open>MMIO accessors\<close>

definition kMaxSafeMMIOOffset :: u32 where
  [hw_consts]: "kMaxSafeMMIOOffset = 0x00FFFFFF"

definition kSentinelNullMMIO :: u32 where
  [hw_consts]: "kSentinelNullMMIO = 0xDEADBEEF"

definition kSentinelOutOfRange :: u32 where
  [hw_consts]: "kSentinelOutOfRange = 0xBAD0FFFF"

definition readRegSafe :: "kernel_env \<Rightarrow> u32 \<Rightarrow> u32 io" where
  "readRegSafe K off = do {
     S \<leftarrow> gets svc;
     (if mmio S = 0 then ret 0xDEADBEEF
      else if off > kMaxSafeMMIOOffset then ret 0xBAD0FFFF
      else if bar0Length S > 0 \<and> ucast off \<ge> bar0Length S then ret 0xBAD0FFFF
      else do {
        val \<leftarrow> mmio_load K (mmio S) (drop_bit 2 off);
        OSSynchronizeIO;
        ret val }) }"

definition readReg :: "kernel_env \<Rightarrow> u32 \<Rightarrow> u32 io" where
  "readReg K off = readRegSafe K off"

definition writeReg :: "u32 \<Rightarrow> u32 \<Rightarrow> unit io" where
  "writeReg off val = do {
     S \<leftarrow> gets svc;
     (if mmio S = 0 then skip
      else if off > kMaxSafeMMIOOffset then skip
      else if bar0Length S > 0 \<and> ucast off \<ge> bar0Length S then skip
      else do { mmio_store (mmio S) (drop_bit 2 off) val; OSSynchronizeIO }) }"

text \<open>\<^verbatim>\<open>mmio[off >> 2]\<close> in \<^verbatim>\<open>start\<close>, without any check.\<close>

definition mmio_raw :: "kernel_env \<Rightarrow> u32 \<Rightarrow> u32 io" where
  "mmio_raw K off = do { S \<leftarrow> gets svc; mmio_load K (mmio S) (drop_bit 2 off) }"

section \<open>Life cycle\<close>

definition XeService_init :: "kernel_env \<Rightarrow> bool io" where
  "XeService_init K = do {
     XeLog XeService_cpp 35 [];
     XeLog XeService_cpp 36 [];
     ok \<leftarrow> ask (super_init K);
     (if \<not> ok then do { XeLog XeService_cpp 39 []; ret False }
      else do {
        XeParseBootArgs K;
        f \<leftarrow> gets gXeBoot;
        XeLog XeService_cpp 45 [LBool (verbose f), LBool (disableForcewake f),
          LBool (disableCommandStream f), LBool (strictSafe f)];
        XeLog XeService_cpp 48 [];
        ret True }) }"

text \<open>
  \<^verbatim>\<open>probe\<close>: the result is whether the returned service is not null, and the score left in
  \<open>*score\<close> (a signed 32-bit integer).
\<close>

definition XeService_probe :: "kernel_env \<Rightarrow> s32 \<Rightarrow> (bool \<times> s32) io" where
  "XeService_probe K score = do {
     XeLog XeService_cpp 53 [];
     (if \<not> is_IOPCIDevice K then do { XeLog XeService_cpp 57 []; ret (False, score) }
      else do {
        v \<leftarrow> ask (\<lambda>h. configRead16 K h kIOPCIConfigVendorID);
        d \<leftarrow> ask (\<lambda>h. configRead16 K h kIOPCIConfigDeviceID);
        rev \<leftarrow> ask (\<lambda>h. configRead8 K h kIOPCIConfigRevisionID);
        XeLog XeService_cpp 65 [LU32 (ucast v), LU32 (ucast d), LU32 (ucast rev)];
        score \<leftarrow> (if v = 0x8086 \<and> d = 0xA788
          then do { XeLog XeService_cpp 69 []; ret (score + 1000) }
          else do { XeLog XeService_cpp 71 [LU32 (ucast v), LU32 (ucast d)]; ret score });
        XeLog XeService_cpp 74 [LInt (sint score)];
        ok \<leftarrow> ask (super_probe K);
        ret (ok, score) }) }"

definition logPowerState :: "kernel_env \<Rightarrow> unit io" where
  "logPowerState K = do {
     XeLog XeService_cpp 194 [];
     pwrWell1 \<leftarrow> readReg K HSW_PWR_WELL_CTL1;
     pwrWell2 \<leftarrow> readReg K HSW_PWR_WELL_CTL2;
     pwrWell3 \<leftarrow> readReg K HSW_PWR_WELL_CTL3;
     pwrWell4 \<leftarrow> readReg K HSW_PWR_WELL_CTL4;
     XeLog XeService_cpp 201 [LU32 pwrWell1];
     XeLog XeService_cpp 202 [LU32 pwrWell2];
     XeLog XeService_cpp 203 [LU32 pwrWell3];
     XeLog XeService_cpp 204 [LU32 pwrWell4];
     rcState \<leftarrow> readReg K GEN6_RC_STATE;
     rcControl \<leftarrow> readReg K GEN6_RC_CONTROL;
     rpControl \<leftarrow> readReg K GEN6_RP_CONTROL;
     XeLog XeService_cpp 210 [LU32 rcState, LU32 rcControl, LU32 rpControl];
     fwAck \<leftarrow> readReg K FORCEWAKE_ACK;
     pmIntMsk \<leftarrow> readReg K GEN6_PMINTRMSK;
     rc6Res \<leftarrow> readReg K RC6_RESIDENCY_TIME;
     XeLog XeService_cpp 217 [LU32 fwAck, LU32 pmIntMsk, LU32 rc6Res];
     XeLog XeService_cpp 220 [] }"

text \<open>The two 16-bit fields of a timing or size register, each stored minus one.\<close>

definition low_field :: "u32 \<Rightarrow> u32" where
  "low_field v = (v AND 0xFFFF) + 1"

definition high_field :: "u32 \<Rightarrow> u32" where
  "high_field v = (drop_bit 16 v AND 0xFFFF) + 1"

definition top_bit :: "u32 \<Rightarrow> bool" where
  "top_bit v \<longleftrightarrow> v AND 0x80000000 \<noteq> 0"

definition logDisplayState :: "kernel_env \<Rightarrow> unit io" where
  "logDisplayState K = do {
     XeLog XeService_cpp 225 [];
     pipeConf \<leftarrow> readReg K PIPEACONF;
     ddiFuncCtl \<leftarrow> readReg K PIPE_DDI_FUNC_CTL_A;
     ddiBufCtl \<leftarrow> readReg K DDI_BUF_CTL_A;
     XeLog XeService_cpp 236 [LU32 pipeConf, LBool (top_bit pipeConf),
       LBool (pipeConf AND 0x40000000 \<noteq> 0)];
     XeLog XeService_cpp 238 [LU32 ddiFuncCtl, LBool (top_bit ddiFuncCtl)];
     XeLog XeService_cpp 239 [LU32 ddiBufCtl];
     htotal \<leftarrow> readReg K HTOTAL_A;
     vtotal \<leftarrow> readReg K VTOTAL_A;
     pipeSrc \<leftarrow> readReg K PIPEASRC;
     XeLog XeService_cpp 253 [LU32 htotal, LU32 (low_field htotal), LU32 (high_field htotal)];
     XeLog XeService_cpp 254 [LU32 vtotal, LU32 (low_field vtotal), LU32 (high_field vtotal)];
     XeLog XeService_cpp 255 [LU32 pipeSrc, LU32 (high_field pipeSrc), LU32 (low_field pipeSrc)];
     dspaCntr \<leftarrow> readReg K DSPACNTR;
     dspaStride \<leftarrow> readReg K DSPASTRIDE;
     dspaSurf \<leftarrow> readReg K DSPASURF;
     XeLog XeService_cpp 263 [LU32 dspaCntr, LBool (top_bit dspaCntr)];
     XeLog XeService_cpp 264 [LU32 dspaStride, LU32 dspaSurf];
     ppStatus \<leftarrow> readReg K PCH_PP_STATUS;
     ppControl \<leftarrow> readReg K PCH_PP_CONTROL;
     XeLog XeService_cpp 271 [LU32 ppStatus, LStr (if top_bit ppStatus then ''ON'' else ''OFF'')];
     XeLog XeService_cpp 272 [LU32 ppControl];
     blcPwm1 \<leftarrow> readReg K BLC_PWM_PCH_CTL1;
     blcPwm2 \<leftarrow> readReg K BLC_PWM_PCH_CTL2;
     XeLog XeService_cpp 279 [LU32 blcPwm1, LBool (top_bit blcPwm1)];
     XeLog XeService_cpp 280 [LU32 blcPwm2];
     XeLog XeService_cpp 282 [] }"

text \<open>
  \<^verbatim>\<open>start\<close> in three parts: mapping BAR0 (lines 79 to 131), reading the device (134 to 171)
  and publishing the service (174 to 189).
\<close>

definition start_map :: "kernel_env \<Rightarrow> bool io" where
  "start_map K = do {
     XeLog XeService_cpp 93 [];
     emit (PciMemoryEnable True);
     emit (PciIOEnable True);
     emit (PciBusMasterEnable True);
     XeLog XeService_cpp 99 [];
     mp \<leftarrow> ask (map_bar0 K);
     (case mp of
        None \<Rightarrow> do { set_svc (\<lambda>S. S\<lparr>bar0 := None\<rparr>); XeLog XeService_cpp 102 []; ret False }
      | Some (vaddr, len) \<Rightarrow> do {
          b \<leftarrow> create_map vaddr len;
          set_svc (\<lambda>S. S\<lparr>bar0 := Some b, bar0Length := len\<rparr>);
          (if len = 0 then do {
             XeLog XeService_cpp 109 [];
             emit (Release b);
             set_svc (\<lambda>S. S\<lparr>bar0 := None\<rparr>);
             ret False }
           else do {
             (if len < 1024 * 1024 then XeLog XeService_cpp 117 [LU64 len] else skip);
             set_svc (\<lambda>S. S\<lparr>mmio := vaddr\<rparr>);
             (if vaddr = 0 then do {
                XeLog XeService_cpp 123 [];
                emit (Release b);
                set_svc (\<lambda>S. S\<lparr>bar0 := None\<rparr>);
                ret False }
              else do {
                XeLog XeService_cpp 129 [LU64 vaddr, LU64 len, LU64 (len div (1024 * 1024))];
                XeLog XeService_cpp 131 [];
                ret True }) }) }) }"

definition start_read :: "kernel_env \<Rightarrow> (u16 \<times> u16 \<times> u8) io" where
  "start_read K = do {
     XeLog XeService_cpp 134 [];
     v \<leftarrow> ask (\<lambda>h. configRead16 K h kIOPCIConfigVendorID);
     d \<leftarrow> ask (\<lambda>h. configRead16 K h kIOPCIConfigDeviceID);
     r \<leftarrow> ask (\<lambda>h. configRead8 K h kIOPCIConfigRevisionID);
     subsysVendor \<leftarrow> ask (\<lambda>h. configRead16 K h kIOPCIConfigSubSystemVendorID);
     subsysDevice \<leftarrow> ask (\<lambda>h. configRead16 K h kIOPCIConfigSubSystemID);
     XeLog XeService_cpp 141 [LU32 (ucast v), LU32 (ucast d), LU32 (ucast r)];
     XeLog XeService_cpp 142 [LU32 (ucast subsysVendor), LU32 (ucast subsysDevice)];
     XeLog XeService_cpp 143 [];
     XeLog XeService_cpp 146 [];
     reg0 \<leftarrow> mmio_raw K 0x0;
     reg4 \<leftarrow> mmio_raw K 0x4;
     reg10 \<leftarrow> mmio_raw K 0x10;
     reg100 \<leftarrow> mmio_raw K 0x100;
     XeLog XeService_cpp 152 [LU32 reg0, LU32 reg4];
     XeLog XeService_cpp 153 [LU32 reg10, LU32 reg100];
     XeLog XeService_cpp 154 [];
     XeLog XeService_cpp 157 [];
     f \<leftarrow> gets gXeBoot;
     (if strictSafe f then XeLog XeService_cpp 159 []
      else do {
        logPowerState K;
        XeLog XeService_cpp 165 [];
        S \<leftarrow> gets svc;
        XeGGTT_probe K (mmio S);
        logDisplayState K });
     XeLog XeService_cpp 171 [];
     ret (v, d, r) }"

definition start_publish :: "kernel_env \<Rightarrow> u16 \<Rightarrow> u16 \<Rightarrow> u8 \<Rightarrow> bool io" where
  "start_publish K v d r = do {
     XeLog XeService_cpp 174 [];
     ok \<leftarrow> ask (new_array K);
     (if \<not> ok then do {
        set_svc (\<lambda>S. S\<lparr>m_boList := None\<rparr>);
        XeLog XeService_cpp 177 [];
        ret False }
      else do {
        a \<leftarrow> create;
        set_svc (\<lambda>S. S\<lparr>m_boList := Some (a, [])\<rparr>);
        XeLog XeService_cpp 181 [];
        emit RegisterService;
        XeLog XeService_cpp 184 [];
        XeLog XeService_cpp 185 [];
        f \<leftarrow> gets gXeBoot;
        XeLog XeService_cpp 186 [LU32 (ucast v), LU32 (ucast d), LU32 (ucast r), LBool (strictSafe f)];
        ret True }) }"

definition XeService_start :: "kernel_env \<Rightarrow> bool io" where
  "XeService_start K = do {
     XeLog XeService_cpp 79 [];
     ok \<leftarrow> ask (super_start K);
     (if \<not> ok then do { XeLog XeService_cpp 82 []; ret False }
      else do {
        set_svc (\<lambda>S. S\<lparr>pci := is_IOPCIDevice K\<rparr>);
        (if \<not> is_IOPCIDevice K then do { XeLog XeService_cpp 88 []; ret False }
         else do {
           mapped \<leftarrow> start_map K;
           (if \<not> mapped then ret False
            else do {
              (v, d, r) \<leftarrow> start_read K;
              start_publish K v d r }) }) }) }"

text \<open>The loop of \<^verbatim>\<open>stop\<close> over the registry.\<close>

primrec release_all :: "BufferMD list \<Rightarrow> unit io" where
  "release_all [] = skip"
| "release_all (md # mds) = do { emit (Release (md_obj md)); release_all mds }"

definition XeService_stop :: "unit io" where
  "XeService_stop = do {
     XeLog XeService_cpp 286 [];
     S \<leftarrow> gets svc;
     (case m_boList S of
        None \<Rightarrow> skip
      | Some (a, bos) \<Rightarrow> do {
          XeLog XeService_cpp 291 [LU32 (of_nat (length bos))];
          release_all bos;
          emit (ReleaseArray a (map md_obj bos));
          set_svc (\<lambda>S. S\<lparr>m_boList := None\<rparr>) });
     (case bar0 S of
        None \<Rightarrow> skip
      | Some b \<Rightarrow> do {
          XeLog XeService_cpp 301 [];
          emit (Release b);
          set_svc (\<lambda>S. S\<lparr>bar0 := None, mmio := 0\<rparr>) });
     (if pci S then do { XeLog XeService_cpp 308 []; emit (PciBusMasterEnable False) } else skip);
     XeLog XeService_cpp 312 [];
     emit SuperStop }"

definition XeService_free :: "unit io" where
  "XeService_free = do { XeLog XeService_cpp 317 []; emit SuperFree }"

section \<open>The service's register read meets the reader contract\<close>

text \<open>The first offset that \<open>readRegSafe\<close> refuses.\<close>

definition svc_limit :: "XeService \<Rightarrow> nat" where
  "svc_limit S = (if bar0Length S = 0 then 0x1000000 else min 0x1000000 (unat (bar0Length S)))"

lemma svc_limit_iff:
  "unat off < svc_limit S \<longleftrightarrow>
     \<not> kMaxSafeMMIOOffset < off \<and> \<not> (0 < bar0Length S \<and> bar0Length S \<le> ucast (off :: u32))"
  by (auto simp: svc_limit_def hw_consts word_less_nat_alt word_le_nat_alt not_less not_le
      simp flip: unat_eq_zero)

interpretation rr: guarded_reader K "readReg K" mmio svc_limit for K
proof unfold_locales
  fix w :: world and off :: u32
  assume "mmio (svc w) = 0"
  then show "run_state (readReg K off) w = (sentinel_null, w)"
    by (simp add: readReg_def readRegSafe_def)
next
  fix w :: world and off :: u32
  assume "mmio (svc w) \<noteq> 0" "svc_limit (svc w) \<le> unat off"
  then show "run_state (readReg K off) w = (sentinel_range, w)"
    using svc_limit_iff [of off "svc w"] by (auto simp: readReg_def readRegSafe_def)
next
  fix w :: world and off :: u32
  assume "mmio (svc w) \<noteq> 0" "unat off < svc_limit (svc w)"
  then show "\<exists>post. set post \<subseteq> {SyncIO} \<and> run_state (readReg K off) w =
      (gpu K (trace w) (drop_bit 2 off), w\<lparr>trace := trace w @
         MmioRd (mmio (svc w)) (drop_bit 2 off) (gpu K (trace w) (drop_bit 2 off)) # post\<rparr>)"
    using svc_limit_iff [of off "svc w"]
    by (intro exI [of _ "[SyncIO]"]) (auto simp: readReg_def readRegSafe_def)
qed

end
