(* ===== verification/ServiceCalls.thy ===== *)
theory ServiceCalls
  imports Service
begin

text \<open>
  The registry of buffer objects and the methods of \<^verbatim>\<open>XeService\<close> that the user client
  calls (\<^verbatim>\<open>src/kexts/XeService.cpp\<close>, lines 335 to 535). Caller-owned arrays are lists of
  their capacity; a store outside is the event \<open>Fault\<close>. A pointer argument that may be null
  is an option.
\<close>

section \<open>Buffer object registry\<close>

text \<open>\<^verbatim>\<open>OSArray::getCount\<close>: a 32-bit unsigned integer.\<close>

definition getCount :: "BufferMD list \<Rightarrow> u32" where
  "getCount bos = of_nat (length bos)"

text \<open>The lookup in a registry that is there; \<open>bo_add\<close> is \<^verbatim>\<open>setObject\<close> followed by \<^verbatim>\<open>getCount\<close>.\<close>

definition bo_get :: "BufferMD list \<Rightarrow> u64 \<Rightarrow> BufferMD option" where
  "bo_get bos cookie =
     (if cookie = 0 then None
      else let idx = cookie - 1 in
        if idx \<ge> ucast (getCount bos) then None else Some (bos ! unat (ucast idx :: u32)))"

definition bo_add :: "BufferMD \<Rightarrow> BufferMD list \<Rightarrow> u64 \<times> BufferMD list" where
  "bo_add md bos = (let bos' = bos @ [md] in (ucast (getCount bos'), bos'))"

definition boFromCookie :: "u64 \<Rightarrow> BufferMD option io" where
  "boFromCookie cookie = do {
     S \<leftarrow> gets svc;
     ret (case m_boList S of None \<Rightarrow> None | Some (a, bos) \<Rightarrow> bo_get bos cookie) }"

text \<open>\<^verbatim>\<open>IOBufferMemoryDescriptor::withOptions\<close>.\<close>

definition withOptions :: "kernel_env \<Rightarrow> u64 \<Rightarrow> BufferMD option io" where
  "withOptions K capacity = do {
     r \<leftarrow> ask (\<lambda>h. new_buffer K h capacity);
     (case r of
        None \<Rightarrow> ret None
      | Some (addr, len) \<Rightarrow> do {
          n \<leftarrow> create;
          ret (Some \<lparr>md_obj = n, md_addr = addr, md_len = len\<rparr>) }) }"

definition page_align :: "u32 \<Rightarrow> u32" where
  "page_align bytes = (bytes + 0xFFF) AND NOT 0xFFF"

text \<open>The result is the return code and the value stored to \<open>*outCookie\<close>, if any.\<close>

definition ucCreateBuffer :: "kernel_env \<Rightarrow> u32 \<Rightarrow> (u32 \<times> u64 option) io" where
  "ucCreateBuffer K bytes = do {
     XeLog XeService_cpp 347 [LU32 bytes];
     S \<leftarrow> gets svc;
     (case m_boList S of
        None \<Rightarrow> do { XeLog XeService_cpp 350 []; ret (kIOReturnNotReady, None) }
      | Some (a, bos) \<Rightarrow> do {
          let sz = page_align bytes;
          XeLog XeService_cpp 356 [LU32 sz];
          r \<leftarrow> withOptions K (ucast sz);
          (case r of
             None \<Rightarrow> do { XeLog XeService_cpp 363 []; ret (kIOReturnNoResources, None) }
           | Some md \<Rightarrow> do {
               ok \<leftarrow> ask (setObject_ok K);
               (if \<not> ok then do {
                  XeLog XeService_cpp 368 [];
                  emit (Release (md_obj md));
                  ret (kIOReturnNoResources, None) }
                else do {
                  emit (ArrayAdd a (md_obj md));
                  let (cookie, bos') = bo_add md bos;
                  set_svc (\<lambda>S. S\<lparr>m_boList := Some (a, bos')\<rparr>);
                  XeLog XeService_cpp 376 [LU64 cookie, LU32 sz, LU64 (md_addr md)];
                  ret (kIOReturnSuccess, Some cookie) }) }) }) }"

section \<open>Submission and wait\<close>

definition ucSubmitNoop :: "kernel_env \<Rightarrow> u32 io" where
  "ucSubmitNoop K = do {
     XeLog XeService_cpp 383 [];
     S \<leftarrow> gets svc;
     (if mmio S = 0 then do { XeLog XeService_cpp 386 []; ret kIOReturnNotReady }
      else do {
        XeLog XeService_cpp 391 [];
        r \<leftarrow> withOptions K 4096;
        (case r of
           None \<Rightarrow> do { XeLog XeService_cpp 395 []; ret kIOReturnNoResources }
         | Some md \<Rightarrow> do {
             let cs = XeCommandStream_ctor (mmio S);
             XeLog XeService_cpp 400 [];
             kr \<leftarrow> submitNoop K cs (Some md);
             XeLog XeService_cpp 403 [LU32 kr];
             emit (Release (md_obj md));
             ret kr }) }) }"

definition ucWait :: "u32 \<Rightarrow> u32 io" where
  "ucWait timeoutMs = do { XeLog XeService_cpp 409 [LU32 timeoutMs]; ret kIOReturnSuccess }"

section \<open>Register read-out\<close>

text \<open>\<^verbatim>\<open>out[i] = v\<close> on an array of the caller.\<close>

definition arr_store :: "u32 list \<Rightarrow> nat \<Rightarrow> u32 \<Rightarrow> u32 list io" where
  "arr_store out i v = (if i < length out then ret (out[i := v]) else do { emit Fault; ret out })"

definition kSafeOffs :: "u32 list" where
  "kSafeOffs = [DEVICE_ID_REG0, DEVICE_ID_REG1, DEVICE_ID_REG2, DEVICE_ID_REG3, DEVICE_ID_REG4,
     DEVICE_ID_REG5, GEN6_RP_CONTROL, GEN6_RC_STATE, HSW_PWR_WELL_CTL1, HSW_PWR_WELL_CTL2]"

text \<open>The loop of \<^verbatim>\<open>ucReadRegs\<close> over the offsets from index \<open>i\<close> on.\<close>

primrec read_regs_loop :: "kernel_env \<Rightarrow> u32 list \<Rightarrow> nat \<Rightarrow> u32 list \<Rightarrow> u32 list io" where
  "read_regs_loop K [] i out = ret out"
| "read_regs_loop K (off # offs) i out = do {
     v \<leftarrow> readReg K off;
     out \<leftarrow> arr_store out i v;
     XeLog XeService_cpp 447 [LU32 (of_nat i), LU32 off, LU32 v];
     read_regs_loop K offs (Suc i) out }"

text \<open>
  The results of the three read-out methods are the return code, the array afterwards and
  the value stored to \<open>*outCount\<close>. \<open>outCount_ok\<close> says that \<open>outCount\<close> is not null.
\<close>

definition ucReadRegs :: "kernel_env \<Rightarrow> u32 \<Rightarrow> u32 list option \<Rightarrow> bool \<Rightarrow> (u32 \<times> u32 list \<times> u32) io" where
  "ucReadRegs K count out outCount_ok = do {
     XeLog XeService_cpp 415 [LU32 count];
     S \<leftarrow> gets svc;
     (if mmio S = 0 \<or> out = None \<or> \<not> outCount_ok
      then do { XeLog XeService_cpp 418 []; ret (kIOReturnNotReady, case_option [] id out, 0) }
      else do {
        let avail = of_nat (length kSafeOffs);
        let n = (if count < avail then count else avail);
        XeLog XeService_cpp 443 [LU32 n, LU32 avail];
        out' \<leftarrow> read_regs_loop K (take (unat n) kSafeOffs) 0 (the out);
        ret (kIOReturnSuccess, out', n) }) }"

text \<open>Consecutive stores \<^verbatim>\<open>out[i] = readReg(off)\<close>.\<close>

primrec store_regs :: "kernel_env \<Rightarrow> u32 list \<Rightarrow> nat \<Rightarrow> u32 list \<Rightarrow> u32 list io" where
  "store_regs K [] i out = ret out"
| "store_regs K (off # offs) i out = do {
     v \<leftarrow> readReg K off;
     out \<leftarrow> arr_store out i v;
     store_regs K offs (Suc i) out }"

definition gt_config_regs :: "u32 list" where
  "gt_config_regs = [HSW_PWR_WELL_CTL1, HSW_PWR_WELL_CTL2, GEN6_RC_STATE, GEN6_RC_CONTROL,
     GEN6_RP_CONTROL, FORCEWAKE_ACK, GEN6_PMINTRMSK, RC6_RESIDENCY_TIME]"

definition ucGetGTConfig :: "kernel_env \<Rightarrow> u32 list option \<Rightarrow> bool \<Rightarrow> (u32 \<times> u32 list \<times> u32) io" where
  "ucGetGTConfig K out outCount_ok = do {
     XeLog XeService_cpp 456 [];
     S \<leftarrow> gets svc;
     (if mmio S = 0 \<or> out = None \<or> \<not> outCount_ok
      then do { XeLog XeService_cpp 459 []; ret (kIOReturnNotReady, case_option [] id out, 0) }
      else do {
        XeLog XeService_cpp 464 [];
        o1 \<leftarrow> store_regs K (take 2 gt_config_regs) 0 (the out);
        XeLog XeService_cpp 468 [];
        o2 \<leftarrow> store_regs K (take 3 (drop 2 gt_config_regs)) 2 o1;
        XeLog XeService_cpp 473 [];
        o3 \<leftarrow> store_regs K (drop 5 gt_config_regs) 5 o2;
        XeLog XeService_cpp 480 (map LU32 (take 2 o3));
        XeLog XeService_cpp 481 (map LU32 (take 3 (drop 2 o3)));
        XeLog XeService_cpp 483 (map LU32 (take 3 (drop 5 o3)));
        ret (kIOReturnSuccess, o3, 8) }) }"

definition display_info_regs :: "u32 list" where
  "display_info_regs = [PIPEACONF, PIPE_DDI_FUNC_CTL_A, DDI_BUF_CTL_A, DSPACNTR, HTOTAL_A,
     VTOTAL_A, PIPEASRC, PCH_PP_STATUS]"

definition on_off :: "bool \<Rightarrow> log_arg" where
  "on_off b = LStr (if b then ''ON'' else ''OFF'')"

definition ucGetDisplayInfo :: "kernel_env \<Rightarrow> u32 list option \<Rightarrow> bool \<Rightarrow> (u32 \<times> u32 list \<times> u32) io" where
  "ucGetDisplayInfo K out outCount_ok = do {
     XeLog XeService_cpp 491 [];
     S \<leftarrow> gets svc;
     (if mmio S = 0 \<or> out = None \<or> \<not> outCount_ok
      then do { XeLog XeService_cpp 494 []; ret (kIOReturnNotReady, case_option [] id out, 0) }
      else do {
        XeLog XeService_cpp 499 [];
        o1 \<leftarrow> store_regs K (take 4 display_info_regs) 0 (the out);
        XeLog XeService_cpp 505 [];
        o2 \<leftarrow> store_regs K (drop 4 display_info_regs) 4 o1;
        XeLog XeService_cpp 526 (map LU32 (take 4 o2));
        XeLog XeService_cpp 528 [on_off (top_bit (o2 ! 0)), on_off (top_bit (o2 ! 1)),
          on_off (top_bit (o2 ! 3))];
        XeLog XeService_cpp 530 [LU32 (high_field (o2 ! 6)), LU32 (low_field (o2 ! 6)),
          LU32 (low_field (o2 ! 4)), LU32 (high_field (o2 ! 4)),
          LU32 (low_field (o2 ! 5)), LU32 (high_field (o2 ! 5))];
        XeLog XeService_cpp 532 [LU32 (o2 ! 7)];
        ret (kIOReturnSuccess, o2, 8) }) }"

end
