(* ===== verification/UserClient.thy ===== *)
theory UserClient
  imports ServiceCalls
begin

text \<open>
  \<^verbatim>\<open>src/kexts/XeUserClient.cpp\<close> and \<^verbatim>\<open>.hpp\<close>: the user client. Its dispatch table, the
  selector check, the six handlers with their clamps, its own life cycle, the factory that
  \<^verbatim>\<open>XeService::newUserClient\<close> calls, and that method itself. The superclass method
  \<^verbatim>\<open>IOUserClient::externalMethod\<close> is a parameter; \<open>dispatch_contract\<close> is what its
  documentation promises.
\<close>

section \<open>Arguments and dispatch table\<close>

text \<open>
  The fields of \<^verbatim>\<open>IOExternalMethodArguments\<close> the driver or the count check uses. The lists
  are the memory behind the pointers, whose size the counts should not exceed.
\<close>

record IOExternalMethodArguments =
  scalarInput :: "u64 list"
  scalarInputCount :: u32
  structureInputSize :: u32
  scalarOutput :: "u64 list"
  scalarOutputCount :: u32
  structureOutputSize :: u32

datatype uc_action = SCreateBuffer | SSubmit | SWait | SReadRegs | SGetGTConfig | SGetDisplayInfo

record IOExternalMethodDispatch =
  dispatch_fn :: uc_action
  checkScalarInputCount :: u32
  checkStructureInputSize :: u32
  checkScalarOutputCount :: u32
  checkStructureOutputSize :: u32

definition sMethods :: "IOExternalMethodDispatch list" where
  "sMethods =
    [\<lparr>dispatch_fn = SCreateBuffer, checkScalarInputCount = 1, checkStructureInputSize = 0,
      checkScalarOutputCount = 1, checkStructureOutputSize = 0\<rparr>,
     \<lparr>dispatch_fn = SSubmit, checkScalarInputCount = 0, checkStructureInputSize = 0,
      checkScalarOutputCount = 0, checkStructureOutputSize = 0\<rparr>,
     \<lparr>dispatch_fn = SWait, checkScalarInputCount = 1, checkStructureInputSize = 0,
      checkScalarOutputCount = 0, checkStructureOutputSize = 0\<rparr>,
     \<lparr>dispatch_fn = SReadRegs, checkScalarInputCount = 0, checkStructureInputSize = 0,
      checkScalarOutputCount = 8, checkStructureOutputSize = 0\<rparr>,
     \<lparr>dispatch_fn = SGetGTConfig, checkScalarInputCount = 0, checkStructureInputSize = 0,
      checkScalarOutputCount = 8, checkStructureOutputSize = 0\<rparr>,
     \<lparr>dispatch_fn = SGetDisplayInfo, checkScalarInputCount = 0, checkStructureInputSize = 0,
      checkScalarOutputCount = 8, checkStructureOutputSize = 0\<rparr>]"

text \<open>The selectors of the enumeration in \<^verbatim>\<open>XeService.hpp\<close>.\<close>

definition kMethodCreateBuffer :: u32 where "kMethodCreateBuffer = 0"
definition kMethodSubmit :: u32 where "kMethodSubmit = 1"
definition kMethodWait :: u32 where "kMethodWait = 2"
definition kMethodReadReg :: u32 where "kMethodReadReg = 3"
definition kMethodGetGTConfig :: u32 where "kMethodGetGTConfig = 4"
definition kMethodGetDisplayInfo :: u32 where "kMethodGetDisplayInfo = 5"

section \<open>The client object\<close>

record XeUserClient =
  uc_obj :: obj
  clientTask :: u64
  providerSvc :: bool \<comment> \<open>whether the pointer is set\<close>

text \<open>The \<^verbatim>\<open>OSObject*\<close> target of a handler: null, an object of another class, a client.\<close>

datatype uc_target = TNull | TOther | TClient XeUserClient

fun target_cast :: "uc_target \<Rightarrow> XeUserClient option" where
  "target_cast (TClient c) = Some c"
| "target_cast _ = None"

definition target_ready :: "uc_target \<Rightarrow> bool" where
  "target_ready t = (case target_cast t of None \<Rightarrow> False | Some c \<Rightarrow> providerSvc c)"

definition XeUserClient_initWithTask :: "kernel_env \<Rightarrow> u64 \<Rightarrow> XeUserClient \<Rightarrow> (bool \<times> XeUserClient) io" where
  "XeUserClient_initWithTask K owningTask c = do {
     XeLog XeUserClient_cpp 21 [];
     ok \<leftarrow> ask (client_super_init K);
     (if \<not> ok then do { XeLog XeUserClient_cpp 23 []; ret (False, c) }
      else ret (True, c\<lparr>clientTask := owningTask\<rparr>)) }"

text \<open>\<open>is_svc\<close>: the provider's class is \<^verbatim>\<open>XeService\<close>.\<close>

definition XeUserClient_start :: "kernel_env \<Rightarrow> bool \<Rightarrow> XeUserClient \<Rightarrow> (bool \<times> XeUserClient) io" where
  "XeUserClient_start K is_svc c = do {
     XeLog XeUserClient_cpp 31 [];
     ok \<leftarrow> ask (client_super_start K);
     (if \<not> ok then do { XeLog XeUserClient_cpp 33 []; ret (False, c) }
      else do {
        let c = c\<lparr>providerSvc := is_svc\<rparr>;
        (if \<not> providerSvc c then do { XeLog XeUserClient_cpp 38 []; ret (False, c) }
         else do { XeLog XeUserClient_cpp 41 []; ret (True, c) }) }) }"

definition XeUserClient_clientClose :: "u32 io" where
  "XeUserClient_clientClose = do {
     XeLog XeUserClient_cpp 46 [];
     emit Terminate;
     ret kIOReturnSuccess }"

text \<open>The factory; \<open>provider\<close> says that the pointer is not null, and then it is an \<^verbatim>\<open>XeService\<close>.\<close>

definition XeCreateUserClient :: "kernel_env \<Rightarrow> bool \<Rightarrow> u64 \<Rightarrow> XeUserClient option io" where
  "XeCreateUserClient K provider task = do {
     XeLog XeUserClient_cpp 224 [];
     (if \<not> provider then do { XeLog XeUserClient_cpp 228 []; ret None }
      else do {
        ok \<leftarrow> ask (new_client K);
        (if \<not> ok then do { XeLog XeUserClient_cpp 234 []; ret None }
         else do {
           n \<leftarrow> create;
           (ok, uc) \<leftarrow> XeUserClient_initWithTask K task
             \<lparr>uc_obj = n, clientTask = 0, providerSvc = False\<rparr>;
           (if \<not> ok then do {
              XeLog XeUserClient_cpp 239 [];
              emit (Release n);
              ret None }
            else do {
              ok \<leftarrow> ask (client_attach K);
              (if \<not> ok then do {
                 XeLog XeUserClient_cpp 245 [];
                 emit (Release n);
                 ret None }
               else do {
                 emit (Attach n);
                 (ok, uc) \<leftarrow> XeUserClient_start K True uc;
                 (if \<not> ok then do {
                    XeLog XeUserClient_cpp 251 [];
                    emit (Detach n);
                    emit (Release n);
                    ret None }
                  else do {
                    XeLog XeUserClient_cpp 257 [];
                    ret (Some uc) }) }) }) }) }) }"

text \<open>\<^verbatim>\<open>XeService::newUserClient\<close>: the return code and the client stored to \<open>*out\<close>.\<close>

definition XeService_newUserClient :: "kernel_env \<Rightarrow> u64 \<Rightarrow> u32 \<Rightarrow> (u32 \<times> XeUserClient option) io" where
  "XeService_newUserClient K task type = do {
     XeLog XeService_cpp 323 [LU32 type];
     uc \<leftarrow> XeCreateUserClient K True task;
     (case uc of
        None \<Rightarrow> do { XeLog XeService_cpp 327 []; ret (kIOReturnNoResources, None) }
      | Some c \<Rightarrow> do {
          emit (HandOut (uc_obj c));
          XeLog XeService_cpp 331 [];
          ret (kIOReturnSuccess, Some c) }) }"

section \<open>Handlers\<close>

text \<open>Access to the caller's scalar arrays; outside of them it is a \<open>Fault\<close>.\<close>

definition scalar_in :: "IOExternalMethodArguments \<Rightarrow> nat \<Rightarrow> u64 io" where
  "scalar_in a i = (if i < length (scalarInput a) then ret (scalarInput a ! i)
     else do { emit Fault; ret 0 })"

definition scalar_out :: "IOExternalMethodArguments \<Rightarrow> nat \<Rightarrow> u64 \<Rightarrow> IOExternalMethodArguments io" where
  "scalar_out a i v = (if i < length (scalarOutput a) then ret (a\<lparr>scalarOutput := (scalarOutput a)[i := v]\<rparr>)
     else do { emit Fault; ret a })"

text \<open>\<^verbatim>\<open>for (i = 0; i < outMax; ++i) a->scalarOutput[i] = (uint64_t)tmp[i];\<close>\<close>

primrec copy_out :: "u32 list \<Rightarrow> nat \<Rightarrow> IOExternalMethodArguments \<Rightarrow> IOExternalMethodArguments io" where
  "copy_out [] i a = ret a"
| "copy_out (v # vs) i a = do { a \<leftarrow> scalar_out a i (ucast v); copy_out vs (Suc i) a }"

definition clamp_bytes :: "u64 \<Rightarrow> u32" where
  "clamp_bytes x = (let bytes = ucast x; bytes = (if bytes = 0 then 4096 else bytes) in
     if bytes > 64 * 1024 * 1024 then 64 * 1024 * 1024 else bytes)"

definition clamp_timeout :: "u64 \<Rightarrow> u32" where
  "clamp_timeout x = (let t = ucast x; t = (if t = 0 then 1000 else t) in
     if t > 60000 then 60000 else t)"

type_synonym uc_handler = "uc_target \<Rightarrow> IOExternalMethodArguments option \<Rightarrow>
  (u32 \<times> IOExternalMethodArguments option) io"

definition sCreateBuffer :: "kernel_env \<Rightarrow> uc_handler" where
  "sCreateBuffer K t args = do {
     XeLog XeUserClient_cpp 79 [];
     (case args of
        None \<Rightarrow> do { XeLog XeUserClient_cpp 83 []; ret (kIOReturnBadArgument, None) }
      | Some a \<Rightarrow>
        if t = TNull then do { XeLog XeUserClient_cpp 83 []; ret (kIOReturnBadArgument, Some a) }
        else (case target_cast t of
          None \<Rightarrow> do { XeLog XeUserClient_cpp 89 []; ret (kIOReturnBadArgument, Some a) }
        | Some self \<Rightarrow>
          if \<not> providerSvc self then do { XeLog XeUserClient_cpp 93 []; ret (kIOReturnNotReady, Some a) }
          else do {
            bytes \<leftarrow> (if scalarInputCount a \<ge> 1
              then do { x \<leftarrow> scalar_in a 0; ret (clamp_bytes x) } else ret 4096);
            (kr, cookie) \<leftarrow> ucCreateBuffer K bytes;
            (if kr = kIOReturnSuccess \<and> scalarOutputCount a \<ge> 1 then do {
               a \<leftarrow> scalar_out a 0 (case_option 0 id cookie);
               ret (kr, Some (a\<lparr>scalarOutputCount := 1\<rparr>)) }
             else ret (kr, Some a)) })) }"

definition sSubmit :: "kernel_env \<Rightarrow> uc_handler" where
  "sSubmit K t args = do {
     XeLog XeUserClient_cpp 116 [];
     (if t = TNull then ret (kIOReturnBadArgument, args)
      else if \<not> target_ready t then do { XeLog XeUserClient_cpp 122 []; ret (kIOReturnNotReady, args) }
      else do { kr \<leftarrow> ucSubmitNoop K; ret (kr, args) }) }"

definition sWait :: "kernel_env \<Rightarrow> uc_handler" where
  "sWait K t args = do {
     XeLog XeUserClient_cpp 129 [];
     (case args of
        None \<Rightarrow> ret (kIOReturnBadArgument, None)
      | Some a \<Rightarrow>
        if t = TNull then ret (kIOReturnBadArgument, Some a)
        else if \<not> target_ready t then do { XeLog XeUserClient_cpp 135 []; ret (kIOReturnNotReady, Some a) }
        else do {
          timeoutMs \<leftarrow> (if scalarInputCount a \<ge> 1
            then do { x \<leftarrow> scalar_in a 0; ret (clamp_timeout x) } else ret 1000);
          kr \<leftarrow> ucWait timeoutMs;
          ret (kr, Some a) }) }"

definition sReadRegs :: "kernel_env \<Rightarrow> uc_handler" where
  "sReadRegs K t args = do {
     XeLog XeUserClient_cpp 150 [];
     (case args of
        None \<Rightarrow> ret (kIOReturnBadArgument, None)
      | Some a \<Rightarrow>
        if t = TNull then ret (kIOReturnBadArgument, Some a)
        else if \<not> target_ready t then do { XeLog XeUserClient_cpp 156 []; ret (kIOReturnNotReady, Some a) }
        else do {
          (kr, tmp, n) \<leftarrow> ucReadRegs K 8 (Some (replicate 8 0)) True;
          (if kr = kIOReturnSuccess then do {
             let outMax = (if n < 8 then n else 8);
             a \<leftarrow> copy_out (take (unat outMax) tmp) 0 a;
             ret (kr, Some (a\<lparr>scalarOutputCount := outMax\<rparr>)) }
           else ret (kr, Some a)) }) }"

definition sGetGTConfig :: "kernel_env \<Rightarrow> uc_handler" where
  "sGetGTConfig K t args = do {
     XeLog XeUserClient_cpp 175 [];
     (case args of
        None \<Rightarrow> ret (kIOReturnBadArgument, None)
      | Some a \<Rightarrow>
        if t = TNull then ret (kIOReturnBadArgument, Some a)
        else if \<not> target_ready t then do { XeLog XeUserClient_cpp 181 []; ret (kIOReturnNotReady, Some a) }
        else do {
          (kr, tmp, n) \<leftarrow> ucGetGTConfig K (Some (replicate 8 0)) True;
          (if kr = kIOReturnSuccess then do {
             let outMax = (if scalarOutputCount a < n then scalarOutputCount a else n);
             a \<leftarrow> copy_out (take (unat outMax) tmp) 0 a;
             ret (kr, Some (a\<lparr>scalarOutputCount := outMax\<rparr>)) }
           else ret (kr, Some a)) }) }"

definition sGetDisplayInfo :: "kernel_env \<Rightarrow> uc_handler" where
  "sGetDisplayInfo K t args = do {
     XeLog XeUserClient_cpp 199 [];
     (case args of
        None \<Rightarrow> ret (kIOReturnBadArgument, None)
      | Some a \<Rightarrow>
        if t = TNull then ret (kIOReturnBadArgument, Some a)
        else if \<not> target_ready t then do { XeLog XeUserClient_cpp 205 []; ret (kIOReturnNotReady, Some a) }
        else do {
          (kr, tmp, n) \<leftarrow> ucGetDisplayInfo K (Some (replicate 8 0)) True;
          (if kr = kIOReturnSuccess then do {
             let outMax = (if scalarOutputCount a < n then scalarOutputCount a else n);
             a \<leftarrow> copy_out (take (unat outMax) tmp) 0 a;
             ret (kr, Some (a\<lparr>scalarOutputCount := outMax\<rparr>)) }
           else ret (kr, Some a)) }) }"

text \<open>A call through a function pointer of the dispatch table.\<close>

primrec call_action :: "kernel_env \<Rightarrow> uc_action \<Rightarrow> uc_handler" where
  "call_action K SCreateBuffer = sCreateBuffer K"
| "call_action K SSubmit = sSubmit K"
| "call_action K SWait = sWait K"
| "call_action K SReadRegs = sReadRegs K"
| "call_action K SGetGTConfig = sGetGTConfig K"
| "call_action K SGetDisplayInfo = sGetDisplayInfo K"

text \<open>
  \<^verbatim>\<open>super::externalMethod\<close> gets the arguments, the dispatch entry and the call of the
  entry's function on the target.
\<close>

type_synonym super_external = "u32 \<Rightarrow> IOExternalMethodArguments \<Rightarrow> IOExternalMethodDispatch \<Rightarrow>
  (IOExternalMethodArguments \<Rightarrow> (u32 \<times> IOExternalMethodArguments option) io) \<Rightarrow>
  (u32 \<times> IOExternalMethodArguments option) io"

definition XeUserClient_externalMethod ::
  "super_external \<Rightarrow> kernel_env \<Rightarrow> XeUserClient \<Rightarrow> u32 \<Rightarrow> IOExternalMethodArguments option \<Rightarrow>
     (u32 \<times> IOExternalMethodArguments option) io" where
  "XeUserClient_externalMethod super K this selector args = (
     let methodCount = of_nat (length sMethods) in
     if selector \<ge> methodCount then do {
       XeLog XeUserClient_cpp 58 [LU32 selector, LU32 (methodCount - 1)];
       ret (kIOReturnUnsupported, args) }
     else (case args of
       None \<Rightarrow> do { XeLog XeUserClient_cpp 65 []; ret (kIOReturnBadArgument, None) }
     | Some a \<Rightarrow> do {
         XeLog XeUserClient_cpp 69 [LU32 selector];
         let dispatch = sMethods ! unat selector;
         super selector a dispatch
           (\<lambda>a. call_action K (dispatch_fn dispatch) (TClient this) (Some a)) }))"

section \<open>What the caller and the superclass promise\<close>

text \<open>The kernel hands over arrays that hold at least as many elements as the counts say.\<close>

definition args_wf :: "IOExternalMethodArguments \<Rightarrow> bool" where
  "args_wf a \<longleftrightarrow> unat (scalarInputCount a) \<le> length (scalarInput a) \<and>
     unat (scalarOutputCount a) \<le> length (scalarOutput a)"

definition counts_ok :: "IOExternalMethodDispatch \<Rightarrow> IOExternalMethodArguments \<Rightarrow> bool" where
  "counts_ok d a \<longleftrightarrow> checkScalarInputCount d = scalarInputCount a \<and>
     checkStructureInputSize d = structureInputSize a \<and>
     checkScalarOutputCount d = scalarOutputCount a \<and>
     checkStructureOutputSize d = structureOutputSize a"

text \<open>
  The documented behaviour of \<^verbatim>\<open>IOUserClient::externalMethod\<close> on a dispatch entry with fixed
  sizes: it calls the entry's function when all four counts match, and answers
  \<^verbatim>\<open>kIOReturnBadArgument\<close> without calling it when one does not.
\<close>

definition dispatch_contract :: "super_external \<Rightarrow> bool" where
  "dispatch_contract super \<longleftrightarrow> (\<forall>sel a d act. super sel a d act =
     (if counts_ok d a then act a else ret (kIOReturnBadArgument, Some a)))"

definition super_checked :: super_external where
  "super_checked sel a d act = (if counts_ok d a then act a else ret (kIOReturnBadArgument, Some a))"

lemma super_checked_contract: "dispatch_contract super_checked"
  by (simp add: dispatch_contract_def super_checked_def)

section \<open>Selectors\<close>

lemma sMethods_length [simp]: "length sMethods = 6"
  by (simp add: sMethods_def)

lemma selector_cases:
  assumes "selector < (6 :: u32)"
  obtains "selector = kMethodCreateBuffer" | "selector = kMethodSubmit" | "selector = kMethodWait"
    | "selector = kMethodReadReg" | "selector = kMethodGetGTConfig" | "selector = kMethodGetDisplayInfo"
proof -
  have "unat selector \<in> {..<6}" using assms by (simp add: word_less_nat_alt)
  also have "{..<6} = {0, 1, 2, 3, 4, 5 :: nat}" by auto
  finally have "unat selector \<in> unat ` {0, 1, 2, 3, 4, 5 :: u32}" by simp
  then have "selector \<in> {0, 1, 2, 3, 4, 5}" by (simp add: word_unat_eq_iff)
  then show ?thesis
    using that
    by (auto simp: kMethodCreateBuffer_def kMethodSubmit_def kMethodWait_def kMethodReadReg_def
        kMethodGetGTConfig_def kMethodGetDisplayInfo_def)
qed

lemmas selectors = kMethodCreateBuffer_def kMethodSubmit_def kMethodWait_def kMethodReadReg_def
  kMethodGetGTConfig_def kMethodGetDisplayInfo_def

text \<open>What \<open>externalMethod\<close> does, given the contract.\<close>

lemma externalMethod_contract:
  assumes "dispatch_contract super"
  shows "XeUserClient_externalMethod super K this selector args =
    (if 6 \<le> selector then do {
       XeLog XeUserClient_cpp 58 [LU32 selector, LU32 5]; ret (kIOReturnUnsupported, args) }
     else case args of
       None \<Rightarrow> do { XeLog XeUserClient_cpp 65 []; ret (kIOReturnBadArgument, None) }
     | Some a \<Rightarrow> do {
         XeLog XeUserClient_cpp 69 [LU32 selector];
         (if counts_ok (sMethods ! unat selector) a
          then call_action K (dispatch_fn (sMethods ! unat selector)) (TClient this) (Some a)
          else ret (kIOReturnBadArgument, Some a)) })"
  using assms
  by (auto simp: XeUserClient_externalMethod_def dispatch_contract_def Let_def split: option.splits)

end
