(* ===== verification/MmioSafety.thy ===== *)
theory MmioSafety
  imports UserClient
begin

text \<open>
  Where the driver touches the device. The predicate \<open>quiet\<close> describes accesses that stay inside
  the first \<open>n\<close> bytes of a mapped BAR0; the lemmas show it of every operation that creates no
  object, for the number of bytes the driver's own checks allow.
\<close>

section \<open>Accesses to BAR0\<close>

text \<open>
  Registers up to the end of the first fence pair are read without a check against the length
  of BAR0.
\<close>

definition bar_needed :: nat where
  "bar_needed = 0x100008"

definition bar_ok :: "nat \<Rightarrow> bool" where
  "bar_ok n \<longleftrightarrow> bar_needed \<le> n \<and> 4 dvd n"

text \<open>
  The bytes the driver may touch when BAR0 has \<open>n\<close>: those of the registers it does not check, and
  the dwords that begin inside BAR0.
\<close>

definition span :: "nat \<Rightarrow> nat" where
  "span n = max bar_needed (4 * ((n + 3) div 4))"

lemma span_ok: "bar_ok (span n)" and span_le: "n \<le> span n"
  by (auto simp: bar_ok_def span_def max_def bar_needed_def)

lemma span_id: "bar_ok n \<Longrightarrow> span n = n"
  by (auto simp: bar_ok_def span_def elim!: dvdE)

lemma span_access: "4 * i + 4 \<le> span n \<Longrightarrow> 4 * i < n \<or> 4 * i + 4 \<le> bar_needed"
  by (auto simp: span_def max_def split: if_splits)

text \<open>
  The events an operation may cause that neither creates nor releases objects, while a
  mapping of \<open>n\<close> bytes at \<open>b\<close> is there and the boot flags are \<open>B\<close>: register accesses inside
  that mapping; stores to the forcewake request register only, and only when forcewake is
  enabled; no undefined behaviour.
\<close>

fun quiet :: "u64 \<Rightarrow> nat \<Rightarrow> XeBootFlags \<Rightarrow> event \<Rightarrow> bool" where
  "quiet b n B (MmioRd p i v) = (p = b \<and> 4 * unat i + 4 \<le> n)"
| "quiet b n B (MmioWr p i v) = (p = b \<and> 4 * unat i + 4 \<le> n \<and> i = req_index \<and> fw_enabled B)"
| "quiet b n B (Log _ _ _) = True"
| "quiet b n B SyncIO = True"
| "quiet b n B (Delay _) = True"
| "quiet b n B (PciMemoryEnable _) = True"
| "quiet b n B (PciIOEnable _) = True"
| "quiet b n B (PciBusMasterEnable _) = True"
| "quiet b n B RegisterService = True"
| "quiet b n B SuperStop = True"
| "quiet b n B SuperFree = True"
| "quiet b n B Terminate = True"
| "quiet b n B _ = False"

text \<open>
  The driver's pointer is null or the address of that mapping, with its length recorded.
\<close>

definition mmio_inv :: "u64 \<Rightarrow> nat \<Rightarrow> XeBootFlags \<Rightarrow> XeBootFlags \<Rightarrow> XeService \<Rightarrow> bool" where
  "mmio_inv b n B B' S \<longleftrightarrow> B' = B \<and>
     (mmio S = 0 \<or> mmio S = b \<and> bar0Length S \<noteq> 0 \<and> n = span (unat (bar0Length S)))"

lemma quiet_rd: "bar_ok n \<Longrightarrow> unat i < 0x40002 \<Longrightarrow> quiet b n B (MmioRd b i v)"
  by (simp add: bar_ok_def bar_needed_def)

section \<open>Array accesses\<close>

lemma arr_store_in [simp]: "i < length out \<Longrightarrow> arr_store out i v = ret (out[i := v])"
  by (simp add: arr_store_def)

text \<open>\<open>yields m Q\<close>: every result of \<open>m\<close> satisfies \<open>Q\<close>.\<close>

definition yields :: "'a io \<Rightarrow> ('a \<Rightarrow> bool) \<Rightarrow> bool" where
  "yields m Q \<longleftrightarrow> (\<forall>w. Q (fst (run_state m w)))"

lemma safe_bind_yields:
  assumes "safe I P m" and "yields m Q" and "\<And>a. Q a \<Longrightarrow> safe I P (f a)"
  shows "safe I P (m \<bind> f)"
proof (rule safeI)
  fix w b w''
  assume I: "I (gXeBoot w) (svc w)" and r: "run_state (m \<bind> f) w = (b, w'')"
  obtain a w' where m: "run_state m w = (a, w')" by (rule prod.exhaust)
  then have "Q a" using assms(2) by (auto simp: yields_def dest: spec [of _ w])
  from r m have f: "run_state (f a) w' = (b, w'')" by simp
  from safeE [OF assms(1) I m] obtain es where
    1: "trace w' = trace w @ es" "list_all P es" "I (gXeBoot w') (svc w')" .
  from safeE [OF assms(3) [OF \<open>Q a\<close>] 1(3) f] obtain es' where
    "trace w'' = trace w' @ es'" "list_all P es'" "I (gXeBoot w'') (svc w'')" .
  with 1 show "I (gXeBoot w'') (svc w'') \<and> (\<exists>es. trace w'' = trace w @ es \<and> list_all P es)"
    by auto
qed

lemma store_regs_length:
  "yields (store_regs K offs i out) (\<lambda>out'. length out' = length out)"
proof (induction offs arbitrary: i out)
  case Nil
  show ?case by (simp add: yields_def)
next
  case (Cons off offs)
  have "yields (arr_store out i v) (\<lambda>out'. length out' = length out)" for v
    by (simp add: yields_def arr_store_def)
  with Cons show ?case by (auto simp: yields_def split: prod.splits) (metis fst_conv)
qed

lemma read_regs_loop_length:
  "yields (read_regs_loop K offs i out) (\<lambda>out'. length out' = length out)"
proof (induction offs arbitrary: i out)
  case Nil
  show ?case by (simp add: yields_def)
next
  case (Cons off offs)
  have "yields (arr_store out i v) (\<lambda>out'. length out' = length out)" for v
    by (simp add: yields_def arr_store_def)
  with Cons show ?case by (auto simp: yields_def split: prod.splits) (metis fst_conv)
qed

lemma scalar_out_in [simp]:
  "i < length (scalarOutput a) \<Longrightarrow>
   scalar_out a i v = ret (a\<lparr>scalarOutput := (scalarOutput a)[i := v]\<rparr>)"
  by (simp add: scalar_out_def)

lemma scalar_in_in [simp]: "i < length (scalarInput a) \<Longrightarrow> scalar_in a i = ret (scalarInput a ! i)"
  by (simp add: scalar_in_def)

lemma copy_out_run:
  "i + length vs \<le> length (scalarOutput a) \<Longrightarrow>
   copy_out vs i a = ret (a\<lparr>scalarOutput :=
     take i (scalarOutput a) @ map ucast vs @ drop (i + length vs) (scalarOutput a)\<rparr>)"
proof (induction vs arbitrary: i a)
  case Nil
  then show ?case by simp
next
  case (Cons v vs)
  then show ?case
    by (simp add: take_Suc_conv_app_nth nth_list_update_eq)
qed

lemma args_access:
  assumes "args_wf a"
  shows "1 \<le> scalarInputCount a \<Longrightarrow> scalar_in a 0 = ret (scalarInput a ! 0)"
    and "1 \<le> scalarOutputCount a \<Longrightarrow>
      scalar_out a 0 v = ret (a\<lparr>scalarOutput := (scalarOutput a)[0 := v]\<rparr>)"
    and "m \<le> scalarOutputCount a \<Longrightarrow> safe I P (copy_out (take (unat m) vs) 0 a)"
proof -
  have pos: "0 < length xs" if "1 \<le> n" "unat n \<le> length xs" for n :: u32 and xs :: "u64 list"
    using that by (cases xs) (auto simp: word_le_nat_alt)
  show "1 \<le> scalarInputCount a \<Longrightarrow> scalar_in a 0 = ret (scalarInput a ! 0)"
    using assms pos by (intro scalar_in_in) (auto simp: args_wf_def)
  show "1 \<le> scalarOutputCount a \<Longrightarrow>
      scalar_out a 0 v = ret (a\<lparr>scalarOutput := (scalarOutput a)[0 := v]\<rparr>)"
    using assms pos by (intro scalar_out_in) (auto simp: args_wf_def)
  assume "m \<le> scalarOutputCount a"
  then have "length (take (unat m) vs) \<le> length (scalarOutput a)"
    using assms by (auto simp: args_wf_def word_le_nat_alt min_def)
  then show "safe I P (copy_out (take (unat m) vs) 0 a)" by (simp add: copy_out_run safe_return)
qed

section \<open>Operations that do not use the service's pointer\<close>

lemma ggtt_quiet:
  assumes "bar_ok n" and "ggtt_event b probe_regs e"
  shows "quiet b n B e"
proof -
  have "\<forall>i \<in> probe_regs. unat i < 0x40002"
    by (simp add: probe_regs_def FENCE_START_def FENCE_END_def hw_consts)
  with assms show ?thesis
    by (cases e) (auto simp del: quiet.simps(1) intro: quiet_rd)
qed

lemma ggtt_probe_safe: "bar_ok n \<Longrightarrow> safe I (quiet b n B) (XeGGTT_probe K b)"
  by (rule safe_weaken [OF probe_safe]) (rule ggtt_quiet)

lemma probe_safe_svc: "safe I (quiet b n B) (XeService_probe K score)"
  unfolding XeService_probe_def by (intro safe_rules) simp_all

lemma free_safe: "safe I (quiet b n B) XeService_free"
  unfolding XeService_free_def by (intro safe_rules safe_emit) simp_all

lemma ucWait_safe: "safe I (quiet b n B) (ucWait t)"
  unfolding ucWait_def by (intro safe_rules) simp_all

lemma clientClose_safe: "safe I (quiet b n B) XeUserClient_clientClose"
  unfolding XeUserClient_clientClose_def by (intro safe_rules safe_emit) simp_all

lemma sWait_safe: "args_wf a \<Longrightarrow> safe I (quiet b n B) (sWait K t (Some a))"
  unfolding sWait_def by (auto simp: args_access intro!: safe_rules ucWait_safe)

section \<open>The ring dump\<close>

lemma scope_disabled_safe:
  assumes "\<not> fw_enabled B" and "\<And>B' S. I B' S \<Longrightarrow> B' = B"
    and "\<And>g. safe I P (body g)" and "\<And>f l a. P (Log f l a)"
  shows "safe I P (ForcewakeGuard_scope K b body)"
proof (rule safeI)
  fix w a w'
  assume I: "I (gXeBoot w) (svc w)" and run: "run_state (ForcewakeGuard_scope K b body) w = (a, w')"
  obtain l where "run_state (ForcewakeGuard_scope K b body) w =
      run_state (body \<lparr>fw_m = b, acquired = False\<rparr>) (w\<lparr>trace := trace w @ [Log ForcewakeGuard_hpp l []]\<rparr>)"
    by (rule scope_disabled [of b w]) (use I assms(1,2) in blast)
  with run have "run_state (body \<lparr>fw_m = b, acquired = False\<rparr>)
      (w\<lparr>trace := trace w @ [Log ForcewakeGuard_hpp l []]\<rparr>) = (a, w')" by simp
  from safeE [OF assms(3) _ this] I obtain es where
    "trace w' = (trace w @ [Log ForcewakeGuard_hpp l []]) @ es" "list_all P es" "I (gXeBoot w') (svc w')"
    by auto
  with assms(4) show "I (gXeBoot w') (svc w') \<and> (\<exists>es. trace w' = trace w @ es \<and> list_all P es)"
    by auto
qed

lemma ring_quiet:
  assumes "bar_ok n"
  shows "ring_read_event b e \<Longrightarrow> quiet b n B e"
    and "ring_event b e \<Longrightarrow> fw_enabled B \<Longrightarrow> quiet b n B e"
proof -
  have i: "\<forall>i \<in> insert ack_index ring_regs. unat i < 0x40002"
    by (simp add: ring_regs_def fw_indices hw_consts)
  show rd: "quiet b n B e" if "ring_read_event b e"
    using that assms i by (cases e) (auto simp del: quiet.simps(1) intro: quiet_rd)
  have "4 * unat req_index + 4 \<le> n"
    using assms by (simp add: bar_ok_def bar_needed_def fw_indices)
  with i assms rd show "quiet b n B e" if "ring_event b e" "fw_enabled B"
    using that unfolding ring_event_def
    by (cases e) (auto simp del: quiet.simps(1) intro: quiet_rd)
qed

lemma logRcs0State_quiet:
  assumes n: "cs_m cs = b" "bar_ok n" and I: "\<And>B' S. I B' S \<Longrightarrow> B' = B"
  shows "safe I (quiet b n B) (logRcs0State K cs)"
proof (cases "fw_enabled B")
  case True
  show ?thesis
    by (rule safe_weaken [OF logRcs0State_safe]) (use n True in \<open>auto intro: ring_quiet(2)\<close>)
next
  case False
  have "safe I (quiet b n B) (logRcs0State_guarded K (cs_m cs) g)" for g
    by (rule safe_weaken [OF guarded_safe]) (use n in \<open>auto intro: ring_quiet(1)\<close>)
  then show ?thesis
    unfolding logRcs0State_def
    by (intro safe_rules scope_disabled_safe [OF False I]) simp_all
qed

section \<open>Operations on a mapped device\<close>

text \<open>
  The contract between the service's pointer and the code that uses it: \<open>I\<close> is an invariant
  of the driver state that is at least as strong as \<open>mmio_inv\<close>. Whatever keeps \<open>I\<close> may read
  registers through the service. In \<open>mapped_client\<close> the pointer is known not to be null, so
  that unchecked reads are possible as well.
\<close>

locale mmio_client =
  fixes I :: "XeBootFlags \<Rightarrow> XeService \<Rightarrow> bool" and b :: u64 and n :: nat and B :: XeBootFlags
  assumes I_mmio: "I B' S \<Longrightarrow> mmio_inv b n B B' S"
begin

lemma readReg_safe: "safe I (quiet b n B) (readReg K off)"
proof (rule rr.rd_safe)
  fix B' S v
  assume "I B' S" "mmio S \<noteq> 0" and off: "unat off < svc_limit S"
  with I_mmio have n: "mmio S = b" "bar0Length S \<noteq> 0" "n = span (unat (bar0Length S))"
    by (auto simp: mmio_inv_def)
  then have "4 dvd n" using span_ok by (simp add: bar_ok_def)
  have "unat off < n" using off n span_le [of "unat (bar0Length S)"] by (simp add: svc_limit_def)
  from dword_index_bound [OF this \<open>4 dvd n\<close>] n show "quiet b n B (MmioRd (mmio S) (drop_bit 2 off) v)"
    by simp
qed simp

lemma logPowerState_safe: "safe I (quiet b n B) (logPowerState K)"
  unfolding logPowerState_def by (intro safe_rules readReg_safe) simp_all

lemma logDisplayState_safe: "safe I (quiet b n B) (logDisplayState K)"
  unfolding logDisplayState_def by (intro safe_rules readReg_safe) simp_all

lemma read_regs_loop_safe:
  "i + length offs \<le> length out \<Longrightarrow>
    safe I (quiet b n B) (read_regs_loop K offs i out)"
proof (induction offs arbitrary: i out)
  case Nil
  show ?case by (simp add: safe_return)
next
  case (Cons off offs)
  then show ?case by (auto intro!: safe_rules readReg_safe)
qed

lemma store_regs_safe:
  "i + length offs \<le> length out \<Longrightarrow>
    safe I (quiet b n B) (store_regs K offs i out)"
proof (induction offs arbitrary: i out)
  case Nil
  show ?case by (simp add: safe_return)
next
  case (Cons off offs)
  then show ?case by (auto intro!: safe_rules readReg_safe)
qed

lemma safe_store_regs_bind:
  assumes "i + length offs \<le> length out"
    and "\<And>out'. length out' = length out \<Longrightarrow> safe I (quiet b n B) (f out')"
  shows "safe I (quiet b n B) (store_regs K offs i out \<bind> f)"
  by (rule safe_bind_yields [OF store_regs_safe store_regs_length]) (use assms in auto)

lemma ucReadRegs_safe:
  assumes "\<And>xs. out = Some xs \<Longrightarrow> unat count \<le> length xs"
  shows "safe I (quiet b n B) (ucReadRegs K count out oc)"
  unfolding ucReadRegs_def Let_def
  by (intro safe_rules read_regs_loop_safe)
    (use assms in \<open>auto simp: min_def word_less_nat_alt\<close>)

lemma ucGetGTConfig_safe:
  assumes "\<And>xs. out = Some xs \<Longrightarrow> 8 \<le> length xs"
  shows "safe I (quiet b n B) (ucGetGTConfig K out oc)"
  unfolding ucGetGTConfig_def
  by (intro safe_store_regs_bind safe_rules)
    (use assms in \<open>auto simp: gt_config_regs_def\<close>)

lemma ucGetDisplayInfo_safe:
  assumes "\<And>xs. out = Some xs \<Longrightarrow> 8 \<le> length xs"
  shows "safe I (quiet b n B) (ucGetDisplayInfo K out oc)"
  unfolding ucGetDisplayInfo_def
  by (intro safe_store_regs_bind safe_rules)
    (use assms in \<open>auto simp: display_info_regs_def\<close>)

lemma sReadRegs_safe:
  "args_wf a \<Longrightarrow> scalarOutputCount a = 8 \<Longrightarrow>
    safe I (quiet b n B) (sReadRegs K t (Some a))"
  unfolding sReadRegs_def Let_def
  by (auto simp: not_less intro!: safe_rules ucReadRegs_safe args_access(3))

lemma sGetGTConfig_safe:
  "args_wf a \<Longrightarrow> safe I (quiet b n B) (sGetGTConfig K t (Some a))"
  unfolding sGetGTConfig_def Let_def
  by (auto simp: not_less intro!: safe_rules ucGetGTConfig_safe args_access(3))

lemma sGetDisplayInfo_safe:
  "args_wf a \<Longrightarrow> safe I (quiet b n B) (sGetDisplayInfo K t (Some a))"
  unfolding sGetDisplayInfo_def Let_def
  by (auto simp: not_less intro!: safe_rules ucGetDisplayInfo_safe args_access(3))

end

locale mapped_client = mmio_client +
  assumes I_mapped: "I B' S \<Longrightarrow> mmio S \<noteq> 0"
begin

lemma mmio_raw_safe:
  assumes "unat off < bar_needed"
  shows "safe I (quiet b n B) (mmio_raw K off)"
  unfolding mmio_raw_def
proof (rule safe_gets_bind)
  fix w
  assume "I (gXeBoot w) (svc w)"
  moreover have "unat (drop_bit 2 off) < 0x40002"
    using assms by (simp add: drop_bit_word_unat bar_needed_def)
  ultimately show "safe I (quiet b n B) (mmio_load K (mmio (svc w)) (drop_bit 2 off))"
    using I_mmio I_mapped
    by (intro safe_load) (auto simp: mmio_inv_def span_ok simp del: quiet.simps intro: quiet_rd)
qed

lemma start_read_safe: "safe I (quiet b n B) (start_read K)"
  unfolding start_read_def
proof (intro safe_gets_bind safe_rules mmio_raw_safe logPowerState_safe logDisplayState_safe)
  fix w :: world
  assume "I (gXeBoot w) (svc w)"
  with I_mmio I_mapped have "mmio (svc w) = b" "bar_ok n" by (auto simp: mmio_inv_def span_ok)
  then show "safe I (quiet b n B) (XeGGTT_probe K (mmio (svc w)))"
    by (simp add: ggtt_probe_safe)
qed (simp_all add: bar_needed_def)

end

text \<open>The state itself, as long as nothing changes it, is such an invariant.\<close>

definition fixed_state :: "u64 \<Rightarrow> nat \<Rightarrow> XeBootFlags \<Rightarrow> XeService \<Rightarrow> XeBootFlags \<Rightarrow> XeService \<Rightarrow> bool" where
  "fixed_state b n B S0 B' S \<longleftrightarrow> S = S0 \<and> mmio_inv b n B B' S"

interpretation fx: mmio_client "fixed_state b n B S0" b n B for b n B S0
  by unfold_locales (simp add: fixed_state_def)

interpretation fm: mapped_client "\<lambda>B' S. fixed_state b n B S0 B' S \<and> mmio S \<noteq> 0" b n B for b n B S0
  by unfold_locales (simp_all add: fixed_state_def)

end
