(* ===== verification/Ledger.thy ===== *)
theory Ledger
  imports MmioSafety
begin

text \<open>
  A ledger of the driver's obligations, kept over its trace: reference counts of the kernel
  objects it creates and the device mappings among them. A trace is accepted when every
  release has a reference to give back, every register access goes to a live mapping and not
  beyond its \<open>span\<close>, every buffer is written while it is alive, and nothing undefined happens. The lemmas relate
  the ledger of the trace to the fields of the service: an operation that starts with
  \<open>accounted\<close> true ends with it true.
\<close>

section \<open>The ledger\<close>

record ledger =
  refs :: "obj \<Rightarrow> nat"
  maps :: "(obj \<times> u64 \<times> nat) list" \<comment> \<open>mapping object, address, length\<close>

definition live_access :: "ledger \<Rightarrow> u64 \<Rightarrow> nat \<Rightarrow> bool" where
  "live_access L b m \<longleftrightarrow> list_ex (\<lambda>(x, p, len). 0 < refs L x \<and> p = b \<and> m \<le> span len) (maps L)"

fun drop_refs :: "obj list \<Rightarrow> (obj \<Rightarrow> nat) \<Rightarrow> (obj \<Rightarrow> nat) option" where
  "drop_refs [] r = Some r"
| "drop_refs (x # xs) r = (if 0 < r x then drop_refs xs (r(x := r x - 1)) else None)"

text \<open>
  One event at time \<open>n\<close>. New objects are named by their time. \<^verbatim>\<open>setObject\<close> takes a reference
  to the element; the release of the last reference to an array gives back one reference to
  each element; a store to a register is allowed to the forcewake request register only, and
  only when the flags enable forcewake.
\<close>

fun ledger_step :: "XeBootFlags \<Rightarrow> nat \<Rightarrow> event \<Rightarrow> ledger \<Rightarrow> ledger option" where
  "ledger_step B n (MmioRd b i v) L = (if live_access L b (4 * unat i + 4) then Some L else None)"
| "ledger_step B n (MmioWr b i v) L =
     (if live_access L b (4 * unat i + 4) \<and> i = req_index \<and> fw_enabled B then Some L else None)"
| "ledger_step B n (MapBar x b len) L =
     (if x = n then Some (L\<lparr>refs := (refs L)(x := 1), maps := (x, b, unat len) # maps L\<rparr>) else None)"
| "ledger_step B n (New x) L = (if x = n then Some (L\<lparr>refs := (refs L)(x := 1)\<rparr>) else None)"
| "ledger_step B n (ArrayAdd a x) L =
     (if 0 < refs L a \<and> 0 < refs L x then Some (L\<lparr>refs := (refs L)(x := refs L x + 1)\<rparr>) else None)"
| "ledger_step B n (Release x) L =
     (if 0 < refs L x then Some (L\<lparr>refs := (refs L)(x := refs L x - 1)\<rparr>) else None)"
| "ledger_step B n (ReleaseArray a xs) L =
     (if refs L a = 1
      then map_option (\<lambda>r. L\<lparr>refs := r\<rparr>) (drop_refs xs ((refs L)(a := 0))) else None)"
| "ledger_step B n (HandOut x) L =
     (if 0 < refs L x then Some (L\<lparr>refs := (refs L)(x := refs L x - 1)\<rparr>) else None)"
| "ledger_step B n (BufWr x i v) L = (if 0 < refs L x then Some L else None)"
| "ledger_step B n (Attach x) L = (if 0 < refs L x then Some L else None)"
| "ledger_step B n (Detach x) L = (if 0 < refs L x then Some L else None)"
| "ledger_step B n Fault L = None"
| "ledger_step B n _ L = Some L"

fun ledger_go :: "XeBootFlags \<Rightarrow> nat \<Rightarrow> event list \<Rightarrow> ledger \<Rightarrow> ledger option" where
  "ledger_go B n [] L = Some L"
| "ledger_go B n (e # es) L =
     (case ledger_step B n e L of None \<Rightarrow> None | Some L' \<Rightarrow> ledger_go B (Suc n) es L')"

definition ledger_empty :: ledger where
  "ledger_empty = \<lparr>refs = (\<lambda>_. 0), maps = []\<rparr>"

definition ledger_run :: "XeBootFlags \<Rightarrow> event list \<Rightarrow> ledger option" where
  "ledger_run B es = ledger_go B 0 es ledger_empty"

text \<open>The references the fields of the service stand for: two for each registered buffer.\<close>

definition holdings :: "XeService \<Rightarrow> obj list" where
  "holdings S = (case bar0 S of None \<Rightarrow> [] | Some b \<Rightarrow> [b]) @
     (case m_boList S of None \<Rightarrow> []
      | Some (a, bos) \<Rightarrow> a # map md_obj bos @ map md_obj bos)"

text \<open>The names among them are different, and a device pointer belongs to a live mapping.\<close>

definition names_ok :: "XeService \<Rightarrow> bool" where
  "names_ok S \<longleftrightarrow> (case m_boList S of None \<Rightarrow> True
     | Some (a, bos) \<Rightarrow> bar0 S \<noteq> Some a \<and> a \<notin> md_obj ` set bos)"

definition pointer_ok :: "ledger \<Rightarrow> XeService \<Rightarrow> bool" where
  "pointer_ok L S \<longleftrightarrow> mmio S = 0 \<or>
     bar0Length S \<noteq> 0 \<and>
     (\<exists>x. bar0 S = Some x \<and> (x, mmio S, unat (bar0Length S)) \<in> set (maps L))"

definition accounted :: "world \<Rightarrow> bool" where
  "accounted w \<longleftrightarrow> names_ok (svc w) \<and> (\<exists>L. ledger_run (gXeBoot w) (trace w) = Some L \<and>
     refs L = count_list (holdings (svc w)) \<and> pointer_ok L (svc w))"

section \<open>General facts\<close>

lemma ledger_go_append:
  "ledger_go B n (xs @ ys) L =
     (case ledger_go B n xs L of None \<Rightarrow> None | Some L' \<Rightarrow> ledger_go B (n + length xs) ys L')"
  by (induction xs arbitrary: n L) (auto split: option.splits)

lemma ledger_run_append:
  "ledger_run B xs = Some L \<Longrightarrow> ledger_run B (xs @ ys) = ledger_go B (length xs) ys L"
  by (simp add: ledger_run_def ledger_go_append)

lemma drop_refs_le: "drop_refs xs r = Some r' \<Longrightarrow> r' x \<le> r x"
proof (induction xs arbitrary: r)
  case (Cons y xs)
  then have "drop_refs xs (r(y := r y - 1)) = Some r'" by (simp split: if_splits)
  from Cons.IH [OF this] show ?case by (cases "x = y") simp_all
qed simp

lemma ledger_step_fresh:
  assumes "ledger_step B n e L = Some L'" and "refs L' x > 0"
  shows "refs L x > 0 \<or> x = n"
  using assms by (cases e) (auto split: if_splits dest: drop_refs_le [of _ _ _ x])

lemma ledger_go_fresh:
  "ledger_go B n es L = Some L' \<Longrightarrow> refs L' x > 0 \<Longrightarrow> refs L x > 0 \<or> x < n + length es"
proof (induction es arbitrary: n L)
  case (Cons e es)
  then obtain L1 where 1: "ledger_step B n e L = Some L1" "ledger_go B (Suc n) es L1 = Some L'"
    by (auto split: option.splits)
  from Cons.IH [OF 1(2) Cons.prems(2)] show ?case
    using ledger_step_fresh [OF 1(1), of x] by auto
qed simp

lemma ledger_fresh:
  assumes "ledger_run B es = Some L"
  shows "refs L (length es) = 0"
  using ledger_go_fresh [OF assms [unfolded ledger_run_def], of "length es"]
  by (auto simp: ledger_empty_def)

lemma drop_refs_count:
  "drop_refs xs (\<lambda>x. r x + count_list xs x) = Some r"
proof (induction xs)
  case (Cons y xs)
  have "(\<lambda>x. r x + count_list (y # xs) x)(y := r y + count_list (y # xs) y - 1) =
      (\<lambda>x. r x + count_list xs x)" by auto
  with Cons show ?case by simp
qed simp

lemma live_access_iff:
  "live_access L b m \<longleftrightarrow> (\<exists>x len. (x, b, len) \<in> set (maps L) \<and> 0 < refs L x \<and> m \<le> span len)"
proof
  assume "live_access L b m"
  then obtain t where "t \<in> set (maps L)" "case t of (x, p, len) \<Rightarrow> 0 < refs L x \<and> p = b \<and> m \<le> span len"
    unfolding live_access_def list_ex_iff by blast
  then show "\<exists>x len. (x, b, len) \<in> set (maps L) \<and> 0 < refs L x \<and> m \<le> span len"
    by (cases t) auto
next
  assume "\<exists>x len. (x, b, len) \<in> set (maps L) \<and> 0 < refs L x \<and> m \<le> span len"
  then obtain x len where "(x, b, len) \<in> set (maps L)" "0 < refs L x" "m \<le> span len" by blast
  then show "live_access L b m"
    unfolding live_access_def list_ex_iff by (intro bexI [of _ "(x, b, len)"]) simp_all
qed

lemma live_access_mono: "live_access L b m \<Longrightarrow> k \<le> m \<Longrightarrow> live_access L b k"
  unfolding live_access_iff by (meson order_trans)

lemma quiet_step:
  "quiet b m B e \<Longrightarrow> (m \<noteq> 0 \<Longrightarrow> live_access L b m) \<Longrightarrow> ledger_step B n e L = Some L"
  by (cases e) (auto dest: live_access_mono)

lemma quiet_go:
  assumes "m \<noteq> 0 \<Longrightarrow> live_access L b m"
  shows "list_all (quiet b m B) es \<Longrightarrow> ledger_go B n es L = Some L"
  by (induction es arbitrary: n) (simp_all add: quiet_step [OF _ assms])

section \<open>Operations without objects\<close>

lemma accounted_mapping:
  assumes "ledger_run B (trace w) = Some L" and "refs L = count_list (holdings (svc w))"
    and "pointer_ok L (svc w)" and "mmio (svc w) \<noteq> 0"
  shows "live_access L (mmio (svc w)) (span (unat (bar0Length (svc w))))" and "bar0Length (svc w) \<noteq> 0"
proof -
  from assms(3,4) obtain x where x: "bar0 (svc w) = Some x" "bar0Length (svc w) \<noteq> 0"
      "(x, mmio (svc w), unat (bar0Length (svc w))) \<in> set (maps L)"
    by (auto simp: pointer_ok_def)
  then have "0 < refs L x" by (simp add: assms(2) holdings_def)
  with x show "live_access L (mmio (svc w)) (span (unat (bar0Length (svc w))))"
      "bar0Length (svc w) \<noteq> 0"
    by (auto simp: live_access_iff)
qed

text \<open>
  A computation that is quiet under every fixed state (with a device pointer that is not
  null) leaves the accounts as they are.
\<close>

lemma accounted_nonnull:
  assumes acc: "accounted w" and run: "run_state m w = (a, w')" and nz: "mmio (svc w) \<noteq> 0"
    and m: "\<And>b n B S. safe (\<lambda>B' S'. fixed_state b n B S B' S' \<and> mmio S' \<noteq> 0) (quiet b n B) m"
  shows "accounted w'" and "svc w' = svc w" and "gXeBoot w' = gXeBoot w"
proof -
  let ?b = "mmio (svc w)" and ?n = "span (unat (bar0Length (svc w)))"
  from acc obtain L where L: "ledger_run (gXeBoot w) (trace w) = Some L"
      "refs L = count_list (holdings (svc w))" "pointer_ok L (svc w)" "names_ok (svc w)"
    by (auto simp: accounted_def)
  note mp = accounted_mapping [OF L(1-3) nz]
  have "fixed_state ?b ?n (gXeBoot w) (svc w) (gXeBoot w) (svc w) \<and> mmio (svc w) \<noteq> 0"
    using mp(2) nz by (auto simp: fixed_state_def mmio_inv_def)
  from safeE [OF m this run] obtain es where es: "trace w' = trace w @ es"
      "list_all (quiet ?b ?n (gXeBoot w)) es"
      "fixed_state ?b ?n (gXeBoot w) (svc w) (gXeBoot w') (svc w') \<and> mmio (svc w') \<noteq> 0" .
  then show sv: "svc w' = svc w" "gXeBoot w' = gXeBoot w"
    by (simp_all add: fixed_state_def mmio_inv_def)
  have "ledger_go (gXeBoot w) (length (trace w)) es L = Some L"
    using mp(1) es(2) by (rule quiet_go)
  with L es(1) sv show "accounted w'"
    unfolding accounted_def by (simp add: ledger_run_append)
qed

lemma accounted_fixed:
  assumes acc: "accounted w" and run: "run_state m w = (a, w')"
    and m: "\<And>b n B S. safe (fixed_state b n B S) (quiet b n B) m"
  shows "accounted w'" and "svc w' = svc w" and "gXeBoot w' = gXeBoot w"
proof -
  define b where "b = mmio (svc w)"
  define n where "n = (if b = 0 then 0 else span (unat (bar0Length (svc w))))"
  from acc obtain L where L: "ledger_run (gXeBoot w) (trace w) = Some L"
      "refs L = count_list (holdings (svc w))" "pointer_ok L (svc w)" "names_ok (svc w)"
    by (auto simp: accounted_def)
  note mp = accounted_mapping [OF L(1-3)]
  have "fixed_state b n (gXeBoot w) (svc w) (gXeBoot w) (svc w)"
    using mp(2) by (auto simp: fixed_state_def mmio_inv_def b_def n_def)
  from safeE [OF m this run] obtain es where es: "trace w' = trace w @ es"
      "list_all (quiet b n (gXeBoot w)) es" "fixed_state b n (gXeBoot w) (svc w) (gXeBoot w') (svc w')" .
  then show sv: "svc w' = svc w" "gXeBoot w' = gXeBoot w"
    by (simp_all add: fixed_state_def mmio_inv_def)
  have "ledger_go (gXeBoot w) (length (trace w)) es L = Some L"
    using es(2) by (rule quiet_go [rotated]) (use mp(1) in \<open>auto simp: b_def n_def split: if_splits\<close>)
  with L es(1) sv show "accounted w'"
    unfolding accounted_def by (simp add: ledger_run_append)
qed

section \<open>Mapping, publication and shutdown\<close>

lemma start_map_accounted:
  assumes acc: "accounted w" and S: "bar0 (svc w) = None" "mmio (svc w) = 0" "m_boList (svc w) = None"
    and run: "run_state (start_map K) w = (ok, w')"
  shows "accounted w'" and "gXeBoot w' = gXeBoot w" and "m_boList (svc w') = None"
    and "ok \<longleftrightarrow> mmio (svc w') \<noteq> 0" and "ok \<longleftrightarrow> bar0 (svc w') \<noteq> None" and "pci (svc w') = pci (svc w)"
proof -
  from acc S obtain L where L: "ledger_run (gXeBoot w) (trace w) = Some L" "refs L = (\<lambda>_. 0)"
    by (auto simp: accounted_def holdings_def fun_eq_iff)
  note * = run [symmetric] S L
  show "accounted w'"
    using *
    by (auto simp: start_map_def accounted_def holdings_def names_ok_def pointer_ok_def
        ledger_run_append fun_eq_iff split: option.splits if_splits)
  show "gXeBoot w' = gXeBoot w" "m_boList (svc w') = None" "pci (svc w') = pci (svc w)"
      "ok \<longleftrightarrow> mmio (svc w') \<noteq> 0" "ok \<longleftrightarrow> bar0 (svc w') \<noteq> None"
    using * by (auto simp: start_map_def split: option.splits if_splits)
qed

text \<open>
  Symbolic execution of events from an accounted state: the ledger there, and that the name
  of a new object is not in use.
\<close>

lemma accountedE:
  assumes "accounted w"
  obtains L where "ledger_run (gXeBoot w) (trace w) = Some L"
    and "refs L = count_list (holdings (svc w))" and "pointer_ok L (svc w)" and "names_ok (svc w)"
  using assms by (auto simp: accounted_def)

lemma accounted_fresh:
  assumes "accounted w" and "length (trace w) \<le> n"
  shows "n \<notin> set (holdings (svc w))"
proof -
  from assms(1) obtain L where L: "ledger_run (gXeBoot w) (trace w) = Some L"
      "refs L = count_list (holdings (svc w))" "pointer_ok L (svc w)" "names_ok (svc w)"
    by (rule accountedE)
  have "refs L n = 0"
    using ledger_go_fresh [OF L(1) [unfolded ledger_run_def], of n] assms(2)
    by (auto simp: ledger_empty_def)
  then show ?thesis by (simp add: L(2) count_list_0_iff)
qed

lemma start_publish_accounted:
  assumes acc: "accounted w" and bo: "m_boList (svc w) = None"
    and run: "run_state (start_publish K v d r) w = (ok, w')"
  shows "accounted w'" and "gXeBoot w' = gXeBoot w" and "bar0 (svc w') = bar0 (svc w)"
    and "mmio (svc w') = mmio (svc w)" and "ok \<longleftrightarrow> m_boList (svc w') \<noteq> None"
    and "pci (svc w') = pci (svc w)"
proof -
  from acc obtain L where L0: "ledger_run (gXeBoot w) (trace w) = Some L"
      and L: "refs L = count_list (holdings (svc w))" "pointer_ok L (svc w)" "names_ok (svc w)"
    by (rule accountedE)
  note fresh = accounted_fresh [OF acc] and go = ledger_run_append [OF L0]
  have "bar0 (svc w) \<noteq> Some (Suc (length (trace w)))"
    using fresh [of "Suc (length (trace w))"] by (auto simp: holdings_def)
  with L bo run show "accounted w'"
    by (auto simp: start_publish_def accounted_def go holdings_def names_ok_def pointer_ok_def fun_eq_iff
        split: option.splits if_splits)
  show "gXeBoot w' = gXeBoot w" "bar0 (svc w') = bar0 (svc w)" "mmio (svc w') = mmio (svc w)"
      "ok \<longleftrightarrow> m_boList (svc w') \<noteq> None" "pci (svc w') = pci (svc w)"
    using run bo by (auto simp: start_publish_def split: if_splits)
qed

lemma release_all_run:
  "run_state (release_all bos) w = ((), w\<lparr>trace := trace w @ map (Release \<circ> md_obj) bos\<rparr>)"
  by (induction bos arbitrary: w) simp_all

lemma ledger_go_releases:
  "ledger_go B n (map Release xs) (L\<lparr>refs := (\<lambda>x. r x + count_list xs x)\<rparr>) = Some (L\<lparr>refs := r\<rparr>)"
proof (induction xs arbitrary: n)
  case (Cons y xs)
  have "(\<lambda>x. r x + count_list (y # xs) x)(y := r y + count_list (y # xs) y - 1) =
      (\<lambda>x. r x + count_list xs x)" by auto
  with Cons show ?case by simp
qed simp

text \<open>Giving back both references of every buffer, and the array.\<close>

lemma ledger_go_registry:
  assumes "refs L = (\<lambda>x. r x + count_list (a # xs @ xs) x)" and "r a = 0" and "a \<notin> set xs"
  shows "ledger_go B n (map Release xs @ [ReleaseArray a xs]) L = Some (L\<lparr>refs := r\<rparr>)"
proof -
  let ?r = "\<lambda>x. (r x + count_list (a # xs) x) + count_list xs x"
  have "?r = refs L" by (simp add: assms(1) fun_eq_iff)
  then have "L\<lparr>refs := ?r\<rparr> = L" by simp
  then have "ledger_go B n (map Release xs) L = Some (L\<lparr>refs := \<lambda>x. r x + count_list (a # xs) x\<rparr>)"
    using ledger_go_releases [of B n xs "\<lambda>x. r x + count_list (a # xs) x" L] by simp
  moreover have "(\<lambda>x. r x + count_list (a # xs) x)(a := 0) = (\<lambda>x. r x + count_list xs x)"
    using assms(2,3) by (auto simp: count_list_0_iff)
  ultimately show ?thesis
    using assms(2,3) by (simp add: ledger_go_append count_list_0_iff drop_refs_count)
qed

lemma stop_accounted:
  assumes acc: "accounted w" and run: "run_state XeService_stop w = (u, w')"
  shows "accounted w'" and "gXeBoot w' = gXeBoot w" and "holdings (svc w') = []"
    and "bar0 (svc w') = None" and "m_boList (svc w') = None" and "mmio (svc w') = 0"
proof -
  from acc obtain L where L0: "ledger_run (gXeBoot w) (trace w) = Some L"
      and L: "refs L = count_list (holdings (svc w))" "pointer_ok L (svc w)" "names_ok (svc w)"
    by (rule accountedE)
  note go = ledger_run_append [OF L0]
  show fl: "gXeBoot w' = gXeBoot w" and b: "bar0 (svc w') = None" and bo: "m_boList (svc w') = None"
    using run by (auto simp: XeService_stop_def release_all_run split: option.splits if_splits)
  show m: "mmio (svc w') = 0"
    using run L(2) by (auto simp: XeService_stop_def release_all_run pointer_ok_def split: option.splits if_splits)
  show h: "holdings (svc w') = []" using b bo by (simp add: holdings_def)
  define bar where "bar = (case bar0 (svc w) of None \<Rightarrow> [] | Some x \<Rightarrow> [x])"
  have "\<exists>L'. ledger_run (gXeBoot w) (trace w') = Some L' \<and> refs L' = (\<lambda>_. 0)"
  proof (cases "m_boList (svc w)")
    case None
    with run show ?thesis
      by (auto simp: XeService_stop_def go L(1) holdings_def fun_eq_iff split: option.splits if_splits)
  next
    case (Some ab)
    obtain a bos where ab: "ab = (a, bos)" by (cases ab)
    let ?xs = "map md_obj bos"
    have r: "refs L = (\<lambda>x. count_list bar x + count_list (a # ?xs @ ?xs) x)" "count_list bar a = 0" "a \<notin> set ?xs"
      using L(1,3) Some ab by (auto simp: holdings_def names_ok_def bar_def fun_eq_iff split: option.splits)
    note reg = ledger_go_registry [OF r]
    have "ledger_go B n (map (Release \<circ> md_obj) bos @ ReleaseArray a ?xs # es) L =
        ledger_go B (Suc (n + length bos)) es (L\<lparr>refs := count_list bar\<rparr>)" for B n es
      using ledger_go_append [of B n "map Release ?xs @ [ReleaseArray a ?xs]" es L]
      by (simp only: reg option.case) simp
    with run Some ab show ?thesis
      by (auto simp: XeService_stop_def release_all_run go bar_def fun_eq_iff split: option.splits if_splits)
  qed
  with fl h m b bo show "accounted w'"
    by (auto simp: accounted_def names_ok_def pointer_ok_def fun_eq_iff)
qed

section \<open>Start and initialisation\<close>

text \<open>\<^verbatim>\<open>PE_parse_boot_argn\<close> leaves a terminated string in the buffer.\<close>

definition boot_ok :: "kernel_env \<Rightarrow> bool" where
  "boot_ok K \<longleftrightarrow> (\<forall>buf. boot_arg K = Some buf \<longrightarrow> (\<exists>s. c_string buf s))"

lemma parse_only_logs:
  assumes "boot_ok K" and "run_state (XeParseBootArgs K) w = (u, w')"
  shows "svc w' = svc w" and "\<exists>es. trace w' = trace w @ es \<and> list_all (\<lambda>e. \<exists>f l a. e = Log f l a) es"
proof -
  show "svc w' = svc w" using assms(2) by (auto simp: XeParseBootArgs_def split: option.splits)
  show "\<exists>es. trace w' = trace w @ es \<and> list_all (\<lambda>e. \<exists>f l a. e = Log f l a) es"
  proof (cases "boot_arg K")
    case None
    with assms(2) show ?thesis by (simp add: XeParseBootArgs_def)
  next
    case (Some buf)
    with assms(1) obtain s where "c_string buf s" by (auto simp: boot_ok_def)
    from XeParseBootArgs_run [OF Some this] assms(2) show ?thesis by (auto simp: Let_def)
  qed
qed

lemma init_accounted:
  assumes K: "boot_ok K" and acc: "accounted w" and S: "svc w = XeService_new" "trace w = []"
    and run: "run_state (XeService_init K) w = (ok, w')"
  shows "accounted w'" and "svc w' = XeService_new"
proof -
  let ?w1 = "w\<lparr>trace := [Log XeService_cpp 35 [], Log XeService_cpp 36 []]\<rparr>"
  obtain u w2 where 2: "run_state (XeParseBootArgs K) ?w1 = (u, w2)" by (rule prod.exhaust)
  have "\<exists>es. svc w' = svc w \<and> trace w' = es \<and> list_all (\<lambda>e. \<exists>f l a. e = Log f l a) es"
    using run S(2) 2 parse_only_logs [OF K 2]
    by (auto simp: XeService_init_def split: if_splits prod.splits)
  then obtain es where es: "svc w' = svc w" "trace w' = es" "list_all (\<lambda>e. \<exists>f l a. e = Log f l a) es"
    by blast
  show "svc w' = XeService_new" using es(1) S(1) by simp
  have "list_all (quiet 0 0 (gXeBoot w')) es" using es(3) by (auto simp: list_all_iff)
  then have "ledger_go (gXeBoot w') 0 es ledger_empty = Some ledger_empty" by (rule quiet_go [rotated]) simp
  with es(1,2) S(1) show "accounted w'"
    by (auto simp: accounted_def ledger_run_def ledger_empty_def XeService_new_def names_ok_def
        holdings_def pointer_ok_def fun_eq_iff)
qed

lemma start_accounted:
  assumes acc: "accounted w" and S: "svc w = XeService_new"
    and run: "run_state (XeService_start K) w = (ok, w')"
  shows "accounted w'" and "gXeBoot w' = gXeBoot w"
    and "ok \<Longrightarrow> mmio (svc w') \<noteq> 0 \<and> bar0 (svc w') \<noteq> None \<and> m_boList (svc w') \<noteq> None \<and> pci (svc w')"
proof -
  let ?go = "super_start K (trace w @ [Log XeService_cpp 79 []]) \<and> is_IOPCIDevice K"
  let ?w0 = "w\<lparr>trace := trace w @ [Log XeService_cpp 79 []], svc := (svc w)\<lparr>pci := True\<rparr>\<rparr>"
  obtain mp w1 where 1: "run_state (start_map K) ?w0 = (mp, w1)" by (rule prod.exhaust)
  obtain v d r w2 where 2: "run_state (start_read K) w1 = ((v, d, r), w2)" by (metis prod.exhaust)
  obtain p w3 where 3: "run_state (start_publish K v d r) w2 = (p, w3)" by (rule prod.exhaust)
  from acc obtain L where L: "ledger_run (gXeBoot w) (trace w) = Some L"
      "refs L = count_list (holdings (svc w))" "pointer_ok L (svc w)" "names_ok (svc w)"
    by (rule accountedE)
  note go = ledger_run_append [OF L(1)]
  have a0: "accounted ?w0"
    using L S by (auto simp: accounted_def go names_ok_def holdings_def pointer_ok_def XeService_new_def)
  have s0: "bar0 (svc ?w0) = None" "mmio (svc ?w0) = 0" "m_boList (svc ?w0) = None" "pci (svc ?w0)"
    using S by (simp_all add: XeService_new_def)
  note m = start_map_accounted [OF a0 s0(1-3) 1]
  have not_go: "accounted w' \<and> gXeBoot w' = gXeBoot w \<and> \<not> ok" if "\<not> ?go"
    using that run L S
    by (auto simp: XeService_start_def accounted_def go names_ok_def holdings_def pointer_ok_def
        XeService_new_def split: if_splits)
  have unmapped: "w' = w1 \<and> \<not> ok" if "?go" "\<not> mp"
    using that run 1 by (simp add: XeService_start_def)
  have mapped: "w' = w3 \<and> ok = p" if "?go" mp
    using that run 1 2 3 by (simp add: XeService_start_def)
  have rd: "accounted w2" "svc w2 = svc w1" "gXeBoot w2 = gXeBoot w1" if mp
    using accounted_nonnull [OF m(1) 2 _ fm.start_read_safe] that m(4) by simp_all
  have pb: "accounted w3" "gXeBoot w3 = gXeBoot w" "bar0 (svc w3) \<noteq> None" "mmio (svc w3) \<noteq> 0"
      "p \<longleftrightarrow> m_boList (svc w3) \<noteq> None" "pci (svc w3)" if mp
    using start_publish_accounted [OF rd(1) [OF that] _ 3] rd [OF that] m that s0(4) by simp_all
  show "accounted w'" "gXeBoot w' = gXeBoot w"
    "ok \<Longrightarrow> mmio (svc w') \<noteq> 0 \<and> bar0 (svc w') \<noteq> None \<and> m_boList (svc w') \<noteq> None \<and> pci (svc w')"
    using not_go unmapped mapped m pb by (cases ?go; cases mp; force)+
qed

end
