(* ===== verification/LedgerCalls.thy ===== *)
theory LedgerCalls
  imports Ledger
begin

text \<open>
  The accounts of the calls that create objects: buffer creation, batch submission and the
  creation of user clients; then of every call a user client can make.
\<close>

section \<open>Buffers\<close>

lemma ucCreateBuffer_accounted:
  assumes acc: "accounted w" and run: "run_state (ucCreateBuffer K bytes) w = (r, w')"
  shows "accounted w'" and "gXeBoot w' = gXeBoot w" and "bar0 (svc w') = bar0 (svc w)"
    and "mmio (svc w') = mmio (svc w)" and "m_boList (svc w') = None \<longleftrightarrow> m_boList (svc w) = None"
    and "pci (svc w') = pci (svc w)"
proof -
  from acc obtain L where L0: "ledger_run (gXeBoot w) (trace w) = Some L"
      and L: "refs L = count_list (holdings (svc w))" "pointer_ok L (svc w)" "names_ok (svc w)"
    by (rule accountedE)
  note fresh = accounted_fresh [OF acc, of "Suc (Suc (length (trace w)))"] and go = ledger_run_append [OF L0]
  show "gXeBoot w' = gXeBoot w" "bar0 (svc w') = bar0 (svc w)" "mmio (svc w') = mmio (svc w)"
      "m_boList (svc w') = None \<longleftrightarrow> m_boList (svc w) = None" "pci (svc w') = pci (svc w)"
    using run by (auto simp: ucCreateBuffer_def Let_def bo_add_def withOptions_def split: option.splits if_splits)
  show "accounted w'"
  proof (cases "m_boList (svc w)")
    case None
    with run L go show ?thesis by (auto simp: ucCreateBuffer_def accounted_def)
  next
    case (Some ab)
    obtain a bos where ab: "ab = (a, bos)" by (cases ab)
    have ra: "0 < refs L a" using Some ab by (simp add: L(1) holdings_def)
    have n: "Suc (Suc (length (trace w))) \<noteq> a" "Suc (Suc (length (trace w))) \<notin> md_obj ` set bos"
        "bar0 (svc w) \<noteq> Some (Suc (Suc (length (trace w))))"
      using fresh Some ab by (auto simp: holdings_def split: option.splits)
    have pl: "pointer_ok (L\<lparr>refs := r\<rparr>) (svc w\<lparr>m_boList := x\<rparr>)" for r x
      using L(2) by (simp add: pointer_ok_def)
    show ?thesis
      using run Some ab L(3) n ra pl
      by (auto simp: ucCreateBuffer_def Let_def bo_add_def withOptions_def accounted_def go holdings_def names_ok_def
          pointer_ok_def L(1,2) fun_eq_iff count_list_0_iff
          split: option.splits if_splits)
  qed
qed

section \<open>Batch submission\<close>

text \<open>Quiet, except for stores to the buffer \<open>x\<close>.\<close>

fun quiet_buf :: "u64 \<Rightarrow> nat \<Rightarrow> XeBootFlags \<Rightarrow> obj \<Rightarrow> event \<Rightarrow> bool" where
  "quiet_buf b n B x (BufWr y i v) = (y = x)"
| "quiet_buf b n B x e = quiet b n B e"

lemma quiet_buf_quiet: "quiet b n B e \<Longrightarrow> quiet_buf b n B x e"
  by (cases e) simp_all

lemma quiet_buf_go:
  assumes "live_access L b m" and "0 < refs L x"
  shows "list_all (quiet_buf b m B x) es \<Longrightarrow> ledger_go B n es L = Some L"
proof (induction es arbitrary: n)
  case (Cons e es)
  have "ledger_step B n e L = Some L"
    using Cons.prems assms quiet_step [of b m B e L n] by (cases e) auto
  with Cons show ?case by simp
qed simp

lemma live_access_new:
  assumes "live_access L b m" and "refs L x = 0"
  shows "live_access (L\<lparr>refs := (refs L)(x := k)\<rparr>) b m"
proof -
  from assms(1) obtain y len where "(y, b, len) \<in> set (maps L)" "0 < refs L y" "m \<le> span len"
    unfolding live_access_iff by blast
  moreover have "y \<noteq> x" using \<open>0 < refs L y\<close> assms(2) by auto
  ultimately show ?thesis unfolding live_access_iff by auto
qed

lemma submitNoop_quiet:
  assumes "cs_m cs = b" and "bar_ok n" and "\<And>B' S. I B' S \<Longrightarrow> B' = B"
  shows "safe I (quiet_buf b n B (md_obj md)) (submitNoop K cs (Some md))"
  unfolding submitNoop_def option.case
  by (intro safe_rules safe_emit safe_weaken [OF logRcs0State_quiet [OF assms]])
    (simp_all add: quiet_buf_quiet)

lemma ucSubmitNoop_accounted:
  assumes acc: "accounted w" and run: "run_state (ucSubmitNoop K) w = (kr, w')"
  shows "accounted w' \<and> gXeBoot w' = gXeBoot w \<and> svc w' = svc w"
proof -
  let ?h = "trace w @ [Log XeService_cpp 383 [], Log XeService_cpp 391 []]"
  from acc obtain L where L0: "ledger_run (gXeBoot w) (trace w) = Some L"
      and L: "refs L = count_list (holdings (svc w))" "pointer_ok L (svc w)" "names_ok (svc w)"
    by (rule accountedE)
  note go = ledger_run_append [OF L0]
  show ?thesis
  proof (cases "mmio (svc w) = 0 \<or> new_buffer K ?h 4096 = None")
    case True
    with run L go show ?thesis
      by (auto simp: ucSubmitNoop_def withOptions_def accounted_def split: if_splits)
  next
    case False
    then obtain addr len where nb: "new_buffer K ?h 4096 = Some (addr, len)" by auto
    let ?x = "length ?h" and ?b = "mmio (svc w)" and ?n = "span (unat (bar0Length (svc w)))"
    let ?md = "\<lparr>md_obj = ?x, md_addr = addr, md_len = len\<rparr>"
    let ?w1 = "w\<lparr>trace := ?h @ [New ?x, Log XeService_cpp 400 []]\<rparr>"
    let ?L1 = "L\<lparr>refs := (refs L)(?x := 1)\<rparr>"
    note mp = accounted_mapping [OF L0 L(1,2)]
    obtain k w2 where 2: "run_state (submitNoop K \<lparr>cs_m = ?b\<rparr> (Some ?md)) ?w1 = (k, w2)"
      by (rule prod.exhaust)
    have "safe (fixed_state ?b ?n (gXeBoot w) (svc w)) (quiet_buf ?b ?n (gXeBoot w) ?x)
        (submitNoop K \<lparr>cs_m = ?b\<rparr> (Some ?md))"
      using submitNoop_quiet [of _ ?b ?n "fixed_state ?b ?n (gXeBoot w) (svc w)" _ ?md, OF _ span_ok] mp False
      by (simp add: fixed_state_def mmio_inv_def)
    from safeE [OF this _ 2] mp False obtain es where es: "trace w2 = trace ?w1 @ es"
        "list_all (quiet_buf ?b ?n (gXeBoot w) ?x) es" "svc w2 = svc w" "gXeBoot w2 = gXeBoot w"
      by (auto simp: fixed_state_def mmio_inv_def)
    have w': "w' = w2\<lparr>trace := trace w2 @ [Log XeService_cpp 403 [LU32 k], Release ?x]\<rparr>"
      using run False nb 2 by (auto simp: ucSubmitNoop_def withOptions_def XeCommandStream_ctor_def)
    have fx: "refs L ?x = 0"
      using accounted_fresh [OF acc, of ?x] by (simp add: L(1) count_list_0_iff)
    have "live_access ?L1 ?b ?n"
      using mp(1) False fx by (simp add: live_access_new)
    then have "ledger_go (gXeBoot w) k es ?L1 = Some ?L1" for k
      using es(2) by (intro quiet_buf_go) simp_all
    then have "ledger_run (gXeBoot w) (trace w') = Some (L\<lparr>refs := (refs L)(?x := 0)\<rparr>)"
      by (simp add: w' es(1) go ledger_go_append)
    also have "(refs L)(?x := 0) = refs L" using fx by auto
    finally show ?thesis
      using L es w' by (auto simp: accounted_def pointer_ok_def)
  qed
qed

section \<open>User clients\<close>

lemma newUserClient_accounted:
  assumes acc: "accounted w" and run: "run_state (XeService_newUserClient K task type) w = (r, w')"
  shows "accounted w' \<and> gXeBoot w' = gXeBoot w \<and> svc w' = svc w"
proof -
  from acc obtain L where L0: "ledger_run (gXeBoot w) (trace w) = Some L"
      and L: "refs L = count_list (holdings (svc w))" "pointer_ok L (svc w)" "names_ok (svc w)"
    by (rule accountedE)
  let ?x = "Suc (Suc (length (trace w)))"
  have fx: "refs L ?x = 0"
    using accounted_fresh [OF acc, of ?x] by (simp add: L(1) count_list_0_iff)
  then have "(refs L)(?x := 0) = refs L" by auto
  with run L pointer_ok_def show ?thesis
    by (auto simp: XeService_newUserClient_def XeCreateUserClient_def XeUserClient_initWithTask_def
        XeUserClient_start_def Let_def accounted_def ledger_run_append [OF L0] split: if_splits)
qed

section \<open>Handlers and the external method\<close>

text \<open>
  What every call of a user client keeps: the accounts, the boot flags, the mapping, and
  whether the registry is there.
\<close>

definition keeps :: "world \<Rightarrow> world \<Rightarrow> bool" where
  "keeps w w' \<longleftrightarrow> accounted w' \<and> gXeBoot w' = gXeBoot w \<and> bar0 (svc w') = bar0 (svc w) \<and>
     mmio (svc w') = mmio (svc w) \<and> pci (svc w') = pci (svc w) \<and>
     (m_boList (svc w') = None \<longleftrightarrow> m_boList (svc w) = None)"

lemma keeps_fixed:
  assumes "accounted w" and "run_state m w = (a, w')"
    and "\<And>b n B S. safe (fixed_state b n B S) (quiet b n B) m"
  shows "keeps w w'"
  using accounted_fixed [OF assms] by (simp add: keeps_def)

lemma accounted_log: "accounted w \<Longrightarrow> accounted (w\<lparr>trace := trace w @ [Log f l a]\<rparr>)"
  by (rule accounted_fixed(1) [where m = "XeLog f l a" and w = w and a = "()"]) (auto intro!: safe_XeLog)

lemma sCreateBuffer_keeps:
  assumes acc: "accounted w" and a: "args_wf a" and run: "run_state (sCreateBuffer K t (Some a)) w = (r, w')"
  shows "keeps w w'"
proof (cases "\<exists>c. t = TClient c \<and> providerSvc c")
  case True
  let ?w1 = "w\<lparr>trace := trace w @ [Log XeUserClient_cpp 79 []]\<rparr>"
  let ?n = "if 1 \<le> scalarInputCount a then clamp_bytes (scalarInput a ! 0) else 4096"
  obtain kr ck w2 where 2: "run_state (ucCreateBuffer K ?n) ?w1 = ((kr, ck), w2)" by (metis prod.exhaust)
  have "w' = w2"
    using run True 2 a by (auto simp: sCreateBuffer_def args_access split: if_splits)
  with ucCreateBuffer_accounted [OF accounted_log [OF acc] 2] show ?thesis
    by (simp add: keeps_def)
next
  case False
  then have "safe I (quiet b n B) (sCreateBuffer K t (Some a))" for I b n B
    unfolding sCreateBuffer_def by (cases t) (auto intro!: safe_rules)
  with acc run show ?thesis by (rule keeps_fixed)
qed

lemma sSubmit_keeps:
  assumes acc: "accounted w" and run: "run_state (sSubmit K t args) w = (r, w')"
  shows "keeps w w'"
proof (cases "target_ready t")
  case True
  obtain kr w2 where 2: "run_state (ucSubmitNoop K) (w\<lparr>trace := trace w @ [Log XeUserClient_cpp 116 []]\<rparr>) = (kr, w2)"
    by (rule prod.exhaust)
  moreover have "t \<noteq> TNull" using True by (auto simp: target_ready_def)
  ultimately have "w' = w2" using run True by (simp add: sSubmit_def)
  with ucSubmitNoop_accounted [OF accounted_log [OF acc] 2] show ?thesis by (simp add: keeps_def)
next
  case False
  then have "safe I (quiet b n B) (sSubmit K t args)" for I b n B
    unfolding sSubmit_def by (auto intro!: safe_rules)
  with acc run show ?thesis by (rule keeps_fixed)
qed

lemma call_action_keeps:
  assumes acc: "accounted w" and a: "args_wf a" and d: "counts_ok d a" "d \<in> set sMethods"
    and run: "run_state (call_action K (dispatch_fn d) t (Some a)) w = (r, w')"
  shows "keeps w w'"
proof -
  have "scalarOutputCount a = 8" if "dispatch_fn d = SReadRegs"
    using d that by (auto simp: sMethods_def counts_ok_def)
  then show ?thesis
    using run sCreateBuffer_keeps [OF acc a] sSubmit_keeps [OF acc]
      keeps_fixed [OF acc _ sWait_safe [OF a]] keeps_fixed [OF acc _ fx.sReadRegs_safe [OF a]]
      keeps_fixed [OF acc _ fx.sGetGTConfig_safe [OF a]] keeps_fixed [OF acc _ fx.sGetDisplayInfo_safe [OF a]]
    by (cases "dispatch_fn d") simp_all
qed

lemma keeps_log: "keeps (w\<lparr>trace := tr\<rparr>) w' \<longleftrightarrow> keeps w w'"
  by (simp add: keeps_def)

lemma externalMethod_keeps:
  assumes acc: "accounted w" and sup: "dispatch_contract super" and a: "\<And>a. args = Some a \<Longrightarrow> args_wf a"
    and run: "run_state (XeUserClient_externalMethod super K this selector args) w = (r, w')"
  shows "keeps w w'"
proof (cases "selector < 6 \<and> (\<exists>a. args = Some a \<and> counts_ok (sMethods ! unat selector) a)")
  case True
  then obtain a' where a': "args = Some a'" "counts_ok (sMethods ! unat selector) a'" by blast
  have "sMethods ! unat selector \<in> set sMethods" using True by (simp add: word_less_nat_alt)
  moreover from run True a' have "run_state (call_action K (dispatch_fn (sMethods ! unat selector)) (TClient this) (Some a'))
      (w\<lparr>trace := trace w @ [Log XeUserClient_cpp 69 [LU32 selector]]\<rparr>) = (r, w')"
    by (simp add: externalMethod_contract [OF sup] flip: not_less)
  ultimately show ?thesis
    using call_action_keeps [OF accounted_log [OF acc] a [OF a'(1)] a'(2)] by (simp add: keeps_log)
next
  case False
  then have "safe I (quiet b n B) (XeUserClient_externalMethod super K this selector args)" for I b n B
    unfolding externalMethod_contract [OF sup] by (auto simp: not_le intro!: safe_rules)
  with acc run show ?thesis by (rule keeps_fixed)
qed

end
