(* ===== verification/DriverSystem.thy ===== *)
theory DriverSystem
  imports LedgerCalls
begin

text \<open>
  The driver as a state machine: the order in which IOKit calls the service, and the calls
  of its user clients, interleaved in any way while it runs and after it stopped. The
  invariant ties the phase to the fields of the service and to the ledger of its trace.
\<close>

section \<open>Phases and steps\<close>

datatype phase =
    Allocated \<comment> \<open>constructed\<close>
  | Initialized \<comment> \<open>\<open>init\<close> returned true\<close>
  | Running \<comment> \<open>\<open>start\<close> returned true\<close>
  | Stopped \<comment> \<open>\<open>stop\<close> returned\<close>
  | Freed \<comment> \<open>\<open>free\<close> after \<open>stop\<close>\<close>
  | Abandoned \<comment> \<open>\<open>init\<close>, \<open>probe\<close> or \<open>start\<close> failed: \<open>stop\<close> is not called\<close>
  | Dropped \<comment> \<open>\<open>free\<close> after such a failure\<close>

record sys =
  sys_phase :: phase
  sys_world :: world
  sys_clients :: "XeUserClient list"

definition sys_init :: sys where
  "sys_init = \<lparr>sys_phase = Allocated, sys_world = init_world, sys_clients = []\<rparr>"

inductive sys_step :: "super_external \<Rightarrow> kernel_env \<Rightarrow> sys \<Rightarrow> sys \<Rightarrow> bool"
  for super :: super_external and K :: kernel_env where
  step_init: "run_state (XeService_init K) w = (ok, w') \<Longrightarrow>
    sys_step super K \<lparr>sys_phase = Allocated, sys_world = w, sys_clients = cs\<rparr>
      \<lparr>sys_phase = (if ok then Initialized else Abandoned), sys_world = w', sys_clients = cs\<rparr>"
| step_probe: "run_state (XeService_probe K score) w = ((ok, score'), w') \<Longrightarrow>
    sys_step super K \<lparr>sys_phase = Initialized, sys_world = w, sys_clients = cs\<rparr>
      \<lparr>sys_phase = (if ok then Initialized else Abandoned), sys_world = w', sys_clients = cs\<rparr>"
| step_start: "run_state (XeService_start K) w = (ok, w') \<Longrightarrow>
    sys_step super K \<lparr>sys_phase = Initialized, sys_world = w, sys_clients = cs\<rparr>
      \<lparr>sys_phase = (if ok then Running else Abandoned), sys_world = w', sys_clients = cs\<rparr>"
| step_open: "run_state (XeService_newUserClient K task type) w = ((kr, uc), w') \<Longrightarrow>
    sys_step super K \<lparr>sys_phase = Running, sys_world = w, sys_clients = cs\<rparr>
      \<lparr>sys_phase = Running, sys_world = w', sys_clients = (case uc of None \<Rightarrow> cs | Some c \<Rightarrow> c # cs)\<rparr>"
| step_call: "c \<in> set cs \<Longrightarrow> p = Running \<or> p = Stopped \<Longrightarrow> (\<And>a. args = Some a \<Longrightarrow> args_wf a) \<Longrightarrow>
    run_state (XeUserClient_externalMethod super K c selector args) w = (r, w') \<Longrightarrow>
    sys_step super K \<lparr>sys_phase = p, sys_world = w, sys_clients = cs\<rparr>
      \<lparr>sys_phase = p, sys_world = w', sys_clients = cs\<rparr>"
| step_close: "c \<in> set cs \<Longrightarrow> p = Running \<or> p = Stopped \<Longrightarrow>
    run_state XeUserClient_clientClose w = (kr, w') \<Longrightarrow>
    sys_step super K \<lparr>sys_phase = p, sys_world = w, sys_clients = cs\<rparr>
      \<lparr>sys_phase = p, sys_world = w', sys_clients = remove1 c cs\<rparr>"
| step_stop: "run_state XeService_stop w = (u, w') \<Longrightarrow>
    sys_step super K \<lparr>sys_phase = Running, sys_world = w, sys_clients = cs\<rparr>
      \<lparr>sys_phase = Stopped, sys_world = w', sys_clients = cs\<rparr>"
| step_free: "p = Stopped \<or> p = Abandoned \<Longrightarrow> run_state XeService_free w = (u, w') \<Longrightarrow>
    sys_step super K \<lparr>sys_phase = p, sys_world = w, sys_clients = cs\<rparr>
      \<lparr>sys_phase = (if p = Stopped then Freed else Dropped), sys_world = w', sys_clients = cs\<rparr>"

definition sys_reach :: "super_external \<Rightarrow> kernel_env \<Rightarrow> sys \<Rightarrow> bool" where
  "sys_reach super K s \<longleftrightarrow> (sys_step super K)\<^sup>*\<^sup>* sys_init s"

section \<open>The invariant\<close>

text \<open>What the fields of the service are in each phase.\<close>

primrec phase_ok :: "phase \<Rightarrow> world \<Rightarrow> bool" where
  "phase_ok Allocated w \<longleftrightarrow> w = init_world"
| "phase_ok Initialized w \<longleftrightarrow> svc w = XeService_new"
| "phase_ok Running w \<longleftrightarrow> mmio (svc w) \<noteq> 0 \<and> bar0 (svc w) \<noteq> None \<and> m_boList (svc w) \<noteq> None \<and> pci (svc w)"
| "phase_ok Stopped w \<longleftrightarrow> mmio (svc w) = 0 \<and> bar0 (svc w) = None \<and> m_boList (svc w) = None"
| "phase_ok Freed w \<longleftrightarrow> mmio (svc w) = 0 \<and> bar0 (svc w) = None \<and> m_boList (svc w) = None"
| "phase_ok Abandoned w \<longleftrightarrow> True"
| "phase_ok Dropped w \<longleftrightarrow> True"

definition sys_inv :: "sys \<Rightarrow> bool" where
  "sys_inv s \<longleftrightarrow> accounted (sys_world s) \<and> phase_ok (sys_phase s) (sys_world s) \<and>
     (\<forall>c \<in> set (sys_clients s). providerSvc c)"

text \<open>The assumptions on the environment: see \<open>boot_ok\<close> and \<open>dispatch_contract\<close>.\<close>

definition env_ok :: "super_external \<Rightarrow> kernel_env \<Rightarrow> bool" where
  "env_ok super K \<longleftrightarrow> boot_ok K \<and> dispatch_contract super"

lemma sys_inv_init: "sys_inv sys_init"
  by (auto simp: sys_inv_def sys_init_def accounted_def init_world_def XeService_new_def names_ok_def
      holdings_def pointer_ok_def ledger_run_def ledger_empty_def fun_eq_iff)

lemma keeps_phase:
  "keeps w w' \<Longrightarrow> p = Running \<or> p = Stopped \<Longrightarrow> phase_ok p w \<Longrightarrow> accounted w' \<and> phase_ok p w'"
  by (auto simp: keeps_def)

lemma newUserClient_ready:
  "run_state (XeService_newUserClient K task type) w = ((kr, Some c), w') \<Longrightarrow> providerSvc c"
  by (auto simp: XeService_newUserClient_def XeCreateUserClient_def XeUserClient_initWithTask_def
      XeUserClient_start_def Let_def split: if_splits option.splits)

lemma sys_inv_step:
  assumes "env_ok super K" and "sys_step super K s s'" and "sys_inv s"
  shows "sys_inv s'"
  using assms(2,3)
proof (induction rule: sys_step.induct)
  case (step_init w ok w' cs)
  then show ?case
    using assms(1) init_accounted [of K w ok w']
    by (auto simp: sys_inv_def env_ok_def init_world_def)
next
  case (step_probe score w ok score' w' cs)
  then show ?case
    using accounted_fixed [OF _ step_probe(1) probe_safe_svc] by (auto simp: sys_inv_def)
next
  case (step_start w ok w' cs)
  then show ?case
    using assms(1) start_accounted [OF _ _ step_start(1)] by (auto simp: sys_inv_def env_ok_def)
next
  case (step_open task type w kr uc w' cs)
  then show ?case
    using newUserClient_accounted [OF _ step_open(1)] newUserClient_ready [of K task type w kr _ w']
    by (auto simp: sys_inv_def split: option.splits)
next
  case (step_call c cs p args selector w r w')
  then show ?case
    using assms(1) externalMethod_keeps [OF _ _ step_call(3) step_call(4)] keeps_phase [of w w' p]
    by (auto simp: sys_inv_def env_ok_def)
next
  case (step_close c cs p w kr w')
  then show ?case
    using keeps_fixed [OF _ step_close(3) clientClose_safe] keeps_phase [of w w' p]
    by (auto simp: sys_inv_def dest: notin_set_remove1)
next
  case (step_stop w u w' cs)
  then show ?case
    using stop_accounted [OF _ step_stop(1)] by (auto simp: sys_inv_def)
next
  case (step_free p w u w' cs)
  then show ?case
    using accounted_fixed [OF _ step_free(2) free_safe] by (auto simp: sys_inv_def)
qed

lemma sys_inv_reach: "env_ok super K \<Longrightarrow> sys_reach super K s \<Longrightarrow> sys_inv s"
  unfolding sys_reach_def
  by (erule rtranclp_induct) (auto intro: sys_inv_init sys_inv_step)

end
