(* ===== verification/DriverProps.thy ===== *)
theory DriverProps
  imports DriverSystem
begin

text \<open>
  The properties of the whole driver: every reachable state of the state machine of
  \<^verbatim>\<open>DriverSystem\<close>, for every environment that satisfies the assumptions named there.
\<close>

section \<open>Reading an accepted trace\<close>

lemma ledger_step_maps:
  "ledger_step B n e L = Some L' \<Longrightarrow> (x, b, m) \<in> set (maps L') \<Longrightarrow>
   (x, b, m) \<in> set (maps L) \<or> (\<exists>len. e = MapBar x b len \<and> m = unat len)"
  by (cases e) (auto split: if_splits)

lemma ledger_go_maps:
  "ledger_go B n es L = Some L' \<Longrightarrow> (x, b, m) \<in> set (maps L') \<Longrightarrow>
   (x, b, m) \<in> set (maps L) \<or> (\<exists>len. MapBar x b len \<in> set es \<and> m = unat len)"
proof (induction es arbitrary: n L)
  case (Cons e es)
  then obtain L1 where 1: "ledger_step B n e L = Some L1" "ledger_go B (Suc n) es L1 = Some L'"
    by (auto split: option.splits)
  from Cons.IH [OF 1(2) Cons.prems(2)] ledger_step_maps [OF 1(1)] show ?case by auto
qed simp

lemma ledger_run_event:
  assumes "ledger_run B (h @ e # t) = Some L"
  obtains L1 L2 where "ledger_run B h = Some L1" and "ledger_step B (length h) e L1 = Some L2"
  using assms by (auto simp: ledger_run_def ledger_go_append split: option.splits)

text \<open>A register access of an accepted trace follows the creation of its mapping.\<close>

lemma ledger_run_access:
  assumes "ledger_run B h = Some L" and "live_access L b m"
  shows "\<exists>x len. MapBar x b len \<in> set h \<and> m \<le> span (unat len) \<and> 0 < refs L x"
proof -
  from assms(2) obtain x k where "(x, b, k) \<in> set (maps L)" "0 < refs L x" "m \<le> span k"
    unfolding live_access_iff by blast
  with ledger_go_maps [OF assms(1) [unfolded ledger_run_def] this(1)] show ?thesis
    by (auto simp: ledger_empty_def)
qed

text \<open>An environment and a run for the witnesses: start, open a client, create a buffer, stop.\<close>

lemma kernel_ok_env: "env_ok super_checked kernel_ok"
  by (auto simp: env_ok_def super_checked_contract boot_ok_def kernel_ok_def)

lemma sys_reach_init: "sys_reach super K sys_init"
  by (simp add: sys_reach_def)

lemma sys_reach_step: "sys_reach super K s \<Longrightarrow> sys_step super K s s' \<Longrightarrow> sys_reach super K s'"
  unfolding sys_reach_def by (rule rtranclp.rtrancl_into_rtrancl)

lemma reach_initialized:
  assumes "super_init K [Log XeService_cpp 35 [], Log XeService_cpp 36 []]"
  obtains w where "sys_reach super K \<lparr>sys_phase = Initialized, sys_world = w, sys_clients = []\<rparr>"
proof -
  obtain ok w where "run_state (XeService_init K) init_world = (ok, w)" by (rule prod.exhaust)
  moreover from this have ok using assms by (auto simp: XeService_init_def init_world_def split: prod.splits)
  ultimately have "run_state (XeService_init K) init_world = (True, w)" by simp
  from sys_reach_step [OF sys_reach_init [unfolded sys_init_def] step_init [OF this]] show ?thesis
    by (intro that) simp
qed

lemma start_kernel_ok: "fst (run_state (XeService_start kernel_ok) w)"
  by (simp add: XeService_start_def start_map_def start_publish_def kernel_ok_def split: prod.splits)

text \<open>The first register read of \<open>start\<close>, of the dword at offset 0.\<close>

lemma readReg_grows: "safe (\<lambda>_ _. True) (\<lambda>_. True) (readReg K off)"
  by (rule rr.rd_safe) simp_all

lemma start_read_first:
  "\<exists>h v t. trace (snd (run_state (start_read K) w)) = h @ MmioRd (mmio (svc w)) 0 v # t"
proof -
  let ?S = "\<lambda>m. safe (\<lambda>_ _. True) (\<lambda>_. True) m"
  have raw: "?S (mmio_raw K off)" for off
    unfolding mmio_raw_def by (intro safe_rules safe_load) simp
  have dumps: "?S (logPowerState K)" "?S (logDisplayState K)"
    unfolding logPowerState_def logDisplayState_def by (intro safe_rules readReg_grows; simp)+
  have gg: "?S (XeGGTT_probe K b)" for b by (rule safe_weaken [OF probe_safe]) simp
  define rest where "rest v d r reg0 = do {
     reg4 \<leftarrow> mmio_raw K 0x4;
     reg10 \<leftarrow> mmio_raw K 0x10;
     reg100 \<leftarrow> mmio_raw K 0x100;
     XeLog XeService_cpp 152 [LU32 reg0, LU32 reg4];
     XeLog XeService_cpp 153 [LU32 reg10, LU32 reg100];
     XeLog XeService_cpp 154 [];
     XeLog XeService_cpp 157 [];
     f \<leftarrow> gets gXeBoot;
     (if strictSafe f then XeLog XeService_cpp 159 []
      else do {
        logPowerState K;
        XeLog XeService_cpp 165 [];
        S \<leftarrow> gets svc;
        XeGGTT_probe K (mmio S);
        logDisplayState K });
     XeLog XeService_cpp 171 [];
     ret (v :: u16, d :: u16, r :: u8) }" for v d r reg0
  have rest: "?S (rest v d r reg0)" for v d r reg0
    unfolding rest_def by (intro safe_rules raw dumps gg) simp_all
  have "\<exists>v d r v' w1. run_state (start_read K) w = run_state (rest v d r v') w1 \<and>
      (\<exists>v. MmioRd (mmio (svc w)) 0 v \<in> set (trace w1))"
    unfolding start_read_def rest_def [symmetric]
    by (simp add: mmio_raw_def [where off = 0]) (rule exI conjI refl disjI1 | simp)+
  then obtain v d r v' w1 x where run: "run_state (start_read K) w = run_state (rest v d r v') w1"
      "MmioRd (mmio (svc w)) 0 x \<in> set (trace w1)" by blast
  obtain a w' where r: "run_state (rest v d r v') w1 = (a, w')" by (rule prod.exhaust)
  from safeE [OF rest _ r] obtain es where "trace w' = trace w1 @ es" by auto
  with run r have "MmioRd (mmio (svc w)) 0 x \<in> set (trace (snd (run_state (start_read K) w)))" by simp
  then show ?thesis by (metis split_list)
qed

lemma start_kernel_ok_read:
  "\<exists>h v t. trace (snd (run_state (XeService_start kernel_ok) w)) = h @ MmioRd 0xFFFFFF8000000000 0 v # t"
proof -
  obtain w1 where 1: "run_state (XeService_start kernel_ok) w =
      (case run_state (start_read kernel_ok) w1 of ((v, d, r), w2) \<Rightarrow> run_state (start_publish kernel_ok v d r) w2)"
      "mmio (svc w1) = 0xFFFFFF8000000000"
    by (atomize_elim, simp add: XeService_start_def start_map_def kernel_ok_def case_prod_beta)
      (rule exI conjI refl | simp)+
  obtain v d r w2 where 2: "run_state (start_read kernel_ok) w1 = ((v, d, r), w2)" by (metis prod.exhaust)
  obtain h x t where "trace w2 = h @ MmioRd 0xFFFFFF8000000000 0 x # t"
    using start_read_first [of kernel_ok w1] 1(2) 2 by auto
  moreover have "\<exists>es. trace (snd (run_state (start_publish kernel_ok v d r) w2)) = trace w2 @ es"
    by (simp add: start_publish_def kernel_ok_def)
  ultimately show ?thesis using 1(1) 2 by auto blast
qed

lemma reach_running:
  obtains w h v t where "sys_reach super kernel_ok \<lparr>sys_phase = Running, sys_world = w, sys_clients = []\<rparr>"
    and "trace w = h @ MmioRd 0xFFFFFF8000000000 0 v # t"
proof -
  obtain w0 where r: "sys_reach super kernel_ok \<lparr>sys_phase = Initialized, sys_world = w0, sys_clients = []\<rparr>"
    by (rule reach_initialized [of kernel_ok]) (simp add: kernel_ok_def)
  obtain ok w where s: "run_state (XeService_start kernel_ok) w0 = (ok, w)" by (rule prod.exhaust)
  with start_kernel_ok [of w0] have "run_state (XeService_start kernel_ok) w0 = (True, w)" by simp
  from sys_reach_step [OF r step_start [OF this]] start_kernel_ok_read [of w0] s show ?thesis
    by (auto intro: that)
qed

lemma reach_stopped:
  obtains w c where "sys_reach super kernel_ok \<lparr>sys_phase = Stopped, sys_world = w, sys_clients = [c]\<rparr>"
proof -
  obtain w0 h v t where r0: "sys_reach super kernel_ok \<lparr>sys_phase = Running, sys_world = w0, sys_clients = []\<rparr>"
      and "trace w0 = h @ MmioRd 0xFFFFFF8000000000 0 v # t"
    by (rule reach_running)
  obtain kr c w1 where "run_state (XeService_newUserClient kernel_ok 0 0) w0 = ((kr, Some c), w1)"
    by (atomize_elim, simp add: XeService_newUserClient_def XeCreateUserClient_def XeUserClient_start_def
        XeUserClient_initWithTask_def kernel_ok_def)
  from sys_reach_step [OF r0 step_open [OF this]]
  have r1: "sys_reach super kernel_ok \<lparr>sys_phase = Running, sys_world = w1, sys_clients = [c]\<rparr>" by simp
  obtain u w where s: "run_state XeService_stop w1 = (u, w)" by (rule prod.exhaust)
  from sys_reach_step [OF r1 step_stop [OF s]] show ?thesis by (rule that)
qed

section \<open>Safety of every reachable state\<close>

text \<open>
  C2. In every reachable state, whatever calls were made in whatever order, the ledger accepts
  the trace: every release had a reference to give back, every register access was inside a
  mapping alive at that moment, every buffer store went to a live buffer, no array was
  overrun; and the references the driver still owes are exactly those its fields stand for
  (one for the mapping, one for the registry, two for each registered buffer).
\<close>

theorem driver_accounted:
  assumes "env_ok super K" and "sys_reach super K s"
  shows "\<exists>L. ledger_run (gXeBoot (sys_world s)) (trace (sys_world s)) = Some L \<and>
    refs L = count_list (holdings (svc (sys_world s)))"
  using sys_inv_reach [OF assms] by (auto simp: sys_inv_def accounted_def)

theorem driver_accounted_witness:
  "\<exists>w L. sys_reach super_checked kernel_ok \<lparr>sys_phase = Running, sys_world = w, sys_clients = []\<rparr> \<and>
     ledger_run (gXeBoot w) (trace w) = Some L \<and> refs L = count_list (holdings (svc w))"
proof -
  obtain w h v t where r: "sys_reach super_checked kernel_ok \<lparr>sys_phase = Running, sys_world = w, sys_clients = []\<rparr>"
      and "trace w = h @ MmioRd 0xFFFFFF8000000000 0 v # t"
    by (rule reach_running)
  with driver_accounted [OF kernel_ok_env r] show ?thesis by auto
qed

text \<open>
  C3. After \<open>stop\<close> nothing is owed: every object the driver ever created, whichever buffers were
  registered and whichever calls failed, has been given back exactly as often as it was
  taken; and it stays so whatever calls arrive later.
\<close>

theorem stop_leaves_nothing:
  assumes "env_ok super K" and "sys_reach super K s" and "sys_phase s = Stopped \<or> sys_phase s = Freed"
  shows "\<exists>L. ledger_run (gXeBoot (sys_world s)) (trace (sys_world s)) = Some L \<and> (\<forall>x. refs L x = 0)"
  using sys_inv_reach [OF assms(1,2)] assms(3) by (auto simp: sys_inv_def accounted_def holdings_def)

theorem stop_leaves_nothing_witness:
  "\<exists>w c L. sys_reach super_checked kernel_ok \<lparr>sys_phase = Stopped, sys_world = w, sys_clients = [c]\<rparr> \<and>
     ledger_run (gXeBoot w) (trace w) = Some L \<and> (\<forall>x. refs L x = 0)"
proof -
  obtain w c where r: "sys_reach super_checked kernel_ok \<lparr>sys_phase = Stopped, sys_world = w, sys_clients = [c]\<rparr>"
    by (rule reach_stopped)
  with stop_leaves_nothing [OF kernel_ok_env r] show ?thesis by auto
qed

text \<open>Where an access lies, in terms of the length of its mapping.\<close>

lemma access_place:
  assumes "ledger_run B h = Some L" and "live_access L b (4 * i + 4)"
  shows "\<exists>x len. MapBar x b len \<in> set h \<and> 0 < refs L x \<and> (4 * i < unat len \<or> 4 * i + 4 \<le> bar_needed) \<and>
    (bar_ok (unat len) \<longrightarrow> 4 * i + 4 \<le> unat len)"
  using ledger_run_access [OF assms] span_access span_id by metis

text \<open>
  C1. Register accesses in any reachable trace, whatever the size of BAR0: each goes through the address of a
  mapping made before it, whose object still has a reference at that moment, and it begins inside the length
  of the mapping or is an access to the registers below 0x100008 that the code does not check against the
  length. So it lies wholly inside every mapping that is a whole number of dwords and reaches
  0x100008. The only register ever written is the forcewake request, and only when the boot flags leave
  forcewake enabled. No undefined access is ever recorded.
\<close>

theorem device_access_safe:
  assumes "env_ok super K" and "sys_reach super K s" and "trace (sys_world s) = h @ e # t"
  shows "e \<noteq> Fault \<and>
    (case e of
       MmioRd b i v \<Rightarrow> \<exists>L. ledger_run (gXeBoot (sys_world s)) h = Some L \<and>
         (\<exists>x len. MapBar x b len \<in> set h \<and> 0 < refs L x \<and>
           (4 * unat i < unat len \<or> 4 * unat i + 4 \<le> 0x100008) \<and>
           (0x100008 \<le> unat len \<and> 4 dvd unat len \<longrightarrow> 4 * unat i + 4 \<le> unat len))
     | MmioWr b i v \<Rightarrow> i = drop_bit 2 FORCEWAKE_REQ \<and> fw_enabled (gXeBoot (sys_world s)) \<and>
         (\<exists>L. ledger_run (gXeBoot (sys_world s)) h = Some L \<and>
           (\<exists>x len. MapBar x b len \<in> set h \<and> 0 < refs L x \<and>
             (0x100008 \<le> unat len \<and> 4 dvd unat len \<longrightarrow> 4 * unat i + 4 \<le> unat len)))
     | _ \<Rightarrow> True)"
proof -
  let ?B = "gXeBoot (sys_world s)"
  from sys_inv_reach [OF assms(1,2)] assms(3) obtain L where "ledger_run ?B (h @ e # t) = Some L"
    by (auto simp: sys_inv_def accounted_def)
  then obtain L1 L2 where L: "ledger_run ?B h = Some L1" "ledger_step ?B (length h) e L1 = Some L2"
    by (rule ledger_run_event)
  show ?thesis
  proof (cases e)
    case (MmioRd b i v)
    with L(2) have "live_access L1 b (4 * unat i + 4)" by (simp split: if_splits)
    from access_place [OF L(1) this] MmioRd L(1) show ?thesis by (auto simp: bar_ok_def bar_needed_def)
  next
    case (MmioWr b i v)
    with L(2) have w: "live_access L1 b (4 * unat i + 4)" "i = req_index" "fw_enabled ?B"
      by (simp_all split: if_splits)
    from access_place [OF L(1) w(1)] MmioWr L(1) w(2,3) show ?thesis
      by (auto simp: req_index_def bar_ok_def bar_needed_def)
  qed (use L(2) in simp_all)
qed

theorem device_access_safe_witness:
  "\<exists>w h v t x len L. sys_reach super_checked kernel_ok \<lparr>sys_phase = Running, sys_world = w, sys_clients = []\<rparr> \<and>
     trace w = h @ MmioRd 0xFFFFFF8000000000 0 v # t \<and>
     MapBar x 0xFFFFFF8000000000 len \<in> set h \<and> ledger_run (gXeBoot w) h = Some L \<and> 0 < refs L x"
proof -
  obtain w h v t where r: "sys_reach super_checked kernel_ok \<lparr>sys_phase = Running, sys_world = w, sys_clients = []\<rparr>"
      and t: "trace w = h @ MmioRd 0xFFFFFF8000000000 0 v # t"
    by (rule reach_running)
  with device_access_safe [OF kernel_ok_env r, of h] show ?thesis by fastforce
qed

section \<open>After stop\<close>

lemma stopped_call:
  assumes "svc w = S" and "mmio S = 0" and "m_boList S = None" and "args_wf a" and "providerSvc c"
    and "selector < 6" and "counts_ok (sMethods ! unat selector) a"
  shows "\<exists>es. run_state (call_action K (dispatch_fn (sMethods ! unat selector)) (TClient c) (Some a)) w =
    ((if selector = kMethodWait then kIOReturnSuccess else kIOReturnNotReady, Some a),
     w\<lparr>trace := trace w @ es\<rparr>) \<and> list_all (\<lambda>e. \<exists>f l x. e = Log f l x) es"
proof -
  have ne: "kIOReturnNotReady \<noteq> kIOReturnSuccess" by (simp add: codes code_layout)
  have wait: "scalarInputCount a = 1" if "selector = kMethodWait"
    using assms(7) that by (simp add: counts_ok_def sMethods_def selectors)
  show ?thesis
    using assms(6)
  proof (cases rule: selector_cases)
    case 1
    with assms ne show ?thesis
      by (auto simp: selectors sMethods_def sCreateBuffer_def ucCreateBuffer_def args_access
          split: if_splits)
  next
    case 2
    with assms ne show ?thesis
      by (auto simp: selectors sMethods_def sSubmit_def ucSubmitNoop_def target_ready_def)
  next
    case 3
    with assms wait show ?thesis
      by (auto simp: selectors sMethods_def sWait_def ucWait_def target_ready_def args_access)
  next
    case 4
    with assms ne show ?thesis
      by (auto simp: selectors sMethods_def sReadRegs_def ucReadRegs_def target_ready_def)
  next
    case 5
    with assms ne show ?thesis
      by (auto simp: selectors sMethods_def sGetGTConfig_def ucGetGTConfig_def target_ready_def)
  next
    case 6
    with assms ne show ?thesis
      by (auto simp: selectors sMethods_def sGetDisplayInfo_def ucGetDisplayInfo_def target_ready_def)
  qed
qed

text \<open>
  C4. A call that arrives after \<open>stop\<close>, with a valid selector and matching counts, touches
  nothing: it is answered \<^verbatim>\<open>kIOReturnNotReady\<close> (a wait is answered success), leaves the
  arguments and the service as they are, and adds only log lines to the trace.
\<close>

theorem calls_after_stop:
  assumes env: "env_ok super K" and r: "sys_reach super K s" and st: "sys_phase s = Stopped"
    and c: "c \<in> set (sys_clients s)" and a: "args_wf a" and sel: "selector < 6"
    and ok: "counts_ok (sMethods ! unat selector) a"
  shows "\<exists>es. run_state (XeUserClient_externalMethod super K c selector (Some a)) (sys_world s) =
    ((if selector = kMethodWait then kIOReturnSuccess else kIOReturnNotReady, Some a),
     (sys_world s)\<lparr>trace := trace (sys_world s) @ es\<rparr>) \<and> list_all (\<lambda>e. \<exists>f l x. e = Log f l x) es"
proof -
  let ?w = "(sys_world s)\<lparr>trace := trace (sys_world s) @ [Log XeUserClient_cpp 69 [LU32 selector]]\<rparr>"
  have S: "mmio (svc (sys_world s)) = 0" "m_boList (svc (sys_world s)) = None" "providerSvc c"
    using sys_inv_reach [OF env r] st c by (auto simp: sys_inv_def)
  have "svc ?w = svc (sys_world s)" by simp
  from stopped_call [OF this S(1,2) a S(3) sel ok, of K] obtain es where
    "run_state (call_action K (dispatch_fn (sMethods ! unat selector)) (TClient c) (Some a)) ?w =
      ((if selector = kMethodWait then kIOReturnSuccess else kIOReturnNotReady, Some a),
       ?w\<lparr>trace := trace ?w @ es\<rparr>)" "list_all (\<lambda>e. \<exists>f l x. e = Log f l x) es" by blast
  moreover have "\<not> 6 \<le> selector" using sel by simp
  moreover have "dispatch_contract super" using env by (simp add: env_ok_def)
  ultimately show ?thesis
    using ok
    by (intro exI [of _ "Log XeUserClient_cpp 69 [LU32 selector] # es"]) (simp add: externalMethod_contract)
qed

text \<open>Arguments of a well-formed call of \<^verbatim>\<open>kMethodReadReg\<close>.\<close>

definition read_args :: IOExternalMethodArguments where
  "read_args = \<lparr>scalarInput = [], scalarInputCount = 0, structureInputSize = 0,
     scalarOutput = replicate 16 0, scalarOutputCount = 8, structureOutputSize = 0\<rparr>"

lemma read_args_ok: "args_wf read_args" "counts_ok (sMethods ! unat kMethodReadReg) read_args"
  by (simp_all add: args_wf_def counts_ok_def read_args_def sMethods_def selectors)

theorem calls_after_stop_witness:
  "\<exists>w c es. sys_reach super_checked kernel_ok \<lparr>sys_phase = Stopped, sys_world = w, sys_clients = [c]\<rparr> \<and>
     run_state (XeUserClient_externalMethod super_checked kernel_ok c 3 (Some read_args)) w =
       ((kIOReturnNotReady, Some read_args), w\<lparr>trace := trace w @ es\<rparr>)"
proof -
  obtain w c where r: "sys_reach super_checked kernel_ok \<lparr>sys_phase = Stopped, sys_world = w, sys_clients = [c]\<rparr>"
    by (rule reach_stopped)
  with calls_after_stop [OF kernel_ok_env r, of c read_args kMethodReadReg] read_args_ok show ?thesis
    by (auto simp: selectors)
qed

section \<open>Failure paths\<close>

text \<open>
  The one failure of \<open>start\<close> that does not clean up: when the registry cannot be allocated,
  \<open>start\<close> returns false with BAR0 still mapped. IOKit does not call \<open>stop\<close> then, so the
  object is freed with the reference outstanding and bus mastering still on.
\<close>

definition maps_bar :: "kernel_env \<Rightarrow> bool" where
  "maps_bar K \<longleftrightarrow> is_IOPCIDevice K \<and> (\<forall>h. super_start K h \<and>
     (case map_bar0 K h of None \<Rightarrow> False | Some (b, len) \<Rightarrow> b \<noteq> 0 \<and> len \<noteq> 0))"

lemma start_map_maps:
  assumes "maps_bar K" and "run_state (start_map K) w = (mp, w')"
  shows mp
proof -
  have "case map_bar0 K h of None \<Rightarrow> False | Some (b, len) \<Rightarrow> b \<noteq> 0 \<and> len \<noteq> 0" for h
    using assms(1) by (simp add: maps_bar_def)
  from this [of "trace w @ [Log XeService_cpp 93 [], PciMemoryEnable True, PciIOEnable True,
      PciBusMasterEnable True, Log XeService_cpp 99 []]"] assms(2)
  show ?thesis by (auto simp: start_map_def split: option.splits if_splits)
qed

lemma no_array_start:
  assumes K: "maps_bar K" "\<And>h. \<not> new_array K h" and acc: "accounted w" and S: "svc w = XeService_new"
    and run: "run_state (XeService_start K) w = (ok, w')"
  shows "\<not> ok" and "bar0 (svc w') \<noteq> None" and "m_boList (svc w') = None"
proof -
  let ?w0 = "w\<lparr>trace := trace w @ [Log XeService_cpp 79 []], svc := (svc w)\<lparr>pci := True\<rparr>\<rparr>"
  obtain mp w1 where 1: "run_state (start_map K) ?w0 = (mp, w1)" by (rule prod.exhaust)
  obtain v d r w2 where 2: "run_state (start_read K) w1 = ((v, d, r), w2)" by (metis prod.exhaust)
  note mp = start_map_maps [OF K(1) 1]
  have "accounted (?w0\<lparr>svc := svc w\<rparr>)" using accounted_log [OF acc] by simp
  then have a0: "accounted ?w0"
    by (simp add: accounted_def S XeService_new_def holdings_def names_ok_def pointer_ok_def)
  note m = start_map_accounted [OF a0 _ _ _ 1]
  have m1: "accounted w1" "mmio (svc w1) \<noteq> 0" "bar0 (svc w1) \<noteq> None" "m_boList (svc w1) = None"
    using m S mp by (auto simp: XeService_new_def)
  have "svc w2 = svc w1"
    by (rule accounted_nonnull(2) [OF m1(1) 2 m1(2) fm.start_read_safe])
  with run 1 2 mp m1 K show "\<not> ok" "bar0 (svc w') \<noteq> None" "m_boList (svc w') = None"
    by (auto simp: XeService_start_def start_publish_def maps_bar_def)
qed

text \<open>
  C40. A failed \<open>start\<close> leaks. In every environment that maps BAR0 and cannot allocate the
  registry, \<open>start\<close> of an initialised service returns false, and the object that is freed after it, as
  IOKit does without calling \<open>stop\<close>, still owes exactly one reference: the one to the BAR0 mapping.
\<close>

theorem failed_start_leaks_mapping:
  assumes env: "env_ok super K" and K: "maps_bar K" "\<forall>h. \<not> new_array K h"
    and r: "sys_reach super K s" "sys_phase s = Initialized"
    and run: "run_state (XeService_start K) (sys_world s) = (ok, w1)" "run_state XeService_free w1 = (u, w2)"
  shows "\<not> ok \<and> sys_reach super K \<lparr>sys_phase = Dropped, sys_world = w2, sys_clients = sys_clients s\<rparr> \<and>
    (\<exists>x L. bar0 (svc w2) = Some x \<and> ledger_run (gXeBoot w2) (trace w2) = Some L \<and>
      refs L = (\<lambda>y. if y = x then 1 else 0))"
proof -
  obtain w cs where s: "s = \<lparr>sys_phase = Initialized, sys_world = w, sys_clients = cs\<rparr>"
    using r(2) by (cases s) simp
  have "accounted w" "svc w = XeService_new"
    using sys_inv_reach [OF env r(1)] by (simp_all add: sys_inv_def s)
  note f = no_array_start [OF K(1) _ this, of ok w1] and st = run(1) [unfolded s, simplified]
  have f: "\<not> ok" "bar0 (svc w1) \<noteq> None" "m_boList (svc w1) = None" using f st K(2) by blast+
  have r1: "sys_reach super K \<lparr>sys_phase = Abandoned, sys_world = w1, sys_clients = cs\<rparr>"
    using sys_reach_step [OF r(1) [unfolded s] step_start [OF st]] f(1) by simp
  have r2: "sys_reach super K \<lparr>sys_phase = Dropped, sys_world = w2, sys_clients = cs\<rparr>"
    using sys_reach_step [OF r1 step_free [OF _ run(2)]] by simp
  from sys_inv_reach [OF env r2] obtain L where L:
      "ledger_run (gXeBoot w2) (trace w2) = Some L" "refs L = count_list (holdings (svc w2))"
    by (auto simp: sys_inv_def accounted_def)
  obtain x where x: "bar0 (svc w2) = Some x" "m_boList (svc w2) = None"
    using f(2,3) run(2) by (auto simp: XeService_free_def)
  with L(2) have "refs L = (\<lambda>y. if y = x then 1 else 0)" by (auto simp: holdings_def fun_eq_iff)
  with f(1) r2 L(1) x(1) s show ?thesis by auto
qed

definition kernel_no_array :: kernel_env where
  "kernel_no_array = kernel_ok\<lparr>new_array := (\<lambda>_. False)\<rparr>"

theorem failed_start_leaks_mapping_witness:
  "\<exists>s L x. sys_reach super_checked kernel_no_array s \<and> sys_phase s = Dropped \<and>
     ledger_run (gXeBoot (sys_world s)) (trace (sys_world s)) = Some L \<and> refs L x = 1 \<and>
     bar0 (svc (sys_world s)) = Some x"
proof -
  have env: "env_ok super_checked kernel_no_array"
    using kernel_ok_env by (simp add: env_ok_def kernel_no_array_def boot_ok_def)
  have K: "maps_bar kernel_no_array" "\<forall>h. \<not> new_array kernel_no_array h"
    by (simp_all add: maps_bar_def kernel_no_array_def kernel_ok_def)
  obtain w0 where r0: "sys_reach super_checked kernel_no_array
      \<lparr>sys_phase = Initialized, sys_world = w0, sys_clients = []\<rparr>"
    by (rule reach_initialized [of kernel_no_array]) (simp add: kernel_no_array_def kernel_ok_def)
  obtain ok w1 where 1: "run_state (XeService_start kernel_no_array) w0 = (ok, w1)" by (rule prod.exhaust)
  obtain u w2 where 2: "run_state XeService_free w1 = (u, w2)" by (rule prod.exhaust)
  from failed_start_leaks_mapping [OF env K r0 _ _ 2, of ok] 1 show ?thesis by fastforce
qed

end
