(* ===== verification/StrictMode.thy ===== *)
theory StrictMode
  imports DriverProps
begin

text \<open>
  What the boot flag \<^verbatim>\<open>strictsafe\<close> guarantees of the whole driver: with the flag set, only a fixed
  list of registers is ever read, none is written, and no batch is stored, whatever calls the
  clients make.
\<close>

section \<open>The registers of strict mode\<close>

text \<open>The four registers \<open>start\<close> samples and the lists of the three read-out methods, as dword indices.\<close>

definition strict_offs :: "u32 list" where
  "strict_offs = [0x0, 0x4, 0x10, 0x100] @ kSafeOffs @ gt_config_regs @ display_info_regs"

definition strict_regs :: "u32 set" where
  "strict_regs = drop_bit 2 ` set strict_offs"

fun strict_ok :: "XeBootFlags \<Rightarrow> event \<Rightarrow> bool" where
  "strict_ok B (MmioRd b i v) = (strictSafe B \<longrightarrow> i \<in> strict_regs)"
| "strict_ok B (MmioWr b i v) = (\<not> strictSafe B)"
| "strict_ok B (BufWr n i v) = (\<not> strictSafe B)"
| "strict_ok B e = True"

text \<open>The boot flags stay as they are, and the events are those allowed with them.\<close>

definition strict :: "XeBootFlags \<Rightarrow> 'a io \<Rightarrow> bool" where
  "strict B m \<longleftrightarrow> safe (\<lambda>B' S. B' = B) (strict_ok B) m"

lemma readReg_strict: "(strictSafe B \<Longrightarrow> drop_bit 2 off \<in> strict_regs) \<Longrightarrow> strict B (readReg K off)"
  unfolding strict_def by (rule rr.rd_safe) auto

lemma mmio_raw_strict: "(strictSafe B \<Longrightarrow> drop_bit 2 off \<in> strict_regs) \<Longrightarrow> strict B (mmio_raw K off)"
  unfolding strict_def mmio_raw_def by (intro safe_gets_bind safe_load) auto

lemma strict_ok_lax: "\<not> strictSafe B \<Longrightarrow> strict_ok B e"
  by (cases e) simp_all

lemma lax_strict: "\<not> strictSafe B \<Longrightarrow> safe (\<lambda>B' S. B' = B) P m \<Longrightarrow> strict B m"
  unfolding strict_def by (erule safe_weaken) (rule strict_ok_lax)

lemma strict_read: "off \<in> set strict_offs \<Longrightarrow> strict B (readReg K off)"
  by (rule readReg_strict) (simp only: strict_regs_def image_eqI)

section \<open>Every operation\<close>

lemma probe_strict: "strict B (XeService_probe K score)"
  unfolding strict_def XeService_probe_def by (intro safe_rules) simp_all

lemma dumps_lax: "\<not> strictSafe B \<Longrightarrow> strict B (logPowerState K)" "\<not> strictSafe B \<Longrightarrow> strict B (logDisplayState K)"
  unfolding logPowerState_def logDisplayState_def
  using readReg_strict [of B _ K] unfolding strict_def by (auto intro!: safe_rules)

lemma start_map_strict: "strict B (start_map K)"
  unfolding strict_def start_map_def create_map_def
  by (intro safe_rules safe_emit safe_set_svc safeI) auto

lemma raw_regs: "drop_bit 2 off \<in> strict_regs" if "off \<in> {0x0, 0x4, 0x10, 0x100 :: u32}"
  using that unfolding strict_regs_def strict_offs_def by (intro imageI) auto

lemma start_read_strict: "strict B (start_read K)"
proof -
  have raw: "safe (\<lambda>B' S. B' = B) (strict_ok B) (mmio_raw K off)" if "off \<in> {0x0, 0x4, 0x10, 0x100}" for off
    using mmio_raw_strict [OF raw_regs [OF that]] by (simp add: strict_def)
  show ?thesis
    unfolding strict_def start_read_def
    using dumps_lax [of B K] lax_strict [OF _ probe_safe, of B K]
    by (intro safe_gets_bind safe_rules raw) (auto simp: strict_def)
qed

lemma start_publish_strict: "strict B (start_publish K v d r)"
  unfolding strict_def start_publish_def
  by (intro safe_rules safe_emit safe_set_svc safe_create) auto

lemma start_strict: "strict B (XeService_start K)"
  using start_map_strict [of B K] start_read_strict [of B K] start_publish_strict [of B K]
  unfolding strict_def XeService_start_def
  by (intro safe_rules safe_set_svc) auto

lemma release_all_strict: "strict B (release_all bos)"
  unfolding strict_def by (induction bos) (auto intro!: safe_rules safe_emit)

lemma stop_strict: "strict B XeService_stop"
  using release_all_strict [of B]
  unfolding strict_def XeService_stop_def
  by (intro safe_rules safe_emit safe_set_svc) auto

lemma free_strict: "strict B XeService_free"
  unfolding strict_def XeService_free_def by (intro safe_rules safe_emit) auto

lemma close_strict: "strict B XeUserClient_clientClose"
  unfolding strict_def XeUserClient_clientClose_def by (intro safe_rules safe_emit) auto

lemma newUserClient_strict: "strict B (XeService_newUserClient K task type)"
  unfolding strict_def XeService_newUserClient_def XeCreateUserClient_def XeUserClient_initWithTask_def
    XeUserClient_start_def Let_def
  by (intro safe_rules safe_emit safe_create) auto

text \<open>Array accesses record at most a fault.\<close>

lemma arrays_strict:
  "strict B (arr_store out i v)" "strict B (scalar_in a j)" "strict B (scalar_out a j u)" "strict B (copy_out vs k a)"
proof -
  show "strict B (arr_store out i v)" "strict B (scalar_in a j)"
    unfolding strict_def arr_store_def scalar_in_def by (intro safe_rules safe_emit; simp)+
  have so: "strict B (scalar_out a j u)" for a j u
    unfolding strict_def scalar_out_def by (intro safe_rules safe_emit) simp
  then show "strict B (scalar_out a j u)" .
  show "strict B (copy_out vs k a)"
    using so unfolding strict_def by (induction vs arbitrary: k a) (auto intro!: safe_rules)
qed

lemma read_loops_strict:
  assumes "set offs \<subseteq> set strict_offs"
  shows "strict B (read_regs_loop K offs i out)" and "strict B (store_regs K offs i out)"
  using assms strict_read [of _ B K] arrays_strict(1) [of B]
  unfolding strict_def
  by (induction offs arbitrary: i out) (auto intro!: safe_rules)

lemma read_outs_strict:
  "strict B (ucReadRegs K n out c)" "strict B (ucGetGTConfig K out c)" "strict B (ucGetDisplayInfo K out c)"
proof -
  have sub: "set (take n kSafeOffs) \<subseteq> set strict_offs" "set (take n gt_config_regs) \<subseteq> set strict_offs"
      "set (take n (drop k gt_config_regs)) \<subseteq> set strict_offs" "set (drop k gt_config_regs) \<subseteq> set strict_offs"
      "set (take n display_info_regs) \<subseteq> set strict_offs" "set (drop k display_info_regs) \<subseteq> set strict_offs" for n k
    by (auto simp: strict_offs_def dest: in_set_takeD in_set_dropD)
  note loops = read_loops_strict [unfolded strict_def]
  show "strict B (ucReadRegs K n out c)"
    unfolding strict_def ucReadRegs_def Let_def by (intro safe_rules loops sub) simp_all
  show "strict B (ucGetGTConfig K out c)"
    unfolding strict_def ucGetGTConfig_def Let_def by (intro safe_rules loops sub) simp_all
  show "strict B (ucGetDisplayInfo K out c)"
    unfolding strict_def ucGetDisplayInfo_def Let_def by (intro safe_rules loops sub) simp_all
qed

text \<open>In strict mode a submission is refused before the batch is stored.\<close>

lemma submitNoop_strict: "strict B (submitNoop K cs bo)"
proof -
  have "safe (\<lambda>B' S. B' = B) (strict_ok B) (logRcs0State K cs)" if "\<not> strictSafe B"
    using lax_strict [OF that logRcs0State_safe] by (simp add: strict_def)
  then show ?thesis
    unfolding strict_def submitNoop_def
    by (intro safe_gets_bind safe_rules safe_emit) auto
qed

lemma calls_strict: "strict B (ucCreateBuffer K n)" "strict B (ucSubmitNoop K)" "strict B (ucWait t)"
proof -
  have wo: "safe (\<lambda>B' S. B' = B) (strict_ok B) (withOptions K c)" for c
    unfolding withOptions_def by (intro safe_rules safe_create) simp
  show "strict B (ucCreateBuffer K n)"
    unfolding strict_def ucCreateBuffer_def Let_def by (intro safe_rules safe_emit safe_set_svc wo) simp_all
  show "strict B (ucSubmitNoop K)"
    using submitNoop_strict [of B K]
    unfolding strict_def ucSubmitNoop_def Let_def by (intro safe_rules safe_emit wo) simp_all
  show "strict B (ucWait t)" unfolding strict_def ucWait_def by (intro safe_rules) simp_all
qed

lemma handlers_strict: "strict B (call_action K act t args)"
proof -
  note parts = calls_strict [of B, unfolded strict_def] read_outs_strict [of B, unfolded strict_def]
    arrays_strict [of B, unfolded strict_def]
  have "strict B (sCreateBuffer K t args)" "strict B (sSubmit K t args)" "strict B (sWait K t args)"
      "strict B (sReadRegs K t args)" "strict B (sGetGTConfig K t args)" "strict B (sGetDisplayInfo K t args)"
    unfolding strict_def sCreateBuffer_def sSubmit_def sWait_def sReadRegs_def sGetGTConfig_def sGetDisplayInfo_def Let_def
    by (intro safe_rules parts; simp)+
  then show ?thesis by (cases act) simp_all
qed

lemma externalMethod_strict:
  assumes "dispatch_contract super"
  shows "strict B (XeUserClient_externalMethod super K this selector args)"
  unfolding strict_def externalMethod_contract [OF assms]
  using handlers_strict [of B K] unfolding strict_def by (intro safe_rules) simp_all

section \<open>The whole driver\<close>

definition strict_trace :: "sys \<Rightarrow> bool" where
  "strict_trace s \<longleftrightarrow> list_all (strict_ok (gXeBoot (sys_world s))) (trace (sys_world s))"

lemma strict_run:
  assumes "strict (gXeBoot w) m" and "run_state m w = (a, w')" and "list_all (strict_ok (gXeBoot w)) (trace w)"
  shows "list_all (strict_ok (gXeBoot w')) (trace w')"
  using safeE [OF assms(1) [unfolded strict_def] refl assms(2)] assms(3) by (metis list_all_append)

lemma strict_step:
  assumes env: "env_ok super K" and "sys_step super K s s'" and "sys_inv s" and "strict_trace s"
  shows "strict_trace s'"
  using assms(2-4)
proof (induction rule: sys_step.induct)
  case (step_init w ok w' cs)
  then have w: "trace w = []" by (auto simp: sys_inv_def init_world_def)
  let ?w1 = "w\<lparr>trace := [Log XeService_cpp 35 [], Log XeService_cpp 36 []]\<rparr>"
  obtain u w2 where 2: "run_state (XeParseBootArgs K) ?w1 = (u, w2)" by (rule prod.exhaust)
  have "list_all (\<lambda>e. \<exists>f l a. e = Log f l a) (trace w')"
    using step_init(1) w 2 parse_only_logs(2) [OF _ 2] env
    by (auto simp: XeService_init_def env_ok_def split: if_splits prod.splits)
  then show ?case by (auto simp: strict_trace_def list_all_iff)
next
  case (step_call c cs p args selector w r w')
  then show ?case
    using env strict_run [OF externalMethod_strict step_call(4)] by (simp add: strict_trace_def env_ok_def)
qed (auto simp: strict_trace_def intro: strict_run [OF probe_strict] strict_run [OF start_strict]
    strict_run [OF newUserClient_strict] strict_run [OF close_strict] strict_run [OF stop_strict] strict_run [OF free_strict])

lemma strict_reach:
  assumes "env_ok super K" and "sys_reach super K s"
  shows "strict_trace s"
  using assms(2) unfolding sys_reach_def
proof (induction rule: rtranclp_induct)
  case base
  show ?case by (simp add: strict_trace_def sys_init_def init_world_def)
next
  case (step s s')
  then show ?case
    using strict_step [OF assms(1)] sys_inv_reach [OF assms(1), of s] by (simp add: sys_reach_def)
qed

text \<open>
  C5. With the boot flag \<^verbatim>\<open>strictsafe\<close> in force, in every reachable state: every register ever read is
  one of the four samples of \<open>start\<close> or in the list of a read-out method, no register was ever
  written and no batch stored. The list contains no ring register, neither the translation
  table control nor a fence register, and not the forcewake request.
\<close>

theorem strict_mode_footprint:
  assumes "env_ok super K" and "sys_reach super K s" and "strictSafe (gXeBoot (sys_world s))"
    and "e \<in> set (trace (sys_world s))"
  shows "(case e of MmioRd b i v \<Rightarrow> i \<in> strict_regs | MmioWr b i v \<Rightarrow> False | BufWr n i v \<Rightarrow> False | _ \<Rightarrow> True) \<and>
    strict_regs \<inter> (ring_regs \<union> drop_bit 2 ` {PGTBL_CTL, FENCE_START 0, FENCE_END 0, FORCEWAKE_REQ}) = {}"
proof
  have "strict_ok (gXeBoot (sys_world s)) e"
    using strict_reach [OF assms(1,2)] assms(4) by (simp add: strict_trace_def list_all_iff)
  with assms(3) show "case e of MmioRd b i v \<Rightarrow> i \<in> strict_regs | MmioWr b i v \<Rightarrow> False | BufWr n i v \<Rightarrow> False | _ \<Rightarrow> True"
    by (cases e) simp_all
  show "strict_regs \<inter> (ring_regs \<union> drop_bit 2 ` {PGTBL_CTL, FENCE_START 0, FENCE_END 0, FORCEWAKE_REQ}) = {}"
    by (simp add: strict_regs_def strict_offs_def ring_regs_def kSafeOffs_def gt_config_regs_def
        display_info_regs_def FENCE_START_def FENCE_END_def hw_consts)
qed

text \<open>A machine booted with \<^verbatim>\<open>xepci=strictsafe\<close>.\<close>

definition kernel_strict :: kernel_env where
  "kernel_strict = kernel_ok\<lparr>boot_arg := Some (''strictsafe'' @ replicate 118 NUL)\<rparr>"

lemma strict_string: "c_string (''strictsafe'' @ replicate 118 NUL) ''strictsafe''"
  by (simp add: c_string_def numeral_eq_Suc)

lemma kernel_strict_env: "env_ok super_checked kernel_strict"
  using kernel_ok_env strict_string by (auto simp: env_ok_def boot_ok_def kernel_strict_def)

lemma strict_boots: "\<exists>w. run_state (XeService_init kernel_strict) init_world = (True, w) \<and> strictSafe (gXeBoot w)"
proof -
  have "boot_arg kernel_strict = Some (''strictsafe'' @ replicate 118 NUL)" by (simp add: kernel_strict_def)
  note XeParseBootArgs_run [OF this strict_string]
  moreover have "strictSafe (boot_spec ''strictsafe'' f)" for f by (simp add: boot_eval)
  ultimately show ?thesis
    by (simp add: XeService_init_def kernel_strict_def kernel_ok_def init_world_def Let_def)
qed

lemma strict_starts:
  "strictSafe (gXeBoot w) \<Longrightarrow> \<exists>w'. run_state (XeService_start kernel_strict) w = (True, w') \<and>
     strictSafe (gXeBoot w') \<and> MmioRd 0xFFFFFF8000000000 0x40 0 \<in> set (trace w')"
  by (simp add: XeService_start_def start_map_def start_read_def start_publish_def kernel_strict_def
      kernel_ok_def mmio_raw_def)

theorem strict_mode_footprint_witness:
  "\<exists>s. sys_reach super_checked kernel_strict s \<and> sys_phase s = Running \<and> strictSafe (gXeBoot (sys_world s)) \<and>
     MmioRd 0xFFFFFF8000000000 0x40 0 \<in> set (trace (sys_world s)) \<and> 0x40 \<in> strict_regs"
proof -
  obtain w0 where i: "run_state (XeService_init kernel_strict) init_world = (True, w0)" "strictSafe (gXeBoot w0)"
    using strict_boots by auto
  then obtain w where s: "run_state (XeService_start kernel_strict) w0 = (True, w)" "strictSafe (gXeBoot w)"
      "MmioRd 0xFFFFFF8000000000 0x40 0 \<in> set (trace w)"
    using strict_starts by blast
  let ?s = "\<lparr>sys_phase = Running, sys_world = w, sys_clients = []\<rparr>"
  have r: "sys_reach super_checked kernel_strict ?s"
    using sys_reach_step [OF sys_reach_step [OF sys_reach_init [unfolded sys_init_def] step_init [OF i(1)],
        unfolded if_True] step_start [OF s(1)]] by simp
  from strict_mode_footprint [OF kernel_strict_env r, of "MmioRd 0xFFFFFF8000000000 0x40 0"] r s
  have "sys_reach super_checked kernel_strict ?s \<and> sys_phase ?s = Running \<and> strictSafe (gXeBoot (sys_world ?s)) \<and>
     MmioRd 0xFFFFFF8000000000 0x40 0 \<in> set (trace (sys_world ?s)) \<and> 0x40 \<in> strict_regs" by simp
  then show ?thesis by blast
qed

end
