(* ===== verification/Registry.thy ===== *)
theory Registry
  imports UserClient
begin

text \<open>
  The registry of buffer objects as an abstract table of cookies, its implementation by the
  array of the service, and what creating a buffer does on every branch: the size it asks
  for, the cookie it returns, and the lookups it leaves unchanged.
\<close>

section \<open>Tables addressed by cookies\<close>

text \<open>
  The contract: cookie 0 is never used; an insertion, while there is room, returns a cookie
  that was unused, makes it answer the inserted value, and changes no other answer.
\<close>

locale cookie_table =
  fixes add :: "'v \<Rightarrow> 't \<Rightarrow> u64 \<times> 't" and get :: "'t \<Rightarrow> u64 \<Rightarrow> 'v option" and room :: "'t \<Rightarrow> bool"
  assumes get_zero: "get t 0 = None"
    and add_get: "room t \<Longrightarrow> add x t = (c, t') \<Longrightarrow> get t' c = Some x"
    and add_fresh: "room t \<Longrightarrow> add x t = (c, t') \<Longrightarrow> get t c = None"
    and add_other: "room t \<Longrightarrow> add x t = (c, t') \<Longrightarrow> c' \<noteq> c \<Longrightarrow> get t' c' = get t c'"
begin

lemma add_nonzero: "room t \<Longrightarrow> add x t = (c, t') \<Longrightarrow> c \<noteq> 0"
  using add_get [of t x c t'] get_zero [of t'] by auto

lemma add_keeps: "room t \<Longrightarrow> add x t = (c, t') \<Longrightarrow> get t c' = Some y \<Longrightarrow> get t' c' = Some y"
  using add_fresh add_other by (metis option.distinct(1))

text \<open>Insertions one after the other, with the cookies they return.\<close>

fun add_all :: "'v list \<Rightarrow> 't \<Rightarrow> u64 list \<times> 't" where
  "add_all [] t = ([], t)"
| "add_all (x # xs) t = (let (c, t') = add x t; (cs, t'') = add_all xs t' in (c # cs, t''))"

fun room_for :: "'v list \<Rightarrow> 't \<Rightarrow> bool" where
  "room_for [] t = True"
| "room_for (x # xs) t = (room t \<and> room_for xs (snd (add x t)))"

lemma add_all_keeps:
  "room_for xs t \<Longrightarrow> add_all xs t = (cs, t') \<Longrightarrow> get t c = Some y \<Longrightarrow> get t' c = Some y"
  by (induction xs arbitrary: t cs) (auto split: prod.splits intro: add_keeps)

lemma add_all_fresh:
  "room_for xs t \<Longrightarrow> add_all xs t = (cs, t') \<Longrightarrow> c \<in> set cs \<Longrightarrow> get t c = None"
proof (induction xs arbitrary: t cs)
  case (Cons x xs)
  obtain d u where d: "add x t = (d, u)" by (cases "add x t")
  obtain ds v where ds: "add_all xs u = (ds, v)" by (cases "add_all xs u")
  have room: "room t" "room_for xs u" using Cons.prems(1) d by auto
  have v: "c = d \<or> c \<in> set ds" "v = t'" using Cons.prems(2,3) d ds by auto
  have "get t c = None" if "c \<in> set ds"
    using Cons.IH [OF room(2) ds [unfolded v(2)] that] add_keeps [OF room(1) d, of c] by (cases "get t c") auto
  then show ?case using add_fresh [OF room(1) d] v(1) by auto
qed simp

text \<open>All cookies are different, and in the end each answers its own value.\<close>

lemma add_all_roundtrip:
  assumes "room_for xs t" and "add_all xs t = (cs, t')"
  shows "distinct cs \<and> length cs = length xs \<and> map (get t') cs = map Some xs"
  using assms
proof (induction xs arbitrary: t cs)
  case (Cons x xs)
  obtain d u where d: "add x t = (d, u)" by (cases "add x t")
  obtain ds v where ds: "add_all xs u = (ds, v)" by (cases "add_all xs u")
  have room: "room t" "room_for xs u" using Cons.prems(1) d by auto
  have cs: "cs = d # ds" "v = t'" using Cons.prems(2) d ds by auto
  note g = add_get [OF room(1) d]
  have "d \<notin> set ds" using add_all_fresh [OF room(2) ds, of d] g by auto
  with Cons.IH [OF room(2) ds [unfolded cs(2)]] add_all_keeps [OF room(2) ds g] cs show ?case
    by auto
qed simp

end

section \<open>The array of the service is such a table\<close>

definition bo_room :: "BufferMD list \<Rightarrow> bool" where
  "bo_room bos \<longleftrightarrow> length bos + 1 < 2 ^ 32"

lemma getCount_unat: "length bos < 2 ^ 32 \<Longrightarrow> unat (getCount bos) = length bos"
  by (simp add: getCount_def unat_of_nat take_bit_nat_eq_self)

lemma bo_get_nth:
  assumes "length bos < 2 ^ 32"
  shows "bo_get bos c = (if c = 0 \<or> length bos < unat c then None else Some (bos ! (unat c - 1)))"
proof (cases "c = 0")
  case False
  then have c: "unat (c - 1) = unat c - 1" "0 < unat c"
    by (auto simp: unat_minus_one word_neq_0_conv [symmetric] unat_gt_0)
  have idx: "unat (ucast (c - 1) :: u32) = unat (c - 1)" if "unat (c - 1) < 2 ^ 32"
    using that by (simp add: unsigned_ucast_eq take_bit_nat_eq_self)
  show ?thesis
    using False assms c idx
    by (auto simp: bo_get_def Let_def word_le_nat_alt getCount_unat)
qed (simp add: bo_get_def)

lemma bo_add_cookie:
  assumes "bo_room bos"
  shows "bo_add md bos = (c, bos') \<longleftrightarrow> bos' = bos @ [md] \<and> unat c = length bos + 1"
  using assms getCount_unat [of "bos @ [md]"]
  by (auto simp: bo_add_def bo_room_def Let_def word_unat_eq_iff)

interpretation bo: cookie_table bo_add bo_get bo_room
proof unfold_locales
  fix bos :: "BufferMD list"
  show "bo_get bos 0 = None" by (simp add: bo_get_def)
next
  fix md c c' and bos bos' :: "BufferMD list"
  assume r: "bo_room bos" and a: "bo_add md bos = (c, bos')"
  then have l: "length bos < 2 ^ 32" "length bos' < 2 ^ 32" and b: "bos' = bos @ [md]" "unat c = length bos + 1"
    using bo_add_cookie [OF r] by (auto simp: bo_room_def)
  show "bo_get bos' c = Some md" "bo_get bos c = None"
    using l b by (auto simp: bo_get_nth)
  show "bo_get bos' c' = bo_get bos c'" if "c' \<noteq> c"
  proof -
    have "unat c' \<noteq> length bos + 1" using that b(2) by (auto simp: word_unat_eq_iff)
    moreover have "c' \<noteq> 0 \<Longrightarrow> 0 < unat c'" by (simp add: unat_gt_0)
    ultimately show ?thesis using l b by (auto simp: bo_get_nth nth_append)
  qed
qed

section \<open>Sizes\<close>

lemma page_align_unat:
  assumes "unat bytes \<le> 2 ^ 32 - 4096"
  shows "unat (page_align bytes) = (unat bytes + 4095) div 4096 * 4096"
proof -
  have clear: "x AND NOT (mask 12) = push_bit 12 (drop_bit 12 x)" for x :: u32
    by (rule bit_word_eqI) (auto simp: bit_simps)
  have "(0xFFF :: u32) = mask 12" by (simp add: mask_eq_exp_minus_1)
  then have "page_align bytes = push_bit 12 (drop_bit 12 (bytes + 0xFFF))"
    by (simp only: page_align_def flip: clear)
  then have "unat (page_align bytes) = unat (bytes + 0xFFF) div 4096 * 4096 mod 2 ^ 32"
    by (simp add: push_bit_eq_mult drop_bit_word_unat unat_word_ariths mult.commute)
  moreover have "unat (bytes + 0xFFF) = unat bytes + 4095"
    using assms by (simp add: unat_word_ariths)
  moreover have "(unat bytes + 4095) div 4096 * 4096 < 2 ^ 32"
    using assms by auto
  ultimately show ?thesis by simp
qed

lemma clamp_bytes_bounds: "1 \<le> unat (clamp_bytes x)" "unat (clamp_bytes x) \<le> 2 ^ 26"
  by (auto simp: clamp_bytes_def Let_def word_less_nat_alt unat_gt_0 Suc_le_eq)

lemma clamp_bytes_id: "1 \<le> unat x \<Longrightarrow> unat x \<le> 2 ^ 26 \<Longrightarrow> unat (clamp_bytes x) = unat x"
proof -
  assume x: "1 \<le> unat x" "unat x \<le> 2 ^ 26"
  then have "unat (ucast x :: u32) = unat x" by (simp add: unsigned_ucast_eq take_bit_nat_eq_self)
  with x show ?thesis by (auto simp: clamp_bytes_def Let_def word_less_nat_alt simp flip: unat_eq_zero)
qed

text \<open>
  C9. The size of a buffer a client can obtain: whatever 64-bit number it passes, the request
  that reaches the allocator is a whole number of 4 KiB pages, at least one and at most
  64 MiB; a number from 1 to 64 MiB is rounded up to the next page boundary.
\<close>

theorem create_buffer_size:
  "let n = unat (page_align (clamp_bytes x)) in
     4096 dvd n \<and> 4096 \<le> n \<and> n \<le> 64 * 1024 * 1024 \<and>
     (1 \<le> unat x \<longrightarrow> unat x \<le> 64 * 1024 * 1024 \<longrightarrow> unat x \<le> n \<and> n < unat x + 4096)"
proof -
  let ?m = "unat (clamp_bytes x)"
  have n: "unat (page_align (clamp_bytes x)) = (?m + 4095) div 4096 * 4096"
    using clamp_bytes_bounds(2) [of x] by (intro page_align_unat) simp
  define q where "q = (?m + 4095) div 4096"
  have q: "q * 4096 \<le> ?m + 4095" "?m + 4095 < q * 4096 + 4096"
    using div_mult_mod_eq [of "?m + 4095" 4096] mod_less_divisor [of 4096 "?m + 4095"]
    unfolding q_def by linarith+
  have "1 \<le> q" "q \<le> 16384"
    using q clamp_bytes_bounds [of x] by simp_all
  moreover have "unat x \<le> q * 4096 \<and> q * 4096 < unat x + 4096" if "1 \<le> unat x" "unat x \<le> 2 ^ 26"
    using q clamp_bytes_id [OF that] by simp
  ultimately show ?thesis
    unfolding Let_def n q_def [symmetric] by simp
qed

theorem create_buffer_size_witness:
  "4096 dvd unat (page_align (clamp_bytes 5000)) \<and> 5000 \<le> unat (page_align (clamp_bytes 5000)) \<and>
     unat (page_align (clamp_bytes 5000)) < 9096"
  using create_buffer_size [of 5000] by (simp add: Let_def)

text \<open>
  A size beyond 32 bits is not clamped but cut: one byte more than 4 GiB asks for one page.
\<close>

lemma create_buffer_truncates: "clamp_bytes 0x100000001 = 1" "page_align (clamp_bytes 0x100000001) = 4096"
  by (simp_all add: clamp_bytes_def page_align_def)

section \<open>Cookies\<close>

lemma boFromCookie_run:
  "fst (run_state (boFromCookie c) w) =
     (case m_boList (svc w) of None \<Rightarrow> None | Some (a, bos) \<Rightarrow> bo_get bos c)"
  by (simp add: boFromCookie_def)

lemma ucCreateBuffer_run:
  "run_state (ucCreateBuffer K bytes) w =
   (let h = trace w @ [Log XeService_cpp 347 [LU32 bytes]]; sz = page_align bytes;
        h' = h @ [Log XeService_cpp 356 [LU32 sz]] in
    case m_boList (svc w) of
      None \<Rightarrow> ((kIOReturnNotReady, None), w\<lparr>trace := h @ [Log XeService_cpp 350 []]\<rparr>)
    | Some (a, bos) \<Rightarrow>
      (case new_buffer K h' (ucast sz) of
         None \<Rightarrow> ((kIOReturnNoResources, None), w\<lparr>trace := h' @ [Log XeService_cpp 363 []]\<rparr>)
       | Some (addr, len) \<Rightarrow>
         let x = length h'; md = \<lparr>md_obj = x, md_addr = addr, md_len = len\<rparr>; h'' = h' @ [New x];
             c = fst (bo_add md bos) in
         if \<not> setObject_ok K h''
         then ((kIOReturnNoResources, None), w\<lparr>trace := h'' @ [Log XeService_cpp 368 [], Release x]\<rparr>)
         else ((kIOReturnSuccess, Some c),
           w\<lparr>trace := h'' @ [ArrayAdd a x, Log XeService_cpp 376 [LU64 c, LU32 sz, LU64 addr]],
             svc := (svc w)\<lparr>m_boList := Some (a, snd (bo_add md bos))\<rparr>\<rparr>)))"
  by (auto simp: ucCreateBuffer_def withOptions_def Let_def split: option.splits prod.splits)

lemma create_cookie:
  assumes run: "run_state (ucCreateBuffer K bytes) w = ((kr, ck), w')"
    and room: "\<forall>a bos. m_boList (svc w) = Some (a, bos) \<longrightarrow> bo_room bos"
  shows "if kr = kIOReturnSuccess
    then \<exists>c md h. ck = Some c \<and> c \<noteq> 0 \<and> fst (run_state (boFromCookie c) w) = None \<and>
      fst (run_state (boFromCookie c) w') = Some md \<and>
      new_buffer K h (ucast (page_align bytes)) = Some (md_addr md, md_len md) \<and>
      (\<forall>c' md'. fst (run_state (boFromCookie c') w) = Some md' \<longrightarrow>
         fst (run_state (boFromCookie c') w') = Some md')
    else ck = None \<and> svc w' = svc w \<and>
      kr = (if m_boList (svc w) = None then kIOReturnNotReady else kIOReturnNoResources)"
proof -
  have codes: "kIOReturnNotReady \<noteq> kIOReturnSuccess" "kIOReturnNoResources \<noteq> kIOReturnSuccess"
    by (simp_all add: codes code_layout)
  show ?thesis
  proof (cases "kr = kIOReturnSuccess")
    case False
    then show ?thesis
    proof (cases "m_boList (svc w)")
      case None
      with run codes show ?thesis by (auto simp: ucCreateBuffer_run)
    next
      case (Some ab)
      with False run codes show ?thesis
        by (cases ab) (auto simp: ucCreateBuffer_run Let_def split: option.splits if_splits)
    qed
  next
    case True
    let ?h = "trace w @ [Log XeService_cpp 347 [LU32 bytes], Log XeService_cpp 356 [LU32 (page_align bytes)]]"
    have "m_boList (svc w) \<noteq> None"
      by (rule notI) (use True run codes in \<open>simp add: ucCreateBuffer_run\<close>)
    then obtain a bos where 1: "m_boList (svc w) = Some (a, bos)" by auto
    have "new_buffer K ?h (ucast (page_align bytes)) \<noteq> None"
      by (rule notI) (use True run codes 1 in \<open>simp add: ucCreateBuffer_run Let_def\<close>)
    then obtain addr len where 2: "new_buffer K ?h (ucast (page_align bytes)) = Some (addr, len)" by auto
    define md where "md = \<lparr>md_obj = length ?h, md_addr = addr, md_len = len\<rparr>"
    obtain c bos' where 3: "bo_add md bos = (c, bos')" by (cases "bo_add md bos")
    have "setObject_ok K (?h @ [New (length ?h)])"
      by (rule ccontr) (use True run codes 1 2 in \<open>simp add: ucCreateBuffer_run Let_def\<close>)
    then have "((kr, ck), w') = ((kIOReturnSuccess, Some c),
        w\<lparr>trace := ?h @ [New (length ?h), ArrayAdd a (length ?h),
             Log XeService_cpp 376 [LU64 c, LU32 (page_align bytes), LU64 addr]],
          svc := (svc w)\<lparr>m_boList := Some (a, bos')\<rparr>\<rparr>)"
      using run 1 2 3 by (simp add: ucCreateBuffer_run Let_def md_def)
    then have "ck = Some c" "m_boList (svc w') = Some (a, bos')" by simp_all
    moreover have "new_buffer K ?h (ucast (page_align bytes)) = Some (md_addr md, md_len md)"
      by (simp add: 2 md_def)
    ultimately have *: "m_boList (svc w) = Some (a, bos)" "ck = Some c"
        "bo_add md bos = (c, bos')" "m_boList (svc w') = Some (a, bos')"
        "\<exists>h. new_buffer K h (ucast (page_align bytes)) = Some (md_addr md, md_len md)"
      using 1 3 by blast+
    have r: "bo_room bos" using room *(1) by blast
    have get: "fst (run_state (boFromCookie c') w) = bo_get bos c'"
        "fst (run_state (boFromCookie c') w') = bo_get bos' c'" for c'
      using * by (simp_all add: boFromCookie_run)
    obtain h where h: "new_buffer K h (ucast (page_align bytes)) = Some (md_addr md, md_len md)"
      using *(5) by blast
    have "\<forall>c' md'. bo_get bos c' = Some md' \<longrightarrow> bo_get bos' c' = Some md'"
      using bo.add_keeps [OF r *(3)] by blast
    then have "\<exists>c md h. ck = Some c \<and> c \<noteq> 0 \<and> bo_get bos c = None \<and> bo_get bos' c = Some md \<and>
        new_buffer K h (ucast (page_align bytes)) = Some (md_addr md, md_len md) \<and>
        (\<forall>c' md'. bo_get bos c' = Some md' \<longrightarrow> bo_get bos' c' = Some md')"
      using *(2) h bo.add_nonzero [OF r *(3)] bo.add_get [OF r *(3)] bo.add_fresh [OF r *(3)]
      by (intro exI [of _ c] exI [of _ md] exI [of _ h]) simp
    with True show ?thesis by (simp only: get simp_thms if_True)
  qed
qed

text \<open>
  C7. Creating a buffer, on success: the returned cookie is not zero, was unknown before and
  now resolves to a buffer of the address and length the allocator gave for the page-rounded
  size; every cookie handed out earlier still resolves to the same buffer. On failure the
  registry is untouched, no cookie is returned, and the code says why: not started, or no
  memory.
\<close>

theorem create_buffer_cookie:
  assumes run: "run_state (ucCreateBuffer K bytes) w = ((kr, ck), w')"
    and room: "\<And>a bos. m_boList (svc w) = Some (a, bos) \<Longrightarrow> bo_room bos"
  shows "if kr = kIOReturnSuccess
    then \<exists>c md h. ck = Some c \<and> c \<noteq> 0 \<and> fst (run_state (boFromCookie c) w) = None \<and>
      fst (run_state (boFromCookie c) w') = Some md \<and>
      new_buffer K h (ucast (page_align bytes)) = Some (md_addr md, md_len md) \<and>
      (\<forall>c' md'. fst (run_state (boFromCookie c') w) = Some md' \<longrightarrow>
         fst (run_state (boFromCookie c') w') = Some md')
    else ck = None \<and> svc w' = svc w \<and>
      kr = (if m_boList (svc w) = None then kIOReturnNotReady else kIOReturnNoResources)"
  by (rule create_cookie [OF run]) (use room in blast)

text \<open>A service whose registry is empty, and one call on it.\<close>

definition started_world :: world where
  "started_world = init_world\<lparr>svc := XeService_new\<lparr>m_boList := Some (0, [])\<rparr>\<rparr>"

theorem create_buffer_cookie_witness:
  "\<exists>w' c md. run_state (ucCreateBuffer kernel_ok 5000) started_world = ((kIOReturnSuccess, Some c), w') \<and>
     c \<noteq> 0 \<and> fst (run_state (boFromCookie c) w') = Some md \<and> md_len md = 8192"
proof -
  obtain kr ck w' where run: "run_state (ucCreateBuffer kernel_ok 5000) started_world = ((kr, ck), w')"
    by (metis prod.exhaust)
  have "kr = kIOReturnSuccess"
    using run by (simp add: ucCreateBuffer_run Let_def started_world_def XeService_new_def kernel_ok_def)
  moreover have "bo_room bos" if "m_boList (svc started_world) = Some (a, bos)" for a bos
    using that by (simp add: started_world_def bo_room_def)
  moreover have "md_len md = 8192" if "new_buffer kernel_ok h (ucast (page_align 5000)) = Some (md_addr md, md_len md)" for h md
    using that by (simp add: kernel_ok_def page_align_def)
  ultimately show ?thesis
    using create_buffer_cookie [OF run] run by auto
qed

lemma room_for_length: "length bos + length mds < 2 ^ 32 \<Longrightarrow> bo.room_for mds bos"
proof (induction mds arbitrary: bos)
  case (Cons md mds)
  have "bo_room bos" "snd (bo_add md bos) = bos @ [md]"
    using Cons.prems by (simp_all add: bo_room_def bo_add_def Let_def)
  moreover have "bo.room_for mds (bos @ [md])" using Cons.prems by (intro Cons.IH) simp
  ultimately show ?case by simp
qed simp

text \<open>
  C8. Cookies never collide: registering any number of buffers (below the 32-bit count of the
  array) gives pairwise different cookies, and each of them resolves to its own buffer in the
  registry that results.
\<close>

theorem registry_cookies_distinct:
  assumes "length mds < 2 ^ 32" and "cookie_table.add_all bo_add mds [] = (cs, bos)"
  shows "distinct cs \<and> length cs = length mds \<and> map (bo_get bos) cs = map Some mds"
  using bo.add_all_roundtrip [OF room_for_length assms(2)] assms(1) by simp

theorem registry_cookies_distinct_witness:
  "\<exists>cs bos. cookie_table.add_all bo_add
      [\<lparr>md_obj = 1, md_addr = 0x1000, md_len = 4096\<rparr>, \<lparr>md_obj = 2, md_addr = 0x2000, md_len = 8192\<rparr>] [] = (cs, bos) \<and>
     distinct cs \<and> length cs = 2 \<and>
     map (bo_get bos) cs = [Some \<lparr>md_obj = 1, md_addr = 0x1000, md_len = 4096\<rparr>,
       Some \<lparr>md_obj = 2, md_addr = 0x2000, md_len = 8192\<rparr>]"
proof -
  let ?mds = "[\<lparr>md_obj = 1, md_addr = 0x1000, md_len = 4096\<rparr>, \<lparr>md_obj = 2, md_addr = 0x2000, md_len = 8192\<rparr>]"
  obtain cs bos where r: "cookie_table.add_all bo_add ?mds [] = (cs, bos)" by (rule prod.exhaust)
  with registry_cookies_distinct [OF _ r] show ?thesis by simp
qed

end
