(* ===== verification/ReadOut.thy ===== *)
theory ReadOut
  imports MmioSafety
begin

text \<open>
  What a client learns from the three read-out handlers: the values it receives are the
  values the device returned, register by register and in the order of the handler's list.
\<close>

section \<open>Register reads in a trace\<close>

text \<open>
  Everything in a trace but messages and barriers: reads and stores of registers and buffers,
  objects made and given back, calls into the PCI device and the superclass.
\<close>

fun touch :: "event \<Rightarrow> bool" where
  "touch (Log f l a) = False"
| "touch SyncIO = False"
| "touch e = True"

definition touches :: "event list \<Rightarrow> event list" where
  "touches es = filter touch es"

lemma touches_simps [simp]:
  "touches [] = []" "touches (e # es) = (if touch e then e # touches es else touches es)"
  "touches (es @ es') = touches es @ touches es'"
  by (simp_all add: touches_def)

text \<open>One read of each register, in order, with the values the device returned.\<close>

definition reads_of :: "u64 \<Rightarrow> u32 list \<Rightarrow> u32 list \<Rightarrow> event list" where
  "reads_of b offs vals = map2 (\<lambda>off v. MmioRd b (drop_bit 2 off) v) offs vals"

lemma reads_of_simps [simp]:
  "reads_of b [] [] = []" "reads_of b (off # offs) (v # vals) = MmioRd b (drop_bit 2 off) v # reads_of b offs vals"
  "length vals = length offs \<Longrightarrow> reads_of b (offs @ offs') (vals @ vals') = reads_of b offs vals @ reads_of b offs' vals'"
  by (simp_all add: reads_of_def)

text \<open>The service is mapped and the register passes the length check.\<close>

definition in_range :: "XeService \<Rightarrow> u32 list \<Rightarrow> bool" where
  "in_range S offs \<longleftrightarrow> mmio S \<noteq> 0 \<and> list_all (\<lambda>off. unat off < svc_limit S) offs"

lemma readReg_run:
  assumes "mmio (svc w) \<noteq> 0" and "unat off < svc_limit (svc w)"
  shows "run_state (readReg K off) w = (gpu K (trace w) (drop_bit 2 off),
    w\<lparr>trace := trace w @ [MmioRd (mmio (svc w)) (drop_bit 2 off) (gpu K (trace w) (drop_bit 2 off)), SyncIO]\<rparr>)"
  using assms svc_limit_iff [of off "svc w"] by (auto simp: readReg_def readRegSafe_def)

text \<open>\<open>fills m offs i out w\<close>: \<open>m\<close> reads \<open>offs\<close> and stores the values from index \<open>i\<close> on.\<close>

definition fills :: "u32 list io \<Rightarrow> u32 list \<Rightarrow> nat \<Rightarrow> u32 list \<Rightarrow> world \<Rightarrow> bool" where
  "fills m offs i out w \<longleftrightarrow> (\<exists>vals es. length vals = length offs \<and>
     run_state m w = (take i out @ vals @ drop (i + length offs) out, w\<lparr>trace := trace w @ es\<rparr>) \<and>
     touches es = reads_of (mmio (svc w)) offs vals)"

lemma fills_step:
  assumes "mmio (svc w) \<noteq> 0" and "unat off < svc_limit (svc w)" and "i < length out"
    and m: "\<And>v. fills (m v) offs (Suc i) (out[i := v])
      (w\<lparr>trace := trace w @ MmioRd (mmio (svc w)) (drop_bit 2 off) v # SyncIO # post v\<rparr>)"
    and run: "\<And>v. run_state (f v)
        (w\<lparr>trace := trace w @ [MmioRd (mmio (svc w)) (drop_bit 2 off) v, SyncIO]\<rparr>) =
      run_state (m v) (w\<lparr>trace := trace w @ MmioRd (mmio (svc w)) (drop_bit 2 off) v # SyncIO # post v\<rparr>)"
    and post: "\<And>v. touches (post v) = []"
  shows "fills (readReg K off \<bind> f) (off # offs) i out w"
proof -
  let ?v = "gpu K (trace w) (drop_bit 2 off)"
  from m [of ?v] obtain vals es where *: "length vals = length offs"
      "run_state (m ?v) (w\<lparr>trace := trace w @ MmioRd (mmio (svc w)) (drop_bit 2 off) ?v # SyncIO # post ?v\<rparr>) =
        (take (Suc i) (out[i := ?v]) @ vals @ drop (Suc i + length offs) (out[i := ?v]),
         w\<lparr>trace := trace w @ MmioRd (mmio (svc w)) (drop_bit 2 off) ?v # SyncIO # post ?v @ es\<rparr>)"
      "touches es = reads_of (mmio (svc w)) offs vals"
    by (auto simp: fills_def)
  have "take (Suc i) (out[i := ?v]) = take i out @ [?v]"
    using assms(3) by (simp add: take_Suc_conv_app_nth)
  with * show ?thesis
    unfolding fills_def
    by (intro exI [of _ "?v # vals"]
        exI [of _ "MmioRd (mmio (svc w)) (drop_bit 2 off) ?v # SyncIO # post ?v @ es"])
      (simp add: readReg_run [OF assms(1,2)] run post)
qed

lemma store_regs_fills:
  "in_range (svc w) offs \<Longrightarrow> i + length offs \<le> length out \<Longrightarrow> fills (store_regs K offs i out) offs i out w"
proof (induction offs arbitrary: i out w)
  case Nil
  then show ?case by (auto simp: fills_def intro: exI [of _ "[]"])
next
  case (Cons off offs)
  show ?case
    unfolding store_regs.simps
    by (rule fills_step [where m = "\<lambda>v. store_regs K offs (Suc i) (out[i := v])" and post = "\<lambda>_. []"])
      (use Cons.prems in \<open>auto simp: in_range_def intro!: Cons.IH\<close>)
qed

lemma read_regs_loop_fills:
  "in_range (svc w) offs \<Longrightarrow> i + length offs \<le> length out \<Longrightarrow> fills (read_regs_loop K offs i out) offs i out w"
proof (induction offs arbitrary: i out w)
  case Nil
  then show ?case by (auto simp: fills_def intro: exI [of _ "[]"])
next
  case (Cons off offs)
  show ?case
    unfolding read_regs_loop.simps
    by (rule fills_step [where m = "\<lambda>v. read_regs_loop K offs (Suc i) (out[i := v])"
          and post = "\<lambda>v. [Log XeService_cpp 447 [LU32 (of_nat i), LU32 off, LU32 v]]"])
      (use Cons.prems in \<open>auto simp: in_range_def intro!: Cons.IH\<close>)
qed

section \<open>The methods of the service\<close>

text \<open>\<open>answers m regs w\<close>: \<open>m\<close> succeeds with the values of the eight registers \<open>regs\<close>.\<close>

definition answers :: "(u32 \<times> u32 list \<times> u32) io \<Rightarrow> u32 list \<Rightarrow> world \<Rightarrow> bool" where
  "answers m regs w \<longleftrightarrow> (\<exists>vals es. length vals = 8 \<and>
     run_state m w = ((kIOReturnSuccess, vals, 8), w\<lparr>trace := trace w @ es\<rparr>) \<and>
     touches es = reads_of (mmio (svc w)) regs vals)"

lemma fillsE:
  assumes "fills m offs i out w" and "i \<le> length out"
  obtains vals es where "length vals = length offs"
    and "run_state m w = (take i out @ vals @ drop (i + length offs) out, w\<lparr>trace := trace w @ es\<rparr>)"
    and "touches es = reads_of (mmio (svc w)) offs vals"
  using assms by (auto simp: fills_def)

lemma ucReadRegs_answers:
  assumes r: "in_range (svc w) (take 8 kSafeOffs)"
  shows "answers (ucReadRegs K 8 (Some (replicate 8 0)) True) (take 8 kSafeOffs) w"
proof -
  let ?w1 = "w\<lparr>trace := trace w @ [Log XeService_cpp 415 [LU32 8], Log XeService_cpp 443 [LU32 8, LU32 10]]\<rparr>"
  have k: "length kSafeOffs = 10" by (simp add: kSafeOffs_def)
  have "fills (read_regs_loop K (take 8 kSafeOffs) 0 (replicate 8 0)) (take 8 kSafeOffs) 0 (replicate 8 0) ?w1"
    using r k by (intro read_regs_loop_fills) auto
  then obtain vals es where "length vals = length (take 8 kSafeOffs)"
      "run_state (read_regs_loop K (take 8 kSafeOffs) 0 (replicate 8 0)) ?w1 =
        (take 0 (replicate 8 0) @ vals @ drop (0 + length (take 8 kSafeOffs)) (replicate 8 0),
         ?w1\<lparr>trace := trace ?w1 @ es\<rparr>)"
      "touches es = reads_of (mmio (svc ?w1)) (take 8 kSafeOffs) vals"
    by (rule fillsE) simp
  moreover have "mmio (svc w) \<noteq> 0" using r by (simp add: in_range_def)
  ultimately show ?thesis
    using k unfolding answers_def
    by (intro exI [of _ vals] exI [of _ "Log XeService_cpp 415 [LU32 8] # Log XeService_cpp 443 [LU32 8, LU32 10] # es"])
      (simp add: ucReadRegs_def Let_def)
qed

lemma in_range_mono: "in_range S offs \<Longrightarrow> set offs' \<subseteq> set offs \<Longrightarrow> in_range S offs'"
  by (auto simp: in_range_def list_all_iff)

text \<open>Two fills one after the other, with quiet logging in between.\<close>

lemma fills_append:
  assumes "fills m offs 0 out w" and "length offs \<le> length out"
    and n: "\<And>out' w'. svc w' = svc w \<Longrightarrow> length out' = length out \<Longrightarrow> fills (n out') offs' (length offs) out' w'"
    and log: "touches logs = []"
    and f: "\<And>out' w'. run_state (f out') w' = run_state (n out') (w'\<lparr>trace := trace w' @ logs\<rparr>)"
  shows "fills (m \<bind> f) (offs @ offs') 0 out w"
proof -
  from assms(1) obtain vals es where 1: "length vals = length offs"
      "run_state m w = (vals @ drop (length offs) out, w\<lparr>trace := trace w @ es\<rparr>)"
      "touches es = reads_of (mmio (svc w)) offs vals"
    by (auto simp: fills_def)
  let ?w1 = "w\<lparr>trace := trace w @ es @ logs\<rparr>" and ?out = "vals @ drop (length offs) out"
  have "fills (n ?out) offs' (length offs) ?out ?w1"
    using assms(2) 1(1) by (intro n) simp_all
  then obtain vals' es' where 2: "length vals' = length offs'"
      "run_state (n ?out) ?w1 = (take (length offs) ?out @ vals' @ drop (length offs + length offs') ?out,
         ?w1\<lparr>trace := trace ?w1 @ es'\<rparr>)"
      "touches es' = reads_of (mmio (svc w)) offs' vals'"
    by (auto simp: fills_def)
  have "drop (length offs + length offs') ?out = drop (length (offs @ offs')) out"
    using 1(1) by (simp add: add.commute)
  with 1 2 show ?thesis
    unfolding fills_def
    by (intro exI [of _ "vals @ vals'"] exI [of _ "es @ logs @ es'"]) (simp add: f log)
qed

lemma answersI:
  assumes "fills m regs 0 (replicate 8 0) (w\<lparr>trace := trace w @ logs\<rparr>)" and "length regs = 8"
    and run: "\<And>vals w'. run_state m (w\<lparr>trace := trace w @ logs\<rparr>) = (vals, w') \<Longrightarrow> length vals = 8 \<Longrightarrow>
      run_state f w = ((kIOReturnSuccess, vals, 8), w'\<lparr>trace := trace w' @ post vals\<rparr>)"
    and "touches logs = []" and "\<And>vals. touches (post vals) = []"
  shows "answers f regs w"
proof -
  from assms(1,2) obtain vals es where 1: "length vals = 8"
      "run_state m (w\<lparr>trace := trace w @ logs\<rparr>) = (vals, w\<lparr>trace := trace w @ logs @ es\<rparr>)"
      "touches es = reads_of (mmio (svc w)) regs vals"
    by (auto simp: fills_def)
  with run [OF 1(2,1)] assms(4,5) show ?thesis
    unfolding answers_def
    by (intro exI [of _ vals] exI [of _ "logs @ es @ post vals"]) simp
qed

lemma ucGetGTConfig_answers:
  assumes r: "in_range (svc w) gt_config_regs"
  shows "answers (ucGetGTConfig K (Some (replicate 8 0)) True) gt_config_regs w"
proof -
  define A where "A = take 2 gt_config_regs"
  define B where "B = take 3 (drop 2 gt_config_regs)"
  define C where "C = drop 5 gt_config_regs"
  have g: "(A @ B) @ C = gt_config_regs" "length A = 2" "length B = 3" "length C = 3"
    by (simp_all add: A_def B_def C_def gt_config_regs_def)
  have sub: "in_range (svc w') A" "in_range (svc w') B" "in_range (svc w') C" if "svc w' = svc w" for w' :: world
    using r that by (auto intro!: in_range_mono [OF r [folded g(1)]])
  let ?logs = "[Log XeService_cpp 456 [], Log XeService_cpp 464 []]"
  let ?m = "(store_regs K A 0 (replicate 8 0) \<bind> (\<lambda>o1. XeLog XeService_cpp 468 [] \<bind> (\<lambda>_. store_regs K B 2 o1))) \<bind>
      (\<lambda>o2. XeLog XeService_cpp 473 [] \<bind> (\<lambda>_. store_regs K C 5 o2))"
  let ?post = "\<lambda>o3. [Log XeService_cpp 480 (map LU32 (take 2 o3)), Log XeService_cpp 481 (map LU32 (take 3 (drop 2 o3))),
     Log XeService_cpp 483 (map LU32 (take 3 (drop 5 o3)))]"
  have "fills ?m ((A @ B) @ C) 0 (replicate 8 0) (w\<lparr>trace := trace w @ ?logs\<rparr>)"
    by (rule fills_append [where n = "store_regs K C 5" and logs = "[Log XeService_cpp 473 []]"]
        , rule fills_append [where n = "store_regs K B 2" and logs = "[Log XeService_cpp 468 []]"])
      (auto simp: g sub intro: store_regs_fills)
  then show ?thesis
    unfolding g(1)
  proof (rule answersI [where post = ?post])
    fix vals w'
    assume "run_state ?m (w\<lparr>trace := trace w @ ?logs\<rparr>) = (vals, w')" "length vals = 8"
    moreover have "mmio (svc w) \<noteq> 0" using r by (simp add: in_range_def)
    ultimately show "run_state (ucGetGTConfig K (Some (replicate 8 0)) True) w =
        ((kIOReturnSuccess, vals, 8), w'\<lparr>trace := trace w' @ ?post vals\<rparr>)"
      unfolding ucGetGTConfig_def A_def [symmetric] B_def [symmetric] C_def [symmetric]
      by (simp split: prod.splits)
  qed (simp_all add: gt_config_regs_def)
qed

lemma ucGetDisplayInfo_answers:
  assumes r: "in_range (svc w) display_info_regs"
  shows "answers (ucGetDisplayInfo K (Some (replicate 8 0)) True) display_info_regs w"
proof -
  define A where "A = take 4 display_info_regs"
  define B where "B = drop 4 display_info_regs"
  have g: "A @ B = display_info_regs" "length A = 4" "length B = 4"
    by (simp_all add: A_def B_def display_info_regs_def)
  have sub: "in_range (svc w') A" "in_range (svc w') B" if "svc w' = svc w" for w' :: world
    using r that by (auto intro!: in_range_mono [OF r [folded g(1)]])
  let ?logs = "[Log XeService_cpp 491 [], Log XeService_cpp 499 []]"
  let ?m = "store_regs K A 0 (replicate 8 0) \<bind> (\<lambda>o1. XeLog XeService_cpp 505 [] \<bind> (\<lambda>_. store_regs K B 4 o1))"
  let ?post = "\<lambda>o2. [Log XeService_cpp 526 (map LU32 (take 4 o2)),
     Log XeService_cpp 528 [on_off (top_bit (o2 ! 0)), on_off (top_bit (o2 ! 1)), on_off (top_bit (o2 ! 3))],
     Log XeService_cpp 530 [LU32 (high_field (o2 ! 6)), LU32 (low_field (o2 ! 6)),
          LU32 (low_field (o2 ! 4)), LU32 (high_field (o2 ! 4)),
          LU32 (low_field (o2 ! 5)), LU32 (high_field (o2 ! 5))],
     Log XeService_cpp 532 [LU32 (o2 ! 7)]]"
  have "fills ?m (A @ B) 0 (replicate 8 0) (w\<lparr>trace := trace w @ ?logs\<rparr>)"
    by (rule fills_append [where n = "store_regs K B 4" and logs = "[Log XeService_cpp 505 []]"])
      (auto simp: g sub intro: store_regs_fills)
  then show ?thesis
    unfolding g(1)
  proof (rule answersI [where post = ?post])
    fix vals w'
    assume "run_state ?m (w\<lparr>trace := trace w @ ?logs\<rparr>) = (vals, w')" "length vals = 8"
    moreover have "mmio (svc w) \<noteq> 0" using r by (simp add: in_range_def)
    ultimately show "run_state (ucGetDisplayInfo K (Some (replicate 8 0)) True) w =
        ((kIOReturnSuccess, vals, 8), w'\<lparr>trace := trace w' @ ?post vals\<rparr>)"
      unfolding ucGetDisplayInfo_def A_def [symmetric] B_def [symmetric]
      by (simp split: prod.splits)
  qed (simp_all add: display_info_regs_def)
qed

section \<open>The handlers\<close>

text \<open>The registers behind each read-out selector.\<close>

fun read_out_regs :: "uc_action \<Rightarrow> u32 list" where
  "read_out_regs SReadRegs = take 8 kSafeOffs"
| "read_out_regs SGetGTConfig = gt_config_regs"
| "read_out_regs SGetDisplayInfo = display_info_regs"
| "read_out_regs _ = []"

lemma read_out_range:
  assumes "mmio S \<noteq> 0" and "reg_window \<le> unat (bar0Length S)"
  shows "in_range S (read_out_regs act)"
proof -
  have "bar0Length S \<noteq> 0" using assms(2) by (auto simp: reg_window_def)
  then have "reg_window \<le> svc_limit S"
    using assms(2) by (simp add: svc_limit_def reg_window_def)
  moreover have "list_all (\<lambda>off. unat off < reg_window) (read_out_regs act)"
    by (cases act) (simp_all add: kSafeOffs_def gt_config_regs_def display_info_regs_def hw_consts reg_window_def)
  ultimately show ?thesis
    using assms(1) by (auto simp: in_range_def list_all_iff)
qed

lemma read_out_run:
  assumes "act \<in> {SReadRegs, SGetGTConfig, SGetDisplayInfo}" and c: "providerSvc c"
    and a: "args_wf a" "scalarOutputCount a = 8"
    and S: "mmio (svc w) \<noteq> 0" "reg_window \<le> unat (bar0Length (svc w))"
  shows "\<exists>vals es. length vals = 8 \<and>
    run_state (call_action K act (TClient c) (Some a)) w =
      ((kIOReturnSuccess, Some (a\<lparr>scalarOutput := map ucast vals @ drop 8 (scalarOutput a)\<rparr>)),
       w\<lparr>trace := trace w @ es\<rparr>) \<and>
    touches es = reads_of (mmio (svc w)) (read_out_regs act) vals"
proof -
  have l: "8 \<le> length (scalarOutput a)" using a by (simp add: args_wf_def)
  have cp: "copy_out vals 0 a = ret (a\<lparr>scalarOutput := map ucast vals @ drop 8 (scalarOutput a)\<rparr>)"
    if "length vals = 8" for vals
    using copy_out_run [of 0 vals a] l that by simp
  have id: "a\<lparr>scalarOutput := xs, scalarOutputCount := 8\<rparr> = a\<lparr>scalarOutput := xs\<rparr>" for xs
    using a(2) by (cases a) simp
  have ready: "target_ready (TClient c)" using c by (simp add: target_ready_def)
  have h: ?thesis if "answers m (read_out_regs act) (w\<lparr>trace := trace w @ [Log XeUserClient_cpp l []]\<rparr>)"
      and call: "\<And>vals w2. run_state m (w\<lparr>trace := trace w @ [Log XeUserClient_cpp l []]\<rparr>) =
        ((kIOReturnSuccess, vals, 8), w2) \<Longrightarrow> length vals = 8 \<Longrightarrow>
        run_state (call_action K act (TClient c) (Some a)) w =
          ((kIOReturnSuccess, Some (a\<lparr>scalarOutput := map ucast vals @ drop 8 (scalarOutput a)\<rparr>)), w2)" for l m
  proof -
    from that(1) obtain vals es where v: "length vals = 8"
        "run_state m (w\<lparr>trace := trace w @ [Log XeUserClient_cpp l []]\<rparr>) =
          ((kIOReturnSuccess, vals, 8), w\<lparr>trace := trace w @ Log XeUserClient_cpp l [] # es\<rparr>)"
        "touches es = reads_of (mmio (svc w)) (read_out_regs act) vals"
      by (auto simp: answers_def)
    with call [OF v(2,1)] show ?thesis
      by (intro exI [of _ vals] exI [of _ "Log XeUserClient_cpp l [] # es"]) simp
  qed
  have r: "in_range (svc (w\<lparr>trace := t\<rparr>)) (read_out_regs act)" for t
    using read_out_range [OF S] by simp
  consider "act = SReadRegs" | "act = SGetGTConfig" | "act = SGetDisplayInfo"
    using assms(1) by auto
  then show ?thesis
  proof cases
    case 1
    show ?thesis
      using 1 r ucReadRegs_answers [of "w\<lparr>trace := trace w @ [Log XeUserClient_cpp 150 []]\<rparr>" K]
      by (intro h [where m = "ucReadRegs K 8 (Some (replicate 8 0)) True" and l = 150])
        (simp_all add: sReadRegs_def ready cp id)
  next
    case 2
    show ?thesis
      using 2 r ucGetGTConfig_answers [of "w\<lparr>trace := trace w @ [Log XeUserClient_cpp 175 []]\<rparr>" K]
      by (intro h [where m = "ucGetGTConfig K (Some (replicate 8 0)) True" and l = 175])
        (simp_all add: sGetGTConfig_def ready cp id a(2))
  next
    case 3
    show ?thesis
      using 3 r ucGetDisplayInfo_answers [of "w\<lparr>trace := trace w @ [Log XeUserClient_cpp 199 []]\<rparr>" K]
      by (intro h [where m = "ucGetDisplayInfo K (Some (replicate 8 0)) True" and l = 199])
        (simp_all add: sGetDisplayInfo_def ready cp id a(2))
  qed
qed

text \<open>
  C10. A client that calls one of the three read-out selectors on a mapped device whose BAR0 covers the
  driver's registers receives success and eight values: exactly those the device returned for the
  eight registers of that selector, read once each and in the order of the source's list, widened
  to 64 bits; the rest of its array is untouched. Besides those eight reads the call only logs and
  orders: no other register is read, nothing is written, created or released, and the driver's state stays
  as it is.
\<close>

theorem read_out_values:
  assumes "act \<in> {SReadRegs, SGetGTConfig, SGetDisplayInfo}" and c: "providerSvc c"
    and a: "args_wf a" "scalarOutputCount a = 8"
    and S: "mmio (svc w) \<noteq> 0" "reg_window \<le> unat (bar0Length (svc w))"
  shows "\<exists>vals es. length vals = 8 \<and>
    run_state (call_action K act (TClient c) (Some a)) w =
      ((kIOReturnSuccess, Some (a\<lparr>scalarOutput := map ucast vals @ drop 8 (scalarOutput a)\<rparr>)),
       w\<lparr>trace := trace w @ es\<rparr>) \<and>
    touches es = reads_of (mmio (svc w)) (read_out_regs act) vals"
  using assms by (rule read_out_run)

definition read_out_args :: IOExternalMethodArguments where
  "read_out_args = \<lparr>scalarInput = [], scalarInputCount = 0, structureInputSize = 0,
     scalarOutput = replicate 16 7, scalarOutputCount = 8, structureOutputSize = 0\<rparr>"

definition mapped_world :: world where
  "mapped_world = init_world\<lparr>svc := XeService_new\<lparr>mmio := 0x1000, bar0Length := 0x1000000\<rparr>\<rparr>"

theorem read_out_values_witness:
  "\<exists>(vals :: u32 list) es. length vals = 8 \<and>
    run_state (call_action kernel_ok SReadRegs (TClient \<lparr>uc_obj = 0, clientTask = 0, providerSvc = True\<rparr>)
        (Some read_out_args)) mapped_world =
      ((kIOReturnSuccess, Some (read_out_args\<lparr>scalarOutput := map ucast vals @ replicate 8 7\<rparr>)),
       mapped_world\<lparr>trace := es\<rparr>) \<and>
    touches es = reads_of 0x1000 [0, 4, 0x10, 0x14, 0x100, 0x104, 0xA024, 0xA094] vals"
proof -
  let ?c = "\<lparr>uc_obj = 0, clientTask = 0, providerSvc = True\<rparr>"
  have a: "args_wf read_out_args" "scalarOutputCount read_out_args = 8"
      "drop 8 (scalarOutput read_out_args) = replicate 8 7"
    by (simp_all add: read_out_args_def args_wf_def)
  have w: "mmio (svc mapped_world) = 0x1000" "reg_window \<le> unat (bar0Length (svc mapped_world))"
      "trace mapped_world = []"
    by (simp_all add: mapped_world_def init_world_def reg_window_def)
  have r: "read_out_regs SReadRegs = [0, 4, 0x10, 0x14, 0x100, 0x104, 0xA024, 0xA094]"
    by (simp add: kSafeOffs_def hw_consts)
  show ?thesis
    using read_out_values [of SReadRegs ?c read_out_args mapped_world kernel_ok, unfolded r] a w by simp
qed

end
