(* ===== verification/Xectl.thy ===== *)
theory Xectl
  imports ReadOut Registry
begin

text \<open>
  \<^verbatim>\<open>src/userspace/xectl.c\<close>: the command line tool. Its state is the kernel's world, which it
  changes through \<^verbatim>\<open>IOConnectCallMethod\<close> only, and what it prints. The I/O Kit library calls
  are parameters: \<open>io_kit\<close> holds the answers to the calls that find and open the service,
  \<open>call\<close> is \<^verbatim>\<open>IOConnectCallMethod\<close> on the open connection. \<open>call_contract\<close> is what its
  documentation promises: it runs the user client's external method on the given scalars.
\<close>

section \<open>State and effects\<close>

text \<open>A line printed is identified by the line of the call and the arguments of its format.\<close>

datatype tool_event =
    Stdout nat "log_arg list"
  | Stderr nat "log_arg list"
  | ObjectRelease string
  | ServiceClose u32

record tool =
  tw :: world
  tout :: "tool_event list"

type_synonym 'a tool_m = "(tool, 'a) state"

definition say :: "tool_event \<Rightarrow> unit tool_m" where
  "say e = modify (\<lambda>t. t\<lparr>tout := tout t @ [e]\<rparr>)"

definition in_kernel :: "'a io \<Rightarrow> 'a tool_m" where
  "in_kernel m = State (\<lambda>t. case run_state m (tw t) of (a, w) \<Rightarrow> (a, t\<lparr>tw := w\<rparr>))"

record io_kit =
  io_matching :: bool \<comment> \<open>\<^verbatim>\<open>IOServiceMatching\<close> is not null\<close>
  io_services :: u32 \<comment> \<open>result of \<^verbatim>\<open>IOServiceGetMatchingServices\<close>\<close>
  io_next :: bool \<comment> \<open>\<^verbatim>\<open>IOIteratorNext\<close> is not null\<close>
  io_open :: u32 \<comment> \<open>result of \<^verbatim>\<open>IOServiceOpen\<close>\<close>
  io_conn :: u32

text \<open>
  Selector, scalar inputs, capacity of the output array; the result code and the values
  stored to the output array (their number is the new \<open>outCnt\<close>).
\<close>

type_synonym connect_call = "u32 \<Rightarrow> u64 list \<Rightarrow> u32 \<Rightarrow> (u32 \<times> u64 list) io"

definition KERN_SUCCESS :: u32 where
  "KERN_SUCCESS = 0"

definition kMethodReadRegs :: u32 where
  "kMethodReadRegs = 3"

section \<open>Commands\<close>

text \<open>\<open>None\<close> is \<^verbatim>\<open>exit(1)\<close>.\<close>

definition open_connection :: "io_kit \<Rightarrow> u32 option tool_m" where
  "open_connection E =
     (if \<not> io_matching E then do { say (Stderr 24 []); ret None }
      else if io_services E \<noteq> KERN_SUCCESS then do { say (Stderr 27 []); ret None }
      else do {
        say (ObjectRelease ''it'');
        (if \<not> io_next E then do { say (Stderr 30 []); ret None }
         else do {
           say (ObjectRelease ''svc'');
           (if io_open E \<noteq> KERN_SUCCESS then do { say (Stderr 34 [LU32 (io_open E)]); ret None }
            else ret (Some (io_conn E))) }) })"

definition cmd_info :: "u32 \<Rightarrow> unit tool_m" where
  "cmd_info c = say (Stdout 39 [LStr ''XeService'', LU32 c])"

primrec print_regs :: "u64 list \<Rightarrow> nat \<Rightarrow> unit tool_m" where
  "print_regs [] i = skip"
| "print_regs (v # vs) i = do { say (Stdout 52 [LU32 (of_nat i), LU32 (ucast v)]); print_regs vs (Suc i) }"

definition cmd_regdump :: "connect_call \<Rightarrow> unit tool_m" where
  "cmd_regdump call = do {
     (kr, out) \<leftarrow> in_kernel (call kMethodReadRegs [] 8);
     (if kr \<noteq> KERN_SUCCESS then say (Stderr 47 [LU32 kr])
      else do {
        say (Stdout 50 [LU32 (of_nat (length out))]);
        print_regs out 0 }) }"

definition cmd_noop :: "connect_call \<Rightarrow> unit tool_m" where
  "cmd_noop call = do {
     (kr, _) \<leftarrow> in_kernel (call kMethodSubmit [] 0);
     (if kr \<noteq> KERN_SUCCESS then say (Stderr 59 [LU32 kr])
      else do {
        (kr, _) \<leftarrow> in_kernel (call kMethodWait [1000] 0);
        (if kr \<noteq> KERN_SUCCESS then say (Stderr 66 [LU32 kr])
         else say (Stdout 69 [])) }) }"

definition mkbuf_bytes :: "u32 \<Rightarrow> u32" where
  "mkbuf_bytes bytes = (let bytes = (if bytes = 0 then 4096 else bytes) in
     if bytes > 16 * 1024 * 1024 then 16 * 1024 * 1024 else bytes)"

text \<open>
  \<^verbatim>\<open>out[0]\<close> is printed whatever number of values came back; when none came it is uninitialised, and
  the event does not say what is printed for it.
\<close>

definition cmd_mkbuf :: "connect_call \<Rightarrow> u32 \<Rightarrow> unit tool_m" where
  "cmd_mkbuf call bytes0 = do {
     let bytes = mkbuf_bytes bytes0;
     (kr, out) \<leftarrow> in_kernel (call kMethodCreateBuffer [ucast bytes] 1);
     (if kr \<noteq> KERN_SUCCESS then say (Stderr 80 [LU32 kr])
      else say (Stdout 81 (map LU64 (take 1 out) @ [LU32 bytes]))) }"

text \<open>
  \<^verbatim>\<open>cmd_gtconfig\<close> names \<^verbatim>\<open>kMethodGetGTConfig\<close>, which the tool's own enumeration lacks; the only
  declaration of that name is the one of the kext.
\<close>

definition cmd_gtconfig :: "connect_call \<Rightarrow> unit tool_m" where
  "cmd_gtconfig call = do {
     (kr, config) \<leftarrow> in_kernel (call kMethodGetGTConfig [] 4);
     (if kr \<noteq> KERN_SUCCESS then say (Stderr 87 [LU32 kr])
      else if length config \<ge> 4 then do {
        say (Stdout 89 [LU32 (ucast (config ! 0))]);
        say (Stdout 90 [LU32 (ucast (config ! 1))]);
        say (Stdout 91 [LU32 (ucast (config ! 2))]);
        say (Stdout 92 [LU32 (ucast (config ! 3))]) }
      else skip) }"

section \<open>Numbers on the command line\<close>

text \<open>
  \<^verbatim>\<open>strtoul(s, NULL, 0)\<close> of the C library with 64-bit \<^verbatim>\<open>unsigned long\<close>: white space, a sign, a
  prefix that selects the base, digits; saturation at the maximum; negation modulo the
  word size.
\<close>

definition is_space :: "char \<Rightarrow> bool" where
  "is_space ch \<longleftrightarrow> of_char ch = (32 :: nat) \<or> 9 \<le> (of_char ch :: nat) \<and> (of_char ch :: nat) \<le> 13"

definition digit_of :: "char \<Rightarrow> nat option" where
  "digit_of ch = (let n = of_char ch :: nat in
     if 48 \<le> n \<and> n \<le> 57 then Some (n - 48)
     else if 97 \<le> n \<and> n \<le> 122 then Some (n - 87)
     else if 65 \<le> n \<and> n \<le> 90 then Some (n - 55)
     else None)"

fun digits :: "nat \<Rightarrow> string \<Rightarrow> nat \<Rightarrow> nat" where
  "digits b [] acc = acc"
| "digits b (ch # s) acc = (case digit_of ch of
     None \<Rightarrow> acc
   | Some d \<Rightarrow> if d < b then digits b s (acc * b + d) else acc)"

fun is_hex_digit :: "char \<Rightarrow> bool" where
  "is_hex_digit ch = (case digit_of ch of None \<Rightarrow> False | Some d \<Rightarrow> d < 16)"

fun unsigned_number :: "string \<Rightarrow> nat" where
  "unsigned_number (z # x # h # s) =
     (if z = CHR ''0'' \<and> (x = CHR ''x'' \<or> x = CHR ''X'') \<and> is_hex_digit h then digits 16 (h # s) 0
      else if z = CHR ''0'' then digits 8 (z # x # h # s) 0 else digits 10 (z # x # h # s) 0)"
| "unsigned_number (z # s) = (if z = CHR ''0'' then digits 8 (z # s) 0 else digits 10 (z # s) 0)"
| "unsigned_number [] = 0"

definition strtoul0 :: "string \<Rightarrow> u64" where
  "strtoul0 s = (let s = dropWhile is_space s;
       neg = (s \<noteq> [] \<and> hd s = CHR ''-'');
       s = (if s \<noteq> [] \<and> (hd s = CHR ''-'' \<or> hd s = CHR ''+'') then tl s else s);
       n = unsigned_number s
     in if 2 ^ 64 \<le> n then - 1 else if neg then - of_nat n else of_nat n)"

section \<open>Main\<close>

definition run_command :: "connect_call \<Rightarrow> string list \<Rightarrow> u32 \<Rightarrow> unit tool_m" where
  "run_command call argv c =
     (if argv ! 1 = ''info'' then cmd_info c
      else if argv ! 1 = ''regdump'' then cmd_regdump call
      else if argv ! 1 = ''noop'' then cmd_noop call
      else if argv ! 1 = ''mkbuf'' \<and> length argv \<ge> 3 then cmd_mkbuf call (ucast (strtoul0 (argv ! 2)))
      else say (Stderr 106 []))"

text \<open>The exit status.\<close>

definition main :: "io_kit \<Rightarrow> connect_call \<Rightarrow> string list \<Rightarrow> u32 tool_m" where
  "main E call argv =
     (if length argv < 2 then do { say (Stderr 98 (map LStr (take 1 argv))); ret 1 }
      else do {
        conn \<leftarrow> open_connection E;
        (case conn of
           None \<Rightarrow> ret 1
         | Some c \<Rightarrow> do {
             run_command call argv c;
             say (ServiceClose c);
             ret 0 }) })"

section \<open>What the library promises\<close>

text \<open>The arguments the kernel builds: arrays of sixteen scalars.\<close>

definition call_args :: "u64 list \<Rightarrow> u32 \<Rightarrow> IOExternalMethodArguments" where
  "call_args ins outCnt = \<lparr>scalarInput = ins @ replicate (16 - length ins) 0,
     scalarInputCount = of_nat (length ins), structureInputSize = 0,
     scalarOutput = replicate 16 0, scalarOutputCount = outCnt, structureOutputSize = 0\<rparr>"

text \<open>
  \<^verbatim>\<open>IOConnectCallMethod\<close> with at most sixteen scalars each way runs the client's external
  method, and copies back as many output scalars as it reports.
\<close>

definition call_contract :: "connect_call \<Rightarrow> super_external \<Rightarrow> kernel_env \<Rightarrow> XeUserClient \<Rightarrow> bool" where
  "call_contract call super K c \<longleftrightarrow> (\<forall>sel ins n w. length ins \<le> 16 \<longrightarrow> n \<le> 16 \<longrightarrow>
     run_state (call sel ins n) w =
       (case run_state (XeUserClient_externalMethod super K c sel (Some (call_args ins n))) w of
          ((kr, None), w') \<Rightarrow> ((kr, []), w')
        | ((kr, Some a), w') \<Rightarrow> ((kr, take (unat (scalarOutputCount a)) (scalarOutput a)), w')))"

definition direct_call :: "super_external \<Rightarrow> kernel_env \<Rightarrow> XeUserClient \<Rightarrow> connect_call" where
  "direct_call super K c sel ins n = do {
     (kr, r) \<leftarrow> XeUserClient_externalMethod super K c sel (Some (call_args ins n));
     (case r of
        None \<Rightarrow> ret (kr, [])
      | Some a \<Rightarrow> ret (kr, take (unat (scalarOutputCount a)) (scalarOutput a))) }"

lemma direct_call_contract: "call_contract (direct_call super K c) super K c"
  by (auto simp: call_contract_def direct_call_def split: prod.splits option.splits)

lemma run_say [simp]: "run_state (say e) t = ((), t\<lparr>tout := tout t @ [e]\<rparr>)"
  by (simp add: say_def)

lemma run_in_kernel [simp]:
  "run_state (in_kernel m) t = (case run_state m (tw t) of (a, w) \<Rightarrow> (a, t\<lparr>tw := w\<rparr>))"
  by (simp add: in_kernel_def)

lemma ucast_up_down [simp]: "ucast (ucast (x :: u32) :: u64) = x"
  by (rule bit_word_eqI) (simp add: bit_simps)

lemma print_regs_run:
  "run_state (print_regs vs i) t = ((), t\<lparr>tout := tout t @
     map (\<lambda>(j, v). Stdout 52 [LU32 (of_nat j), LU32 (ucast v)]) (enumerate i vs)\<rparr>)"
  by (induction vs arbitrary: i t) simp_all

lemma call_args_wf: "length ins \<le> 16 \<Longrightarrow> n \<le> 16 \<Longrightarrow> args_wf (call_args ins n)"
  by (simp add: args_wf_def call_args_def unat_of_nat take_bit_nat_eq_self word_le_nat_alt)

text \<open>A call whose selector and counts pass the checks reaches its handler.\<close>

lemma call_handler:
  assumes "dispatch_contract super" and "call_contract call super K c" and "sel < 6" and "length ins \<le> 16"
    and "n \<le> 16" and "counts_ok (sMethods ! unat sel) (call_args ins n)"
    and "run_state (call_action K (dispatch_fn (sMethods ! unat sel)) (TClient c) (Some (call_args ins n)))
      (w\<lparr>trace := trace w @ [Log XeUserClient_cpp 69 [LU32 sel]]\<rparr>) = ((kr, Some a), w')"
  shows "run_state (call sel ins n) w = ((kr, take (unat (scalarOutputCount a)) (scalarOutput a)), w')"
proof -
  have "\<not> 6 \<le> sel" using assms(3) by simp
  with assms show ?thesis
    by (simp add: call_contract_def externalMethod_contract)
qed

section \<open>The tool against the driver\<close>

text \<open>
  C11. \<^verbatim>\<open>xectl regdump\<close> end to end: on a started driver it prints the count 8 and then, numbered
  from 0, the eight values the device returned for the first eight registers of the driver's
  list, read once each and in that order; nothing else of the device or the driver is touched.
\<close>

theorem regdump_end_to_end:
  assumes sup: "dispatch_contract super" and call: "call_contract call super K c" and c: "providerSvc c"
    and S: "mmio (svc (tw t)) \<noteq> 0" "reg_window \<le> unat (bar0Length (svc (tw t)))"
  shows "\<exists>vals es. length vals = 8 \<and> touches es = reads_of (mmio (svc (tw t))) (take 8 kSafeOffs) vals \<and>
    run_state (cmd_regdump call) t = ((), t\<lparr>tw := (tw t)\<lparr>trace := trace (tw t) @ es\<rparr>,
      tout := tout t @ Stdout 50 [LU32 8] #
        map (\<lambda>(j, v). Stdout 52 [LU32 (of_nat j), LU32 v]) (enumerate 0 vals)\<rparr>)"
proof -
  let ?a = "call_args [] 8"
  let ?l = "Log XeUserClient_cpp 69 [LU32 kMethodReadRegs]"
  let ?w = "(tw t)\<lparr>trace := trace (tw t) @ [?l]\<rparr>"
  have m: "sMethods ! unat kMethodReadRegs = sMethods ! 3" "dispatch_fn (sMethods ! 3) = SReadRegs"
      "counts_ok (sMethods ! 3) ?a"
    by (simp_all add: kMethodReadRegs_def sMethods_def counts_ok_def call_args_def)
  have a: "args_wf ?a" "scalarOutputCount ?a = 8" "length (scalarOutput ?a) = 16"
    by (simp_all add: call_args_wf) (simp_all add: call_args_def)
  have "mmio (svc ?w) \<noteq> 0" "reg_window \<le> unat (bar0Length (svc ?w))" using S by simp_all
  from read_out_run [of SReadRegs, OF _ c a(1,2) this, of K] obtain vals es where v: "length vals = 8"
      "run_state (call_action K SReadRegs (TClient c) (Some ?a)) ?w =
        ((kIOReturnSuccess, Some (?a\<lparr>scalarOutput := map ucast vals @ drop 8 (scalarOutput ?a)\<rparr>)),
         ?w\<lparr>trace := trace ?w @ es\<rparr>)"
      "touches es = reads_of (mmio (svc (tw t))) (take 8 kSafeOffs) vals"
    by auto
  have "run_state (call kMethodReadRegs [] 8) (tw t) =
      ((kIOReturnSuccess, map ucast vals), (tw t)\<lparr>trace := trace (tw t) @ ?l # es\<rparr>)"
    using call_handler [OF sup call, of kMethodReadRegs "[]" 8 "tw t"] m v a(2)
    by (simp add: kMethodReadRegs_def)
  then have "run_state (cmd_regdump call) t = ((), t\<lparr>tw := (tw t)\<lparr>trace := trace (tw t) @ ?l # es\<rparr>,
      tout := tout t @ Stdout 50 [LU32 8] #
        map (\<lambda>(j, v). Stdout 52 [LU32 (of_nat j), LU32 (ucast v)]) (enumerate 0 (map (ucast :: u32 \<Rightarrow> u64) vals))\<rparr>)"
    using v(1) by (simp add: cmd_regdump_def KERN_SUCCESS_def kIOReturnSuccess_def print_regs_run)
  also have "map (\<lambda>(j, v). Stdout 52 [LU32 (of_nat j), LU32 (ucast v)]) (enumerate 0 (map (ucast :: u32 \<Rightarrow> u64) vals)) =
      map (\<lambda>(j, v). Stdout 52 [LU32 (of_nat j), LU32 v]) (enumerate 0 vals)"
    by (simp add: enumerate_eq_zip zip_map2 case_prod_beta)
  finally show ?thesis
    using v(1,3) by (intro exI [of _ vals] exI [of _ "?l # es"]) simp
qed

text \<open>A started driver as the tool finds it, with the library run directly against it.\<close>

definition tool_start :: "kernel_env \<Rightarrow> tool" where
  "tool_start K = \<lparr>tw = mapped_world\<lparr>svc := (svc mapped_world)\<lparr>m_boList := Some (0, [])\<rparr>\<rparr>, tout = []\<rparr>"

definition tool_client :: XeUserClient where
  "tool_client = \<lparr>uc_obj = 0, clientTask = 0, providerSvc = True\<rparr>"

theorem regdump_end_to_end_witness:
  "\<exists>t vals. run_state (cmd_regdump (direct_call super_checked kernel_ok tool_client)) (tool_start kernel_ok) = ((), t) \<and>
     tout t = Stdout 50 [LU32 8] # map (\<lambda>(j, v). Stdout 52 [LU32 (of_nat j), LU32 v]) (enumerate 0 vals) \<and>
     length vals = 8"
proof -
  let ?t = "tool_start kernel_ok"
  have "providerSvc tool_client" "mmio (svc (tw ?t)) \<noteq> 0" "reg_window \<le> unat (bar0Length (svc (tw ?t)))" "tout ?t = []"
    by (simp_all add: tool_client_def tool_start_def mapped_world_def reg_window_def)
  with regdump_end_to_end [OF super_checked_contract direct_call_contract, of tool_client ?t kernel_ok] show ?thesis
    by force
qed

text \<open>
  C13. The tool's GT configuration command can never succeed: it offers room for four values
  where the driver's dispatch table demands eight, so every call is refused as a bad argument
  before a handler runs, and nothing is read.
\<close>

theorem gtconfig_always_refused:
  assumes "dispatch_contract super" and "call_contract call super K c"
  shows "run_state (cmd_gtconfig call) t =
    ((), t\<lparr>tw := (tw t)\<lparr>trace := trace (tw t) @ [Log XeUserClient_cpp 69 [LU32 4]]\<rparr>,
           tout := tout t @ [Stderr 87 [LU32 kIOReturnBadArgument]]\<rparr>)"
proof -
  have m: "\<not> counts_ok (sMethods ! 4) (call_args [] 4)" "\<not> (6 :: u32) \<le> 4"
    by (simp_all add: sMethods_def counts_ok_def call_args_def)
  have "run_state (call 4 [] 4) (tw t) =
      ((kIOReturnBadArgument, replicate 4 0), (tw t)\<lparr>trace := trace (tw t) @ [Log XeUserClient_cpp 69 [LU32 4]]\<rparr>)"
    using assms m by (simp add: call_contract_def externalMethod_contract) (simp add: call_args_def)
  moreover have "kIOReturnBadArgument \<noteq> KERN_SUCCESS"
    by (simp add: KERN_SUCCESS_def codes code_layout)
  ultimately show ?thesis
    by (simp add: cmd_gtconfig_def selectors)
qed

theorem gtconfig_always_refused_witness:
  "tout (snd (run_state (cmd_gtconfig (direct_call super_checked kernel_ok tool_client)) (tool_start kernel_ok))) =
     [Stderr 87 [LU32 kIOReturnBadArgument]]"
  using gtconfig_always_refused [OF super_checked_contract direct_call_contract, of kernel_ok tool_client "tool_start kernel_ok"]
  by (simp add: tool_start_def)

text \<open>The commands only print.\<close>

fun printed :: "tool_event \<Rightarrow> bool" where
  "printed (Stdout l a) = True"
| "printed (Stderr l a) = True"
| "printed _ = False"

definition only_prints :: "unit tool_m \<Rightarrow> bool" where
  "only_prints m \<longleftrightarrow> (\<forall>t. \<exists>es. tout (snd (run_state m t)) = tout t @ es \<and> list_all printed es)"

lemma only_printsI:
  "(\<And>t. \<exists>es. tout (snd (run_state m t)) = tout t @ es \<and> list_all printed es) \<Longrightarrow> only_prints m"
  by (simp add: only_prints_def)

lemma run_command_prints: "only_prints (run_command call argv c)"
proof -
  have "only_prints (cmd_info c)" "only_prints (say (Stderr l a))" for l a
    by (rule only_printsI; simp add: cmd_info_def)+
  moreover have "only_prints (cmd_regdump call)"
    by (rule only_printsI)
      (simp add: cmd_regdump_def print_regs_run list_all_iff case_prod_beta)
  moreover have "only_prints (cmd_noop call)" "only_prints (cmd_mkbuf call n)" for n
    by (rule only_printsI; simp add: cmd_noop_def cmd_mkbuf_def Let_def case_prod_beta)+
  ultimately show ?thesis by (simp add: run_command_def)
qed

lemma printed_filter: "list_all printed es \<Longrightarrow> filter (\<lambda>e. \<not> printed e) es = []"
  by (auto simp: list_all_iff)

text \<open>
  C14. Exit status and cleanup of the tool, for every command line and every answer of the
  system: it exits with 1 exactly when it was called without a command or could not open the
  service, and then never called into the driver and closed no connection; otherwise it exits with 0
  and its last act is to close, once, the connection it opened. The I/O Kit objects it obtained
  on the way are released, once each and in this order, in either case. Apart from that it only
  prints.
\<close>

theorem main_status_and_cleanup:
  "case run_state (main E call argv) t of (status, t') \<Rightarrow>
     let found = (2 \<le> length argv \<and> io_matching E \<and> io_services E = 0);
         opened = (found \<and> io_next E \<and> io_open E = 0) in
     status = (if opened then 0 else 1) \<and>
     (\<exists>es. tout t' = tout t @ es \<and>
        (if opened then last es = ServiceClose (io_conn E) else tw t' = tw t) \<and>
        filter (\<lambda>e. \<not> printed e) es =
          (if found then [ObjectRelease ''it''] else []) @
          (if found \<and> io_next E then [ObjectRelease ''svc''] else []) @
          (if opened then [ServiceClose (io_conn E)] else []))"
proof (cases "2 \<le> length argv \<and> io_matching E \<and> io_services E = 0 \<and> io_next E \<and> io_open E = 0")
  case False
  then show ?thesis
    by (auto simp: main_def open_connection_def KERN_SUCCESS_def Let_def)
next
  case True
  let ?t1 = "t\<lparr>tout := tout t @ [ObjectRelease ''it'', ObjectRelease ''svc'']\<rparr>"
  obtain u t2 where t2: "run_state (run_command call argv (io_conn E)) ?t1 = (u, t2)" by (rule prod.exhaust)
  with run_command_prints [of call argv "io_conn E"] obtain es where
      es: "tout t2 = tout ?t1 @ es" "list_all printed es"
    unfolding only_prints_def by (metis snd_conv)
  have "run_state (main E call argv) t = (0, t2\<lparr>tout := tout t2 @ [ServiceClose (io_conn E)]\<rparr>)"
    using True t2 by (simp add: main_def open_connection_def KERN_SUCCESS_def)
  with es True show ?thesis
    by (simp add: Let_def printed_filter [OF es(2)])
qed

section \<open>Buffers from the command line\<close>

lemma mkbuf_bytes_bounds: "1 \<le> unat (mkbuf_bytes n)" "unat (mkbuf_bytes n) \<le> 2 ^ 24"
  by (auto simp: mkbuf_bytes_def Let_def word_less_nat_alt unat_gt_0 Suc_le_eq)

lemma mkbuf_clamp: "clamp_bytes (ucast (mkbuf_bytes n)) = mkbuf_bytes n"
  using clamp_bytes_id [of "ucast (mkbuf_bytes n)"] mkbuf_bytes_bounds [of n]
  by (simp add: word_unat_eq_iff)

lemma replicate_16_take: "take (Suc 0) ((replicate 16 0)[0 := x]) = [x]" "take (Suc 0) (replicate 16 x) = [x]"
  by (simp_all add: numeral_eq_Suc)

lemma sCreateBuffer_run:
  assumes "providerSvc c" and "args_wf a" and "scalarInputCount a = 1" and "scalarOutputCount a = 1"
    and "run_state (ucCreateBuffer K (clamp_bytes (scalarInput a ! 0)))
      (w\<lparr>trace := trace w @ [Log XeUserClient_cpp 79 []]\<rparr>) = ((kr, ck), w')"
  shows "run_state (sCreateBuffer K (TClient c) (Some a)) w =
    ((kr, Some (if kr = kIOReturnSuccess
       then a\<lparr>scalarOutput := (scalarOutput a)[0 := case_option 0 id ck]\<rparr> else a)), w')"
  using assms by (cases a) (simp add: sCreateBuffer_def args_access)

text \<open>
  C12. \<^verbatim>\<open>xectl mkbuf\<close> end to end, for every number given on the command line: on a started driver it
  asks for at least one byte and at most 16 MiB, the driver takes that number as it is, and
  then either the tool prints a nonzero cookie that now resolves, in the driver, to a buffer of
  the page-rounded size the allocator was asked for, or it reports the driver's lack of
  resources and the driver is unchanged.
\<close>

theorem mkbuf_end_to_end:
  assumes sup: "dispatch_contract super" and call: "call_contract call super K c" and c: "providerSvc c"
    and S: "m_boList (svc (tw t)) = Some (arr, bos)" "bo_room bos"
    and run: "run_state (cmd_mkbuf call n) t = (u, t')"
  shows "1 \<le> unat (mkbuf_bytes n) \<and> unat (mkbuf_bytes n) \<le> 16 * 1024 * 1024 \<and>
    ((\<exists>ck md h. tout t' = tout t @ [Stdout 81 [LU64 ck, LU32 (mkbuf_bytes n)]] \<and> ck \<noteq> 0 \<and>
        fst (run_state (boFromCookie ck) (tw t')) = Some md \<and>
        new_buffer K h (ucast (page_align (mkbuf_bytes n))) = Some (md_addr md, md_len md)) \<or>
     tout t' = tout t @ [Stderr 80 [LU32 kIOReturnNoResources]] \<and> svc (tw t') = svc (tw t))"
proof -
  let ?x = "ucast (mkbuf_bytes n) :: u64"
  let ?a = "call_args [?x] 1"
  let ?w = "(tw t)\<lparr>trace := trace (tw t) @ [Log XeUserClient_cpp 69 [LU32 kMethodCreateBuffer], Log XeUserClient_cpp 79 []]\<rparr>"
  have a: "args_wf ?a" by (simp add: call_args_wf)
  have m: "sMethods ! unat kMethodCreateBuffer = sMethods ! 0" "dispatch_fn (sMethods ! 0) = SCreateBuffer"
      "counts_ok (sMethods ! 0) ?a" "scalarInput ?a ! 0 = ?x" "scalarInputCount ?a = 1" "scalarOutputCount ?a = 1"
      "kMethodCreateBuffer < 6"
    by (simp_all add: selectors sMethods_def counts_ok_def call_args_def)
  obtain kr ck w' where uc: "run_state (ucCreateBuffer K (mkbuf_bytes n)) ?w = ((kr, ck), w')"
    by (metis prod.exhaust)
  let ?a' = "if kr = kIOReturnSuccess then ?a\<lparr>scalarOutput := (scalarOutput ?a)[0 := case_option 0 id ck]\<rparr> else ?a"
  have "run_state (call kMethodCreateBuffer [?x] 1) (tw t) =
      ((kr, take (unat (scalarOutputCount ?a')) (scalarOutput ?a')), w')"
    by (rule call_handler [OF sup call])
      (use m sCreateBuffer_run [OF c a m(5,6), of K "(tw t)\<lparr>trace := trace (tw t) @ [Log XeUserClient_cpp 69 [LU32 kMethodCreateBuffer]]\<rparr>" kr ck w'] uc
        in \<open>simp_all add: mkbuf_clamp\<close>)
  then have cl: "run_state (call kMethodCreateBuffer [?x] 1) (tw t) =
      ((kr, [if kr = kIOReturnSuccess then case_option 0 id ck else 0]), w')"
    by (simp add: call_args_def replicate_16_take)
  have room: "\<forall>ar bs. m_boList (svc ?w) = Some (ar, bs) \<longrightarrow> bo_room bs" using S by simp
  note cc = create_cookie [OF uc room]
  show ?thesis
  proof (cases "kr = kIOReturnSuccess")
    case True
    with cc obtain k md h where "ck = Some k" "k \<noteq> 0" "fst (run_state (boFromCookie k) w') = Some md"
        "new_buffer K h (ucast (page_align (mkbuf_bytes n))) = Some (md_addr md, md_len md)"
      by auto
    moreover from True this(1) run cl have "tout t' = tout t @ [Stdout 81 [LU64 k, LU32 (mkbuf_bytes n)]]" "tw t' = w'"
      by (auto simp: cmd_mkbuf_def Let_def KERN_SUCCESS_def kIOReturnSuccess_def)
    ultimately show ?thesis using mkbuf_bytes_bounds [of n] by auto
  next
    case False
    with cc S have "kr = kIOReturnNoResources" "svc w' = svc (tw t)" by simp_all
    moreover from False run cl have "tout t' = tout t @ [Stderr 80 [LU32 kr]]" "tw t' = w'"
      by (auto simp: cmd_mkbuf_def Let_def KERN_SUCCESS_def kIOReturnSuccess_def)
    ultimately show ?thesis using mkbuf_bytes_bounds [of n] by auto
  qed
qed

theorem mkbuf_end_to_end_witness:
  "\<exists>t. run_state (cmd_mkbuf (direct_call super_checked kernel_ok tool_client) 5000) (tool_start kernel_ok) = ((), t) \<and>
     ((\<exists>ck. tout t = [Stdout 81 [LU64 ck, LU32 5000]] \<and> ck \<noteq> 0) \<or>
      tout t = [Stderr 80 [LU32 kIOReturnNoResources]])"
proof -
  let ?t = "tool_start kernel_ok"
  obtain t' where run: "run_state (cmd_mkbuf (direct_call super_checked kernel_ok tool_client) 5000) ?t = ((), t')"
    by (metis (full_types) old.unit.exhaust prod.exhaust)
  have "providerSvc tool_client" "m_boList (svc (tw ?t)) = Some (0, [])" "bo_room []" "tout ?t = []" "mkbuf_bytes 5000 = 5000"
    by (simp_all add: tool_client_def tool_start_def bo_room_def mkbuf_bytes_def Let_def)
  with mkbuf_end_to_end [OF super_checked_contract direct_call_contract _ _ _ run] show ?thesis
    unfolding run by auto
qed

end
