(* ===== verification/KernQueue.thy ===== *)
theory KernQueue
  imports XePrelude "HOL-Library.Multiset" "HOL-Library.Monad_Syntax"
begin

text \<open>
  The circular doubly linked queues of \<^verbatim>\<open>kern/queue.h\<close>, on an explicit store that maps the
  address of every \<^verbatim>\<open>struct queue_entry\<close> to its two pointers. Both interfaces of the header are
  modelled: linkage chains (method 1), whose pointers lead to linkage fields, and element
  chains (method 2), whose pointers lead to the elements that contain the linkage field at some
  offset. One relation \<open>ring\<close>, parametric in where the linkage of a pointer lives, says that
  the store holds a queue with a given sequence of members; splicing and cutting are proved on
  it once, and every operation of the header is an instance. Two queue entries at different
  addresses are taken not to overlap.
\<close>

section \<open>The store\<close>

record queue_entry =
  q_next :: u64
  q_prev :: u64

type_synonym qmem = "u64 \<Rightarrow> queue_entry"

definition set_next :: "u64 \<Rightarrow> u64 \<Rightarrow> qmem \<Rightarrow> qmem" where
  "set_next p v m = m(p := (m p)\<lparr>q_next := v\<rparr>)"

definition set_prev :: "u64 \<Rightarrow> u64 \<Rightarrow> qmem \<Rightarrow> qmem" where
  "set_prev p v m = m(p := (m p)\<lparr>q_prev := v\<rparr>)"

section \<open>Linkage chains\<close>

definition enqueue_head :: "u64 \<Rightarrow> u64 \<Rightarrow> qmem \<Rightarrow> qmem" where
  "enqueue_head que elt m = (
     let old_head = q_next (m que);
         m = set_next elt old_head m;
         m = set_prev elt que m;
         m = set_prev old_head elt m
     in set_next que elt m)"

definition enqueue_tail :: "u64 \<Rightarrow> u64 \<Rightarrow> qmem \<Rightarrow> qmem" where
  "enqueue_tail que elt m = (
     let old_tail = q_prev (m que);
         m = set_next elt que m;
         m = set_prev elt old_tail m;
         m = set_next old_tail elt m
     in set_prev que elt m)"

definition enqueue :: "u64 \<Rightarrow> u64 \<Rightarrow> qmem \<Rightarrow> qmem" where
  "enqueue queue elt = enqueue_tail queue elt"

definition dequeue_head :: "u64 \<Rightarrow> qmem \<Rightarrow> u64 \<times> qmem" where
  "dequeue_head que m = (
     if q_next (m que) \<noteq> que then
       let elt = q_next (m que);
           new_head = q_next (m elt);
           m = set_prev new_head que m
       in (elt, set_next que new_head m)
     else (0, m))"

definition dequeue_tail :: "u64 \<Rightarrow> qmem \<Rightarrow> u64 \<times> qmem" where
  "dequeue_tail que m = (
     if q_prev (m que) \<noteq> que then
       let elt = q_prev (m que);
           new_tail = q_prev (m elt);
           m = set_next new_tail que m
       in (elt, set_prev que new_tail m)
     else (0, m))"

definition dequeue :: "u64 \<Rightarrow> qmem \<Rightarrow> u64 \<times> qmem" where
  "dequeue queue = dequeue_head queue"

definition remqueue :: "u64 \<Rightarrow> qmem \<Rightarrow> qmem" where
  "remqueue elt m = (
     let next_elt = q_next (m elt);
         prev_elt = q_prev (m elt);
         m = set_prev next_elt prev_elt m
     in set_next prev_elt next_elt m)"

definition insque :: "u64 \<Rightarrow> u64 \<Rightarrow> qmem \<Rightarrow> qmem" where
  "insque entry pred m = (
     let successor = q_next (m pred);
         m = set_next entry successor m;
         m = set_prev entry pred m;
         m = set_prev successor entry m
     in set_next pred entry m)"

definition remque :: "u64 \<Rightarrow> qmem \<Rightarrow> qmem" where
  "remque elt m = (
     let next_elt = q_next (m elt);
         prev_elt = q_prev (m elt);
         m = set_prev next_elt prev_elt m
     in set_next prev_elt next_elt m)"

definition re_queue_head :: "u64 \<Rightarrow> u64 \<Rightarrow> qmem \<Rightarrow> qmem" where
  "re_queue_head que elt m = (
     let n_elt = q_next (m elt);
         p_elt = q_prev (m elt);
         m = set_prev n_elt p_elt m;
         m = set_next p_elt n_elt m;
         n_elt = q_next (m que);
         m = set_next elt n_elt m;
         m = set_prev elt que m;
         m = set_prev n_elt elt m
     in set_next que elt m)"

definition re_queue_tail :: "u64 \<Rightarrow> u64 \<Rightarrow> qmem \<Rightarrow> qmem" where
  "re_queue_tail que elt m = (
     let n_elt = q_next (m elt);
         p_elt = q_prev (m elt);
         m = set_prev n_elt p_elt m;
         m = set_next p_elt n_elt m;
         p_elt = q_prev (m que);
         m = set_next elt que m;
         m = set_prev elt p_elt m;
         m = set_next p_elt elt m
     in set_prev que elt m)"

text \<open>\<^verbatim>\<open>__container_of\<close>: the element that holds the linkage field at the given offset.\<close>

definition qe_element :: "u64 \<Rightarrow> u64 \<Rightarrow> u64" where
  "qe_element off qe = qe - off"

definition queue_init :: "u64 \<Rightarrow> qmem \<Rightarrow> qmem" where
  "queue_init q m = (let m = set_next q q m in set_prev q q m)"

definition queue_first :: "u64 \<Rightarrow> qmem \<Rightarrow> u64" where
  "queue_first q m = q_next (m q)"

definition queue_next :: "u64 \<Rightarrow> qmem \<Rightarrow> u64" where
  "queue_next qc m = q_next (m qc)"

definition queue_last :: "u64 \<Rightarrow> qmem \<Rightarrow> u64" where
  "queue_last q m = q_prev (m q)"

definition queue_prev :: "u64 \<Rightarrow> qmem \<Rightarrow> u64" where
  "queue_prev qc m = q_prev (m qc)"

definition queue_end :: "u64 \<Rightarrow> u64 \<Rightarrow> bool" where
  "queue_end q qe \<longleftrightarrow> q = qe"

definition queue_empty :: "u64 \<Rightarrow> qmem \<Rightarrow> bool" where
  "queue_empty q m \<longleftrightarrow> queue_end q (queue_first q m)"

definition movqueue :: "u64 \<Rightarrow> u64 \<Rightarrow> qmem \<Rightarrow> qmem" where
  "movqueue old new m = (
     if queue_empty old m then queue_init new m
     else
       let next_elt = q_next (m old);
           prev_elt = q_prev (m old);
           m = set_next new next_elt m;
           m = set_prev new prev_elt m;
           m = set_prev next_elt new m;
           m = set_next prev_elt new m
       in queue_init old m)"

section \<open>Element chains\<close>

text \<open>
  In method 2 the linkage of an element \<open>e\<close> is the store cell at \<open>e + off\<close>, with \<open>off\<close> the offset
  of the field named by the macro's last argument; the head is a bare linkage. Assigning
  through \<open>fld\<close> is the macros' \<^verbatim>\<open>((type)(void *)x)->field\<close>.
\<close>

definition fld :: "u64 \<Rightarrow> u64 \<Rightarrow> u64" where
  "fld off x = x + off"

definition queue_enter :: "u64 \<Rightarrow> u64 \<Rightarrow> u64 \<Rightarrow> qmem \<Rightarrow> qmem" where
  "queue_enter off head elt m = (
     let prev = q_prev (m head);
         m = set_prev (fld off elt) prev m;
         m = set_next (fld off elt) head m;
         m = (if head = prev then set_next head elt m
              else set_next (fld off prev) elt m)
     in set_prev head elt m)"

definition queue_enter_first :: "u64 \<Rightarrow> u64 \<Rightarrow> u64 \<Rightarrow> qmem \<Rightarrow> qmem" where
  "queue_enter_first off head elt m = (
     let nxt = q_next (m head);
         m = (if head = nxt then set_prev head elt m
              else set_prev (fld off nxt) elt m);
         m = set_next (fld off elt) nxt m;
         m = set_prev (fld off elt) head m
     in set_next head elt m)"

definition queue_insert_before :: "u64 \<Rightarrow> u64 \<Rightarrow> u64 \<Rightarrow> u64 \<Rightarrow> qmem \<Rightarrow> qmem" where
  "queue_insert_before off head elt cur m = (
     if head = cur then
       let m = set_next (fld off elt) head m;
           m = (if q_next (m head) = head then
                  let m = set_prev (fld off elt) head m
                  in set_next head elt m
                else
                  let prev = q_prev (m head);
                      m = set_prev (fld off elt) prev m
                  in set_next (fld off prev) elt m)
       in set_prev head elt m
     else
       let m = set_next (fld off elt) cur m;
           m = (if q_next (m head) = cur then
                  let m = set_prev (fld off elt) head m
                  in set_next head elt m
                else
                  let prev = q_prev (m (fld off cur));
                      m = set_prev (fld off elt) prev m
                  in set_next (fld off prev) elt m)
       in set_prev (fld off cur) elt m)"

definition queue_insert_after :: "u64 \<Rightarrow> u64 \<Rightarrow> u64 \<Rightarrow> u64 \<Rightarrow> qmem \<Rightarrow> qmem" where
  "queue_insert_after off head elt cur m = (
     if head = cur then
       let m = set_prev (fld off elt) head m;
           m = (if q_next (m head) = head then
                  let m = set_next (fld off elt) head m
                  in set_prev head elt m
                else
                  let nxt = q_next (m head);
                      m = set_next (fld off elt) nxt m
                  in set_prev (fld off nxt) elt m)
       in set_next head elt m
     else
       let m = set_prev (fld off elt) cur m;
           m = (if q_prev (m head) = cur then
                  let m = set_next (fld off elt) head m
                  in set_prev head elt m
                else
                  let nxt = q_next (m (fld off cur));
                      m = set_next (fld off elt) nxt m
                  in set_prev (fld off nxt) elt m)
       in set_next (fld off cur) elt m)"

definition queue_field :: "u64 \<Rightarrow> u64 \<Rightarrow> u64 \<Rightarrow> u64" where
  "queue_field off head thing = (if head = thing then head else fld off thing)"

definition queue_remove :: "u64 \<Rightarrow> u64 \<Rightarrow> u64 \<Rightarrow> qmem \<Rightarrow> qmem" where
  "queue_remove off head elt m = (
     let nxt = q_next (m (fld off elt));
         prev = q_prev (m (fld off elt));
         m = (if head = nxt then set_prev head prev m
              else set_prev (fld off nxt) prev m);
         m = (if head = prev then set_next head nxt m
              else set_next (fld off prev) nxt m);
         m = set_next (fld off elt) 0 m
     in set_prev (fld off elt) 0 m)"

definition queue_remove_first :: "u64 \<Rightarrow> u64 \<Rightarrow> qmem \<Rightarrow> u64 \<times> qmem" where
  "queue_remove_first off head m = (
     let entry = q_next (m head);
         nxt = q_next (m (fld off entry));
         m = (if head = nxt then set_prev head head m
              else set_prev (fld off nxt) head m);
         m = set_next head nxt m;
         m = set_next (fld off entry) 0 m
     in (entry, set_prev (fld off entry) 0 m))"

definition queue_remove_last :: "u64 \<Rightarrow> u64 \<Rightarrow> qmem \<Rightarrow> u64 \<times> qmem" where
  "queue_remove_last off head m = (
     let entry = q_prev (m head);
         prev = q_prev (m (fld off entry));
         m = (if head = prev then set_next head head m
              else set_next (fld off prev) head m);
         m = set_prev head prev m;
         m = set_next (fld off entry) 0 m
     in (entry, set_prev (fld off entry) 0 m))"

definition queue_assign :: "u64 \<Rightarrow> u64 \<Rightarrow> u64 \<Rightarrow> qmem \<Rightarrow> qmem" where
  "queue_assign off dst src m = (
     let m = set_next (fld off (q_prev (m src))) dst m;
         m = set_prev (fld off (q_next (m src))) dst m
     in m(dst := m src))"

definition queue_new_head :: "u64 \<Rightarrow> u64 \<Rightarrow> u64 \<Rightarrow> qmem \<Rightarrow> qmem" where
  "queue_new_head off old new m = (
     if \<not> queue_empty old m then
       let m = m(new := m old);
           m = set_prev (fld off (q_next (m new))) new m
       in set_next (fld off (q_prev (m new))) new m
     else queue_init new m)"

section \<open>Iteration\<close>

text \<open>
  A \<^verbatim>\<open>for\<close> loop whose body leaves the loop variable alone, as the sequence of values the variable
  takes; and one whose body may change the store. A loop that does not end has no value.
\<close>

partial_function (option) for_collect :: "('a \<Rightarrow> bool) \<Rightarrow> ('a \<Rightarrow> 'a) \<Rightarrow> 'a \<Rightarrow> 'a list option" where
  "for_collect c step x =
     (if c x then do { xs \<leftarrow> for_collect c step (step x); Some (x # xs) } else Some [])"

partial_function (option) for_state ::
  "('a \<Rightarrow> bool) \<Rightarrow> ('a \<Rightarrow> 's \<Rightarrow> 'a \<times> 's) \<Rightarrow> 'a \<Rightarrow> 's \<Rightarrow> ('a list \<times> 's) option" where
  "for_state c step x s =
     (if c x then
        (case step x s of (x', s') \<Rightarrow>
           do { (xs, s'') \<leftarrow> for_state c step x' s'; Some (x # xs, s'') })
      else Some ([], s))"

definition qe_foreach :: "u64 \<Rightarrow> qmem \<Rightarrow> u64 list option" where
  "qe_foreach head m = for_collect (\<lambda>qe. qe \<noteq> head) (\<lambda>qe. q_next (m qe)) (q_next (m head))"

text \<open>The loop variable is the pair of \<^verbatim>\<open>qe\<close> and \<^verbatim>\<open>_ne\<close>.\<close>

definition qe_foreach_safe :: "u64 \<Rightarrow> (u64 \<Rightarrow> qmem \<Rightarrow> qmem) \<Rightarrow> qmem \<Rightarrow> ((u64 \<times> u64) list \<times> qmem) option" where
  "qe_foreach_safe head body m =
     for_state (\<lambda>(qe, ne). qe \<noteq> head)
       (\<lambda>(qe, ne) m. let m = body qe m; qe = ne in ((qe, q_next (m qe)), m))
       (q_next (m head), q_next (m (q_next (m head)))) m"

definition qe_foreach_element :: "u64 \<Rightarrow> u64 \<Rightarrow> qmem \<Rightarrow> u64 list option" where
  "qe_foreach_element off head m =
     for_collect (\<lambda>elt. fld off elt \<noteq> head) (\<lambda>elt. qe_element off (q_next (m (fld off elt))))
       (qe_element off (q_next (m head)))"

definition qe_foreach_element_safe ::
  "u64 \<Rightarrow> u64 \<Rightarrow> (u64 \<Rightarrow> qmem \<Rightarrow> qmem) \<Rightarrow> qmem \<Rightarrow> ((u64 \<times> u64) list \<times> qmem) option" where
  "qe_foreach_element_safe off head body m =
     for_state (\<lambda>(elt, nelt). fld off elt \<noteq> head)
       (\<lambda>(elt, nelt) m. let m = body elt m; elt = nelt in ((elt, qe_element off (q_next (m (fld off elt)))), m))
       (qe_element off (q_next (m head)), qe_element off (q_next (m (q_next (m head))))) m"

definition queue_iterate :: "u64 \<Rightarrow> u64 \<Rightarrow> qmem \<Rightarrow> u64 list option" where
  "queue_iterate off head m =
     for_collect (\<lambda>elt. \<not> queue_end head elt) (\<lambda>elt. queue_next (fld off elt) m) (queue_first head m)"

section \<open>Rings\<close>

lemma next_set_next [simp]: "q_next (set_next p v m x) = (if x = p then v else q_next (m x))"
  and prev_set_next [simp]: "q_prev (set_next p v m x) = q_prev (m x)"
  and next_set_prev [simp]: "q_next (set_prev p v m x) = q_next (m x)"
  and prev_set_prev [simp]: "q_prev (set_prev p v m x) = (if x = p then v else q_prev (m x))"
  by (simp_all add: set_next_def set_prev_def)

lemma entry_eqI:
  assumes "\<And>x. q_next (m x) = q_next (m' x)" and "\<And>x. q_prev (m x) = q_prev (m' x)"
  shows "m = (m' :: qmem)"
proof (rule ext)
  fix x
  show "m x = m' x"
    using assms [of x] by (cases "m x", cases "m' x") simp
qed

text \<open>
  \<open>seg L m a xs b\<close>: following the links from \<open>a\<close> visits \<open>xs\<close> and then \<open>b\<close>, and every backward link
  undoes the forward one. \<open>L\<close> gives the address of the linkage of a pointer.
\<close>

primrec seg :: "(u64 \<Rightarrow> u64) \<Rightarrow> qmem \<Rightarrow> u64 \<Rightarrow> u64 list \<Rightarrow> u64 \<Rightarrow> bool" where
  "seg L m a [] b \<longleftrightarrow> q_next (m (L a)) = b \<and> q_prev (m (L b)) = a"
| "seg L m a (x # xs) b \<longleftrightarrow> q_next (m (L a)) = x \<and> q_prev (m (L x)) = a \<and> seg L m x xs b"

definition ring :: "(u64 \<Rightarrow> u64) \<Rightarrow> qmem \<Rightarrow> u64 \<Rightarrow> u64 list \<Rightarrow> bool" where
  "ring L m q xs \<longleftrightarrow> seg L m q xs q \<and> distinct (map L (q # xs))"

lemma seg_append: "seg L m a (xs @ x # ys) b \<longleftrightarrow> seg L m a xs x \<and> seg L m x ys b"
  by (induction xs arbitrary: a) auto

lemma seg_cong:
  assumes "\<And>y. y \<in> L ` set (a # xs) \<Longrightarrow> q_next (m' y) = q_next (m y)"
    and "\<And>y. y \<in> L ` set (xs @ [b]) \<Longrightarrow> q_prev (m' y) = q_prev (m y)"
  shows "seg L m' a xs b \<longleftrightarrow> seg L m a xs b"
  using assms by (induction xs arbitrary: a) auto

lemma seg_first: "seg L m a xs b \<Longrightarrow> q_next (m (L a)) = hd (xs @ [b])"
  by (cases xs) auto

lemma seg_last: "seg L m a xs b \<Longrightarrow> q_prev (m (L b)) = last (a # xs)"
  by (induction xs arbitrary: a) auto

definition splice :: "(u64 \<Rightarrow> u64) \<Rightarrow> u64 \<Rightarrow> u64 \<Rightarrow> u64 \<Rightarrow> qmem \<Rightarrow> qmem" where
  "splice L a e b m = set_prev (L b) e (set_next (L a) e (set_prev (L e) a (set_next (L e) b m)))"

definition unlink :: "(u64 \<Rightarrow> u64) \<Rightarrow> u64 \<Rightarrow> u64 \<Rightarrow> qmem \<Rightarrow> qmem" where
  "unlink L a b m = set_next (L a) b (set_prev (L b) a m)"

lemma seg_splice_front:
  assumes "seg L m a vs b" and "distinct (map L (a # vs))" and "L e \<notin> L ` set (a # vs @ [b])" and "L b \<notin> L ` set vs"
  shows "seg L (splice L a e (hd (vs @ [b])) m) a (e # vs) b"
proof (cases vs)
  case Nil
  then show ?thesis using assms by (auto simp: splice_def)
next
  case (Cons v ws)
  have "seg L (splice L a e v m) v ws b \<longleftrightarrow> seg L m v ws b"
    by (rule seg_cong) (use assms Cons in \<open>auto simp: splice_def del: imageE\<close>)
  then show ?thesis using assms Cons by (auto simp: splice_def)
qed

lemma ring_splice:
  assumes r: "ring L m q (us @ vs)" and e: "L e \<notin> L ` set (q # us @ vs)"
  shows "ring L (splice L (last (q # us)) e (hd (vs @ [q])) m) q (us @ e # vs)"
proof (cases us rule: rev_cases)
  case Nil
  with r e show ?thesis
    unfolding ring_def using seg_splice_front [of L m q vs q e] by auto
next
  case (snoc us' p)
  let ?m = "splice L p e (hd (vs @ [q])) m"
  from r snoc have s: "seg L m q us' p" "seg L m p vs q" by (simp_all add: ring_def seg_append)
  have d: "distinct (map L (q # us' @ p # vs))" using r snoc by (simp add: ring_def)
  have h: "hd (vs @ [q]) \<in> set (vs @ [q])" by (cases vs) auto
  then have hn: "L (hd (vs @ [q])) \<notin> L ` set (us' @ [p])"
    using d by (cases vs) (auto del: imageE)
  have "seg L ?m q us' p \<longleftrightarrow> seg L m q us' p"
    by (rule seg_cong) (use d e snoc hn in \<open>auto simp: splice_def image_Un del: imageE\<close>)
  moreover have "seg L ?m p (e # vs) q"
    by (rule seg_splice_front) (use s d e snoc in auto)
  ultimately show ?thesis using s d e snoc by (auto simp: ring_def seg_append)
qed

lemma ring_unlink:
  assumes r: "ring L m q (us @ e # vs)"
  shows "ring L (unlink L (last (q # us)) (hd (vs @ [q])) m) q (us @ vs)"
proof -
  let ?p = "last (q # us)" and ?n = "hd (vs @ [q])"
  from r have s: "seg L m q us e" "seg L m e vs q" and d: "distinct (map L (q # us @ e # vs))"
    by (simp_all add: ring_def seg_append)
  have front: "seg L (unlink L p (hd (vs @ [q])) m) p vs q"
    if "distinct (map L (p # vs))" "L q \<notin> L ` set vs" for p
  proof (cases vs)
    case Nil
    then show ?thesis by (simp add: unlink_def)
  next
    case (Cons v ws)
    have "seg L (unlink L p v m) v ws q \<longleftrightarrow> seg L m v ws q"
      by (rule seg_cong) (use that Cons in \<open>auto simp: unlink_def del: imageE\<close>)
    then show ?thesis using s Cons by (auto simp: unlink_def)
  qed
  show ?thesis
  proof (cases us rule: rev_cases)
    case Nil
    then show ?thesis using front [of q] d by (auto simp: ring_def)
  next
    case (snoc us' p)
    have "hd (vs @ [q]) \<in> set (vs @ [q])" by (cases vs) auto
    then have hn: "L (hd (vs @ [q])) \<notin> L ` set (us' @ [p])"
      using d snoc by (cases vs) (auto del: imageE)
    have "seg L (unlink L p ?n m) q us' p \<longleftrightarrow> seg L m q us' p"
      by (rule seg_cong) (use d snoc hn in \<open>auto simp: unlink_def del: imageE\<close>)
    moreover have "seg L m q us' p" using s snoc by (simp add: seg_append)
    moreover have "seg L (unlink L p ?n m) p vs q" by (rule front) (use d snoc in auto)
    ultimately show ?thesis using d snoc by (auto simp: ring_def seg_append)
  qed
qed

lemma ring_first: "ring L m q xs \<Longrightarrow> q_next (m (L q)) = hd (xs @ [q])"
  and ring_last: "ring L m q xs \<Longrightarrow> q_prev (m (L q)) = last (q # xs)"
  by (auto simp: ring_def dest: seg_first seg_last)

lemma ring_next: "ring L m q (us @ e # vs) \<Longrightarrow> q_next (m (L e)) = hd (vs @ [q])"
  and ring_prev: "ring L m q (us @ e # vs) \<Longrightarrow> q_prev (m (L e)) = last (q # us)"
  by (auto simp: ring_def seg_append dest: seg_first seg_last)

lemma ring_frame:
  assumes "ring L m q xs" and "\<And>y. y \<in> L ` set (q # xs) \<Longrightarrow> m' y = m y"
  shows "ring L m' q xs"
proof -
  have "seg L m' q xs q \<longleftrightarrow> seg L m q xs q"
    by (rule seg_cong) (use assms(2) in \<open>auto del: imageE\<close>)
  with assms(1) show ?thesis by (simp add: ring_def)
qed

lemma ring_distinct: "ring L m q xs \<Longrightarrow> distinct (q # xs)"
  by (simp add: ring_def distinct_map) blast

section \<open>Operations on linkage chains\<close>

definition linked :: "qmem \<Rightarrow> u64 \<Rightarrow> u64 list \<Rightarrow> bool" where
  "linked m q xs \<longleftrightarrow> ring id m q xs"

lemmas q_defs = enqueue_head_def enqueue_tail_def dequeue_head_def dequeue_tail_def remqueue_def
  insque_def remque_def re_queue_head_def re_queue_tail_def splice_def unlink_def Let_def

lemma enqueue_head_splice: "enqueue_head que elt m = splice id que elt (q_next (m que)) m"
  and enqueue_tail_splice: "enqueue_tail que elt m = splice id (q_prev (m que)) elt que m"
  and insque_splice: "insque elt que m = splice id que elt (q_next (m que)) m"
  and remqueue_unlink: "remqueue elt m = unlink id (q_prev (m elt)) (q_next (m elt)) m"
  and remque_remqueue: "remque elt m = remqueue elt m"
  by (rule entry_eqI; simp add: q_defs)+

lemma re_queue_head_split: "re_queue_head que elt m = enqueue_head que elt (remqueue elt m)"
  and re_queue_tail_split: "re_queue_tail que elt m = enqueue_tail que elt (remqueue elt m)"
  by (simp_all add: q_defs)

lemma hd_append_last: "last (q # xs) = hd (rev xs @ [q])"
  by (cases xs rule: rev_cases) auto

lemma linked_init: "linked (queue_init q m) q []"
  by (simp add: linked_def ring_def queue_init_def Let_def)

lemma linked_enqueue_head:
  "linked m q xs \<Longrightarrow> e \<notin> set (q # xs) \<Longrightarrow> linked (enqueue_head q e m) q (e # xs)"
  using ring_splice [of id m q "[]" xs e] ring_first [of id m q xs]
  by (simp add: linked_def enqueue_head_splice)

lemma linked_enqueue_tail:
  "linked m q xs \<Longrightarrow> e \<notin> set (q # xs) \<Longrightarrow> linked (enqueue_tail q e m) q (xs @ [e])"
  using ring_splice [of id m q xs "[]" e] ring_last [of id m q xs]
  by (simp add: linked_def enqueue_tail_splice)

lemma linked_insque:
  "linked m q (us @ p # vs) \<Longrightarrow> e \<notin> set (q # us @ p # vs) \<Longrightarrow> linked (insque e p m) q (us @ p # e # vs)"
  using ring_splice [of id m q "us @ [p]" vs e] ring_next [of id m q us p vs]
  by (simp add: linked_def insque_splice)

lemma linked_remqueue: "linked m q (us @ e # vs) \<Longrightarrow> linked (remqueue e m) q (us @ vs)"
  using ring_unlink [of id m q us e vs] ring_next [of id m q us e vs] ring_prev [of id m q us e vs]
  by (simp add: linked_def remqueue_unlink)

lemma linked_empty: "linked m q xs \<Longrightarrow> queue_empty q m \<longleftrightarrow> xs = []"
  using ring_first [of id m q xs] ring_distinct [of id m q xs]
  by (cases xs) (auto simp: linked_def queue_empty_def queue_end_def queue_first_def)

lemma linked_dequeue_head:
  assumes "linked m q (x # xs)"
  shows "dequeue_head q m = (x, remqueue x m)"
proof -
  have "q_next (m q) = x" "q_prev (m x) = q" "x \<noteq> q"
    using assms ring_first [of id m q "x # xs"] ring_prev [of id m q "[]" x xs] ring_distinct [of id m q "x # xs"]
    by (auto simp: linked_def)
  then show ?thesis by (simp add: q_defs)
qed

lemma linked_dequeue_tail:
  assumes "linked m q (xs @ [x])"
  shows "dequeue_tail q m = (x, remqueue x m)"
proof -
  have "q_prev (m q) = x" "q_next (m x) = q" "x \<noteq> q"
    using assms ring_last [of id m q "xs @ [x]"] ring_next [of id m q xs x "[]"] ring_distinct [of id m q "xs @ [x]"]
    by (auto simp: linked_def)
  then show ?thesis by (intro prod_eqI entry_eqI) (simp_all add: q_defs)
qed

lemma linked_dequeue_nil:
  assumes "linked m q []"
  shows "dequeue_head q m = (0, m)" and "dequeue_tail q m = (0, m)"
  using assms ring_first [of id m q "[]"] ring_last [of id m q "[]"]
  by (simp_all add: linked_def q_defs)

text \<open>Unlinking and linking write only to cells of the queue and of the member concerned.\<close>

lemma remqueue_frame:
  assumes "linked m q (us @ e # vs)" and "y \<notin> set (q # us @ vs)"
  shows "remqueue e m y = m y"
proof -
  have "hd (vs @ [q]) \<in> set (q # vs)" "last (q # us) \<in> set (q # us)" by (cases vs; simp) simp
  with assms(2) have "y \<noteq> hd (vs @ [q])" "y \<noteq> last (q # us)" by auto
  moreover have "q_next (m e) = hd (vs @ [q])" "q_prev (m e) = last (q # us)"
    using assms(1) ring_next [of id m q us e vs] ring_prev [of id m q us e vs] by (simp_all add: linked_def)
  ultimately show ?thesis by (simp add: remqueue_def Let_def set_next_def set_prev_def)
qed

lemma enqueue_frame:
  assumes "linked m q xs" and "y \<notin> set (e # q # xs)"
  shows "enqueue_head q e m y = m y" and "enqueue_tail q e m y = m y"
proof -
  have "hd (xs @ [q]) \<in> set (q # xs)" "last (q # xs) \<in> set (q # xs)" by (cases xs; simp) simp
  with assms(2) have "y \<noteq> hd (xs @ [q])" "y \<noteq> last (q # xs)" by auto
  moreover have "q_next (m q) = hd (xs @ [q])" "q_prev (m q) = last (q # xs)"
    using assms(1) ring_first [of id m q xs] ring_last [of id m q xs] by (simp_all add: linked_def)
  ultimately show "enqueue_head q e m y = m y" "enqueue_tail q e m y = m y"
    using assms(2) by (simp_all add: enqueue_head_def enqueue_tail_def Let_def set_next_def set_prev_def)
qed

lemma linked_frame: "linked m q xs \<Longrightarrow> (\<And>y. y \<in> set (q # xs) \<Longrightarrow> m' y = m y) \<Longrightarrow> linked m' q xs"
  unfolding linked_def by (erule ring_frame) simp

lemma linked_distinct: "linked m q xs \<Longrightarrow> distinct (q # xs)"
  unfolding linked_def by (rule ring_distinct)

text \<open>A queue whose members stay and whose head moves.\<close>

lemma in_set_tlD: "x \<in> set (tl xs) \<Longrightarrow> x \<in> set xs"
  by (cases xs) auto

lemma seg_rebase:
  assumes "seg L m a xs b" and "xs \<noteq> []" and "\<And>x. x \<in> set xs \<Longrightarrow> L' x = L x"
    and "q_next (m' (L' a')) = hd xs" and "q_prev (m' (L (hd xs))) = a'"
    and "q_next (m' (L (last xs))) = b'" and "q_prev (m' (L' b')) = last xs"
    and "\<And>x. x \<in> set (butlast xs) \<Longrightarrow> q_next (m' (L x)) = q_next (m (L x))"
    and "\<And>x. x \<in> set (tl xs) \<Longrightarrow> q_prev (m' (L x)) = q_prev (m (L x))"
  shows "seg L' m' a' xs b'"
  using assms
proof (induction xs arbitrary: a a' rule: induct_list012)
  case (3 x y zs)
  have "seg L' m' x (y # zs) b'"
    by (rule "3.IH"(2) [of x]) (use "3.prems" in \<open>simp_all\<close>)
  with "3.prems" show ?case by simp
qed simp_all

lemma butlast_tl_distinct:
  assumes "distinct xs" and "xs \<noteq> []"
  shows "hd xs \<notin> set (tl xs)" and "last xs \<notin> set (butlast xs)"
proof -
  show "hd xs \<notin> set (tl xs)" using assms by (cases xs) auto
  show "last xs \<notin> set (butlast xs)" using assms by (cases xs rule: rev_cases) auto
qed

lemma linked_movqueue:
  assumes l: "linked m old xs" and n: "new \<notin> set (old # xs)"
  shows "linked (movqueue old new m) new xs \<and> linked (movqueue old new m) old []"
proof (cases "xs = []")
  case True
  have "linked (queue_init new m) old []"
    by (rule linked_frame [OF l [unfolded True]]) (use n in \<open>auto simp: queue_init_def Let_def set_next_def set_prev_def\<close>)
  with True l show ?thesis
    by (simp add: movqueue_def linked_empty linked_init)
next
  case False
  let ?m = "set_next (last xs) new (set_prev (hd xs) new (set_prev new (last xs) (set_next new (hd xs) m)))"
  have e: "movqueue old new m = queue_init old ?m"
    using False l linked_empty [OF l] ring_first [of id m old xs] ring_last [of id m old xs]
    by (simp add: movqueue_def linked_def Let_def hd_append)
  have d: "distinct xs" "old \<notin> set xs" using linked_distinct [OF l] by auto
  have in_xs: "x \<noteq> new \<and> x \<noteq> old" if "x \<in> set (butlast xs) \<or> x \<in> set (tl xs) \<or> x = hd xs \<or> x = last xs" for x
    using that d n False by (auto dest: in_set_butlastD in_set_tlD)
  have "seg id (queue_init old ?m) new xs new"
  proof (rule seg_rebase [of id m old xs old])
    show "seg id m old xs old" using l by (simp add: linked_def ring_def)
  qed (use butlast_tl_distinct [OF d(1) False] in_xs False n in \<open>auto simp: queue_init_def Let_def\<close>)
  then show ?thesis using e d n linked_init [of old ?m] by (auto simp: linked_def ring_def)
qed

text \<open>
  C23. Moving a member from one queue to the tail or to the head of another one: the member
  leaves the first queue, which keeps the others in order, and the second queue has it in the
  place asked for. This holds for any two queues that share no cell.
\<close>

theorem re_queue_moves:
  assumes l: "linked m q1 (us @ e # vs)" and l2: "linked m q2 ys"
    and disj: "set (q1 # us @ e # vs) \<inter> set (q2 # ys) = {}"
  shows "linked (re_queue_tail q2 e m) q1 (us @ vs) \<and> linked (re_queue_tail q2 e m) q2 (ys @ [e]) \<and>
    linked (re_queue_head q2 e m) q1 (us @ vs) \<and> linked (re_queue_head q2 e m) q2 (e # ys)"
proof -
  let ?m = "remqueue e m"
  have r: "linked ?m q1 (us @ vs)" by (rule linked_remqueue [OF l])
  have r2: "linked ?m q2 ys"
    by (rule linked_frame [OF l2]) (use disj in \<open>auto intro!: remqueue_frame [OF l]\<close>)
  have e: "e \<notin> set (q2 # ys)" using disj by auto
  have "linked (enqueue_tail q2 e ?m) q1 (us @ vs)" "linked (enqueue_head q2 e ?m) q1 (us @ vs)"
    by (rule linked_frame [OF r], rule enqueue_frame [OF r2],
        use disj linked_distinct [OF l] in auto)+
  then show ?thesis
    unfolding re_queue_tail_split re_queue_head_split
    using linked_enqueue_tail [OF r2 e] linked_enqueue_head [OF r2 e] by simp
qed

theorem re_queue_moves_witness:
  "linked (re_queue_tail 3 2 (queue_init 3 (enqueue_tail 1 2 (queue_init 1 (\<lambda>_. \<lparr>q_next = 0, q_prev = 0\<rparr>))))) 1 [] \<and>
   linked (re_queue_tail 3 2 (queue_init 3 (enqueue_tail 1 2 (queue_init 1 (\<lambda>_. \<lparr>q_next = 0, q_prev = 0\<rparr>))))) 3 [2]"
proof -
  let ?m = "queue_init 3 (enqueue_tail 1 2 (queue_init 1 (\<lambda>_. \<lparr>q_next = 0, q_prev = 0\<rparr>)))"
  have "linked ?m 1 ([] @ 2 # [])" "linked ?m 3 []" "set (1 # [] @ 2 # []) \<inter> set ((3 :: u64) # []) = {}"
    by (simp_all add: linked_def ring_def queue_init_def enqueue_tail_def Let_def)
  from re_queue_moves [OF this] show ?thesis by simp
qed

section \<open>Operations on element chains\<close>

definition chained :: "u64 \<Rightarrow> qmem \<Rightarrow> u64 \<Rightarrow> u64 list \<Rightarrow> bool" where
  "chained off m q xs \<longleftrightarrow> ring (queue_field off q) m q xs"

text \<open>The links of the head and of the given elements are different cells.\<close>

definition apart :: "u64 \<Rightarrow> u64 \<Rightarrow> u64 list \<Rightarrow> bool" where
  "apart off q xs \<longleftrightarrow> q \<notin> set xs \<and> q \<notin> fld off ` set xs \<and> distinct xs"

lemma inj_fld: "fld off x = fld off y \<longleftrightarrow> x = y"
  by (simp add: fld_def)

lemma apart_iff: "apart off q xs \<longleftrightarrow> distinct (map (queue_field off q) (q # xs))"
  by (auto simp: apart_def queue_field_def distinct_map inj_on_def inj_fld image_iff split: if_splits)

lemma chained_apart: "chained off m q xs \<Longrightarrow> apart off q xs"
  by (simp add: chained_def ring_def apart_iff)

lemma field_head [simp]: "queue_field off q q = q"
  by (simp add: queue_field_def)

lemma field_elem: "x \<noteq> q \<Longrightarrow> queue_field off q x = fld off x"
  by (simp add: queue_field_def)

lemma chained_init: "chained off (queue_init q m) q []"
  by (simp add: chained_def ring_def queue_init_def Let_def)

lemma chained_splice:
  assumes "chained off m q (us @ vs)" and "apart off q (us @ e # vs)"
  shows "chained off (splice (queue_field off q) (last (q # us)) e (hd (vs @ [q])) m) q (us @ e # vs)"
  unfolding chained_def
  by (rule ring_splice) (use assms in \<open>auto simp: chained_def apart_iff\<close>)

lemma chained_enter:
  assumes c: "chained off m q xs" and a: "apart off q (xs @ [e])"
  shows "chained off (queue_enter off q e m) q (xs @ [e])"
proof -
  have "q_prev (m q) = last (q # xs)" using c ring_last [of "queue_field off q" m q xs] by (simp add: chained_def)
  moreover have "e \<noteq> q" using a by (auto simp: apart_def)
  ultimately have "queue_enter off q e m = splice (queue_field off q) (last (q # xs)) e q m"
    by (intro entry_eqI) (simp_all add: queue_enter_def splice_def Let_def queue_field_def)
  with chained_splice [of off m q xs "[]" e] c a show ?thesis by simp
qed

lemma chained_enter_first:
  assumes c: "chained off m q xs" and a: "apart off q (e # xs)"
  shows "chained off (queue_enter_first off q e m) q (e # xs)"
proof -
  have n: "q_next (m q) = hd (xs @ [q])" using c ring_first [of "queue_field off q" m q xs] by (simp add: chained_def)
  have e: "e \<noteq> q" "fld off e \<noteq> q" "e \<notin> set xs" using a by (auto simp: apart_def)
  have "hd (xs @ [q]) \<noteq> e" using e by (cases xs) auto
  then have "queue_enter_first off q e m = splice (queue_field off q) q e (hd (xs @ [q])) m"
    using e n by (intro entry_eqI) (auto simp: queue_enter_first_def splice_def Let_def queue_field_def inj_fld)
  with chained_splice [of off m q "[]" xs e] c a show ?thesis by simp
qed

lemma chained_insert_before:
  assumes c: "chained off m q (us @ vs)" and a: "apart off q (us @ e # vs)" and cur: "cur = hd (vs @ [q])"
  shows "chained off (queue_insert_before off q e cur m) q (us @ e # vs)"
proof -
  let ?L = "queue_field off q"
  have d: "e \<noteq> q" "fld off e \<noteq> q" "e \<notin> set (us @ vs)" using a by (auto simp: apart_def)
  have ends: "q_next (m q) = hd ((us @ vs) @ [q])" "q_prev (m q) = last (q # us @ vs)"
    using c ring_first [of ?L m q "us @ vs"] ring_last [of ?L m q "us @ vs"] by (simp_all add: chained_def)
  have q: "q \<notin> set (us @ vs)" and ds: "distinct (us @ vs)" using chained_apart [OF c] by (auto simp: apart_def)
  have "q_prev (m (?L cur)) = last (q # us)"
  proof (cases vs)
    case Nil with ends cur show ?thesis by simp
  next
    case (Cons v ws) with c cur ring_prev [of ?L m q us v ws] show ?thesis by (simp add: chained_def)
  qed
  moreover have "q_next (m q) = cur \<longleftrightarrow> us = []"
    using ends cur q ds by (cases us; cases vs) auto
  moreover have "q_next (m q) = q \<longleftrightarrow> us = [] \<and> vs = []" using ends q by (cases us; cases vs) auto
  moreover have "cur = q \<longleftrightarrow> vs = []" using cur q by (cases vs) auto
  moreover have "cur \<noteq> e" "us \<noteq> [] \<Longrightarrow> last us \<noteq> e" "us \<noteq> [] \<Longrightarrow> last us \<noteq> q"
    using d q cur by (cases vs; auto)+
  ultimately have "queue_insert_before off q e cur m = splice ?L (last (q # us)) e cur m"
    using d by (cases "us = []"; cases "vs = []"; intro entry_eqI)
      (simp_all add: queue_insert_before_def splice_def Let_def queue_field_def inj_fld)
  with chained_splice [OF c a] cur show ?thesis by simp
qed

lemma chained_insert_after:
  assumes c: "chained off m q (us @ vs)" and a: "apart off q (us @ e # vs)" and cur: "cur = last (q # us)"
  shows "chained off (queue_insert_after off q e cur m) q (us @ e # vs)"
proof -
  let ?L = "queue_field off q"
  have d: "e \<noteq> q" "fld off e \<noteq> q" "e \<notin> set (us @ vs)" using a by (auto simp: apart_def)
  have ends: "q_next (m q) = hd ((us @ vs) @ [q])" "q_prev (m q) = last (q # us @ vs)"
    using c ring_first [of ?L m q "us @ vs"] ring_last [of ?L m q "us @ vs"] by (simp_all add: chained_def)
  have q: "q \<notin> set (us @ vs)" and ds: "distinct (us @ vs)" using chained_apart [OF c] by (auto simp: apart_def)
  have "q_next (m (?L cur)) = hd (vs @ [q])"
  proof (cases us rule: rev_cases)
    case Nil with ends cur show ?thesis by simp
  next
    case (snoc ws u) with c cur ring_next [of ?L m q ws u vs] show ?thesis by (simp add: chained_def)
  qed
  moreover have "q_prev (m q) = cur \<longleftrightarrow> vs = []"
    using ends cur q ds by (cases us rule: rev_cases; cases vs rule: rev_cases) auto
  moreover have "q_next (m q) = q \<longleftrightarrow> us = [] \<and> vs = []" using ends q by (cases us; cases vs) auto
  moreover have "cur = q \<longleftrightarrow> us = []" using cur q by (cases us rule: rev_cases) auto
  moreover have "cur \<noteq> e" "vs \<noteq> [] \<Longrightarrow> hd vs \<noteq> e" "vs \<noteq> [] \<Longrightarrow> hd vs \<noteq> q"
    using d q cur by (cases us rule: rev_cases; cases vs; auto)+
  ultimately have "queue_insert_after off q e cur m = splice ?L cur e (hd (vs @ [q])) m"
    using d by (cases "us = []"; cases "vs = []"; intro entry_eqI)
      (simp_all add: queue_insert_after_def splice_def Let_def queue_field_def inj_fld)
  with chained_splice [OF c a] cur show ?thesis by simp
qed

lemma chained_remove:
  assumes c: "chained off m q (us @ e # vs)"
  shows "chained off (queue_remove off q e m) q (us @ vs)"
proof -
  let ?L = "queue_field off q"
  have ap: "apart off q (us @ e # vs)" by (rule chained_apart [OF c])
  then have d: "e \<noteq> q" "fld off e \<noteq> q" "e \<notin> set (us @ vs)" by (auto simp: apart_def)
  have n: "q_next (m (fld off e)) = hd (vs @ [q])" "q_prev (m (fld off e)) = last (q # us)"
    using c ring_next [of ?L m q us e vs] ring_prev [of ?L m q us e vs] d by (simp_all add: chained_def field_elem)
  let ?c = "unlink ?L (last (q # us)) (hd (vs @ [q])) m"
  have "queue_remove off q e m = set_prev (fld off e) 0 (set_next (fld off e) 0 ?c)"
    by (rule entry_eqI) (auto simp: queue_remove_def n unlink_def Let_def queue_field_def)
  moreover have "fld off e \<notin> ?L ` set (q # us @ vs)"
    using ap d by (auto simp: apart_iff field_elem)
  ultimately have "queue_remove off q e m y = ?c y" if "y \<in> ?L ` set (q # us @ vs)" for y
    using that by (auto simp: set_next_def set_prev_def del: imageE)
  moreover have "ring ?L ?c q (us @ vs)" using ring_unlink c by (simp add: chained_def)
  ultimately show ?thesis unfolding chained_def by (rule ring_frame [rotated])
qed

lemma chained_remove_first:
  assumes c: "chained off m q (x # xs)"
  shows "queue_remove_first off q m = (x, queue_remove off q x m)"
proof -
  let ?L = "queue_field off q"
  have d: "x \<noteq> q" using chained_apart [OF c] by (auto simp: apart_def)
  have "q_next (m q) = x" "q_prev (m (fld off x)) = q"
    using c ring_first [of ?L m q "x # xs"] ring_prev [of ?L m q "[]" x xs] d by (simp_all add: chained_def field_elem)
  then show ?thesis by (simp add: queue_remove_first_def queue_remove_def Let_def)
qed

lemma chained_remove_last:
  assumes c: "chained off m q (xs @ [x])"
  shows "queue_remove_last off q m = (x, queue_remove off q x m)"
proof -
  let ?L = "queue_field off q"
  have d: "x \<noteq> q" using chained_apart [OF c] by (auto simp: apart_def)
  have "q_prev (m q) = x" "q_next (m (fld off x)) = q"
    using c ring_last [of ?L m q "xs @ [x]"] ring_next [of ?L m q xs x "[]"] d by (simp_all add: chained_def field_elem)
  then show ?thesis
    by (intro prod_eqI entry_eqI) (simp_all add: queue_remove_last_def queue_remove_def Let_def)
qed

text \<open>
  \<^verbatim>\<open>queue_new_head\<close> copies the head before it redirects the end elements, and \<^verbatim>\<open>queue_assign\<close>
  after; on a non-empty queue both hand all members to the new head. \<^verbatim>\<open>queue_assign\<close> has no test
  for an empty queue.
\<close>

lemma chained_rebase:
  assumes c: "chained off m old xs" and ne: "xs \<noteq> []" and a: "apart off new xs"
    and nm: "q_next (m' new) = hd xs" "q_prev (m' new) = last xs"
    and hm: "\<And>x. x \<in> set xs \<Longrightarrow> q_prev (m' (fld off x)) = (if x = hd xs then new else q_prev (m (fld off x)))"
    and lm: "\<And>x. x \<in> set xs \<Longrightarrow> q_next (m' (fld off x)) = (if x = last xs then new else q_next (m (fld off x)))"
  shows "chained off m' new xs"
proof -
  let ?L = "queue_field off old"
  have d: "distinct xs" "old \<notin> set xs" "new \<notin> set xs" using chained_apart [OF c] a by (auto simp: apart_def)
  then have L: "x \<in> set xs \<Longrightarrow> ?L x = fld off x \<and> queue_field off new x = fld off x" for x
    by (auto simp: queue_field_def)
  have i: "hd xs \<in> set xs" "last xs \<in> set xs" "x \<in> set (butlast xs) \<Longrightarrow> x \<in> set xs \<and> x \<noteq> last xs"
    "x \<in> set (tl xs) \<Longrightarrow> x \<in> set xs \<and> x \<noteq> hd xs" for x
    using ne butlast_tl_distinct [OF d(1) ne] by (auto dest: in_set_butlastD in_set_tlD)
  have "seg (queue_field off new) m' new xs new"
  proof (rule seg_rebase [of ?L m old xs old])
    show "seg ?L m old xs old" using c by (simp add: chained_def ring_def)
  qed (use ne L nm hm lm i in simp_all)
  with a show ?thesis by (simp add: chained_def ring_def apart_iff)
qed

lemma chained_new_head:
  assumes c: "chained off m old xs" and a: "apart off new xs" and n: "new \<noteq> old"
  shows "chained off (queue_new_head off old new m) new xs"
proof (cases "xs = []")
  case True
  have "queue_empty old m"
    using c True ring_first [of "queue_field off old" m old "[]"]
    by (simp add: chained_def queue_empty_def queue_end_def queue_first_def)
  with True show ?thesis by (simp add: queue_new_head_def chained_init)
next
  case False
  let ?L = "queue_field off old"
  have ends: "q_next (m old) = hd xs" "q_prev (m old) = last xs"
    using c False ring_first [of ?L m old xs] ring_last [of ?L m old xs] by (simp_all add: chained_def)
  have i: "hd xs \<in> set xs" "last xs \<in> set xs" using False by simp_all
  have o: "old \<notin> set xs" "new \<notin> fld off ` set xs" using chained_apart [OF c] a by (auto simp: apart_def)
  have "\<not> queue_empty old m" using ends i o by (auto simp: queue_empty_def queue_end_def queue_first_def)
  then have "queue_new_head off old new m =
      set_next (fld off (last xs)) new (set_prev (fld off (hd xs)) new (m(new := m old)))"
    using i o ends by (auto simp: queue_new_head_def Let_def)
  with o i ends show ?thesis
    by (intro chained_rebase [OF c False a]) (auto simp: inj_fld)
qed

lemma chained_assign:
  assumes c: "chained off m src xs" and a: "apart off dst xs" and ne: "xs \<noteq> []" and n: "dst \<noteq> src"
  shows "chained off (queue_assign off dst src m) dst xs"
proof -
  let ?L = "queue_field off src"
  have ends: "q_next (m src) = hd xs" "q_prev (m src) = last xs"
    using c ne ring_first [of ?L m src xs] ring_last [of ?L m src xs] by (simp_all add: chained_def)
  have i: "hd xs \<in> set xs" "last xs \<in> set xs" using ne by simp_all
  have o: "src \<notin> fld off ` set xs" "dst \<notin> fld off ` set xs" using chained_apart [OF c] a by (auto simp: apart_def)
  let ?m = "set_prev (fld off (hd xs)) dst (set_next (fld off (last xs)) dst m)"
  have "queue_assign off dst src m = ?m(dst := ?m src)"
    using i o ends by (auto simp: queue_assign_def Let_def)
  with o i ends show ?thesis
    by (intro chained_rebase [OF c ne a]) (auto simp: inj_fld)
qed

section \<open>The contract of a double-ended queue\<close>

text \<open>
  What both interfaces of the header promise. \<open>rep\<close> relates the store and a head to the sequence
  of members, and \<open>room\<close> says that pointers may be members of the queue of a head together.
\<close>

primrec pop_n :: "('q \<Rightarrow> 'm \<Rightarrow> 'a \<times> 'm) \<Rightarrow> 'q \<Rightarrow> nat \<Rightarrow> 'm \<Rightarrow> 'a list \<times> 'm" where
  "pop_n pop q 0 m = ([], m)"
| "pop_n pop q (Suc n) m = (case pop q m of (x, m) \<Rightarrow> case pop_n pop q n m of (xs, m) \<Rightarrow> (x # xs, m))"

locale deque =
  fixes rep :: "'m \<Rightarrow> 'q \<Rightarrow> 'a list \<Rightarrow> bool"
    and room :: "'q \<Rightarrow> 'a list \<Rightarrow> bool"
    and init :: "'q \<Rightarrow> 'm \<Rightarrow> 'm"
    and push_front :: "'q \<Rightarrow> 'a \<Rightarrow> 'm \<Rightarrow> 'm"
    and push_back :: "'q \<Rightarrow> 'a \<Rightarrow> 'm \<Rightarrow> 'm"
    and pop_front :: "'q \<Rightarrow> 'm \<Rightarrow> 'a \<times> 'm"
    and pop_back :: "'q \<Rightarrow> 'm \<Rightarrow> 'a \<times> 'm"
  assumes init: "rep (init q m) q []"
    and rep_room: "rep m q xs \<Longrightarrow> room q xs"
    and room_mset: "room q xs \<Longrightarrow> mset ys \<subseteq># mset xs \<Longrightarrow> room q ys"
    and push_front: "rep m q xs \<Longrightarrow> room q (e # xs) \<Longrightarrow> rep (push_front q e m) q (e # xs)"
    and push_back: "rep m q xs \<Longrightarrow> room q (e # xs) \<Longrightarrow> rep (push_back q e m) q (xs @ [e])"
    and pop_front: "rep m q (x # xs) \<Longrightarrow> \<exists>m'. pop_front q m = (x, m') \<and> rep m' q xs"
    and pop_back: "rep m q (xs @ [x]) \<Longrightarrow> \<exists>m'. pop_back q m = (x, m') \<and> rep m' q xs"
begin

lemma push_back_all:
  "rep m q xs \<Longrightarrow> room q (xs @ es) \<Longrightarrow> rep (fold (push_back q) es m) q (xs @ es)"
proof (induction es arbitrary: m xs)
  case (Cons e es)
  have "room q (e # xs)" by (rule room_mset [OF Cons.prems(2)]) simp
  with Cons.IH [of "push_back q e m" "xs @ [e]"] Cons.prems show ?case by (simp add: push_back)
qed simp

lemma push_front_all:
  "rep m q xs \<Longrightarrow> room q (xs @ es) \<Longrightarrow> rep (fold (push_front q) es m) q (rev es @ xs)"
proof (induction es arbitrary: m xs)
  case (Cons e es)
  have "room q (e # xs)" "room q ((e # xs) @ es)"
    by (rule room_mset [OF Cons.prems(2)], simp)+
  with Cons.IH [of "push_front q e m" "e # xs"] Cons.prems show ?case by (simp add: push_front)
qed simp

lemma pop_front_all: "rep m q (xs @ ys) \<Longrightarrow> \<exists>m'. pop_n pop_front q (length xs) m = (xs, m') \<and> rep m' q ys"
proof (induction xs arbitrary: m)
  case (Cons x xs)
  then obtain m1 where "pop_front q m = (x, m1)" "rep m1 q (xs @ ys)" using pop_front by fastforce
  with Cons.IH [of m1] show ?case by auto
qed simp

lemma pop_back_all: "rep m q (ys @ xs) \<Longrightarrow> \<exists>m'. pop_n pop_back q (length xs) m = (rev xs, m') \<and> rep m' q ys"
proof (induction xs arbitrary: m rule: rev_induct)
  case (snoc x xs)
  then obtain m1 where "pop_back q m = (x, m1)" "rep m1 q (ys @ xs)" using pop_back [of m q "ys @ xs" x] by auto
  with snoc.IH [of m1] show ?case by auto
qed simp

lemma fifo:
  assumes "room q es"
  shows "\<exists>m'. pop_n pop_front q (length es) (fold (push_back q) es (init q m)) = (es, m') \<and> rep m' q []"
  using push_back_all [OF init, of q es m] pop_front_all [of _ q es "[]"] assms by simp

lemma lifo:
  assumes "room q es"
  shows "\<exists>m'. pop_n pop_front q (length es) (fold (push_front q) es (init q m)) = (rev es, m') \<and> rep m' q []"
  using push_front_all [OF init, of q es m] pop_front_all [of _ q "rev es" "[]"] assms by simp

lemma both_ends:
  assumes "room q (es @ fs)"
  shows "\<exists>m'. pop_n pop_front q (length (es @ fs)) (fold (push_front q) es (fold (push_back q) fs (init q m))) =
      (rev es @ fs, m') \<and> rep m' q []"
    and "\<exists>m'. pop_n pop_back q (length (es @ fs)) (fold (push_front q) es (fold (push_back q) fs (init q m))) =
      (rev fs @ es, m') \<and> rep m' q []"
proof -
  have "room q fs" "room q (fs @ es)" by (rule room_mset [OF assms], simp)+
  then have "rep (fold (push_front q) es (fold (push_back q) fs (init q m))) q (rev es @ fs)"
    using push_back_all [OF init, of q fs m] push_front_all by simp
  then show "\<exists>m'. pop_n pop_front q (length (es @ fs)) (fold (push_front q) es (fold (push_back q) fs (init q m))) =
      (rev es @ fs, m') \<and> rep m' q []"
    and "\<exists>m'. pop_n pop_back q (length (es @ fs)) (fold (push_front q) es (fold (push_back q) fs (init q m))) =
      (rev fs @ es, m') \<and> rep m' q []"
    using pop_front_all [of _ q "rev es @ fs" "[]"] pop_back_all [of _ q "[]" "rev es @ fs"] by simp_all
qed

end

lemma distinct_submset:
  assumes "distinct xs" and "mset ys \<subseteq># mset xs"
  shows "distinct ys \<and> set ys \<subseteq> set xs"
proof
  have "count (mset ys) a \<le> count (mset xs) a" for a using assms(2) by (rule mset_subset_eq_count)
  moreover have "count (mset xs) a \<le> 1" for a using assms(1) by (simp add: distinct_count_atmost_1)
  ultimately have "count (mset ys) a \<le> 1" for a by (meson order_trans)
  then have "count (mset ys) a = (if a \<in> set ys then 1 else 0)" for a
    by (metis count_mset_0_iff le_0_eq le_Suc_eq One_nat_def)
  then show "distinct ys" by (simp add: distinct_count_atmost_1)
  show "set ys \<subseteq> set xs" using set_mset_mono [OF assms(2)] by simp
qed

lemma apart_submset: "apart off q xs \<Longrightarrow> mset ys \<subseteq># mset xs \<Longrightarrow> apart off q ys"
  using distinct_submset [of xs ys] by (auto simp: apart_def)

interpretation links: deque linked "\<lambda>q xs. distinct (q # xs)" queue_init enqueue_head enqueue_tail dequeue_head dequeue_tail
proof (unfold_locales, goal_cases)
  case (3 q xs ys)
  then show ?case using distinct_submset [of xs ys] by auto
next
  case (6 m q x xs)
  then show ?case using linked_dequeue_head [OF 6] linked_remqueue [of m q "[]" x xs] by simp
next
  case (7 m q xs x)
  then show ?case using linked_dequeue_tail [OF 7] linked_remqueue [of m q xs x "[]"] by simp
qed (auto simp: linked_init linked_enqueue_head linked_enqueue_tail dest: linked_distinct)

interpretation elems: deque "chained off" "apart off" queue_init "queue_enter_first off" "queue_enter off"
  "queue_remove_first off" "queue_remove_last off" for off
proof (unfold_locales, goal_cases)
  case (5 m q xs e)
  then show ?case by (intro chained_enter) (auto simp: apart_def)
next
  case (6 m q x xs)
  then show ?case using chained_remove_first [OF 6] chained_remove [of off m q "[]" x xs] by simp
next
  case (7 m q xs x)
  then show ?case using chained_remove_last [OF 7] chained_remove [of off m q xs x "[]"] by simp
qed (auto simp: chained_init chained_apart chained_enter_first apart_submset)

text \<open>
  C22. First in, first out, for both queue interfaces and any number of members: from an empty
  queue, everything entered at the tail is removed at the head in the order it was entered,
  after which the queue is empty; and entering at the head and removing at the tail undoes in
  the same way. Method 1 works on linkage pointers, method 2 on elements with a linkage field
  at any offset.
\<close>

theorem queue_order:
  assumes "distinct (q # es @ fs)" and "apart off h (xs @ ys)"
  shows "fst (pop_n dequeue q (length (es @ fs)) (fold (enqueue_head q) es (fold (enqueue q) fs (queue_init q m)))) =
      rev es @ fs \<and>
    fst (pop_n dequeue_tail q (length (es @ fs)) (fold (enqueue_head q) es (fold (enqueue q) fs (queue_init q m)))) =
      rev fs @ es \<and>
    fst (pop_n (queue_remove_first off) h (length (xs @ ys))
      (fold (queue_enter_first off h) xs (fold (queue_enter off h) ys (queue_init h m)))) = rev xs @ ys \<and>
    fst (pop_n (queue_remove_last off) h (length (xs @ ys))
      (fold (queue_enter_first off h) xs (fold (queue_enter off h) ys (queue_init h m)))) = rev ys @ xs"
proof -
  have "enqueue = enqueue_tail" "dequeue = dequeue_head" by (simp_all add: fun_eq_iff enqueue_def dequeue_def)
  then show ?thesis
    using links.both_ends [of q es fs m] elems.both_ends [OF assms(2), of m] assms(1) by auto
qed

theorem queue_order_witness:
  "fst (pop_n dequeue 1 (Suc (Suc (Suc 0)))
      (fold (enqueue_head 1) [2] (fold (enqueue 1) [3, 4] (queue_init 1 (\<lambda>_. \<lparr>q_next = 0, q_prev = 0\<rparr>))))) =
     [2, 3, 4] \<and>
   fst (pop_n (queue_remove_last 8) 100 (Suc (Suc 0))
      (fold (queue_enter_first 8 100) [200] (fold (queue_enter 8 100) [300] (queue_init 100 (\<lambda>_. \<lparr>q_next = 0, q_prev = 0\<rparr>))))) =
     [300, 200]"
proof -
  have "distinct ((1 :: u64) # [2] @ [3, 4])" "apart 8 100 ([200] @ [300])" by (simp_all add: apart_def fld_def)
  from queue_order [OF this, of "\<lambda>_. \<lparr>q_next = 0, q_prev = 0\<rparr>"] show ?thesis by (simp del: fold_simps)
qed

section \<open>Iteration visits every member once\<close>

lemma for_collect_walk:
  assumes "\<And>ys z zs. xs = ys @ z # zs \<Longrightarrow> c (f z) \<and> step (f z) = f (hd (zs @ [e]))" and "\<not> c (f e)"
  shows "for_collect c step (f (hd (xs @ [e]))) = Some (map f xs)"
  using assms
proof (induction xs)
  case Nil
  then show ?case by (simp add: for_collect.simps)
next
  case (Cons x xs)
  have "for_collect c step (f (hd (xs @ [e]))) = Some (map f xs)"
    by (rule Cons.IH) (use Cons.prems in \<open>auto simp: Cons_eq_append_conv\<close>)
  moreover have "c (f x)" "step (f x) = f (hd (xs @ [e]))" using Cons.prems(1) [of "[]" x xs] by simp_all
  ultimately show ?case by (subst for_collect.simps) simp
qed

text \<open>
  C25. Each of the three iteration macros ends and visits every member of the queue exactly
  once, in order: \<^verbatim>\<open>qe_foreach\<close> the linkages, \<^verbatim>\<open>qe_foreach_element\<close> the elements around them, and
  \<^verbatim>\<open>queue_iterate\<close> the elements of a method 2 queue.
\<close>

theorem queue_iteration:
  assumes l: "linked m q xs" and c: "chained off m h ys"
  shows "qe_foreach q m = Some xs \<and> qe_foreach_element off q m = Some (map (qe_element off) xs) \<and>
    queue_iterate off h m = Some ys"
proof -
  let ?L = "queue_field off h"
  have n: "q_next (m q) = hd (xs @ [q])" "xs = us @ z # zs \<Longrightarrow> q_next (m z) = hd (zs @ [q])" for us z zs
    using l ring_first [of id m q xs] ring_next [of id m q] by (auto simp: linked_def)
  have k: "q_next (m h) = hd (ys @ [h])" "ys = us @ z # zs \<Longrightarrow> q_next (m (?L z)) = hd (zs @ [h])" for us z zs
    using c ring_first [of ?L m h ys] ring_next [of ?L m h] by (auto simp: chained_def)
  have "q \<notin> set xs" "h \<notin> set ys" using linked_distinct [OF l] chained_apart [OF c] by (auto simp: apart_def)
  then have "for_collect (\<lambda>qe. qe \<noteq> q) (\<lambda>qe. q_next (m qe)) (id (hd (xs @ [q]))) = Some (map id xs)"
    "for_collect (\<lambda>elt. fld off elt \<noteq> q) (\<lambda>elt. qe_element off (q_next (m (fld off elt))))
       (qe_element off (hd (xs @ [q]))) = Some (map (qe_element off) xs)"
    "for_collect (\<lambda>elt. h \<noteq> elt) (\<lambda>elt. q_next (m (fld off elt))) (id (hd (ys @ [h]))) = Some (map id ys)"
    using n(2) k(2) by (intro for_collect_walk; force simp: qe_element_def fld_def queue_field_def)+
  then show ?thesis
    by (simp add: qe_foreach_def qe_foreach_element_def queue_iterate_def queue_first_def queue_next_def queue_end_def n(1) k(1))
qed

theorem queue_iteration_witness:
  "\<exists>m. linked m 1 [2] \<and> chained 8 m 100 [200] \<and> qe_foreach 1 m = Some [2] \<and>
     qe_foreach_element 8 1 m = Some [2 - 8] \<and> queue_iterate 8 100 m = Some [200]"
proof -
  let ?m = "enqueue_tail 1 2 (queue_init 1 (queue_enter 8 100 200 (queue_init 100 (\<lambda>_. \<lparr>q_next = 0, q_prev = 0\<rparr>))))"
  have "linked ?m 1 [2]" "chained 8 ?m 100 [200]"
    by (simp_all add: linked_def chained_def ring_def queue_init_def enqueue_tail_def queue_enter_def
        queue_field_def fld_def Let_def)
  with queue_iteration [OF this] show ?thesis by (intro exI [of _ ?m]) (simp add: qe_element_def)
qed

text \<open>Removing the current member inside the loop.\<close>

definition drop_if :: "u64 \<Rightarrow> (u64 \<Rightarrow> bool) \<Rightarrow> u64 \<Rightarrow> qmem \<Rightarrow> qmem" where
  "drop_if off P elt m = (if P elt then remqueue (fld off elt) m else m)"

lemma foreach_safe_loop:
  assumes "linked m q (ks @ map (fld off) xs)" and "qe = hd (map (fld off) xs @ [q])"
  shows "\<exists>vs m'. for_state (\<lambda>(elt, nelt). fld off elt \<noteq> q)
       (\<lambda>(elt, nelt) m. let m = drop_if off P elt m; elt = nelt in ((elt, qe_element off (q_next (m (fld off elt)))), m))
       (qe_element off qe, qe_element off (q_next (m qe))) m = Some (vs, m') \<and>
     map fst vs = xs \<and> linked m' q (ks @ map (fld off) (filter (\<lambda>x. \<not> P x) xs))"
  using assms
proof (induction xs arbitrary: ks m qe)
  case Nil
  then show ?case by (simp add: for_state.simps fld_def qe_element_def)
next
  case (Cons x xs)
  let ?m = "drop_if off P x m" and ?ks = "if P x then ks else ks @ [fld off x]" and ?n = "hd (map (fld off) xs @ [q])"
  have l: "linked ?m q (?ks @ map (fld off) xs)"
    using Cons.prems(1) linked_remqueue [of m q ks "fld off x" "map (fld off) xs"] by (simp add: drop_if_def)
  have "q_next (m qe) = ?n" "fld off x \<noteq> q"
    using Cons.prems ring_next [of id m q ks "fld off x" "map (fld off) xs"] linked_distinct [OF Cons.prems(1)]
    by (auto simp: linked_def)
  moreover have "qe_element off qe = x" "\<And>y. fld off (qe_element off y) = y"
    using Cons.prems(2) by (simp_all add: fld_def qe_element_def)
  moreover note n = calculation
  from Cons.IH [OF l refl] n show ?case
    by (subst for_state.simps) (auto simp: Let_def split: if_splits)
qed

text \<open>
  C24. The safe iteration macros may remove the members they visit: whatever predicate decides,
  with \<^verbatim>\<open>remqueue\<close> as the removal the loop ends, visits every original member exactly once in
  order, and leaves a queue of exactly the members that were not removed, in order. It holds
  for the iteration over elements with their linkage at any offset and for the one over
  linkages.
\<close>

theorem foreach_safe_removal:
  assumes "linked m q (map (fld off) xs)" and "linked m q ys"
  shows "(\<exists>vs m'. qe_foreach_element_safe off q (drop_if off P) m = Some (vs, m') \<and> map fst vs = xs \<and>
      linked m' q (map (fld off) (filter (\<lambda>x. \<not> P x) xs))) \<and>
    (\<exists>vs m'. qe_foreach_safe q (drop_if 0 P) m = Some (vs, m') \<and> map fst vs = ys \<and>
      linked m' q (filter (\<lambda>x. \<not> P x) ys))"
proof -
  have id: "fld 0 = id" "qe_element 0 = id" by (auto simp: fld_def qe_element_def)
  have "q_next (m q) = hd (map (fld off) xs @ [q])" "q_next (m q) = hd (map (fld 0) ys @ [q])"
    using assms ring_first [of id m q "map (fld off) xs"] ring_first [of id m q ys] by (simp_all add: linked_def id)
  with foreach_safe_loop [of m q "[]" off xs _ P] foreach_safe_loop [of m q "[]" 0 ys _ P] assms
  show ?thesis by (simp add: qe_foreach_element_safe_def qe_foreach_safe_def id)
qed

theorem foreach_safe_removal_witness:
  "\<exists>m vs m'. linked m 1 [2, 3] \<and> qe_foreach_safe 1 (drop_if 0 (\<lambda>x. x = 2)) m = Some (vs, m') \<and> linked m' 1 [3]"
proof -
  let ?m = "enqueue_tail 1 3 (enqueue_tail 1 2 (queue_init 1 (\<lambda>_. \<lparr>q_next = 0, q_prev = 0\<rparr>)))"
  have l: "linked ?m 1 [2, 3]"
    by (simp add: linked_def ring_def queue_init_def enqueue_tail_def Let_def)
  then have "linked ?m 1 (map (fld 0) [2, 3])" by (simp add: fld_def)
  from foreach_safe_removal [OF this l, of "\<lambda>x. x = 2"] l show ?thesis by auto
qed

text \<open>
  C26. Editing an element chain anywhere: inserting before a member (or before the head, at the
  end), inserting after a member (or after the head, at the front) and removing a member give
  the queue of the edited sequence; and a new head takes over all members, with
  \<^verbatim>\<open>queue_new_head\<close> for every queue and with \<^verbatim>\<open>queue_assign\<close> for a queue that is not empty.
\<close>

theorem element_chain_edits:
  assumes "chained off m q (us @ vs)" and "apart off q (us @ e # vs)"
    and "chained off m q' (ws @ x # ys)" and "apart off new (ws @ x # ys)" and "new \<noteq> q'"
  shows "chained off (queue_insert_before off q e (hd (vs @ [q])) m) q (us @ e # vs) \<and>
    chained off (queue_insert_after off q e (last (q # us)) m) q (us @ e # vs) \<and>
    chained off (queue_remove off q' x m) q' (ws @ ys) \<and>
    chained off (queue_new_head off q' new m) new (ws @ x # ys) \<and>
    chained off (queue_assign off new q' m) new (ws @ x # ys)"
  using chained_insert_before [OF assms(1,2) refl] chained_insert_after [OF assms(1,2) refl]
    chained_remove [OF assms(3)] chained_new_head [OF assms(3-5)] chained_assign [OF assms(3,4) _ assms(5)]
  by simp

theorem element_chain_edits_witness:
  "\<exists>m. chained 8 m 1 [20] \<and> chained 8 (queue_insert_before 8 1 40 20 m) 1 [40, 20] \<and>
     chained 8 (queue_new_head 8 1 2 m) 2 [20]"
proof -
  let ?m = "queue_enter 8 1 20 (queue_init 1 (\<lambda>_. \<lparr>q_next = 0, q_prev = 0\<rparr>))"
  have "chained 8 ?m 1 ([] @ [20])" "apart 8 1 ([] @ 40 # [20])" "chained 8 ?m 1 ([] @ 20 # [])"
    "apart 8 2 ([] @ 20 # [])" "(2 :: u64) \<noteq> 1"
    by (simp_all add: chained_def ring_def queue_init_def queue_enter_def queue_field_def fld_def Let_def apart_def)
  from element_chain_edits [OF this] this show ?thesis by (intro exI [of _ ?m]) simp
qed

end
