(* ===== verification/CircleQueue.thy ===== *)
theory CircleQueue
  imports KernQueue
begin

text \<open>
  The circle queues of \<^verbatim>\<open>kern/circle_queue.h\<close>: rings of entries without a head among them, with a
  separate pointer to the first. The heads are a second part of the store, apart from the
  entries. A circle queue with first entry \<open>x\<close> is a queue of \<open>KernQueue\<close> that has \<open>x\<close> in the place of
  its head, so that the ring lemmas of that theory carry over; rotating the ring changes which
  entry that is. A failed assertion has no value.
\<close>

section \<open>Operations\<close>

record cmem =
  cq_head :: "u64 \<Rightarrow> u64"
  cq_ents :: qmem

definition circle_queue_empty :: "u64 \<Rightarrow> cmem \<Rightarrow> bool" where
  "circle_queue_empty cq m \<longleftrightarrow> cq_head m cq = 0"

definition circle_queue_first :: "u64 \<Rightarrow> cmem \<Rightarrow> u64" where
  "circle_queue_first cq m = cq_head m cq"

definition circle_queue_last :: "u64 \<Rightarrow> cmem \<Rightarrow> u64" where
  "circle_queue_last cq m = (
     let elt = circle_queue_first cq m
     in if elt \<noteq> 0 then q_prev (cq_ents m elt) else 0)"

definition circle_queue_next :: "u64 \<Rightarrow> u64 \<Rightarrow> cmem \<Rightarrow> u64" where
  "circle_queue_next cq elt m =
     (if q_next (cq_ents m elt) = cq_head m cq then 0 else q_next (cq_ents m elt))"

definition circle_queue_length :: "u64 \<Rightarrow> cmem \<Rightarrow> u64 option" where
  "circle_queue_length cq m = do {
     visited \<leftarrow> for_collect (\<lambda>elt. elt \<noteq> 0) (\<lambda>elt. circle_queue_next cq elt m) (circle_queue_first cq m);
     Some (fold (\<lambda>_ n. n + 1) visited 0) }"

definition set_head :: "u64 \<Rightarrow> u64 \<Rightarrow> cmem \<Rightarrow> cmem" where
  "set_head cq v m = m\<lparr>cq_head := (cq_head m)(cq := v)\<rparr>"

definition circle_enqueue_tail :: "u64 \<Rightarrow> u64 \<Rightarrow> cmem \<Rightarrow> cmem" where
  "circle_enqueue_tail cq elt m = (
     let head = circle_queue_first cq m;
         tail = circle_queue_last cq m
     in if head = 0 then
          set_head cq elt (m\<lparr>cq_ents := set_next elt elt (set_prev elt elt (cq_ents m))\<rparr>)
        else
          let e = cq_ents m;
              e = set_next elt head e;
              e = set_prev elt tail e;
              e = set_next tail elt e;
              e = set_prev head elt e
          in m\<lparr>cq_ents := e\<rparr>)"

definition circle_enqueue_head :: "u64 \<Rightarrow> u64 \<Rightarrow> cmem \<Rightarrow> cmem" where
  "circle_enqueue_head cq elt m = (let m = circle_enqueue_tail cq elt m in set_head cq elt m)"

definition circle_dequeue :: "u64 \<Rightarrow> u64 \<Rightarrow> cmem \<Rightarrow> cmem option" where
  "circle_dequeue cq elt m = (
     let elt_prev = q_prev (cq_ents m elt);
         elt_next = q_next (cq_ents m elt)
     in if elt = elt_next then
          (if cq_head m cq = elt then Some (set_head cq 0 m) else None)
        else
          let m = m\<lparr>cq_ents := set_prev elt_next elt_prev (set_next elt_prev elt_next (cq_ents m))\<rparr>
          in Some (if cq_head m cq = elt then set_head cq elt_next m else m))"

definition circle_dequeue_head :: "u64 \<Rightarrow> cmem \<Rightarrow> (u64 \<times> cmem) option" where
  "circle_dequeue_head cq m = (
     let elt = circle_queue_first cq m
     in if elt \<noteq> 0 then do { m \<leftarrow> circle_dequeue cq elt m; Some (elt, m) } else Some (elt, m))"

definition circle_dequeue_tail :: "u64 \<Rightarrow> cmem \<Rightarrow> (u64 \<times> cmem) option" where
  "circle_dequeue_tail cq m = (
     let elt = circle_queue_last cq m
     in if elt \<noteq> 0 then do { m \<leftarrow> circle_dequeue cq elt m; Some (elt, m) } else Some (elt, m))"

definition circle_queue_rotate_head_forward :: "u64 \<Rightarrow> cmem \<Rightarrow> cmem" where
  "circle_queue_rotate_head_forward cq m = (
     let first = circle_queue_first cq m
     in if first \<noteq> 0 then set_head cq (q_next (cq_ents m first)) m else m)"

definition circle_queue_rotate_head_backward :: "u64 \<Rightarrow> cmem \<Rightarrow> cmem" where
  "circle_queue_rotate_head_backward cq m = (
     let last = circle_queue_last cq m
     in if last \<noteq> 0 then set_head cq last m else m)"

definition circle_queue_init :: "u64 \<Rightarrow> cmem \<Rightarrow> cmem" where
  "circle_queue_init cq m = set_head cq 0 m"

definition cqe_element :: "u64 \<Rightarrow> u64 \<Rightarrow> u64" where
  "cqe_element off qe = qe - off"

definition cqe_foreach :: "u64 \<Rightarrow> cmem \<Rightarrow> u64 list option" where
  "cqe_foreach head m = for_collect (\<lambda>qe. qe \<noteq> 0) (\<lambda>qe. circle_queue_next head qe m) (circle_queue_first head m)"

definition cqe_foreach_safe :: "u64 \<Rightarrow> (u64 \<Rightarrow> cmem \<Rightarrow> cmem) \<Rightarrow> cmem \<Rightarrow> (u64 list \<times> cmem) option" where
  "cqe_foreach_safe head body m =
     for_state (\<lambda>qe. qe \<noteq> 0)
       (\<lambda>qe m. let ne = circle_queue_next head qe m; m = body qe m in (ne, m))
       (circle_queue_first head m) m"

text \<open>The loops over elements: the body sees the element around the entry.\<close>

definition cqe_foreach_element :: "u64 \<Rightarrow> u64 \<Rightarrow> cmem \<Rightarrow> u64 list option" where
  "cqe_foreach_element off head m = do {
     visited \<leftarrow> for_collect (\<lambda>qe. qe \<noteq> 0) (\<lambda>qe. circle_queue_next head qe m) (circle_queue_first head m);
     Some (map (cqe_element off) visited) }"

definition cqe_foreach_element_safe ::
  "u64 \<Rightarrow> u64 \<Rightarrow> (u64 \<Rightarrow> cmem \<Rightarrow> cmem) \<Rightarrow> cmem \<Rightarrow> (u64 list \<times> cmem) option" where
  "cqe_foreach_element_safe off head body m =
     for_state (\<lambda>qe. qe \<noteq> 0)
       (\<lambda>qe m. let elt = cqe_element off qe; ne = circle_queue_next head qe m; m = body elt m in (ne, m))
       (circle_queue_first head m) m"

text \<open>The wrappers that return the element, or null for a null entry.\<close>

definition cqe_or_null :: "u64 \<Rightarrow> u64 \<Rightarrow> u64" where
  "cqe_or_null off entry = (if entry \<noteq> 0 then cqe_element off entry else 0)"

definition cqe_dequeue_head :: "u64 \<Rightarrow> u64 \<Rightarrow> cmem \<Rightarrow> (u64 \<times> cmem) option" where
  "cqe_dequeue_head off head m = do { (entry, m) \<leftarrow> circle_dequeue_head head m; Some (cqe_or_null off entry, m) }"

definition cqe_dequeue_tail :: "u64 \<Rightarrow> u64 \<Rightarrow> cmem \<Rightarrow> (u64 \<times> cmem) option" where
  "cqe_dequeue_tail off head m = do { (entry, m) \<leftarrow> circle_dequeue_tail head m; Some (cqe_or_null off entry, m) }"

definition cqe_queue_first :: "u64 \<Rightarrow> u64 \<Rightarrow> cmem \<Rightarrow> u64" where
  "cqe_queue_first off head m = cqe_or_null off (circle_queue_first head m)"

definition cqe_queue_next :: "u64 \<Rightarrow> u64 \<Rightarrow> u64 \<Rightarrow> cmem \<Rightarrow> u64" where
  "cqe_queue_next off elt head m = cqe_or_null off (circle_queue_next head elt m)"

definition cqe_queue_last :: "u64 \<Rightarrow> u64 \<Rightarrow> cmem \<Rightarrow> u64" where
  "cqe_queue_last off head m = cqe_or_null off (circle_queue_last head m)"

section \<open>Circles\<close>

definition circle_at :: "cmem \<Rightarrow> u64 \<Rightarrow> u64 list \<Rightarrow> bool" where
  "circle_at m cq xs \<longleftrightarrow>
     (case xs of [] \<Rightarrow> cq_head m cq = 0
      | x # ys \<Rightarrow> cq_head m cq = x \<and> linked (cq_ents m) x ys \<and> 0 \<notin> set xs)"

lemma linked_rotate: "linked m x (y # ys) \<longleftrightarrow> linked m y (ys @ [x])"
  by (auto simp: linked_def ring_def seg_append)

lemma circle_first: "circle_at m cq xs \<Longrightarrow> circle_queue_first cq m = (case xs of [] \<Rightarrow> 0 | x # _ \<Rightarrow> x)"
  by (auto simp: circle_at_def circle_queue_first_def split: list.splits)

lemma circle_last: "circle_at m cq xs \<Longrightarrow> circle_queue_last cq m = (if xs = [] then 0 else last xs)"
  using ring_last [of id "cq_ents m" "hd xs" "tl xs"]
  by (auto simp: circle_at_def circle_queue_last_def circle_queue_first_def linked_def Let_def split: list.splits)

lemma circle_distinct: "circle_at m cq xs \<Longrightarrow> distinct xs \<and> 0 \<notin> set xs"
  by (cases xs) (auto simp: circle_at_def dest: linked_distinct)

lemma circle_next:
  assumes "circle_at m cq (us @ e # vs)"
  shows "q_next (cq_ents m e) = hd (vs @ us @ [e])"
    and "circle_queue_next cq e m = (case vs of [] \<Rightarrow> 0 | v # _ \<Rightarrow> v)"
proof -
  show n: "q_next (cq_ents m e) = hd (vs @ us @ [e])"
  proof (cases us)
    case Nil
    with assms ring_first [of id "cq_ents m" e vs] show ?thesis by (simp add: circle_at_def linked_def)
  next
    case (Cons u us')
    with assms ring_next [of id "cq_ents m" u us' e vs] show ?thesis
      by (cases vs) (simp_all add: circle_at_def linked_def)
  qed
  have h: "cq_head m cq = hd (us @ [e])" using assms by (cases us) (simp_all add: circle_at_def)
  have "hd (us @ [e]) \<noteq> v" if "vs = v # ws" for v ws
    using circle_distinct [OF assms] that by (cases us) auto
  with n h show "circle_queue_next cq e m = (case vs of [] \<Rightarrow> 0 | v # _ \<Rightarrow> v)"
    by (cases vs) (auto simp: circle_queue_next_def hd_append)
qed

lemma set_head_sel [simp]:
  "cq_head (set_head cq v m) = (cq_head m)(cq := v)" "cq_ents (set_head cq v m) = cq_ents m"
  by (simp_all add: set_head_def)

text \<open>Another queue, whose entries are not among those that change, stays as it is.\<close>

lemma circle_frame:
  assumes "circle_at m cq xs" and "cq_head m' cq = cq_head m cq" and "\<And>y. y \<in> set xs \<Longrightarrow> cq_ents m' y = cq_ents m y"
  shows "circle_at m' cq xs"
  using assms linked_frame [of "cq_ents m" "hd xs" "tl xs" "cq_ents m'"]
  by (auto simp: circle_at_def split: list.splits)

lemma circle_enqueue_tail_ents:
  assumes "circle_at m cq (x # xs)"
  shows "circle_enqueue_tail cq e m = m\<lparr>cq_ents := enqueue_tail x e (cq_ents m)\<rparr>"
proof -
  have "cq_head m cq = x" "x \<noteq> 0" using assms by (auto simp: circle_at_def)
  then show ?thesis
    by (simp add: circle_enqueue_tail_def circle_queue_first_def circle_queue_last_def enqueue_tail_def Let_def)
qed

lemma circle_tail:
  assumes c: "circle_at m cq xs" and e: "e \<noteq> 0" "e \<notin> set xs"
  shows "circle_at (circle_enqueue_tail cq e m) cq (xs @ [e])"
    and "y \<notin> set (e # xs) \<Longrightarrow> cq_ents (circle_enqueue_tail cq e m) y = cq_ents m y"
    and "cq' \<noteq> cq \<Longrightarrow> cq_head (circle_enqueue_tail cq e m) cq' = cq_head m cq'"
proof -
  have "circle_at (circle_enqueue_tail cq e m) cq (xs @ [e]) \<and>
      (y \<notin> set (e # xs) \<longrightarrow> cq_ents (circle_enqueue_tail cq e m) y = cq_ents m y) \<and>
      (cq' \<noteq> cq \<longrightarrow> cq_head (circle_enqueue_tail cq e m) cq' = cq_head m cq')"
  proof (cases xs)
    case Nil
    with c have "cq_head m cq = 0" by (simp add: circle_at_def)
    with Nil e show ?thesis
      by (simp add: circle_at_def circle_enqueue_tail_def circle_queue_first_def linked_def ring_def
          set_next_def set_prev_def)
  next
    case (Cons x ys)
    with c have "linked (cq_ents m) x ys" "cq_head m cq = x" "0 \<notin> set xs" by (auto simp: circle_at_def)
    with Cons e linked_enqueue_tail [of "cq_ents m" x ys e] enqueue_frame(2) [of "cq_ents m" x ys y e]
    show ?thesis by (simp add: circle_enqueue_tail_ents [OF c [unfolded Cons]] circle_at_def)
  qed
  then show "circle_at (circle_enqueue_tail cq e m) cq (xs @ [e])"
    and "y \<notin> set (e # xs) \<Longrightarrow> cq_ents (circle_enqueue_tail cq e m) y = cq_ents m y"
    and "cq' \<noteq> cq \<Longrightarrow> cq_head (circle_enqueue_tail cq e m) cq' = cq_head m cq'"
    by blast+
qed

lemma circle_rotate:
  assumes "circle_at m cq xs"
  shows "circle_at (circle_queue_rotate_head_forward cq m) cq (rotate1 xs)"
    and "xs = ys @ [y] \<Longrightarrow> circle_at (circle_queue_rotate_head_backward cq m) cq (y # ys)"
    and "xs = ys @ [y] \<Longrightarrow> circle_at (set_head cq y m) cq (y # ys)"
proof -
  show "circle_at (circle_queue_rotate_head_forward cq m) cq (rotate1 xs)"
  proof (cases xs)
    case Nil
    with assms show ?thesis by (simp add: circle_at_def circle_queue_rotate_head_forward_def circle_queue_first_def)
  next
    case (Cons x ys)
    then have "q_next (cq_ents m x) = hd (ys @ [x])" using circle_next(1) [of m cq "[]" x ys] assms by simp
    with assms Cons show ?thesis
      by (cases ys) (auto simp: circle_at_def circle_queue_rotate_head_forward_def circle_queue_first_def linked_rotate)
  qed
  show sh: "circle_at (set_head cq y m) cq (y # ys)" if "xs = ys @ [y]"
    using assms that by (cases ys) (auto simp: circle_at_def linked_rotate)
  show "circle_at (circle_queue_rotate_head_backward cq m) cq (y # ys)" if "xs = ys @ [y]"
    using circle_last [OF assms] circle_distinct [OF assms] sh [OF that] that
    by (simp add: circle_queue_rotate_head_backward_def Let_def)
qed

lemma circle_cut:
  assumes c: "circle_at m cq (us @ e # vs)"
  obtains m' where "circle_dequeue cq e m = Some m'" and "circle_at m' cq (us @ vs)"
    and "\<And>y. y \<notin> set (us @ vs) \<Longrightarrow> cq_ents m' y = cq_ents m y" and "\<And>cq'. cq' \<noteq> cq \<Longrightarrow> cq_head m' cq' = cq_head m cq'"
proof -
  let ?n = "q_next (cq_ents m e)"
  let ?m = "m\<lparr>cq_ents := remqueue e (cq_ents m)\<rparr>"
  have n: "?n = hd (vs @ us @ [e])" by (rule circle_next [OF c])
  note d = circle_distinct [OF c]
  have un: "set_prev ?n (q_prev (cq_ents m e)) (set_next (q_prev (cq_ents m e)) ?n (cq_ents m)) = remqueue e (cq_ents m)"
    by (rule entry_eqI) (simp_all add: remqueue_def Let_def)
  consider "us = []" "vs = []" | v ws where "us = []" "vs = v # ws" | u us' where "us = u # us'"
    by (cases us; cases vs) auto
  then show ?thesis
  proof cases
    case 1
    with c n show ?thesis
      by (intro that [of "set_head cq 0 m"]) (auto simp: circle_dequeue_def circle_at_def)
  next
    case 2
    with c have l: "linked (cq_ents m) v (ws @ e # [])" "cq_head m cq = e" by (simp_all add: circle_at_def linked_rotate)
    from 2 n d have "circle_dequeue cq e m = Some (set_head cq v ?m)"
      by (auto simp: circle_dequeue_def Let_def un l(2))
    with 2 d linked_remqueue [OF l(1)] remqueue_frame [OF l(1)] show ?thesis
      by (intro that [of "set_head cq v ?m"]) (auto simp: circle_at_def)
  next
    case 3
    with c have l: "linked (cq_ents m) u (us' @ e # vs)" "cq_head m cq = u" by (simp_all add: circle_at_def)
    have "?n \<noteq> e" "u \<noteq> e" using 3 n d by (cases vs; auto)+
    with 3 have "circle_dequeue cq e m = Some ?m"
      by (auto simp: circle_dequeue_def Let_def un l(2))
    with 3 d l(2) linked_remqueue [OF l(1)] remqueue_frame [OF l(1)] show ?thesis
      by (intro that [of ?m]) (auto simp: circle_at_def)
  qed
qed

lemma circle_cut_apart:
  assumes c: "circle_at m cq xs" and o: "cq' \<noteq> cq" "circle_at m cq' zs" "set zs \<inter> set xs = {}"
    and xs: "xs = us @ d # vs"
  shows "\<exists>m'. circle_dequeue cq d m = Some m' \<and> circle_at m' cq (us @ vs) \<and> circle_at m' cq' zs"
proof -
  from circle_cut [OF c [unfolded xs]] obtain m' where
    m': "circle_dequeue cq d m = Some m'" "circle_at m' cq (us @ vs)"
      "\<And>y. y \<notin> set (us @ vs) \<Longrightarrow> cq_ents m' y = cq_ents m y" "\<And>cq'. cq' \<noteq> cq \<Longrightarrow> cq_head m' cq' = cq_head m cq'"
    by blast
  have "y \<notin> set (us @ vs)" if "y \<in> set zs" for y using o(3) xs that by auto
  from circle_frame [OF o(2) m'(4) [OF o(1)] m'(3) [OF this]] m' show ?thesis by blast
qed

lemma circle_pops:
  assumes c: "circle_at m cq xs" and o: "cq' \<noteq> cq" "circle_at m cq' zs" "set zs \<inter> set xs = {}"
  shows "case xs of [] \<Rightarrow> circle_dequeue_head cq m = Some (0, m) \<and> circle_dequeue_tail cq m = Some (0, m)
     | x # ys \<Rightarrow> (\<exists>m'. circle_dequeue_head cq m = Some (x, m') \<and> circle_at m' cq ys \<and> circle_at m' cq' zs) \<and>
         (\<exists>m'. circle_dequeue_tail cq m = Some (last xs, m') \<and> circle_at m' cq (butlast xs) \<and> circle_at m' cq' zs)"
proof (cases xs)
  case Nil
  with circle_first [OF c] circle_last [OF c] show ?thesis
    by (simp add: circle_dequeue_head_def circle_dequeue_tail_def)
next
  case (Cons x ys)
  have "x \<noteq> 0" "last xs \<noteq> 0" using circle_distinct [OF c] Cons last_in_set [of xs] by auto
  moreover have "\<exists>m'. circle_dequeue cq x m = Some m' \<and> circle_at m' cq ys \<and> circle_at m' cq' zs"
    using circle_cut_apart [OF c o, of "[]" x ys] Cons by simp
  moreover have "xs = butlast xs @ [last xs]" using Cons by simp
  from circle_cut_apart [OF c o this]
  have "\<exists>m'. circle_dequeue cq (last xs) m = Some m' \<and> circle_at m' cq (butlast xs) \<and> circle_at m' cq' zs" by simp
  moreover have "circle_queue_first cq m = x" "circle_queue_last cq m = last xs"
    using Cons circle_first [OF c] circle_last [OF c] by simp_all
  ultimately show ?thesis
    unfolding circle_dequeue_head_def circle_dequeue_tail_def Let_def Cons list.case by auto
qed

text \<open>
  C31. The operations of a circle queue on the sequence of its members: entering at either end,
  removing at either end (null when empty), removing any member, and turning the ring one step
  in either direction. The assertion inside the removal never fails, and another
  circle queue that shares no entry is left as it was.
\<close>

theorem circle_queue_edits:
  assumes c: "circle_at m cq xs" and e: "e \<noteq> 0" "e \<notin> set xs"
    and o: "cq' \<noteq> cq" "circle_at m cq' zs" "set zs \<inter> set (e # xs) = {}"
  shows "circle_at (circle_queue_init cq m) cq [] \<and>
    circle_at (circle_enqueue_tail cq e m) cq (xs @ [e]) \<and> circle_at (circle_enqueue_tail cq e m) cq' zs \<and>
    circle_at (circle_enqueue_head cq e m) cq (e # xs) \<and> circle_at (circle_enqueue_head cq e m) cq' zs \<and>
    (case xs of [] \<Rightarrow> circle_dequeue_head cq m = Some (0, m) \<and> circle_dequeue_tail cq m = Some (0, m)
     | x # ys \<Rightarrow> (\<exists>m'. circle_dequeue_head cq m = Some (x, m') \<and> circle_at m' cq ys \<and> circle_at m' cq' zs) \<and>
         (\<exists>m'. circle_dequeue_tail cq m = Some (last xs, m') \<and> circle_at m' cq (butlast xs) \<and> circle_at m' cq' zs)) \<and>
    (\<forall>us d vs. xs = us @ d # vs \<longrightarrow>
       (\<exists>m'. circle_dequeue cq d m = Some m' \<and> circle_at m' cq (us @ vs) \<and> circle_at m' cq' zs)) \<and>
    circle_at (circle_queue_rotate_head_forward cq m) cq (rotate1 xs) \<and>
    circle_at (circle_queue_rotate_head_backward cq m) cq (if xs = [] then [] else last xs # butlast xs)"
proof -
  note tail = circle_tail [OF c e]
  have out: "y \<notin> set (e # xs)" if "y \<in> set zs" for y using o(3) that by blast
  then have ox: "set zs \<inter> set xs = {}" by auto
  have tz: "circle_at (circle_enqueue_tail cq e m) cq' zs"
    by (rule circle_frame [OF o(2) tail(3) [OF o(1)] tail(2) [OF out]])
  have hz: "circle_at (circle_enqueue_head cq e m) cq' zs"
    by (rule circle_frame [OF tz]) (use o in \<open>simp_all add: circle_enqueue_head_def Let_def\<close>)
  have "circle_at (circle_queue_rotate_head_backward cq m) cq (if xs = [] then [] else last xs # butlast xs)"
  proof (cases "xs = []")
    case True
    with c circle_last [OF c] show ?thesis by (simp add: circle_queue_rotate_head_backward_def)
  next
    case False
    with circle_rotate(2) [OF c, of "butlast xs" "last xs"] show ?thesis by simp
  qed
  moreover have "circle_at (circle_queue_init cq m) cq []" by (simp add: circle_queue_init_def circle_at_def)
  moreover have "circle_at (circle_enqueue_head cq e m) cq (e # xs)"
    using circle_rotate(3) [OF tail(1) refl] by (simp add: circle_enqueue_head_def)
  ultimately show ?thesis
    using tail(1) tz hz circle_pops [OF c o(1,2) ox] circle_cut_apart [OF c o(1,2) ox] circle_rotate(1) [OF c] by blast
qed

text \<open>Two rings, of the entries 2 and 3 and of the entry 4, with heads at 100 and 200.\<close>

definition circle_ex :: cmem where
  "circle_ex = circle_enqueue_tail 200 4 (circle_enqueue_tail 100 3 (circle_enqueue_tail 100 2
     \<lparr>cq_head = (\<lambda>_. 0), cq_ents = (\<lambda>_. \<lparr>q_next = 0, q_prev = 0\<rparr>)\<rparr>))"

lemma circle_ex_at: "circle_at circle_ex 100 [2, 3]" "circle_at circle_ex 200 [4]"
  by (simp_all add: circle_ex_def circle_at_def circle_enqueue_tail_def circle_queue_first_def circle_queue_last_def
      linked_def ring_def Let_def)

theorem circle_queue_edits_witness:
  "circle_at (circle_enqueue_head 100 7 circle_ex) 100 [7, 2, 3] \<and>
   (\<exists>m'. circle_dequeue_tail 100 circle_ex = Some (3, m') \<and> circle_at m' 100 [2] \<and> circle_at m' 200 [4]) \<and>
   circle_at (circle_queue_rotate_head_backward 100 circle_ex) 100 [3, 2]"
  using circle_queue_edits [OF circle_ex_at(1) _ _ _ circle_ex_at(2), of 7] by simp

section \<open>Loops over a circle\<close>

lemma circle_walk:
  assumes "circle_at m cq (us @ xs)"
  shows "for_collect (\<lambda>qe. qe \<noteq> 0) (\<lambda>qe. circle_queue_next cq qe m) (case xs of [] \<Rightarrow> 0 | x # _ \<Rightarrow> x) = Some xs"
  using assms
proof (induction xs arbitrary: us)
  case (Cons x xs)
  have "x \<noteq> 0" using circle_distinct [OF Cons.prems] by simp
  with Cons.IH [of "us @ [x]"] Cons.prems circle_next(2) [OF Cons.prems] show ?case
    by (subst for_collect.simps) simp
qed (simp add: for_collect.simps)

lemma fold_count: "fold (\<lambda>_ n. n + 1) xs n = n + of_nat (length xs)" for n :: u64
  by (induction xs arbitrary: n) (simp_all add: ac_simps)

text \<open>A loop body that removes the entries of some of the elements.\<close>

definition circle_drop_if :: "u64 \<Rightarrow> u64 \<Rightarrow> (u64 \<Rightarrow> bool) \<Rightarrow> u64 \<Rightarrow> cmem \<Rightarrow> cmem" where
  "circle_drop_if off cq P elt m =
     (if P elt then case circle_dequeue cq (elt + off) m of None \<Rightarrow> m | Some m' \<Rightarrow> m' else m)"

lemma circle_safe_walk:
  assumes "circle_at m cq (ks @ xs)"
  shows "\<exists>m'. for_state (\<lambda>qe. qe \<noteq> 0)
      (\<lambda>qe m. let elt = cqe_element off qe; ne = circle_queue_next cq qe m; m = circle_drop_if off cq P elt m in (ne, m))
      (case xs of [] \<Rightarrow> 0 | x # _ \<Rightarrow> x) m = Some (xs, m') \<and>
    circle_at m' cq (ks @ filter (\<lambda>x. \<not> P (cqe_element off x)) xs)"
  using assms
proof (induction xs arbitrary: ks m)
  case Nil
  then show ?case by (simp add: for_state.simps)
next
  case (Cons x xs)
  let ?m = "circle_drop_if off cq P (cqe_element off x) m" and ?ks = "if P (cqe_element off x) then ks else ks @ [x]"
  obtain m1 where "circle_dequeue cq x m = Some m1" "circle_at m1 cq (ks @ xs)"
    using circle_cut [OF Cons.prems] by blast
  with Cons.prems have "circle_at ?m cq (?ks @ xs)" by (simp add: circle_drop_if_def cqe_element_def)
  from Cons.IH [OF this] obtain m' where
    r: "for_state (\<lambda>qe. qe \<noteq> 0)
        (\<lambda>qe m. let elt = cqe_element off qe; ne = circle_queue_next cq qe m; m = circle_drop_if off cq P elt m in (ne, m))
        (case xs of [] \<Rightarrow> 0 | x # _ \<Rightarrow> x) ?m = Some (xs, m')"
      "circle_at m' cq (?ks @ filter (\<lambda>x. \<not> P (cqe_element off x)) xs)" by blast
  have "x \<noteq> 0" using circle_distinct [OF Cons.prems] by simp
  with r circle_next(2) [OF Cons.prems] show ?case
    by (subst for_state.simps) (simp add: Let_def split: if_splits)
qed

text \<open>
  C32. The loops over a circle end and visit every member exactly once, in order, from the first
  one: the plain loop over entries and over elements, the count of \<^verbatim>\<open>circle_queue_length\<close>, and the
  safe loops also when their body removes any selection of the members it visits, the first
  included, after which the ring has the others in order.
\<close>

theorem circle_queue_loops:
  assumes "circle_at m cq xs"
  shows "cqe_foreach cq m = Some xs \<and> cqe_foreach_element off cq m = Some (map (cqe_element off) xs) \<and>
    circle_queue_length cq m = Some (of_nat (length xs)) \<and> (circle_queue_empty cq m \<longleftrightarrow> xs = []) \<and>
    (\<exists>m'. cqe_foreach_element_safe off cq (circle_drop_if off cq P) m = Some (xs, m') \<and>
      circle_at m' cq (filter (\<lambda>x. \<not> P (cqe_element off x)) xs)) \<and>
    (\<exists>m'. cqe_foreach_safe cq (circle_drop_if 0 cq P) m = Some (xs, m') \<and>
      circle_at m' cq (filter (\<lambda>x. \<not> P x) xs))"
proof -
  have f: "circle_queue_first cq m = (case xs of [] \<Rightarrow> 0 | x # _ \<Rightarrow> x)" by (rule circle_first [OF assms])
  have w: "for_collect (\<lambda>qe. qe \<noteq> 0) (\<lambda>qe. circle_queue_next cq qe m) (circle_queue_first cq m) = Some xs"
    using circle_walk [of m cq "[]" xs] assms f by simp
  have "circle_queue_empty cq m \<longleftrightarrow> xs = []"
    using f circle_distinct [OF assms] by (auto simp: circle_queue_empty_def circle_queue_first_def split: list.splits)
  moreover have "cqe_element 0 = (\<lambda>x. x)" by (simp add: fun_eq_iff cqe_element_def)
  ultimately show ?thesis
    using w f assms circle_safe_walk [of m cq "[]" xs off P] circle_safe_walk [of m cq "[]" xs 0 P]
    by (simp add: cqe_foreach_def cqe_foreach_element_def circle_queue_length_def fold_count
        cqe_foreach_element_safe_def cqe_foreach_safe_def Let_def)
qed

theorem circle_queue_loops_witness:
  "cqe_foreach 100 circle_ex = Some [2, 3] \<and> circle_queue_length 100 circle_ex = Some 2 \<and>
   (\<exists>m'. cqe_foreach_safe 100 (circle_drop_if 0 100 (\<lambda>x. x = 2)) circle_ex = Some ([2, 3], m') \<and> circle_at m' 100 [3])"
  using circle_queue_loops [OF circle_ex_at(1), of 0 "\<lambda>x. x = 2"] by simp

end
