(* ===== verification/PriorityQueue.thy ===== *)
theory PriorityQueue
  imports XePrelude "HOL-Library.Multiset" "HOL-Library.Monad_Syntax"
begin

text \<open>
  The priority queues of \<^verbatim>\<open>kern/priority_queue.h\<close>: pairing heaps on an explicit store of
  entries, with the child pointer packed into 56 bits beside an 8-bit key and the flags packed
  into the low bits of the root pointer. A null dereference and a failed assertion have no
  value. The function \<^verbatim>\<open>pqueue_pair_meld\<close> is declared in the header and implemented in the
  kernel: it is a parameter, with the header's description of it as the predicate \<open>melds\<close>. The
  theorems relate the operations to the set of entries in the queue and to the order of the
  comparator: the root is a largest entry, and each operation changes the set as it says.
\<close>

unbundle bit_operations_syntax

section \<open>Entries and the head\<close>

definition PRIORITY_QUEUE_KEY_NONE :: u8 where
  "PRIORITY_QUEUE_KEY_NONE = 0"

definition PRIORITY_QUEUE_BUILTIN_KEY :: u64 where
  "PRIORITY_QUEUE_BUILTIN_KEY = 0"

definition PRIORITY_QUEUE_GENERIC_KEY :: u64 where
  "PRIORITY_QUEUE_GENERIC_KEY = 1"

definition PRIORITY_QUEUE_MAX_HEAP :: u64 where
  "PRIORITY_QUEUE_MAX_HEAP = 0"

definition PRIORITY_QUEUE_MIN_HEAP :: u64 where
  "PRIORITY_QUEUE_MIN_HEAP = 2"

definition PRIORITY_QUEUE_BUILTIN_MAX_HEAP :: u64 where
  "PRIORITY_QUEUE_BUILTIN_MAX_HEAP = PRIORITY_QUEUE_MAX_HEAP OR PRIORITY_QUEUE_BUILTIN_KEY"

text \<open>Both bit-fields are of type \<^verbatim>\<open>long\<close>: reading one extends its sign.\<close>

record priority_queue_entry =
  pq_next :: u64
  pq_prev :: u64
  pq_key :: "8 word"
  pq_child :: "56 word"

type_synonym pmem = "u64 \<Rightarrow> priority_queue_entry"

definition pq_at :: "pmem \<Rightarrow> u64 \<Rightarrow> priority_queue_entry option" where
  "pq_at m p = (if p = 0 then None else Some (m p))"

definition pq_upd :: "u64 \<Rightarrow> (priority_queue_entry \<Rightarrow> priority_queue_entry) \<Rightarrow> pmem \<Rightarrow> pmem option" where
  "pq_upd p f m = (if p = 0 then None else Some (m(p := f (m p))))"

type_synonym pq_cmp = "pmem \<Rightarrow> u64 \<Rightarrow> u64 \<Rightarrow> int option"

definition priority_queue_element_builtin_key_compare :: pq_cmp where
  "priority_queue_element_builtin_key_compare m e1 e2 = do {
     a \<leftarrow> pq_at m e1;
     b \<leftarrow> pq_at m e2;
     Some (sint (pq_key b) - sint (pq_key a)) }"

text \<open>A comparator made of an expression over the two elements, which hold the entries at \<open>off\<close>.\<close>

definition priority_heap_make_comparator :: "u64 \<Rightarrow> (u64 \<Rightarrow> u64 \<Rightarrow> int) \<Rightarrow> pq_cmp" where
  "priority_heap_make_comparator off body = (\<lambda>m e1 e2. Some (body (e1 - off) (e2 - off)))"

definition PRIORITY_QUEUE_SCHED_PRI_MAX_HEAP_COMPARE :: pq_cmp where
  "PRIORITY_QUEUE_SCHED_PRI_MAX_HEAP_COMPARE m e1 e2 =
     map_option uminus (priority_queue_element_builtin_key_compare m e1 e2)"

definition PRIORITY_QUEUE_SCHED_PRI_MIN_HEAP_COMPARE :: pq_cmp where
  "PRIORITY_QUEUE_SCHED_PRI_MIN_HEAP_COMPARE m e1 e2 = priority_queue_element_builtin_key_compare m e1 e2"

definition pqueue_pack :: "u64 \<Rightarrow> 56 word" where
  "pqueue_pack p = ucast p"

definition pqueue_unpack :: "56 word \<Rightarrow> u64" where
  "pqueue_unpack c = scast c"

definition pqueue_entry_pack_child :: "u64 \<Rightarrow> u64 \<Rightarrow> pmem \<Rightarrow> pmem option" where
  "pqueue_entry_pack_child qe child_ptr m = pq_upd qe (\<lambda>e. e\<lparr>pq_child := pqueue_pack child_ptr\<rparr>) m"

definition pqueue_entry_unpack_child :: "u64 \<Rightarrow> pmem \<Rightarrow> u64 option" where
  "pqueue_entry_unpack_child qe m = do { e \<leftarrow> pq_at m qe; Some (pqueue_unpack (pq_child e)) }"

record priority_queue =
  pq_root_packed :: u64

definition PRIORITY_QUEUE_ROOT_FLAGS_MASK :: u64 where
  "PRIORITY_QUEUE_ROOT_FLAGS_MASK = 3"

definition PRIORITY_QUEUE_ROOT_POINTER_MASK :: u64 where
  "PRIORITY_QUEUE_ROOT_POINTER_MASK = NOT PRIORITY_QUEUE_ROOT_FLAGS_MASK"

definition pqe_element_fast :: "u64 \<Rightarrow> u64 \<Rightarrow> u64" where
  "pqe_element_fast off qe = qe - off"

definition pqe_element :: "u64 \<Rightarrow> u64 \<Rightarrow> u64" where
  "pqe_element off qe = (if qe \<noteq> 0 then pqe_element_fast off qe else 0)"

definition pqueue_has_generic_keys :: "priority_queue \<Rightarrow> bool" where
  "pqueue_has_generic_keys p \<longleftrightarrow> pq_root_packed p AND PRIORITY_QUEUE_GENERIC_KEY \<noteq> 0"

definition pqueue_has_builtin_keys :: "priority_queue \<Rightarrow> bool" where
  "pqueue_has_builtin_keys p \<longleftrightarrow> pq_root_packed p AND PRIORITY_QUEUE_GENERIC_KEY = 0"

definition pqueue_is_min_heap :: "priority_queue \<Rightarrow> bool" where
  "pqueue_is_min_heap p \<longleftrightarrow> pq_root_packed p AND PRIORITY_QUEUE_MIN_HEAP \<noteq> 0"

definition pqueue_is_max_heap :: "priority_queue \<Rightarrow> bool" where
  "pqueue_is_max_heap p \<longleftrightarrow> pq_root_packed p AND PRIORITY_QUEUE_MIN_HEAP = 0"

definition pqueue_pack_root :: "priority_queue \<Rightarrow> u64 \<Rightarrow> priority_queue" where
  "pqueue_pack_root q root_ptr =
     (let flags = pq_root_packed q AND PRIORITY_QUEUE_ROOT_FLAGS_MASK
      in q\<lparr>pq_root_packed := root_ptr OR flags\<rparr>)"

definition pqueue_unpack_root :: "priority_queue \<Rightarrow> u64" where
  "pqueue_unpack_root q = pq_root_packed q AND PRIORITY_QUEUE_ROOT_POINTER_MASK"

section \<open>Operations\<close>

definition pqueue_list_remove :: "u64 \<Rightarrow> pmem \<Rightarrow> pmem option" where
  "pqueue_list_remove elt m = do {
     e \<leftarrow> pq_at m elt;
     (if pq_prev e = 0 then None
      else do {
        c \<leftarrow> pqueue_entry_unpack_child (pq_prev e) m;
        m \<leftarrow> (if c = elt then pqueue_entry_pack_child (pq_prev e) (pq_next e) m
              else pq_upd (pq_prev e) (\<lambda>p. p\<lparr>pq_next := pq_next e\<rparr>) m);
        e \<leftarrow> pq_at m elt;
        (if pq_next e \<noteq> 0 then pq_upd (pq_next e) (\<lambda>n. n\<lparr>pq_prev := pq_prev e\<rparr>) m
         else Some m) }) }"

definition pqueue_merge :: "pq_cmp \<Rightarrow> u64 \<Rightarrow> u64 \<Rightarrow> pmem \<Rightarrow> (u64 \<times> pmem) option" where
  "pqueue_merge cmp_fn subtree_a subtree_b m =
     (if subtree_a = 0 then Some (subtree_b, m)
      else if subtree_b = 0 \<or> subtree_a = subtree_b then Some (subtree_a, m)
      else do {
        r \<leftarrow> cmp_fn m subtree_a subtree_b;
        let (parent, child) = (if r < 0 then (subtree_b, subtree_a) else (subtree_a, subtree_b));
        c \<leftarrow> pqueue_entry_unpack_child parent m;
        m \<leftarrow> pq_upd child (\<lambda>e. e\<lparr>pq_next := c\<rparr>) m;
        m \<leftarrow> pq_upd child (\<lambda>e. e\<lparr>pq_prev := parent\<rparr>) m;
        c \<leftarrow> pqueue_entry_unpack_child parent m;
        m \<leftarrow> (if c \<noteq> 0 then pq_upd c (\<lambda>e. e\<lparr>pq_prev := child\<rparr>) m else Some m);
        m \<leftarrow> pqueue_entry_pack_child parent child m;
        m \<leftarrow> pq_upd parent (\<lambda>e. e\<lparr>pq_next := 0\<rparr>) m;
        m \<leftarrow> pq_upd parent (\<lambda>e. e\<lparr>pq_prev := 0\<rparr>) m;
        Some (parent, m) })"

type_synonym pq_meld = "pq_cmp \<Rightarrow> u64 \<Rightarrow> pmem \<Rightarrow> (u64 \<times> pmem) option"

definition pqueue_update_key :: "priority_queue \<Rightarrow> u64 \<Rightarrow> u8 \<Rightarrow> pmem \<Rightarrow> pmem option" where
  "pqueue_update_key que elt new_key m =
     (if pqueue_has_builtin_keys que then pq_upd elt (\<lambda>e. e\<lparr>pq_key := new_key\<rparr>) m
      else if new_key = PRIORITY_QUEUE_KEY_NONE then Some m else None)"

definition pqueue_remove_root ::
  "pq_meld \<Rightarrow> pq_cmp \<Rightarrow> priority_queue \<Rightarrow> u64 \<Rightarrow> pmem \<Rightarrow> (u64 \<times> priority_queue \<times> pmem) option" where
  "pqueue_remove_root pair_meld cmp_fn que old_root m = do {
     new_root \<leftarrow> pqueue_entry_unpack_child old_root m;
     (new_root, m) \<leftarrow> (if new_root \<noteq> 0 then pair_meld cmp_fn new_root m else Some (new_root, m));
     Some (old_root, pqueue_pack_root que new_root, m) }"

definition pqueue_remove_non_root ::
  "pq_meld \<Rightarrow> pq_cmp \<Rightarrow> priority_queue \<Rightarrow> u64 \<Rightarrow> pmem \<Rightarrow> (u64 \<times> priority_queue \<times> pmem) option" where
  "pqueue_remove_non_root pair_meld cmp_fn que elt m = do {
     m \<leftarrow> pqueue_list_remove elt m;
     child \<leftarrow> pqueue_entry_unpack_child elt m;
     (if child \<noteq> 0 then do {
        (child, m) \<leftarrow> pair_meld cmp_fn child m;
        (new_root, m) \<leftarrow> pqueue_merge cmp_fn (pqueue_unpack_root que) child m;
        Some (elt, pqueue_pack_root que new_root, m) }
      else Some (elt, que, m)) }"

definition priority_queue_empty :: "priority_queue \<Rightarrow> bool" where
  "priority_queue_empty q \<longleftrightarrow> pqueue_unpack_root q = 0"

definition priority_queue_entry_key :: "priority_queue \<Rightarrow> u64 \<Rightarrow> pmem \<Rightarrow> u8 option" where
  "priority_queue_entry_key q elt m =
     (if pqueue_has_builtin_keys q then do { e \<leftarrow> pq_at m elt; Some (pq_key e) } else None)"

definition priority_queue_init :: "u64 \<Rightarrow> priority_queue \<Rightarrow> priority_queue" where
  "priority_queue_init flags q = (pqueue_pack_root q 0)\<lparr>pq_root_packed := flags\<rparr>"

definition priority_queue_entry_init :: "u64 \<Rightarrow> pmem \<Rightarrow> pmem option" where
  "priority_queue_entry_init qe m = do {
     m \<leftarrow> pq_upd qe (\<lambda>e. e\<lparr>pq_next := 0\<rparr>) m;
     m \<leftarrow> pq_upd qe (\<lambda>e. e\<lparr>pq_prev := 0\<rparr>) m;
     m \<leftarrow> pqueue_entry_pack_child qe 0 m;
     pq_upd qe (\<lambda>e. e\<lparr>pq_key := PRIORITY_QUEUE_KEY_NONE\<rparr>) m }"

definition priority_queue_insert ::
  "pq_cmp \<Rightarrow> priority_queue \<Rightarrow> u64 \<Rightarrow> u8 \<Rightarrow> pmem \<Rightarrow> (bool \<times> priority_queue \<times> pmem) option" where
  "priority_queue_insert cmp_fn que elt new_key m = do {
     m \<leftarrow> pqueue_update_key que elt new_key m;
     (new_root, m) \<leftarrow> pqueue_merge cmp_fn (pqueue_unpack_root que) elt m;
     Some (new_root = elt, pqueue_pack_root que new_root, m) }"

definition priority_queue_remove ::
  "pq_meld \<Rightarrow> pq_cmp \<Rightarrow> priority_queue \<Rightarrow> u64 \<Rightarrow> pmem \<Rightarrow> (bool \<times> priority_queue \<times> pmem) option" where
  "priority_queue_remove pair_meld cmp_fn que elt m =
     (if elt = pqueue_unpack_root que then do {
        (_, que, m) \<leftarrow> pqueue_remove_root pair_meld cmp_fn que elt m;
        m \<leftarrow> priority_queue_entry_init elt m;
        Some (True, que, m) }
      else do {
        (_, que, m) \<leftarrow> pqueue_remove_non_root pair_meld cmp_fn que elt m;
        m \<leftarrow> priority_queue_entry_init elt m;
        Some (False, que, m) })"

definition priority_queue_entry_decrease ::
  "pq_meld \<Rightarrow> pq_cmp \<Rightarrow> priority_queue \<Rightarrow> u64 \<Rightarrow> u8 \<Rightarrow> pmem \<Rightarrow> (bool \<times> priority_queue \<times> pmem) option" where
  "priority_queue_entry_decrease pair_meld cmp_fn que elt new_key m = do {
     (was_root, que, m) \<leftarrow> priority_queue_remove pair_meld cmp_fn que elt m;
     (_, que, m) \<leftarrow> priority_queue_insert cmp_fn que elt new_key m;
     Some (was_root, que, m) }"

definition priority_queue_entry_increase ::
  "pq_cmp \<Rightarrow> priority_queue \<Rightarrow> u64 \<Rightarrow> u8 \<Rightarrow> pmem \<Rightarrow> (bool \<times> priority_queue \<times> pmem) option" where
  "priority_queue_entry_increase cmp_fn que elt new_key m =
     (if elt = pqueue_unpack_root que then do {
        m \<leftarrow> pqueue_update_key que elt new_key m;
        Some (True, que, m) }
      else do {
        m \<leftarrow> pqueue_list_remove elt m;
        priority_queue_insert cmp_fn que elt new_key m })"

text \<open>Lookups: the element with its linkage at \<open>off\<close>, null for an empty queue.\<close>

definition priority_queue_max :: "u64 \<Rightarrow> priority_queue \<Rightarrow> u64 option" where
  "priority_queue_max off q =
     (if pqueue_is_max_heap q then Some (pqe_element off (pqueue_unpack_root q)) else None)"

definition priority_queue_min :: "u64 \<Rightarrow> priority_queue \<Rightarrow> u64 option" where
  "priority_queue_min off q =
     (if pqueue_is_min_heap q then Some (pqe_element off (pqueue_unpack_root q)) else None)"

definition priority_queue_max_key :: "priority_queue \<Rightarrow> pmem \<Rightarrow> u8 option" where
  "priority_queue_max_key q m =
     (if pqueue_is_max_heap q then priority_queue_entry_key q (pqueue_unpack_root q) m else None)"

definition priority_queue_remove_max ::
  "pq_meld \<Rightarrow> pq_cmp \<Rightarrow> u64 \<Rightarrow> priority_queue \<Rightarrow> pmem \<Rightarrow> (u64 \<times> priority_queue \<times> pmem) option" where
  "priority_queue_remove_max pair_meld cmp_fn off q m =
     (if pqueue_is_max_heap q then do {
        (r, q, m) \<leftarrow> pqueue_remove_root pair_meld cmp_fn q (pqueue_unpack_root q) m;
        Some (pqe_element off r, q, m) }
      else None)"

definition priority_queue_remove_min ::
  "pq_meld \<Rightarrow> pq_cmp \<Rightarrow> u64 \<Rightarrow> priority_queue \<Rightarrow> pmem \<Rightarrow> (u64 \<times> priority_queue \<times> pmem) option" where
  "priority_queue_remove_min pair_meld cmp_fn off q m =
     (if pqueue_is_min_heap q then do {
        (r, q, m) \<leftarrow> pqueue_remove_root pair_meld cmp_fn q (pqueue_unpack_root q) m;
        Some (pqe_element off r, q, m) }
      else None)"

section \<open>Packing\<close>

text \<open>Addresses of entries: aligned to words, and determined by their lower 56 bits as the header says.\<close>

definition kptr :: "u64 \<Rightarrow> bool" where
  "kptr p \<longleftrightarrow> p \<noteq> 0 \<and> p AND 3 = 0 \<and> pqueue_unpack (pqueue_pack p) = p"

lemma kptr_nonnull: "kptr p \<Longrightarrow> p \<noteq> 0"
  unfolding kptr_def by blast

lemma kptr_aligned: "kptr p \<Longrightarrow> p AND 3 = 0"
  unfolding kptr_def by blast

lemma not_kptr_0 [simp]: "\<not> kptr 0"
  by (simp add: kptr_def)

lemma unpack_pack [simp]: "kptr p \<Longrightarrow> pqueue_unpack (pqueue_pack p) = p" "pqueue_unpack (pqueue_pack 0) = 0"
  by (simp only: kptr_def) (simp add: pqueue_pack_def pqueue_unpack_def)

lemma packed_pack: "pq_root_packed (pqueue_pack_root q r) = r OR (pq_root_packed q AND 3)"
  by (simp add: pqueue_pack_root_def PRIORITY_QUEUE_ROOT_FLAGS_MASK_def Let_def)

lemma unpack_root_pack [simp]: "kptr r \<or> r = 0 \<Longrightarrow> pqueue_unpack_root (pqueue_pack_root q r) = r"
proof -
  assume "kptr r \<or> r = 0"
  then have r: "r AND 3 = 0" by (auto dest: kptr_aligned)
  have "r AND NOT 3 = (r AND NOT 3) OR (r AND 3)" using r by simp
  also have "\<dots> = r" by (simp only: bit.conj_disj_distrib [symmetric]) simp
  finally have *: "r AND NOT 3 = r" .
  have "(r OR (pq_root_packed q AND 3)) AND NOT 3 = (r AND NOT 3) OR (pq_root_packed q AND (3 AND NOT 3))"
    by (simp only: bit.conj_disj_distrib2 and.assoc)
  also have "\<dots> = r AND NOT 3" by (simp only: bit.conj_cancel_right) simp
  finally show ?thesis
    by (simp only: * pqueue_unpack_root_def packed_pack PRIORITY_QUEUE_ROOT_POINTER_MASK_def
        PRIORITY_QUEUE_ROOT_FLAGS_MASK_def)
qed

text \<open>The flags: the part of the head besides the root.\<close>

definition pq_flags :: "priority_queue \<Rightarrow> u64" where
  "pq_flags q = pq_root_packed q AND PRIORITY_QUEUE_ROOT_FLAGS_MASK"

lemma flags_pack [simp]: "kptr r \<or> r = 0 \<Longrightarrow> pq_flags (pqueue_pack_root q r) = pq_flags q"
proof -
  assume "kptr r \<or> r = 0"
  then have r: "r AND 3 = 0" by (auto dest: kptr_aligned)
  have "(r OR (pq_root_packed q AND 3)) AND 3 = (r AND 3) OR (pq_root_packed q AND 3)"
    by (simp only: bit.conj_disj_distrib2 and.assoc and.idem)
  then show ?thesis
    by (simp only: r pq_flags_def packed_pack PRIORITY_QUEUE_ROOT_FLAGS_MASK_def or.left_neutral)
qed

lemma flags_keys:
  "pq_flags q' = pq_flags q \<Longrightarrow> pqueue_has_builtin_keys q' = pqueue_has_builtin_keys q"
  "pq_flags q' = pq_flags q \<Longrightarrow> pqueue_is_max_heap q' = pqueue_is_max_heap q"
proof -
  have "x AND 1 = (x AND 3) AND 1" "x AND 2 = (x AND 3) AND 2" for x :: u64
    by (simp_all add: and.assoc)
  then show "pq_flags q' = pq_flags q \<Longrightarrow> pqueue_has_builtin_keys q' = pqueue_has_builtin_keys q"
    "pq_flags q' = pq_flags q \<Longrightarrow> pqueue_is_max_heap q' = pqueue_is_max_heap q"
    by (metis pq_flags_def pqueue_has_builtin_keys_def pqueue_is_max_heap_def PRIORITY_QUEUE_ROOT_FLAGS_MASK_def
        PRIORITY_QUEUE_GENERIC_KEY_def PRIORITY_QUEUE_MIN_HEAP_def)+
qed

section \<open>Heaps in the store\<close>

datatype ptree = PNode (pt_root: u64) (pt_kids: "ptree list")

fun fnodes :: "ptree list \<Rightarrow> u64 list" where
  "fnodes [] = []"
| "fnodes (PNode a cs # ts) = a # fnodes cs @ fnodes ts"

text \<open>
  A list of subtrees at one level: \<open>h\<close> points to the first, whose \<^verbatim>\<open>prev\<close> is \<open>pv\<close>, the parent or
  the sibling before.
\<close>

fun forest_at :: "pmem \<Rightarrow> u64 \<Rightarrow> u64 \<Rightarrow> ptree list \<Rightarrow> bool" where
  "forest_at m pv h [] \<longleftrightarrow> h = 0"
| "forest_at m pv h (PNode a cs # ts) \<longleftrightarrow> h = a \<and> kptr a \<and> pq_prev (m a) = pv \<and>
     forest_at m a (pqueue_unpack (pq_child (m a))) cs \<and> forest_at m a (pq_next (m a)) ts"

text \<open>A tree on its own: the siblings of its root do not matter.\<close>

fun tree_at :: "pmem \<Rightarrow> ptree \<Rightarrow> bool" where
  "tree_at m (PNode a cs) \<longleftrightarrow> kptr a \<and> forest_at m a (pqueue_unpack (pq_child (m a))) cs"

text \<open>Children rank no higher than their parent.\<close>

fun hordered :: "(u64 \<Rightarrow> int) \<Rightarrow> ptree list \<Rightarrow> bool" where
  "hordered r [] \<longleftrightarrow> True"
| "hordered r (PNode a cs # ts) \<longleftrightarrow> (\<forall>t \<in> set cs. r (pt_root t) \<le> r a) \<and> hordered r cs \<and> hordered r ts"

definition same_links :: "priority_queue_entry \<Rightarrow> priority_queue_entry \<Rightarrow> bool" where
  "same_links e e' \<longleftrightarrow> pq_next e' = pq_next e \<and> pq_prev e' = pq_prev e \<and> pq_child e' = pq_child e"

lemma same_links_refl [simp]: "same_links e e"
  by (simp add: same_links_def)

lemma forest_frame:
  "forest_at m pv h ts \<Longrightarrow> (\<And>p. p \<in> set (fnodes ts) \<Longrightarrow> same_links (m p) (m' p)) \<Longrightarrow> forest_at m' pv h ts"
proof (induction m pv h ts rule: forest_at.induct)
  case (2 m pv h a cs ts)
  from 2(4)[of a] have "same_links (m a) (m' a)" by simp
  with 2 show ?case by (auto simp: same_links_def)
qed simp

lemma tree_frame:
  "tree_at m t \<Longrightarrow> (\<And>p. p \<in> set (fnodes [t]) \<Longrightarrow> same_links (m p) (m' p)) \<Longrightarrow> tree_at m' t"
  by (cases t) (auto simp: same_links_def intro: forest_frame)

lemma forest_kptr: "forest_at m pv h ts \<Longrightarrow> x \<in> set (fnodes ts) \<Longrightarrow> kptr x"
  by (induction m pv h ts rule: forest_at.induct) auto

lemma forest_head: "forest_at m pv h ts \<Longrightarrow> h = (case ts of [] \<Rightarrow> 0 | t # _ \<Rightarrow> pt_root t)"
  by (cases "(m, pv, h, ts)" rule: forest_at.cases) auto

lemma forest_head_in: "forest_at m pv h ts \<Longrightarrow> h \<noteq> 0 \<Longrightarrow> h \<in> set (fnodes ts)"
  by (cases "(m, pv, h, ts)" rule: forest_at.cases) auto

lemma forest_null: "forest_at m pv h ts \<Longrightarrow> h = 0 \<longleftrightarrow> ts = []"
  by (cases "(m, pv, h, ts)" rule: forest_at.cases) (auto dest: kptr_nonnull)

lemma roots_in: "t \<in> set ts \<Longrightarrow> pt_root t \<in> set (fnodes ts)"
proof (induction ts)
  case (Cons t' ts) then show ?case by (cases t') auto
qed simp

lemma hordered_cong:
  "(\<And>p. p \<in> set (fnodes ts) \<Longrightarrow> r p = r' p) \<Longrightarrow> hordered r ts = hordered r' ts"
proof (induction r ts rule: hordered.induct)
  case (2 r a cs ts)
  then have "r (pt_root t) = r' (pt_root t)" if "t \<in> set cs" for t
    using roots_in [OF that] by simp
  with 2 show ?case by auto
qed simp

lemma hordered_max:
  "hordered r [t] \<Longrightarrow> x \<in> set (fnodes [t]) \<Longrightarrow> r x \<le> r (pt_root t)"
proof -
  have "hordered r ts \<Longrightarrow> (\<And>t. t \<in> set ts \<Longrightarrow> r (pt_root t) \<le> b) \<Longrightarrow> x \<in> set (fnodes ts) \<Longrightarrow> r x \<le> b" for ts b
  proof (induction r ts arbitrary: b rule: hordered.induct)
    case (2 r a cs ts)
    have a: "r a \<le> b" using 2(4)[of "PNode a cs"] by simp
    consider "x = a" | "x \<in> set (fnodes cs)" | "x \<in> set (fnodes ts)" using 2(5) by auto
    then show ?case
    proof cases
      case 2
      with "2.IH"(1)[of "r a"] "2.prems"(1) a show ?thesis by fastforce
    next
      case 3
      with "2.IH"(2)[of b] "2.prems" show ?thesis by auto
    qed (use a in simp)
  qed simp
  from this [of "[t]" "r (pt_root t)"] show "hordered r [t] \<Longrightarrow> x \<in> set (fnodes [t]) \<Longrightarrow> r x \<le> r (pt_root t)"
    by simp
qed

lemma forest_reprev:
  assumes "forest_at m pv h ts" and "distinct (fnodes ts)"
    and "\<And>p. p \<in> set (fnodes ts) \<Longrightarrow> p \<noteq> h \<Longrightarrow> same_links (m p) (m' p)"
    and "h \<noteq> 0 \<Longrightarrow> pq_prev (m' h) = pv' \<and> pq_next (m' h) = pq_next (m h) \<and> pq_child (m' h) = pq_child (m h)"
  shows "forest_at m' pv' h ts"
proof (cases ts)
  case (Cons t ts')
  then obtain a cs where t: "t = PNode a cs" by (cases t)
  with Cons assms(1) have f: "h = a" "kptr a" "forest_at m a (pqueue_unpack (pq_child (m a))) cs"
      "forest_at m a (pq_next (m a)) ts'" by auto
  from Cons t assms(2,3) f(1) have "same_links (m p) (m' p)" if "p \<in> set (fnodes cs) \<union> set (fnodes ts')" for p
    using that by auto
  with f(3,4) have "forest_at m' a (pqueue_unpack (pq_child (m a))) cs" "forest_at m' a (pq_next (m a)) ts'"
    by (auto elim!: forest_frame)
  with Cons t f assms(4) kptr_nonnull [OF f(2)] show ?thesis by simp
qed (use assms in simp)

section \<open>Linking and cutting\<close>

text \<open>What \<open>pqueue_merge\<close> does to the store once parent and child are chosen.\<close>

definition pq_link :: "u64 \<Rightarrow> u64 \<Rightarrow> pmem \<Rightarrow> pmem" where
  "pq_link p c m =
     (let k = pqueue_unpack (pq_child (m p));
          m1 = m(c := (m c)\<lparr>pq_next := k, pq_prev := p\<rparr>);
          m2 = (if k \<noteq> 0 then m1(k := (m1 k)\<lparr>pq_prev := c\<rparr>) else m1)
      in m2(p := (m2 p)\<lparr>pq_child := pqueue_pack c, pq_next := 0, pq_prev := 0\<rparr>))"

lemma link_tree:
  assumes p: "tree_at m (PNode p ps)" and c: "tree_at m (PNode c cs)"
    and d: "distinct (fnodes [PNode p ps, PNode c cs])"
  shows "tree_at (pq_link p c m) (PNode p (PNode c cs # ps))"
proof -
  let ?m = "pq_link p c m" and ?k = "pqueue_unpack (pq_child (m p))"
  from p have k: "?k = 0 \<or> ?k \<in> set (fnodes ps)" by (auto dest: forest_head_in)
  have eq: "?m x = m x" if "x \<noteq> p" "x \<noteq> c" "x \<noteq> ?k" for x
    using that by (simp add: pq_link_def Let_def)
  have "?m p = (m p)\<lparr>pq_child := pqueue_pack c, pq_next := 0, pq_prev := 0\<rparr>"
    using d k by (auto simp: pq_link_def Let_def)
  moreover have "?m c = (m c)\<lparr>pq_next := ?k, pq_prev := p\<rparr>"
    using d k by (auto simp: pq_link_def Let_def)
  moreover have "?m ?k = (m ?k)\<lparr>pq_prev := c\<rparr>" if "?k \<noteq> 0"
    using d k that by (auto simp: pq_link_def Let_def)
  moreover have "forest_at ?m c (pqueue_unpack (pq_child (m c))) cs"
  proof (rule forest_frame)
    show "forest_at m c (pqueue_unpack (pq_child (m c))) cs" using c by simp
    fix x assume "x \<in> set (fnodes cs)"
    with d k c have "x \<noteq> p" "x \<noteq> c" "x \<noteq> ?k" by (auto dest: forest_kptr)
    then show "same_links (m x) (?m x)" by (simp add: eq)
  qed
  moreover have "forest_at ?m c ?k ps"
  proof (rule forest_reprev)
    show "forest_at m p ?k ps" using p by simp
    fix x assume "x \<in> set (fnodes ps)" "x \<noteq> ?k"
    with d have "x \<noteq> p" "x \<noteq> c" by auto
    with \<open>x \<noteq> ?k\<close> show "same_links (m x) (?m x)" by (simp add: eq)
  qed (use d \<open>?k \<noteq> 0 \<Longrightarrow> _\<close> in auto)
  ultimately show ?thesis using p c by simp
qed

lemma link_frame: "x \<notin> set (fnodes [PNode p ps, PNode c cs]) \<Longrightarrow> tree_at m (PNode p ps) \<Longrightarrow> pq_link p c m x = m x"
  by (auto simp: pq_link_def Let_def dest: forest_head_in)

lemma link_key [simp]: "pq_key (pq_link p c m x) = pq_key (m x)"
  by (simp add: pq_link_def Let_def)

text \<open>What \<open>pqueue_list_remove\<close> does to the store.\<close>

definition pq_cut :: "u64 \<Rightarrow> pmem \<Rightarrow> pmem" where
  "pq_cut x m =
     (let p = pq_prev (m x); n = pq_next (m x);
          m1 = (if pqueue_unpack (pq_child (m p)) = x then m(p := (m p)\<lparr>pq_child := pqueue_pack n\<rparr>)
                else m(p := (m p)\<lparr>pq_next := n\<rparr>))
      in if n \<noteq> 0 then m1(n := (m1 n)\<lparr>pq_prev := p\<rparr>) else m1)"

text \<open>The same on trees: the forest without the subtree at \<open>x\<close>, and the children of \<open>x\<close>.\<close>

fun prune :: "u64 \<Rightarrow> ptree list \<Rightarrow> ptree list" where
  "prune x [] = []"
| "prune x (PNode a cs # ts) = (if a = x then ts else PNode a (prune x cs) # prune x ts)"

fun kids_of :: "u64 \<Rightarrow> ptree list \<Rightarrow> ptree list" where
  "kids_of x [] = []"
| "kids_of x (PNode a cs # ts) =
     (if a = x then cs else if x \<in> set (fnodes cs) then kids_of x cs else kids_of x ts)"

lemma prune_notin: "x \<notin> set (fnodes ts) \<Longrightarrow> prune x ts = ts"
  by (induction x ts rule: prune.induct) auto

lemma prune_nodes:
  "x \<in> set (fnodes ts) \<Longrightarrow> distinct (fnodes ts) \<Longrightarrow>
   mset (fnodes ts) = mset (fnodes (prune x ts)) + add_mset x (mset (fnodes (kids_of x ts)))"
proof (induction x ts rule: prune.induct)
  case (2 x a cs ts)
  consider "x = a" | "x \<noteq> a" "x \<in> set (fnodes cs)" | "x \<noteq> a" "x \<notin> set (fnodes cs)" "x \<in> set (fnodes ts)"
    using 2(3) by auto
  then show ?case
  proof cases
    case 2
    then have "x \<notin> set (fnodes ts)" using "2.prems" by auto
    with 2 "2.IH" "2.prems" show ?thesis by (auto simp: prune_notin)
  qed (use 2 in \<open>auto simp: prune_notin\<close>)
qed simp

lemma prune_roots: "pt_root ` set (prune x ts) \<subseteq> pt_root ` set ts"
  by (induction x ts rule: prune.induct) auto

lemma prune_hordered: "hordered r ts \<Longrightarrow> hordered r (prune x ts)"
proof (induction x ts rule: prune.induct)
  case (2 x a cs ts)
  have "r (pt_root t) \<le> r a" if "t \<in> set (prune x cs)" for t
    using prune_roots [of x cs] that 2(3) by fastforce
  with 2 show ?case by auto
qed simp

lemma kids_hordered: "hordered r ts \<Longrightarrow> x \<in> set (fnodes ts) \<Longrightarrow> hordered r [PNode x (kids_of x ts)]"
  by (induction x ts rule: kids_of.induct) auto

lemma kids_at:
  "forest_at m pv h ts \<Longrightarrow> x \<in> set (fnodes ts) \<Longrightarrow> forest_at m x (pqueue_unpack (pq_child (m x))) (kids_of x ts)"
  by (induction m pv h ts rule: forest_at.induct) auto

lemma neighbours:
  "forest_at m pv h ts \<Longrightarrow> x \<in> set (fnodes ts) \<Longrightarrow>
   (if x = h then pq_prev (m x) = pv else pq_prev (m x) \<in> set (fnodes ts)) \<and>
   (pq_next (m x) = 0 \<or> pq_next (m x) \<in> set (fnodes ts) \<and> kptr (pq_next (m x)))"
proof (induction m pv h ts rule: forest_at.induct)
  case (2 m pv h a cs ts)
  then have h: "h = a" "pq_prev (m a) = pv" "forest_at m a (pqueue_unpack (pq_child (m a))) cs"
      "forest_at m a (pq_next (m a)) ts" by auto
  consider "x = a" | "x \<noteq> a" "x \<in> set (fnodes cs)" | "x \<noteq> a" "x \<in> set (fnodes ts)" using 2(4) by auto
  then show ?case
  proof cases
    case 1
    with h show ?thesis by (auto dest: forest_head_in intro: forest_kptr)
  next
    case 2
    with "2.IH"(1)[OF h(3)] h show ?thesis by (auto split: if_splits)
  next
    case 3
    with "2.IH"(2)[OF h(4)] h show ?thesis by (auto split: if_splits)
  qed
qed simp

lemma cut_at:
  assumes "pq_prev (m x) = p" and "pq_next (m x) = n" and "p \<noteq> n"
  shows "y \<noteq> p \<Longrightarrow> y \<noteq> n \<or> n = 0 \<Longrightarrow> pq_cut x m y = m y"
    and "pqueue_unpack (pq_child (m p)) = x \<Longrightarrow> pq_cut x m p = (m p)\<lparr>pq_child := pqueue_pack n\<rparr>"
    and "pqueue_unpack (pq_child (m p)) \<noteq> x \<Longrightarrow> pq_cut x m p = (m p)\<lparr>pq_next := n\<rparr>"
    and "n \<noteq> 0 \<Longrightarrow> pq_cut x m n = (m n)\<lparr>pq_prev := p\<rparr>"
  using assms by (auto simp: pq_cut_def Let_def)

lemma cut_frame:
  assumes "forest_at m pv h ts" and "x \<in> set (fnodes ts)" and "y \<notin> set (pv # fnodes ts)"
  shows "pq_cut x m y = m y"
  using neighbours [OF assms(1,2)] assms(3) by (auto simp: pq_cut_def Let_def split: if_splits)

lemma cut_forest_frame:
  assumes "forest_at m pv h ts" and "x \<in> set (fnodes ts)" and "forest_at m pv' h' us"
    and "set (pv # fnodes ts) \<inter> set (fnodes us) = {}"
  shows "forest_at (pq_cut x m) pv' h' us"
proof (rule forest_frame [OF assms(3)])
  fix y assume "y \<in> set (fnodes us)"
  with assms(4) have "y \<notin> set (pv # fnodes ts)" by blast
  from cut_frame [OF assms(1,2) this] show "same_links (m y) (pq_cut x m y)" by simp
qed

lemma cut_key [simp]: "pq_key (pq_cut x m y) = pq_key (m y)"
  by (simp add: pq_cut_def Let_def)

text \<open>The neighbours of \<open>x\<close> differ, and are outside its subtree.\<close>

lemma neighbours_apart:
  "forest_at m pv h ts \<Longrightarrow> x \<in> set (fnodes ts) \<Longrightarrow> distinct (pv # fnodes ts) \<Longrightarrow> kptr pv \<Longrightarrow>
   pq_prev (m x) \<noteq> pq_next (m x) \<and> pq_prev (m x) \<notin> set (x # fnodes (kids_of x ts)) \<and>
   pq_next (m x) \<notin> set (x # fnodes (kids_of x ts))"
proof (induction m pv h ts rule: forest_at.induct)
  case (2 m pv h a cs ts)
  then have h: "h = a" "kptr a" "pq_prev (m a) = pv" "forest_at m a (pqueue_unpack (pq_child (m a))) cs"
      "forest_at m a (pq_next (m a)) ts" by auto
  consider "x = a" | "x \<noteq> a" "x \<in> set (fnodes cs)" | "x \<noteq> a" "x \<notin> set (fnodes cs)" "x \<in> set (fnodes ts)"
    using 2(4) by auto
  then show ?case
  proof cases
    case 1
    have "pq_next (m a) = 0 \<or> pq_next (m a) \<in> set (fnodes ts)" using forest_head_in [OF h(5)] by auto
    with 1 "2.prems"(3) h kptr_nonnull [OF "2.prems"(4)] kptr_nonnull [OF h(2)] forest_kptr [OF h(4), of 0]
    show ?thesis by auto
  next
    case 2
    with "2.IH"(1)[OF h(4)] "2.prems"(3) h(2) show ?thesis by auto
  next
    case 3
    with "2.IH"(2)[OF h(5)] "2.prems"(3) h(2) show ?thesis by auto
  qed
qed simp

text \<open>The case that \<open>x\<close> is the first at its level.\<close>

lemma cut_first:
  assumes f: "forest_at m pv x (PNode x cs # ts)" and d: "distinct (pv # fnodes (PNode x cs # ts))" "kptr pv"
  shows "forest_at (pq_cut x m) pv (pq_next (m x)) ts"
proof (rule forest_reprev)
  from f have x: "pq_prev (m x) = pv" by auto
  have "pv \<noteq> pq_next (m x)" using neighbours_apart [OF f, of x] d x by auto
  note at = cut_at [of m x, OF x refl this]
  show "forest_at m x (pq_next (m x)) ts" "distinct (fnodes ts)" using f d by auto
  show "same_links (m y) (pq_cut x m y)" if "y \<in> set (fnodes ts)" "y \<noteq> pq_next (m x)" for y
  proof -
    have "y \<noteq> pv" using that d(1) by auto
    with that at(1)[of y] show ?thesis by simp
  qed
  show "pq_prev (pq_cut x m (pq_next (m x))) = pv \<and> pq_next (pq_cut x m (pq_next (m x))) = pq_next (m (pq_next (m x))) \<and>
    pq_child (pq_cut x m (pq_next (m x))) = pq_child (m (pq_next (m x)))" if "pq_next (m x) \<noteq> 0"
    using at(4) [OF that] by simp
qed

text \<open>The pointers of the entry \<open>a\<close> that leads to the level of \<open>x\<close>, after the cut.\<close>

lemma cut_leader:
  assumes f: "forest_at m a h ts" and x: "x \<in> set (fnodes ts)" and d: "distinct (a # fnodes ts)" and a: "kptr a"
  shows "x = h \<Longrightarrow> pqueue_unpack (pq_child (m a)) = x \<Longrightarrow> pq_cut x m a = (m a)\<lparr>pq_child := pqueue_pack (pq_next (m x))\<rparr>"
    and "x = h \<Longrightarrow> pqueue_unpack (pq_child (m a)) \<noteq> x \<Longrightarrow> pq_cut x m a = (m a)\<lparr>pq_next := pq_next (m x)\<rparr>"
    and "x \<noteq> h \<Longrightarrow> pq_cut x m a = m a"
    and "pqueue_unpack (pqueue_pack (pq_next (m x))) = pq_next (m x)"
proof -
  note nb = neighbours [OF f x] and ne = neighbours_apart [OF f x d a]
  note at = cut_at [of m x, OF refl refl conjunct1 [OF ne]]
  show "x = h \<Longrightarrow> pqueue_unpack (pq_child (m a)) = x \<Longrightarrow> pq_cut x m a = (m a)\<lparr>pq_child := pqueue_pack (pq_next (m x))\<rparr>"
    and "x = h \<Longrightarrow> pqueue_unpack (pq_child (m a)) \<noteq> x \<Longrightarrow> pq_cut x m a = (m a)\<lparr>pq_next := pq_next (m x)\<rparr>"
    using at(2,3) nb by auto
  show "x \<noteq> h \<Longrightarrow> pq_cut x m a = m a"
    using at(1)[of a] nb d kptr_nonnull [OF a] by auto
  show "pqueue_unpack (pqueue_pack (pq_next (m x))) = pq_next (m x)"
    using nb by auto
qed

lemma cut_forest:
  "forest_at m pv h ts \<Longrightarrow> x \<in> set (fnodes ts) \<Longrightarrow> distinct (pv # fnodes ts) \<Longrightarrow> kptr pv \<Longrightarrow>
   forest_at (pq_cut x m) pv (if h = x then pq_next (m x) else h) (prune x ts)"
proof (induction m pv h ts rule: forest_at.induct)
  case (2 m pv h a cs ts)
  then have h: "h = a" "kptr a" "pq_prev (m a) = pv" "forest_at m a (pqueue_unpack (pq_child (m a))) cs"
      "forest_at m a (pq_next (m a)) ts" by auto
  let ?m = "pq_cut x m" and ?c = "pqueue_unpack (pq_child (m a))"
  consider "x = a" | "x \<noteq> a" "x \<in> set (fnodes cs)" | "x \<noteq> a" "x \<in> set (fnodes ts)" using 2(4) by auto
  then show ?case
  proof cases
    case 1
    with 2 h cut_first [of m pv a cs ts] show ?thesis by simp
  next
    case 2
    have d: "distinct (a # fnodes cs)" using "2.prems"(3) by auto
    have "forest_at ?m a (if ?c = x then pq_next (m x) else ?c) (prune x cs)"
      using "2.IH"(1)[OF h(4) 2(2) d h(2)] .
    moreover have "forest_at ?m a (pq_next (m a)) ts"
      by (rule cut_forest_frame [OF h(4) 2(2) h(5)]) (use "2.prems"(3) in auto)
    moreover have "pqueue_unpack (pq_child (?m a)) = (if ?c = x then pq_next (m x) else ?c)"
        "pq_next (?m a) = pq_next (m a)" "pq_prev (?m a) = pv"
      using cut_leader(1,3,4) [OF h(4) 2(2) d h(2)] h(3) by (cases "?c = x"; simp)+
    moreover have "prune x ts = ts" using "2.prems"(3) 2(2) by (auto intro: prune_notin)
    ultimately show ?thesis using 2(1) h(1,2) by simp
  next
    case 3
    have d: "distinct (a # fnodes ts)" using "2.prems"(3) by auto
    have c: "x \<noteq> ?c" using forest_head_in [OF h(4)] 3 "2.prems"(3) forest_kptr [OF h(5) 3(2)]
      by (auto dest: kptr_nonnull)
    have "forest_at ?m a (if pq_next (m a) = x then pq_next (m x) else pq_next (m a)) (prune x ts)"
      using "2.IH"(2)[OF h(5) 3(2) d h(2)] .
    moreover have "forest_at ?m a ?c cs"
      by (rule cut_forest_frame [OF h(5) 3(2) h(4)]) (use "2.prems"(3) in auto)
    moreover have "pq_next (?m a) = (if pq_next (m a) = x then pq_next (m x) else pq_next (m a))"
        "pq_child (?m a) = pq_child (m a)" "pq_prev (?m a) = pv"
      using cut_leader(2,3) [OF h(5) 3(2) d h(2)] c h(3) by (cases "pq_next (m a) = x"; simp)+
    moreover have "prune x cs = cs" using "2.prems"(3) 3(2) by (auto intro: prune_notin)
    ultimately show ?thesis using 3(1) h(1,2) by simp
  qed
qed simp

text \<open>The subtree at \<open>x\<close> is not touched by the cut, and the rest of the heap is a heap again.\<close>

lemma cut_tree:
  assumes t: "tree_at m (PNode a cs)" and x: "x \<in> set (fnodes cs)" and d: "distinct (fnodes [PNode a cs])"
  shows "tree_at (pq_cut x m) (PNode a (prune x cs))" and "tree_at (pq_cut x m) (PNode x (kids_of x cs))"
    and "pqueue_list_remove x m = Some (pq_cut x m)"
proof -
  let ?m = "pq_cut x m" and ?c = "pqueue_unpack (pq_child (m a))"
  from t have a: "kptr a" and f: "forest_at m a ?c cs" by auto
  have da: "distinct (a # fnodes cs)" using d by simp
  note ld = cut_leader [OF f x da a] and nb = neighbours [OF f x] and ne = neighbours_apart [OF f x da a]
  note at = cut_at [of m x, OF refl refl conjunct1 [OF ne]]
  have "pqueue_unpack (pq_child (?m a)) = (if ?c = x then pq_next (m x) else ?c)"
    using ld(1,3,4) by (cases "?c = x"; simp)
  with cut_forest [OF f x da a] a show "tree_at ?m (PNode a (prune x cs))" by simp
  have kx: "kptr x" by (rule forest_kptr [OF f x])
  have fk: "forest_at m x (pqueue_unpack (pq_child (m x))) (kids_of x cs)" by (rule kids_at [OF f x])
  have same: "?m y = m y" if "y \<in> set (x # fnodes (kids_of x cs))" for y
    using ne that by (intro at(1)) auto
  have "forest_at ?m x (pqueue_unpack (pq_child (m x))) (kids_of x cs)"
    by (rule forest_frame [OF fk]) (simp add: same)
  then show "tree_at ?m (PNode x (kids_of x cs))" using kx same [of x] by simp
  have "pq_prev (m x) \<noteq> 0"
    using nb kptr_nonnull [OF a] forest_kptr [OF f, of 0] by (cases "x = ?c") auto
  moreover have "pq_prev (m x) \<noteq> x" using ne by simp
  ultimately show "pqueue_list_remove x m = Some ?m"
    by (simp add: pqueue_list_remove_def pq_at_def pq_upd_def pqueue_entry_unpack_child_def pq_cut_def
        pqueue_entry_pack_child_def Let_def kptr_nonnull [OF kx])
qed

section \<open>Queues as sets ordered by the comparator\<close>

text \<open>
  The rank of an entry is a function of its address and its key: of the key for the two
  comparators of the header, of the element around the entry for a comparator the client makes.
\<close>

definition rank :: "(u64 \<Rightarrow> 8 word \<Rightarrow> int) \<Rightarrow> pmem \<Rightarrow> u64 \<Rightarrow> int" where
  "rank f m p = f p (pq_key (m p))"

definition heap_at :: "(u64 \<Rightarrow> 8 word \<Rightarrow> int) \<Rightarrow> pmem \<Rightarrow> ptree \<Rightarrow> u64 set \<Rightarrow> bool" where
  "heap_at f m t S \<longleftrightarrow> tree_at m t \<and> distinct (fnodes [t]) \<and> set (fnodes [t]) = S \<and> hordered (rank f m) [t]"

definition pq_holds :: "(u64 \<Rightarrow> 8 word \<Rightarrow> int) \<Rightarrow> priority_queue \<Rightarrow> pmem \<Rightarrow> u64 set \<Rightarrow> bool" where
  "pq_holds f q m S \<longleftrightarrow>
     (if S = {} then pqueue_unpack_root q = 0 else \<exists>t. heap_at f m t S \<and> pt_root t = pqueue_unpack_root q)"

text \<open>An operation that only changes links, and only of the entries in \<open>S\<close>.\<close>

definition relinks :: "u64 set \<Rightarrow> pmem \<Rightarrow> pmem \<Rightarrow> bool" where
  "relinks S m m' \<longleftrightarrow> (\<forall>p. pq_key (m' p) = pq_key (m p)) \<and> (\<forall>p. p \<notin> S \<longrightarrow> m' p = m p)"

text \<open>
  What the header says of \<^verbatim>\<open>pqueue_pair_meld\<close>: it combines the subtrees of a level into one tree
  with the parent rule kept, and returns its root.
\<close>

definition melds :: "pq_meld \<Rightarrow> pq_cmp \<Rightarrow> (u64 \<Rightarrow> 8 word \<Rightarrow> int) \<Rightarrow> bool" where
  "melds pair_meld cmp f \<longleftrightarrow> (\<forall>m pv h ts. ts \<noteq> [] \<longrightarrow> forest_at m pv h ts \<longrightarrow> distinct (fnodes ts) \<longrightarrow>
     hordered (rank f m) ts \<longrightarrow>
     (\<exists>m' t. pair_meld cmp h m = Some (pt_root t, m') \<and> heap_at f m' t (set (fnodes ts)) \<and>
       relinks (set (fnodes ts)) m m'))"

lemma relinks_refl [simp]: "relinks S m m"
  by (simp add: relinks_def)

lemma relinks_trans: "relinks S m m' \<Longrightarrow> relinks T m' m'' \<Longrightarrow> relinks (S \<union> T) m m''"
  by (simp add: relinks_def)

lemma relinks_mono: "relinks S m m' \<Longrightarrow> S \<subseteq> T \<Longrightarrow> relinks T m m'"
  by (auto simp: relinks_def)

lemma rank_relinks [simp]: "relinks S m m' \<Longrightarrow> rank f m' = rank f m"
  by (simp add: relinks_def rank_def fun_eq_iff)

lemma heap_at_frame:
  "heap_at f m t S \<Longrightarrow> (\<And>p. p \<in> S \<Longrightarrow> m' p = m p) \<Longrightarrow> heap_at f m' t S"
  unfolding heap_at_def
  using tree_frame [of m t m'] hordered_cong [of "[t]" "rank f m'" "rank f m"]
  by (auto simp: rank_def)

lemma pq_holds_frame: "pq_holds f q m S \<Longrightarrow> (\<And>p. p \<in> S \<Longrightarrow> m' p = m p) \<Longrightarrow> pq_holds f q m' S"
  unfolding pq_holds_def by (auto intro: heap_at_frame split: if_splits)

lemma heap_at_rank:
  "heap_at f m t S \<Longrightarrow> (\<And>p. p \<in> S \<Longrightarrow> f' p = f p) \<Longrightarrow> heap_at f' m t S"
  unfolding heap_at_def using hordered_cong [of "[t]" "rank f' m" "rank f m"] by (auto simp: rank_def)

lemma heap_at_root:
  assumes "heap_at f m t S"
  shows "pt_root t \<in> S" and "kptr (pt_root t)" and "S \<noteq> {}"
  using assms by (cases t; auto simp: heap_at_def)+

lemma heap_at_leaf: "heap_at f m (PNode x cs) S \<Longrightarrow> pqueue_unpack (pq_child (m x)) = 0 \<longleftrightarrow> cs = []"
  by (auto simp: heap_at_def dest: forest_null)

lemma heap_at_single: "kptr x \<Longrightarrow> pqueue_unpack (pq_child (m x)) = 0 \<Longrightarrow> heap_at f m (PNode x []) {x}"
  by (simp add: heap_at_def)

lemma pq_holds_kptr: "pq_holds f q m S \<Longrightarrow> x \<in> S \<Longrightarrow> kptr x"
proof -
  assume "pq_holds f q m S" "x \<in> S"
  then obtain t where "heap_at f m t S" by (auto simp: pq_holds_def split: if_splits)
  with \<open>x \<in> S\<close> show "kptr x" by (cases t) (auto simp: heap_at_def intro: forest_kptr)
qed

lemma pq_holds_pack: "heap_at f m t S \<Longrightarrow> pq_holds f (pqueue_pack_root q (pt_root t)) m S"
  using heap_at_root [of f m t S] by (auto simp: pq_holds_def)

text \<open>The root of a queue ranks highest.\<close>

lemma pq_holds_max:
  assumes "pq_holds f q m S" and "x \<in> S"
  shows "rank f m x \<le> rank f m (pqueue_unpack_root q)" and "pqueue_unpack_root q \<in> S"
proof -
  from assms obtain t where t: "heap_at f m t S" "pt_root t = pqueue_unpack_root q"
    by (auto simp: pq_holds_def split: if_splits)
  then show "pqueue_unpack_root q \<in> S" using heap_at_root(1) by metis
  from t assms(2) hordered_max [of "rank f m" t x] show "rank f m x \<le> rank f m (pqueue_unpack_root q)"
    by (auto simp: heap_at_def)
qed

definition pq_blank :: priority_queue_entry where
  "pq_blank = \<lparr>pq_next = 0, pq_prev = 0, pq_key = PRIORITY_QUEUE_KEY_NONE, pq_child = pqueue_pack 0\<rparr>"

lemma init_run: "x \<noteq> 0 \<Longrightarrow> priority_queue_entry_init x m = Some (m(x := pq_blank))"
  by (cases "m x") (simp add: priority_queue_entry_init_def pq_upd_def pqueue_entry_pack_child_def pq_blank_def)

text \<open>Raising the rank of a root keeps the order.\<close>

lemma raise_root:
  assumes h: "heap_at f0 m (PNode x cs) S" and f: "\<And>p. p \<noteq> x \<Longrightarrow> f p = f0 p"
    and m': "\<And>p. p \<noteq> x \<Longrightarrow> m' p = m p" "same_links (m x) (m' x)" and le: "rank f0 m x \<le> rank f m' x"
  shows "heap_at f m' (PNode x cs) S"
proof -
  have r: "rank f m' p = rank f0 m p" if "p \<noteq> x" for p using f m'(1) that by (simp add: rank_def)
  from h have x: "x \<notin> set (fnodes cs)" "\<forall>t \<in> set cs. rank f0 m (pt_root t) \<le> rank f0 m x" "hordered (rank f0 m) cs"
    by (auto simp: heap_at_def)
  have "rank f m' (pt_root t) \<le> rank f m' x" if "t \<in> set cs" for t
    using x(1,2) roots_in [OF that] that r [of "pt_root t"] le by force
  moreover have "hordered (rank f m') cs"
    using x(1,3) r hordered_cong [of cs "rank f m'" "rank f0 m"] by force
  moreover have "tree_at m' (PNode x cs)"
    by (rule tree_frame [of m]) (use h m' in \<open>auto simp: heap_at_def\<close>, metis same_links_refl)
  ultimately show ?thesis using h by (simp add: heap_at_def)
qed

section \<open>Comparators\<close>

text \<open>What the operations need of a comparator: its sign orders the entries by rank.\<close>

locale comparator =
  fixes cmp :: pq_cmp and f :: "u64 \<Rightarrow> 8 word \<Rightarrow> int"
  assumes cmp_less: "a \<noteq> 0 \<Longrightarrow> b \<noteq> 0 \<Longrightarrow> \<exists>c. cmp m a b = Some c \<and> (c < 0 \<longleftrightarrow> rank f m a < rank f m b)"
begin

lemma merge_run:
  assumes "a \<noteq> 0" "b \<noteq> 0" "a \<noteq> b"
  shows "pqueue_merge cmp a b m =
    (if rank f m a < rank f m b then Some (b, pq_link b a m) else Some (a, pq_link a b m))"
proof -
  from cmp_less [OF assms(1,2), of m] obtain c where c: "cmp m a b = Some c" "c < 0 \<longleftrightarrow> rank f m a < rank f m b" by blast
  show ?thesis
    unfolding pqueue_merge_def pq_link_def
    using assms c
    by (simp add: pq_upd_def pqueue_entry_unpack_child_def pqueue_entry_pack_child_def pq_at_def Let_def)
qed

lemma merge_heaps:
  assumes a: "heap_at f m ta A" and b: "heap_at f m tb B" and d: "A \<inter> B = {}"
  obtains m' t where "pqueue_merge cmp (pt_root ta) (pt_root tb) m = Some (pt_root t, m')"
    and "heap_at f m' t (A \<union> B)" and "relinks (A \<union> B) m m'"
proof -
  obtain x xs y ys where t: "ta = PNode x xs" "tb = PNode y ys" by (cases ta, cases tb)
  have ne: "x \<noteq> 0" "y \<noteq> 0" "x \<noteq> y"
    using heap_at_root [OF a] heap_at_root [OF b] d kptr_nonnull by (auto simp: t)
  have *: "heap_at f (pq_link p c m) (PNode p (PNode c cs # ps)) (P \<union> C) \<and> relinks (P \<union> C) m (pq_link p c m)"
    if p: "heap_at f m (PNode p ps) P" and c: "heap_at f m (PNode c cs) C" and pc: "P \<inter> C = {}"
      and r: "rank f m c \<le> rank f m p" for p ps P c cs C
  proof -
    have "rank f (pq_link p c m) = rank f m" by (simp add: rank_def fun_eq_iff)
    moreover have "pq_link p c m z = m z" if "z \<notin> P \<union> C" for z
      using p c that by (intro link_frame [of _ _ ps _ cs]) (auto simp: heap_at_def)
    moreover have "distinct (fnodes [PNode p ps, PNode c cs])"
      using p c pc by (auto simp: heap_at_def)
    ultimately show ?thesis
      using p c r link_tree [of m p ps c cs]
      by (auto simp: heap_at_def relinks_def)
  qed
  show ?thesis
  proof (cases "rank f m x < rank f m y")
    case True
    with *[OF b [unfolded t] a [unfolded t]] d merge_run [OF ne, of m] show ?thesis
      by (intro that [of "PNode y (PNode x xs # ys)"]) (auto simp: t Un_commute)
  next
    case False
    with *[OF a [unfolded t] b [unfolded t] d] merge_run [OF ne, of m] show ?thesis
      by (intro that [of "PNode x (PNode y ys # xs)"]) (auto simp: t)
  qed
qed

lemma merge_holds:
  assumes q: "pq_holds f q m S" and b: "heap_at f m t B" and d: "S \<inter> B = {}"
  obtains m' t' where "pqueue_merge cmp (pqueue_unpack_root q) (pt_root t) m = Some (pt_root t', m')"
    and "heap_at f m' t' (S \<union> B)" and "relinks (S \<union> B) m m'"
proof (cases "S = {}")
  case True
  with q b show ?thesis
    by (intro that [of t m]) (auto simp: pq_holds_def pqueue_merge_def)
next
  case False
  with q obtain t0 where t0: "heap_at f m t0 S" "pt_root t0 = pqueue_unpack_root q" by (auto simp: pq_holds_def)
  from merge_heaps [OF t0(1) b d] t0(2) that show ?thesis by metis
qed

text \<open>Inserting a whole subtree with root \<open>x\<close>, after its key has been written.\<close>

lemma insert_tree:
  assumes q: "pq_holds f q m S" and k: "pqueue_has_builtin_keys q \<or> k = PRIORITY_QUEUE_KEY_NONE"
    and m1: "m1 = (if pqueue_has_builtin_keys q then m(x := (m x)\<lparr>pq_key := k\<rparr>) else m)"
    and t: "heap_at f m1 t B" "pt_root t = x" and d: "S \<inter> B = {}"
  obtains q' m' where "priority_queue_insert cmp q x k m = Some (pqueue_unpack_root q' = x, q', m')"
    and "pq_holds f q' m' (S \<union> B)" and "pq_flags q' = pq_flags q" and "relinks (S \<union> B) m1 m'"
proof -
  from heap_at_root [OF t(1)] t(2) d have x: "kptr x" "x \<notin> S" by auto
  have up: "pqueue_update_key q x k m = Some m1"
    using k m1 kptr_nonnull [OF x(1)] by (auto simp: pqueue_update_key_def pq_upd_def)
  have "pq_holds f q m1 S" using q x(2) m1 by (auto elim!: pq_holds_frame)
  from merge_holds [OF this t(1) d, unfolded t(2)] obtain m' t' where
    r: "pqueue_merge cmp (pqueue_unpack_root q) x m1 = Some (pt_root t', m')"
      "heap_at f m' t' (S \<union> B)" "relinks (S \<union> B) m1 m'" by blast
  show ?thesis
    using r(1) heap_at_root(2) [OF r(2)] pq_holds_pack [OF r(2), of q] r(3)
    by (intro that [of "pqueue_pack_root q (pt_root t')" m'])
      (simp_all add: priority_queue_insert_def up)
qed

lemma cut_heap:
  assumes h: "heap_at f0 m t S" and x: "x \<in> S" "x \<noteq> pt_root t" and f: "\<And>p. p \<noteq> x \<Longrightarrow> f p = f0 p"
  obtains a cs where "t = PNode a cs" and "pqueue_list_remove x m = Some (pq_cut x m)"
    and "heap_at f (pq_cut x m) (PNode a (prune x cs)) (S - set (x # fnodes (kids_of x cs)))"
    and "heap_at f0 (pq_cut x m) (PNode x (kids_of x cs)) (set (x # fnodes (kids_of x cs)))"
    and "set (x # fnodes (kids_of x cs)) \<subseteq> S" and "relinks S m (pq_cut x m)"
proof -
  obtain a cs where t: "t = PNode a cs" by (cases t)
  from h x have tr: "tree_at m (PNode a cs)" "x \<in> set (fnodes cs)" "distinct (fnodes [PNode a cs])"
      "S = set (a # fnodes cs)" "hordered (rank f0 m) [PNode a cs]" by (auto simp: t heap_at_def)
  then have fo: "forest_at m a (pqueue_unpack (pq_child (m a))) cs" and d: "distinct (fnodes cs)" "a \<notin> set (fnodes cs)"
    by auto
  note ct = cut_tree [OF tr(1-3)] and ms = prune_nodes [OF tr(2) d(1)]
  have di: "distinct (fnodes (prune x cs) @ x # fnodes (kids_of x cs))"
    using ms d(1) by (metis mset_append mset.simps(2) mset_eq_imp_distinct_iff)
  have se: "set (fnodes cs) = set (fnodes (prune x cs)) \<union> set (x # fnodes (kids_of x cs))"
    using arg_cong [OF ms, of set_mset] by simp
  have rl: "relinks S m (pq_cut x m)"
    using cut_frame [OF fo tr(2)] by (simp add: relinks_def tr(4))
  have ho: "hordered (rank f0 m) [PNode a (prune x cs)]" "hordered (rank f0 m) [PNode x (kids_of x cs)]"
    using tr(2,5) prune_hordered [of "rank f0 m" cs x] prune_roots [of x cs] kids_hordered [of "rank f0 m" cs x]
    by (force, simp)
  show ?thesis
  proof (rule that [OF t ct(3)])
    have "heap_at f0 (pq_cut x m) (PNode a (prune x cs)) (S - set (x # fnodes (kids_of x cs)))"
      unfolding heap_at_def rank_relinks [OF rl] using ct(1) di se d(2) ho(1) tr(4) by auto
    then show "heap_at f (pq_cut x m) (PNode a (prune x cs)) (S - set (x # fnodes (kids_of x cs)))"
      by (rule heap_at_rank) (auto intro: f)
    show "heap_at f0 (pq_cut x m) (PNode x (kids_of x cs)) (set (x # fnodes (kids_of x cs)))"
      unfolding heap_at_def rank_relinks [OF rl] using ct(2) di ho(2) by auto
  qed (use se tr(4) rl in auto)
qed

lemma meld_kids:
  assumes ml: "melds pair_meld cmp f" and h: "heap_at f0 m (PNode x cs) S" and f: "\<And>p. p \<noteq> x \<Longrightarrow> f p = f0 p"
    and cs: "cs \<noteq> []"
  obtains m' t where "pair_meld cmp (pqueue_unpack (pq_child (m x))) m = Some (pt_root t, m')"
    and "heap_at f m' t (S - {x})" and "relinks (S - {x}) m m'"
proof -
  from h have x: "forest_at m x (pqueue_unpack (pq_child (m x))) cs" "distinct (fnodes cs)" "x \<notin> set (fnodes cs)"
      "S - {x} = set (fnodes cs)" "hordered (rank f0 m) cs"
    by (auto simp: heap_at_def)
  have "hordered (rank f m) cs"
    using hordered_cong [of cs "rank f m" "rank f0 m"] x(3,5) f by (force simp: rank_def)
  with ml [unfolded melds_def] x(1,2,4) cs that show ?thesis by metis
qed

lemma remove_root_run:
  assumes ml: "melds pair_meld cmp f" and h: "heap_at f0 m (PNode x cs) S" and f: "\<And>p. p \<noteq> x \<Longrightarrow> f p = f0 p"
  obtains q' m' where "pqueue_remove_root pair_meld cmp q x m = Some (x, q', m')"
    and "pq_holds f q' m' (S - {x})" and "pq_flags q' = pq_flags q" and "relinks (S - {x}) m m'"
proof (cases "cs = []")
  case True
  from heap_at_root(2) [OF h] have "x \<noteq> 0" by (simp add: kptr_nonnull)
  with True h show ?thesis
    by (intro that [of "pqueue_pack_root q 0" m])
      (auto simp: pqueue_remove_root_def pqueue_entry_unpack_child_def pq_at_def heap_at_def pq_holds_def)
next
  case False
  from meld_kids [OF ml h f False] obtain m' t where
    r: "pair_meld cmp (pqueue_unpack (pq_child (m x))) m = Some (pt_root t, m')"
      "heap_at f m' t (S - {x})" "relinks (S - {x}) m m'" .
  have "pqueue_unpack (pq_child (m x)) \<noteq> 0" "x \<noteq> 0"
    using heap_at_leaf [OF h] False heap_at_root(2) [OF h] by (simp_all add: kptr_nonnull)
  with r heap_at_root(2) [OF r(2)] show ?thesis
    by (intro that [of "pqueue_pack_root q (pt_root t)" m'])
      (auto simp: pqueue_remove_root_def pqueue_entry_unpack_child_def pq_at_def intro: pq_holds_pack)
qed

lemma remove_non_root_run:
  assumes ml: "melds pair_meld cmp f" and h: "heap_at f0 m t S" and f: "\<And>p. p \<noteq> x \<Longrightarrow> f p = f0 p"
    and x: "x \<in> S" "x \<noteq> pt_root t" and q: "pt_root t = pqueue_unpack_root q"
  obtains q' m' where "pqueue_remove_non_root pair_meld cmp q x m = Some (x, q', m')"
    and "pq_holds f q' m' (S - {x})" and "pq_flags q' = pq_flags q" and "relinks S m m'"
proof -
  from cut_heap [OF h x f] obtain a cs where t: "t = PNode a cs"
    and c: "pqueue_list_remove x m = Some (pq_cut x m)"
      "heap_at f (pq_cut x m) (PNode a (prune x cs)) (S - set (x # fnodes (kids_of x cs)))"
      "heap_at f0 (pq_cut x m) (PNode x (kids_of x cs)) (set (x # fnodes (kids_of x cs)))"
      "set (x # fnodes (kids_of x cs)) \<subseteq> S" "relinks S m (pq_cut x m)" .
  let ?m = "pq_cut x m" and ?K = "set (x # fnodes (kids_of x cs))"
  from heap_at_root(2) [OF c(3)] have x0: "x \<noteq> 0" by (simp add: kptr_nonnull)
  have qa: "pq_holds f q ?m (S - ?K)"
    using c(2) heap_at_root(3) [OF c(2)] q t by (auto simp: pq_holds_def simp del: set_simps)
  show ?thesis
  proof (cases "kids_of x cs = []")
    case True
    with heap_at_leaf [OF c(3)] have "pqueue_unpack (pq_child (?m x)) = 0" by simp
    with True c(1,5) qa x0 show ?thesis
      by (intro that [of q ?m])
        (simp_all add: pqueue_remove_non_root_def pqueue_entry_unpack_child_def pq_at_def)
  next
    case False
    from meld_kids [OF ml c(3) f False] obtain m1 t1 where
      r: "pair_meld cmp (pqueue_unpack (pq_child (?m x))) ?m = Some (pt_root t1, m1)"
        "heap_at f m1 t1 (?K - {x})" "relinks (?K - {x}) ?m m1" .
    have "pq_holds f q m1 (S - ?K)"
      using qa by (rule pq_holds_frame) (use r(3) in \<open>auto simp: relinks_def\<close>)
    from merge_holds [OF this r(2)] obtain m2 t2 where
      s: "pqueue_merge cmp (pqueue_unpack_root q) (pt_root t1) m1 = Some (pt_root t2, m2)"
        "heap_at f m2 t2 ((S - ?K) \<union> (?K - {x}))" "relinks ((S - ?K) \<union> (?K - {x})) m1 m2" by blast
    have SK: "(S - ?K) \<union> (?K - {x}) = S - {x}" using c(4) by auto
    have "pqueue_unpack (pq_child (?m x)) \<noteq> 0"
      using heap_at_leaf [OF c(3)] False by simp
    moreover have "relinks S m m2"
      by (rule relinks_mono [OF relinks_trans [OF relinks_trans [OF c(5) r(3)] s(3)]]) (use c(4) in auto)
    ultimately show ?thesis
      using c(1) r(1) s(1,2) x0 heap_at_root(2) [OF s(2)] pq_holds_pack [OF s(2) [unfolded SK], of q]
      by (intro that [of "pqueue_pack_root q (pt_root t2)" m2])
        (simp_all add: pqueue_remove_non_root_def pqueue_entry_unpack_child_def pq_at_def)
  qed
qed

lemma remove_run:
  assumes ml: "melds pair_meld cmp f" and q: "pq_holds f0 q m S" and f: "\<And>p. p \<noteq> x \<Longrightarrow> f p = f0 p" and x: "x \<in> S"
  obtains q' m1 where "priority_queue_remove pair_meld cmp q x m = Some (x = pqueue_unpack_root q, q', m1(x := pq_blank))"
    and "pq_holds f q' (m1(x := pq_blank)) (S - {x})" and "pq_flags q' = pq_flags q" and "relinks S m m1"
proof -
  from q x obtain t where t: "heap_at f0 m t S" "pt_root t = pqueue_unpack_root q"
    by (auto simp: pq_holds_def split: if_splits)
  have x0: "x \<noteq> 0" using pq_holds_kptr [OF q x] by (rule kptr_nonnull)
  have blank: "pq_holds f q' (m1(x := pq_blank)) (S - {x})" if "pq_holds f q' m1 (S - {x})" for q' m1
    using that by (rule pq_holds_frame) simp
  show ?thesis
  proof (cases "x = pt_root t")
    case True
    then obtain cs where "t = PNode x cs" by (cases t) auto
    from remove_root_run [OF ml t(1) [unfolded this] f, of q] obtain q' m1 where
      r: "pqueue_remove_root pair_meld cmp q x m = Some (x, q', m1)" "pq_holds f q' m1 (S - {x})"
        "pq_flags q' = pq_flags q" "relinks (S - {x}) m m1" by blast
    with True t(2) x0 blank [OF r(2)] relinks_mono [OF r(4), of S] show ?thesis
      by (intro that [of q' m1]) (simp_all add: priority_queue_remove_def init_run)
  next
    case False
    from remove_non_root_run [OF ml t(1) f x False t(2)] obtain q' m1 where
      r: "pqueue_remove_non_root pair_meld cmp q x m = Some (x, q', m1)" "pq_holds f q' m1 (S - {x})"
        "pq_flags q' = pq_flags q" "relinks S m m1" by blast
    with False t(2) x0 blank [OF r(2)] show ?thesis
      by (intro that [of q' m1]) (simp_all add: priority_queue_remove_def init_run)
  qed
qed

lemma decrease_run:
  assumes ml: "melds pair_meld cmp f" and q: "pq_holds f0 q m S" and f: "\<And>p. p \<noteq> x \<Longrightarrow> f p = f0 p" and x: "x \<in> S"
    and k: "pqueue_has_builtin_keys q \<or> k = PRIORITY_QUEUE_KEY_NONE"
  obtains q' m' where "priority_queue_entry_decrease pair_meld cmp q x k m = Some (x = pqueue_unpack_root q, q', m')"
    and "pq_holds f q' m' S" and "pq_flags q' = pq_flags q" and "pq_key (m' x) = k"
    and "\<And>p. p \<noteq> x \<Longrightarrow> pq_key (m' p) = pq_key (m p)" and "\<And>p. p \<notin> S \<Longrightarrow> m' p = m p"
proof -
  from remove_run [OF ml q f x] obtain q1 m1 where
    r: "priority_queue_remove pair_meld cmp q x m = Some (x = pqueue_unpack_root q, q1, m1(x := pq_blank))"
      "pq_holds f q1 (m1(x := pq_blank)) (S - {x})" "pq_flags q1 = pq_flags q" "relinks S m m1" by blast
  let ?m1 = "m1(x := pq_blank)"
  let ?m2 = "if pqueue_has_builtin_keys q1 then ?m1(x := (?m1 x)\<lparr>pq_key := k\<rparr>) else ?m1"
  have k1: "pqueue_has_builtin_keys q1 \<or> k = PRIORITY_QUEUE_KEY_NONE"
    using k flags_keys(1) [OF r(3)] by simp
  have "heap_at f ?m2 (PNode x []) {x}"
    by (rule heap_at_single) (simp_all add: pq_holds_kptr [OF q x] pq_blank_def)
  from insert_tree [OF r(2) k1 refl this] obtain q' m' where
    i: "priority_queue_insert cmp q1 x k ?m1 = Some (pqueue_unpack_root q' = x, q', m')"
      "pq_holds f q' m' (S - {x} \<union> {x})" "pq_flags q' = pq_flags q1" "relinks (S - {x} \<union> {x}) ?m2 m'" by auto
  have "pq_key (m' p) = (if p = x then k else pq_key (m p))" for p
    using i(4) r(4) k1 by (auto simp: relinks_def pq_blank_def)
  moreover have "m' p = m p" if "p \<notin> S" for p
    using i(4) r(4) x that by (auto simp: relinks_def)
  moreover have "S - {x} \<union> {x} = S" using x by auto
  ultimately show ?thesis
    using r(1,3) i by (intro that [of q' m']) (simp_all add: priority_queue_entry_decrease_def)
qed

lemma increase_run:
  assumes q: "pq_holds f0 q m S" and f: "\<And>p. p \<noteq> x \<Longrightarrow> f p = f0 p" and x: "x \<in> S"
    and k: "pqueue_has_builtin_keys q \<or> k = PRIORITY_QUEUE_KEY_NONE"
    and le: "f0 x (pq_key (m x)) \<le> f x (if pqueue_has_builtin_keys q then k else pq_key (m x))"
  obtains q' m' where
      "priority_queue_entry_increase cmp q x k m = Some (pqueue_unpack_root q' = x, q', m')"
    and "pq_holds f q' m' S" and "pq_flags q' = pq_flags q"
    and "pq_key (m' x) = (if pqueue_has_builtin_keys q then k else pq_key (m x))"
    and "\<And>p. p \<noteq> x \<Longrightarrow> pq_key (m' p) = pq_key (m p)" and "\<And>p. p \<notin> S \<Longrightarrow> m' p = m p"
proof -
  from q x obtain t where t: "heap_at f0 m t S" "pt_root t = pqueue_unpack_root q"
    by (auto simp: pq_holds_def split: if_splits)
  have x0: "x \<noteq> 0" using pq_holds_kptr [OF q x] by (rule kptr_nonnull)
  let ?up = "\<lambda>m. if pqueue_has_builtin_keys q then m(x := (m x)\<lparr>pq_key := k\<rparr>) else m"
  show ?thesis
  proof (cases "x = pt_root t")
    case True
    then obtain cs where tx: "t = PNode x cs" by (cases t) auto
    have "heap_at f (?up m) (PNode x cs) S"
      by (rule raise_root [OF t(1) [unfolded tx] f]) (use le in \<open>auto simp: rank_def same_links_def\<close>)
    with True t(2) tx have "pq_holds f q (?up m) S" using x by (auto simp: pq_holds_def)
    moreover have "pqueue_update_key q x k m = Some (?up m)"
      using k x0 by (auto simp: pqueue_update_key_def pq_upd_def)
    ultimately show ?thesis
      using True t(2) x by (intro that [of q "?up m"]) (auto simp: priority_queue_entry_increase_def)
  next
    case False
    from cut_heap [OF t(1) x False f] obtain a cs where ta: "t = PNode a cs"
      and c: "pqueue_list_remove x m = Some (pq_cut x m)"
        "heap_at f (pq_cut x m) (PNode a (prune x cs)) (S - set (x # fnodes (kids_of x cs)))"
        "heap_at f0 (pq_cut x m) (PNode x (kids_of x cs)) (set (x # fnodes (kids_of x cs)))"
        "set (x # fnodes (kids_of x cs)) \<subseteq> S" "relinks S m (pq_cut x m)" .
    let ?m = "pq_cut x m" and ?K = "set (x # fnodes (kids_of x cs))"
    have kx: "heap_at f (?up ?m) (PNode x (kids_of x cs)) ?K"
      by (rule raise_root [OF c(3) f]) (use le in \<open>auto simp: rank_def same_links_def\<close>)
    have "pq_holds f q ?m (S - ?K)"
      using c(2) heap_at_root(3) [OF c(2)] t(2) ta by (auto simp: pq_holds_def simp del: set_simps)
    from insert_tree [OF this k refl kx] obtain q' m' where
      i: "priority_queue_insert cmp q x k ?m = Some (pqueue_unpack_root q' = x, q', m')"
        "pq_holds f q' m' (S - ?K \<union> ?K)" "pq_flags q' = pq_flags q" "relinks (S - ?K \<union> ?K) (?up ?m) m'" by auto
    have SK: "S - ?K \<union> ?K = S" using c(4) by blast
    have "pq_key (m' p) = (if p = x then if pqueue_has_builtin_keys q then k else pq_key (m x) else pq_key (m p))" for p
      using i(4) by (auto simp: relinks_def)
    moreover have "m' p = m p" if "p \<notin> S" for p
      using i(4) [unfolded SK] c(5) x that by (auto simp: relinks_def)
    ultimately show ?thesis
      using i(1,3) i(2) [unfolded SK] c(1) False t(2)
      by (intro that [of q' m']) (auto simp: priority_queue_entry_increase_def)
  qed
qed

end

section \<open>The comparators of the header\<close>

definition max_rank :: "u64 \<Rightarrow> 8 word \<Rightarrow> int" where
  "max_rank p k = sint k"

definition min_rank :: "u64 \<Rightarrow> 8 word \<Rightarrow> int" where
  "min_rank p k = - sint k"

interpretation maxh: comparator PRIORITY_QUEUE_SCHED_PRI_MAX_HEAP_COMPARE max_rank
  by unfold_locales
    (simp add: PRIORITY_QUEUE_SCHED_PRI_MAX_HEAP_COMPARE_def priority_queue_element_builtin_key_compare_def pq_at_def
      rank_def max_rank_def)

interpretation minh: comparator PRIORITY_QUEUE_SCHED_PRI_MIN_HEAP_COMPARE min_rank
  by unfold_locales
    (simp add: PRIORITY_QUEUE_SCHED_PRI_MIN_HEAP_COMPARE_def priority_queue_element_builtin_key_compare_def pq_at_def
      rank_def min_rank_def)

text \<open>A comparator of the client that subtracts some measure \<open>g\<close> of the elements.\<close>

interpretation gen: comparator "priority_heap_make_comparator off (\<lambda>a b. g a - g b)" "\<lambda>p k. g (p - off)" for off g
  by unfold_locales (simp add: priority_heap_make_comparator_def rank_def)

lemma sint_small:
  assumes "k < (128 :: 8 word)"
  shows "sint k = uint k"
proof -
  from assms have "uint k < 2 ^ 7" by (simp add: word_less_def)
  with uint_nonnegative [of k] have "signed_take_bit 7 (uint k) = uint k"
    by (intro signed_take_bit_int_eq_self) linarith+
  then show ?thesis by (simp add: sint_uint)
qed

section \<open>An instance of the contract of \<open>pair_meld\<close>\<close>

text \<open>
  Merging the subtrees of a level one after another meets the contract, which therefore is
  satisfiable. The kernel's own function pairs them first.
\<close>

partial_function (option) merge_rest :: "pq_cmp \<Rightarrow> u64 \<Rightarrow> u64 \<Rightarrow> pmem \<Rightarrow> (u64 \<times> pmem) option" where
  "merge_rest cmp acc h m =
     (if h = 0 then Some (acc, m)
      else do {
        e \<leftarrow> pq_at m h;
        (acc, m) \<leftarrow> pqueue_merge cmp acc h m;
        merge_rest cmp acc (pq_next e) m })"

definition merge_level :: pq_meld where
  "merge_level cmp h m = merge_rest cmp 0 h m"

context comparator
begin

lemma merge_rest_run:
  assumes "forest_at m pv h ts" and "distinct (fnodes ts)" and "hordered (rank f m) ts"
    and "heap_at f m t A" and "A \<inter> set (fnodes ts) = {}"
  shows "\<exists>m' t'. merge_rest cmp (pt_root t) h m = Some (pt_root t', m') \<and>
    heap_at f m' t' (A \<union> set (fnodes ts)) \<and> relinks (A \<union> set (fnodes ts)) m m'"
  using assms
proof (induction ts arbitrary: m pv h t A)
  case Nil
  then show ?case by (subst merge_rest.simps) auto
next
  case (Cons t1 ts)
  obtain a cs where t1: "t1 = PNode a cs" by (cases t1)
  let ?T = "set (a # fnodes cs)"
  from Cons.prems t1 have h: "h = a" "kptr a" "forest_at m a (pq_next (m a)) ts" "heap_at f m (PNode a cs) ?T"
      "A \<inter> ?T = {}" by (auto simp: heap_at_def)
  from merge_heaps [OF Cons.prems(4) h(4,5), unfolded ptree.sel] obtain m1 t2 where
    mg: "pqueue_merge cmp (pt_root t) a m = Some (pt_root t2, m1)" "heap_at f m1 t2 (A \<union> ?T)" "relinks (A \<union> ?T) m m1"
    by blast
  have "m1 p = m p" if "p \<in> set (fnodes ts)" for p
    using mg(3) Cons.prems(2,5) that t1 by (auto simp: relinks_def)
  then have "forest_at m1 a (pq_next (m a)) ts" using h(3) by (auto elim!: forest_frame)
  moreover have "hordered (rank f m1) ts" using Cons.prems(3) t1 rank_relinks [OF mg(3)] by simp
  moreover have "(A \<union> ?T) \<inter> set (fnodes ts) = {}" using Cons.prems(2,5) t1 by auto
  ultimately obtain m' t' where
    r: "merge_rest cmp (pt_root t2) (pq_next (m a)) m1 = Some (pt_root t', m')"
      "heap_at f m' t' (A \<union> ?T \<union> set (fnodes ts))" "relinks (A \<union> ?T \<union> set (fnodes ts)) m1 m'"
    using Cons.IH [of m1 a "pq_next (m a)" t2 "A \<union> ?T"] Cons.prems(2) mg(2) t1 by auto
  have U: "A \<union> ?T \<union> set (fnodes ts) = A \<union> set (fnodes (t1 # ts))" using t1 by auto
  have "relinks (A \<union> set (fnodes (t1 # ts))) m m'"
    by (rule relinks_mono [OF relinks_trans [OF mg(3) r(3)]]) (auto simp: t1)
  with r(1) r(2) [unfolded U] mg(1) h(1) kptr_nonnull [OF h(2)] show ?case
    by (subst merge_rest.simps) (auto simp: pq_at_def)
qed

lemma merge_level_melds: "melds merge_level cmp f"
  unfolding melds_def
proof (intro allI impI)
  fix m pv h ts
  assume ts: "ts \<noteq> []" "forest_at m pv h ts" "distinct (fnodes ts)" "hordered (rank f m) ts"
  then obtain a cs us where t: "ts = PNode a cs # us" by (metis neq_Nil_conv ptree.exhaust)
  from ts t have h: "h = a" "kptr a" "forest_at m a (pq_next (m a)) us"
      "heap_at f m (PNode a cs) (set (a # fnodes cs))" by (auto simp: heap_at_def)
  from merge_rest_run [OF h(3) _ _ h(4)] ts t obtain m' t' where
    "merge_rest cmp a (pq_next (m a)) m = Some (pt_root t', m')"
    "heap_at f m' t' (set (fnodes ts))" "relinks (set (fnodes ts)) m m'"
    by (auto simp: Un_assoc Int_Un_distrib2)
  then show "\<exists>m' t. merge_level cmp h m = Some (pt_root t, m') \<and> heap_at f m' t (set (fnodes ts)) \<and>
      relinks (set (fnodes ts)) m m'"
    using kptr_nonnull [OF h(2)] h(1)
    by (auto simp: merge_level_def merge_rest.simps [of cmp 0 a m] pq_at_def pqueue_merge_def)
qed

end

section \<open>Properties\<close>

text \<open>
  C27. Inserting an initialized entry that is not in the queue adds it to the set of the queue,
  writes its key, keeps the flags of the head, the other keys and all other memory, and says
  whether the entry became the root. The root of the new queue is again a highest entry.
\<close>

theorem priority_queue_insert_adds:
  assumes "comparator cmp f" and "pq_holds f q m S" and "kptr x" and "x \<notin> S"
    and "pqueue_unpack (pq_child (m x)) = 0" and "pqueue_has_builtin_keys q \<or> k = PRIORITY_QUEUE_KEY_NONE"
  shows "\<exists>q' m'. priority_queue_insert cmp q x k m = Some (pqueue_unpack_root q' = x, q', m') \<and>
    pq_holds f q' m' (insert x S) \<and> pq_flags q' = pq_flags q \<and>
    pq_key (m' x) = (if pqueue_has_builtin_keys q then k else pq_key (m x)) \<and>
    (\<forall>p. p \<noteq> x \<longrightarrow> pq_key (m' p) = pq_key (m p)) \<and> (\<forall>p. p \<notin> insert x S \<longrightarrow> m' p = m p) \<and>
    (\<forall>p \<in> insert x S. rank f m' p \<le> rank f m' (pqueue_unpack_root q'))"
proof -
  let ?m1 = "if pqueue_has_builtin_keys q then m(x := (m x)\<lparr>pq_key := k\<rparr>) else m"
  have "heap_at f ?m1 (PNode x []) {x}" by (rule heap_at_single) (use assms in simp_all)
  from comparator.insert_tree [OF assms(1,2,6) refl this] assms(4) obtain q' m' where
    r: "priority_queue_insert cmp q x k m = Some (pqueue_unpack_root q' = x, q', m')"
      "pq_holds f q' m' (S \<union> {x})" "pq_flags q' = pq_flags q" "relinks (S \<union> {x}) ?m1 m'" by auto
  moreover have "pq_key (m' p) = (if p = x \<and> pqueue_has_builtin_keys q then k else pq_key (m p))" for p
    using r(4) by (auto simp: relinks_def)
  moreover have "m' p = m p" if "p \<notin> insert x S" for p
    using r(4) that by (auto simp: relinks_def)
  moreover have "rank f m' p \<le> rank f m' (pqueue_unpack_root q')" if "p \<in> insert x S" for p
    using pq_holds_max(1) [OF r(2), of p] that by simp
  ultimately show ?thesis by auto
qed

text \<open>
  C28. Removing any entry of the queue, the root or not, takes it out of the set, leaves it
  initialized, keeps the other keys and all memory outside the queue, and says whether it was the root.
\<close>

theorem priority_queue_remove_takes:
  assumes "comparator cmp f" and "melds pair_meld cmp f" and "pq_holds f q m S" and "x \<in> S"
  shows "\<exists>q' m'. priority_queue_remove pair_meld cmp q x m = Some (x = pqueue_unpack_root q, q', m') \<and>
    pq_holds f q' m' (S - {x}) \<and> pq_flags q' = pq_flags q \<and> m' x = pq_blank \<and>
    (\<forall>p. p \<noteq> x \<longrightarrow> pq_key (m' p) = pq_key (m p)) \<and> (\<forall>p. p \<notin> S \<longrightarrow> m' p = m p)"
proof -
  from comparator.remove_run [OF assms(1-3) refl assms(4)] obtain q' m1 where
    r: "priority_queue_remove pair_meld cmp q x m = Some (x = pqueue_unpack_root q, q', m1(x := pq_blank))"
      "pq_holds f q' (m1(x := pq_blank)) (S - {x})" "pq_flags q' = pq_flags q" "relinks S m m1" by blast
  with assms(4) show ?thesis
    by (intro exI [of _ q'] exI [of _ "m1(x := pq_blank)"]) (auto simp: relinks_def)
qed

text \<open>
  C29. Changing the priority of an entry keeps the set and restores the order. The order before
  the call is that of \<open>f0\<close>, which may differ from the comparator's only at the entry, as when the
  client has changed the element. Lowering accepts any new rank; raising needs a rank no lower
  than the old one. Both report whether the root or its key changed.
\<close>

theorem priority_queue_rekey:
  assumes "comparator cmp f" and "melds pair_meld cmp f" and "pq_holds f0 q m S" and "x \<in> S"
    and "\<forall>p. p \<noteq> x \<longrightarrow> f p = f0 p" and "pqueue_has_builtin_keys q \<or> k = PRIORITY_QUEUE_KEY_NONE"
  shows "(\<exists>q' m'. priority_queue_entry_decrease pair_meld cmp q x k m = Some (x = pqueue_unpack_root q, q', m') \<and>
      pq_holds f q' m' S \<and> pq_flags q' = pq_flags q \<and> pq_key (m' x) = k \<and>
      (\<forall>p. p \<noteq> x \<longrightarrow> pq_key (m' p) = pq_key (m p)) \<and> (\<forall>p. p \<notin> S \<longrightarrow> m' p = m p)) \<and>
    (f0 x (pq_key (m x)) \<le> f x (if pqueue_has_builtin_keys q then k else pq_key (m x)) \<longrightarrow>
      (\<exists>q' m'. priority_queue_entry_increase cmp q x k m = Some (pqueue_unpack_root q' = x, q', m') \<and>
      pq_holds f q' m' S \<and> pq_flags q' = pq_flags q \<and>
      pq_key (m' x) = (if pqueue_has_builtin_keys q then k else pq_key (m x)) \<and>
      (\<forall>p. p \<noteq> x \<longrightarrow> pq_key (m' p) = pq_key (m p)) \<and> (\<forall>p. p \<notin> S \<longrightarrow> m' p = m p)))"
    (is "?D \<and> (?le \<longrightarrow> ?I)")
proof (intro conjI impI)
  have f: "\<And>p. p \<noteq> x \<Longrightarrow> f p = f0 p" using assms(5) by simp
  show ?D using comparator.decrease_run [OF assms(1-3) f assms(4,6)] by metis
  show ?I if ?le using comparator.increase_run [OF assms(1,3) f assms(4,6) that] by metis
qed

text \<open>
  C30. On a max-heap with built-in keys below 128, \<^verbatim>\<open>priority_queue_max\<close> is an element of the queue with the
  largest key, \<^verbatim>\<open>priority_queue_max_key\<close> is that key, and \<^verbatim>\<open>priority_queue_remove_max\<close> returns this
  element and leaves the rest.
\<close>

theorem priority_queue_max_largest:
  assumes "melds pair_meld PRIORITY_QUEUE_SCHED_PRI_MAX_HEAP_COMPARE max_rank"
    and "pq_holds max_rank q m S" and "S \<noteq> {}" and "pqueue_is_max_heap q" and "pqueue_has_builtin_keys q"
    and "\<forall>p \<in> S. pq_key (m p) < 128"
  shows "\<exists>x \<in> S. priority_queue_max off q = Some (x - off) \<and> priority_queue_max_key q m = Some (pq_key (m x)) \<and>
    (\<forall>p \<in> S. pq_key (m p) \<le> pq_key (m x)) \<and>
    (\<exists>q' m'. priority_queue_remove_max pair_meld PRIORITY_QUEUE_SCHED_PRI_MAX_HEAP_COMPARE off q m =
        Some (x - off, q', m') \<and> pq_holds max_rank q' m' (S - {x}) \<and> (\<forall>p. pq_key (m' p) = pq_key (m p)))"
proof -
  from assms(2,3) obtain t where t: "heap_at max_rank m t S" "pt_root t = pqueue_unpack_root q"
    by (auto simp: pq_holds_def)
  then obtain x cs where tx: "t = PNode x cs" "pqueue_unpack_root q = x" by (cases t) auto
  have x: "x \<in> S" "x \<noteq> 0" using heap_at_root [OF t(1)] tx by (auto dest: kptr_nonnull)
  have "pq_key (m p) \<le> pq_key (m x)" if "p \<in> S" for p
    using pq_holds_max(1) [OF assms(2) that] assms(6) that x(1) tx(2)
    by (simp add: rank_def max_rank_def sint_small word_le_def)
  moreover from maxh.remove_root_run [OF assms(1) t(1) [unfolded tx(1)], of q] obtain q' m' where
    "pqueue_remove_root pair_meld PRIORITY_QUEUE_SCHED_PRI_MAX_HEAP_COMPARE q x m = Some (x, q', m')"
    "pq_holds max_rank q' m' (S - {x})" "relinks (S - {x}) m m'" by blast
  ultimately show ?thesis
    using x assms(4,5) tx(2)
    by (intro bexI [of _ x]) (auto simp: priority_queue_max_def priority_queue_max_key_def priority_queue_entry_key_def
        priority_queue_remove_max_def pqe_element_def pqe_element_fast_def pq_at_def relinks_def)
qed

section \<open>Instances\<close>

text \<open>A max-heap of two entries with the keys 3 and 7, and a free entry.\<close>

definition pq_ex :: pmem where
  "pq_ex = (\<lambda>_. pq_blank)(0x2000 := \<lparr>pq_next = 0, pq_prev = 0, pq_key = 7, pq_child = pqueue_pack 0x1000\<rparr>,
     0x1000 := \<lparr>pq_next = 0, pq_prev = 0x2000, pq_key = 3, pq_child = pqueue_pack 0\<rparr>)"

definition pq_ex_head :: priority_queue where
  "pq_ex_head = pqueue_pack_root (priority_queue_init PRIORITY_QUEUE_BUILTIN_MAX_HEAP \<lparr>pq_root_packed = 0\<rparr>) 0x2000"

lemma pq_ex_ptrs [simp]: "kptr 0x1000" "kptr 0x2000" "kptr 0x3000"
  by (simp_all add: kptr_def pqueue_pack_def pqueue_unpack_def)

lemma pq_ex_holds: "pq_holds max_rank pq_ex_head pq_ex {0x1000, 0x2000}"
proof -
  have "heap_at max_rank pq_ex (PNode 0x2000 [PNode 0x1000 []]) {0x1000, 0x2000}"
    by (auto simp: heap_at_def pq_ex_def rank_def max_rank_def)
  from pq_holds_pack [OF this] show ?thesis by (simp add: pq_ex_head_def)
qed

lemma pq_ex_flags: "pqueue_has_builtin_keys pq_ex_head" "pqueue_is_max_heap pq_ex_head"
  by (simp_all add: pq_ex_head_def pqueue_has_builtin_keys_def pqueue_is_max_heap_def packed_pack
      priority_queue_init_def PRIORITY_QUEUE_BUILTIN_MAX_HEAP_def PRIORITY_QUEUE_MAX_HEAP_def PRIORITY_QUEUE_MIN_HEAP_def
      PRIORITY_QUEUE_BUILTIN_KEY_def PRIORITY_QUEUE_GENERIC_KEY_def)

theorem priority_queue_insert_adds_witness:
  "\<exists>q' m'. priority_queue_insert PRIORITY_QUEUE_SCHED_PRI_MAX_HEAP_COMPARE pq_ex_head 0x3000 9 pq_ex =
      Some (pqueue_unpack_root q' = 0x3000, q', m') \<and>
    pq_holds max_rank q' m' {0x3000, 0x1000, 0x2000} \<and> pq_key (m' 0x3000) = 9"
  using priority_queue_insert_adds [OF maxh.comparator_axioms pq_ex_holds, of "0x3000" 9]
  by (auto simp: pq_ex_flags pq_ex_def pq_blank_def)

theorem priority_queue_remove_takes_witness:
  "\<exists>q' m'. priority_queue_remove merge_level PRIORITY_QUEUE_SCHED_PRI_MAX_HEAP_COMPARE pq_ex_head 0x2000 pq_ex =
      Some (0x2000 = pqueue_unpack_root pq_ex_head, q', m') \<and>
    pq_holds max_rank q' m' {0x1000} \<and> m' 0x2000 = pq_blank"
  using priority_queue_remove_takes [OF maxh.comparator_axioms maxh.merge_level_melds pq_ex_holds, of "0x2000"]
  by (auto simp: insert_Diff_if)

theorem priority_queue_rekey_witness:
  "(\<exists>q' m'. priority_queue_entry_decrease merge_level PRIORITY_QUEUE_SCHED_PRI_MAX_HEAP_COMPARE pq_ex_head 0x2000 1 pq_ex =
      Some (0x2000 = pqueue_unpack_root pq_ex_head, q', m') \<and> pq_holds max_rank q' m' {0x1000, 0x2000} \<and> pq_key (m' 0x2000) = 1) \<and>
   (\<exists>q' m'. priority_queue_entry_increase PRIORITY_QUEUE_SCHED_PRI_MAX_HEAP_COMPARE pq_ex_head 0x1000 8 pq_ex =
      Some (pqueue_unpack_root q' = 0x1000, q', m') \<and> pq_holds max_rank q' m' {0x1000, 0x2000} \<and> pq_key (m' 0x1000) = 8)"
  using priority_queue_rekey [OF maxh.comparator_axioms maxh.merge_level_melds pq_ex_holds, of "0x2000" 1]
    priority_queue_rekey [OF maxh.comparator_axioms maxh.merge_level_melds pq_ex_holds, of "0x1000" 8]
  by (auto simp: pq_ex_flags max_rank_def pq_ex_def)

theorem priority_queue_max_largest_witness:
  "\<exists>x \<in> {0x1000, 0x2000}. priority_queue_max 16 pq_ex_head = Some (x - 16) \<and>
     priority_queue_max_key pq_ex_head pq_ex = Some (pq_key (pq_ex x)) \<and> pq_key (pq_ex x) \<ge> 7 \<and>
     (\<exists>q' m'. priority_queue_remove_max merge_level PRIORITY_QUEUE_SCHED_PRI_MAX_HEAP_COMPARE 16 pq_ex_head pq_ex =
        Some (x - 16, q', m'))"
proof -
  have "\<forall>p \<in> {0x1000, 0x2000}. pq_key (pq_ex p) < 128" "pq_key (pq_ex 0x2000) = 7"
    by (simp_all add: pq_ex_def word_less_nat_alt)
  with priority_queue_max_largest [OF maxh.merge_level_melds pq_ex_holds _ pq_ex_flags(2,1), of 16]
  show ?thesis by fastforce
qed

section \<open>Where the interface differs from its comments\<close>

text \<open>The key is a signed bit-field: a key of 128 or more ranks below every smaller key.\<close>

lemma large_key_ranks_low: "k < 128 \<Longrightarrow> 128 \<le> k' \<Longrightarrow> max_rank p k' < max_rank p' k" for k k' :: "8 word"
proof -
  assume "k < 128" "128 \<le> k'"
  moreover from this(1) have "sint k \<ge> 0" by (simp add: sint_small)
  moreover have "sint k' < 0"
  proof -
    have u: "128 \<le> uint k'" "uint k' < 256" using \<open>128 \<le> k'\<close> uint_lt2p [of k'] by (simp_all add: word_le_def)
    have "(uint k' + 128) mod 256 = (uint k' - 128 + 256) mod 256" by (simp add: add.commute)
    also have "\<dots> = uint k' - 128" using u by (simp only: mod_add_self2) simp
    finally show ?thesis using u by (simp add: sint_uint signed_take_bit_eq_take_bit_shift take_bit_eq_mod)
  qed
  ultimately show "max_rank p k' < max_rank p' k" by (simp add: max_rank_def)
qed

text \<open>Removing the maximum of an empty queue dereferences the null pointer.\<close>

lemma remove_max_empty: "priority_queue_empty q \<Longrightarrow> priority_queue_remove_max pair_meld cmp off q m = None"
  by (simp add: priority_queue_empty_def priority_queue_remove_max_def pqueue_remove_root_def
      pqueue_entry_unpack_child_def pq_at_def)

text \<open>
  The warning above \<^verbatim>\<open>priority_queue_entry_increase\<close> says that in a min-heap it is for keys that became
  larger; used so on the root, it leaves the order broken: the root stays although its key is no
  longer the smallest.
\<close>

lemma increase_root_min_heap:
  assumes "pq_holds min_rank q m S" and "x \<in> S" and "x = pqueue_unpack_root q" and "pqueue_has_builtin_keys q"
    and "y \<in> S" "y \<noteq> x" and "sint (pq_key (m y)) < sint k"
  shows "\<exists>m'. priority_queue_entry_increase cmp q x k m = Some (True, q, m') \<and> \<not> pq_holds min_rank q m' S"
proof -
  let ?m = "m(x := (m x)\<lparr>pq_key := k\<rparr>)"
  have "x \<noteq> 0" using pq_holds_kptr [OF assms(1,2)] by (rule kptr_nonnull)
  then have "priority_queue_entry_increase cmp q x k m = Some (True, q, ?m)"
    using assms(3,4) by (simp add: priority_queue_entry_increase_def pqueue_update_key_def pq_upd_def)
  moreover have "\<not> pq_holds min_rank q ?m S"
    using pq_holds_max(1) [of min_rank q ?m S y] assms(3,5-7) by (auto simp: rank_def min_rank_def)
  ultimately show ?thesis by blast
qed

end
