(* ===== verification/KernBits.thy ===== *)
theory KernBits
  imports XePrelude "HOL-Library.Monad_Syntax"
begin

text \<open>
  The bit and bitmap operations of \<^verbatim>\<open>kern/bits.h\<close>. A shift by a negative count or by 64 or
  more, an access behind the end of a bitmap, and a signed overflow have no value, as they are
  undefined in C; so a theorem that gives a value also says that none of them happens. C's
  \<^verbatim>\<open>int\<close> is an unbounded integer with its conversions and its range written out; \<^verbatim>\<open>uint\<close> is a
  32-bit word and \<^verbatim>\<open>uint64_t\<close> a 64-bit word.
\<close>

section \<open>Single words\<close>

definition shl64 :: "u64 \<Rightarrow> int \<Rightarrow> u64 option" where
  "shl64 x n = (if 0 \<le> n \<and> n < 64 then Some (push_bit (nat n) x) else None)"

definition shr64 :: "u64 \<Rightarrow> int \<Rightarrow> u64 option" where
  "shr64 x n = (if 0 \<le> n \<and> n < 64 then Some (drop_bit (nat n) x) else None)"

definition BIT :: "int \<Rightarrow> u64 option" where
  "BIT b = shl64 1 b"

definition bits_mask :: "int \<Rightarrow> u64 option" where
  "bits_mask width = (if width \<ge> 64 then Some (-1) else do { m \<leftarrow> BIT width; Some (m - 1) })"

definition bits_extract :: "u64 \<Rightarrow> int \<Rightarrow> int \<Rightarrow> u64 option" where
  "bits_extract x shift width = do { y \<leftarrow> shr64 x shift; m \<leftarrow> bits_mask width; Some (y AND m) }"

definition bits :: "u64 \<Rightarrow> int \<Rightarrow> int \<Rightarrow> u64 option" where
  "bits x hi lo = bits_extract x lo (hi - lo + 1)"

definition bit_set :: "u64 \<Rightarrow> int \<Rightarrow> u64 option" where
  "bit_set x b = do { m \<leftarrow> BIT b; Some (x OR m) }"

definition bit_clear :: "u64 \<Rightarrow> int \<Rightarrow> u64 option" where
  "bit_clear x b = do { m \<leftarrow> BIT b; Some (x AND NOT m) }"

definition bit_test :: "u64 \<Rightarrow> int \<Rightarrow> bool option" where
  "bit_test x b = do { m \<leftarrow> BIT b; Some (x AND m \<noteq> 0) }"

definition bit_ror64 :: "u64 \<Rightarrow> u32 \<Rightarrow> u64 option" where
  "bit_ror64 bitmap n = (
     let n = uint (n AND 63) in do {
       a \<leftarrow> shr64 bitmap n; b \<leftarrow> shl64 bitmap (64 - n); Some (a OR b) })"

definition bit_rol64 :: "u64 \<Rightarrow> u32 \<Rightarrow> u64 option" where
  "bit_rol64 bitmap n = (
     let n = uint (n AND 63) in do {
       a \<leftarrow> shl64 bitmap n; b \<leftarrow> shr64 bitmap (64 - n); Some (a OR b) })"

text \<open>The bitmap is a parameter by value: only the answer leaves the function.\<close>

definition bit_clear_if_set :: "u64 \<Rightarrow> int \<Rightarrow> bool option" where
  "bit_clear_if_set bitmap b = do {
     bit_is_set \<leftarrow> bit_test bitmap b;
     bitmap \<leftarrow> bit_clear bitmap b;
     Some bit_is_set }"

definition bit_set_if_clear :: "u64 \<Rightarrow> int \<Rightarrow> bool option" where
  "bit_set_if_clear bitmap b = do {
     bit_is_set \<leftarrow> bit_test bitmap b;
     bitmap \<leftarrow> bit_set bitmap b;
     Some (\<not> bit_is_set) }"

text \<open>
  The compiler builtins: the number of leading zeros of a nonzero word, one more than the
  number of trailing zeros (zero for zero), and the number of ones.
\<close>

definition clzll :: "u64 \<Rightarrow> nat" where
  "clzll x = length (takeWhile (\<lambda>i. \<not> bit x i) (rev [0..<64]))"

definition ffsll :: "u64 \<Rightarrow> nat" where
  "ffsll x = (if x = 0 then 0 else Suc (length (takeWhile (\<lambda>i. \<not> bit x i) [0..<64])))"

definition popcountll :: "u64 \<Rightarrow> nat" where
  "popcountll x = length (filter (bit x) [0..<64])"

definition bit_first :: "u64 \<Rightarrow> int" where
  "bit_first bitmap = (if bitmap = 0 then -1 else 63 - int (clzll bitmap))"

definition bit_next0 :: "u64 \<Rightarrow> int \<Rightarrow> int option" where
  "bit_next0 bitmap previous_bit = do {
     m \<leftarrow> (if previous_bit \<noteq> 0 then bits_mask previous_bit else Some (NOT 0));
     Some (bit_first (bitmap AND m)) }"

definition bit_next :: "u64 \<Rightarrow> int \<Rightarrow> int option" where
  "bit_next bitmap previous_bit = (if previous_bit = 0 then Some (-1) else bit_next0 bitmap previous_bit)"

definition lsb_first :: "u64 \<Rightarrow> int" where
  "lsb_first bitmap = int (ffsll bitmap) - 1"

definition lsb_next :: "u64 \<Rightarrow> int \<Rightarrow> int option" where
  "lsb_next bitmap previous_bit = do {
     m \<leftarrow> bits_mask (previous_bit + 1);
     Some (lsb_first (bitmap AND NOT m)) }"

definition bit_count :: "u64 \<Rightarrow> int" where
  "bit_count x = int (popcountll x)"

definition bit_floor :: "u64 \<Rightarrow> int" where
  "bit_floor n = bit_first n"

definition bit_ceiling :: "u64 \<Rightarrow> int" where
  "bit_ceiling n = (if n = 0 then -1 else bit_first (n - 1) + 1)"

definition bit_log2 :: "u64 \<Rightarrow> int" where
  "bit_log2 n = bit_floor n"

text \<open>The atomic operations return the bit's old value along with the new word.\<close>

definition atomic_bit_set :: "u64 \<Rightarrow> int \<Rightarrow> (bool \<times> u64) option" where
  "atomic_bit_set bm n = do { m \<leftarrow> BIT n; t \<leftarrow> bit_test bm n; Some (t, bm OR m) }"

definition atomic_bit_clear :: "u64 \<Rightarrow> int \<Rightarrow> (bool \<times> u64) option" where
  "atomic_bit_clear bm n = do { m \<leftarrow> BIT n; t \<leftarrow> bit_test bm n; Some (t, bm AND NOT m) }"

section \<open>Bitmaps\<close>

definition BITMAP_LEN :: "u32 \<Rightarrow> u32" where
  "BITMAP_LEN n = drop_bit 6 (n + 63)"

definition BITMAP_SIZE :: "u32 \<Rightarrow> u32" where
  "BITMAP_SIZE n = push_bit 3 (BITMAP_LEN n)"

definition bitmap_bit :: "u32 \<Rightarrow> int option" where
  "bitmap_bit n = map_option uint (bits (ucast n) 5 0)"

definition bitmap_index :: "u32 \<Rightarrow> nat option" where
  "bitmap_index n = map_option unat (bits (ucast n) 63 6)"

definition entry :: "u64 list \<Rightarrow> nat \<Rightarrow> u64 option" where
  "entry bm i = (if i < length bm then Some (bm ! i) else None)"

text \<open>\<^verbatim>\<open>memset\<close> of whole entries: the size in bytes is a multiple of eight.\<close>

definition fill :: "u64 list \<Rightarrow> u64 \<Rightarrow> u32 \<Rightarrow> u64 list option" where
  "fill bm v bytes = (
     let n = unat bytes div 8
     in if n \<le> length bm then Some (replicate n v @ drop n bm) else None)"

definition bitmap_zero :: "u64 list \<Rightarrow> u32 \<Rightarrow> u64 list option" where
  "bitmap_zero bm nbits = fill bm 0 (BITMAP_SIZE nbits)"

definition bitmap_full :: "u64 list \<Rightarrow> u32 \<Rightarrow> u64 list option" where
  "bitmap_full bm nbits = fill bm (-1) (BITMAP_SIZE nbits)"

text \<open>\<^verbatim>\<open>kalloc\<close> gives memory of the size asked for, with any contents, or none; the assertion stops.\<close>

definition bitmap_alloc :: "(u32 \<Rightarrow> u64 list option) \<Rightarrow> u32 \<Rightarrow> u64 list option option" where
  "bitmap_alloc kalloc nbits =
     (if nbits = 0 then None
      else case kalloc (BITMAP_SIZE nbits) of
        None \<Rightarrow> Some None
      | Some bm \<Rightarrow> do { bm \<leftarrow> bitmap_zero bm nbits; Some (Some bm) })"

definition bitmap_set :: "u64 list \<Rightarrow> u32 \<Rightarrow> u64 list option" where
  "bitmap_set bm n = do {
     i \<leftarrow> bitmap_index n; b \<leftarrow> bitmap_bit n; e \<leftarrow> entry bm i; e \<leftarrow> bit_set e b; Some (bm[i := e]) }"

definition bitmap_clear :: "u64 list \<Rightarrow> u32 \<Rightarrow> u64 list option" where
  "bitmap_clear bm n = do {
     i \<leftarrow> bitmap_index n; b \<leftarrow> bitmap_bit n; e \<leftarrow> entry bm i; e \<leftarrow> bit_clear e b; Some (bm[i := e]) }"

definition atomic_bitmap_set :: "u64 list \<Rightarrow> u32 \<Rightarrow> (bool \<times> u64 list) option" where
  "atomic_bitmap_set bm n = do {
     i \<leftarrow> bitmap_index n; b \<leftarrow> bitmap_bit n; e \<leftarrow> entry bm i;
     (t, e) \<leftarrow> atomic_bit_set e b; Some (t, bm[i := e]) }"

definition atomic_bitmap_clear :: "u64 list \<Rightarrow> u32 \<Rightarrow> (bool \<times> u64 list) option" where
  "atomic_bitmap_clear bm n = do {
     i \<leftarrow> bitmap_index n; b \<leftarrow> bitmap_bit n; e \<leftarrow> entry bm i;
     (t, e) \<leftarrow> atomic_bit_clear e b; Some (t, bm[i := e]) }"

definition bitmap_test :: "u64 list \<Rightarrow> u32 \<Rightarrow> bool option" where
  "bitmap_test bm n = do {
     i \<leftarrow> bitmap_index n; b \<leftarrow> bitmap_bit n; e \<leftarrow> entry bm i; bit_test e b }"

text \<open>
  The loops over the entries, downwards from an index to zero and upwards over a number of
  entries; \<open>res\<close> turns the index and the bit found into the function's result.
\<close>

primrec scan_down :: "(nat \<Rightarrow> u64 option) \<Rightarrow> (nat \<Rightarrow> int \<Rightarrow> int option) \<Rightarrow> nat \<Rightarrow> int option" where
  "scan_down f res 0 = Some (-1)"
| "scan_down f res (Suc i) = do {
     e \<leftarrow> f i; if e = 0 then scan_down f res i else res i (bit_first e) }"

primrec scan_up :: "(nat \<Rightarrow> u64 option) \<Rightarrow> (nat \<Rightarrow> int \<Rightarrow> int option) \<Rightarrow> nat \<Rightarrow> nat \<Rightarrow> int option" where
  "scan_up f res i 0 = Some (-1)"
| "scan_up f res i (Suc k) = do {
     e \<leftarrow> f i; if e = 0 then scan_up f res (Suc i) k else res i (lsb_first e) }"

text \<open>\<^verbatim>\<open>int\<close> arithmetic, and the conversion of a wider value to \<^verbatim>\<open>int\<close>.\<close>

definition int_pos :: "nat \<Rightarrow> int \<Rightarrow> int option" where
  "int_pos i b = (if 64 * int i + b < 2 ^ 31 then Some (64 * int i + b) else None)"

definition cast_pos :: "nat \<Rightarrow> int \<Rightarrow> int option" where
  "cast_pos i b = Some (sint (word_of_int (64 * int i + b) :: 32 word))"

definition bitmap_first :: "u64 list \<Rightarrow> u32 \<Rightarrow> int option" where
  "bitmap_first bm nbits = do {
     i \<leftarrow> bitmap_index (nbits - 1); scan_down (entry bm) int_pos (Suc i) }"

definition bitmap_and_not_mask_first :: "u64 list \<Rightarrow> u64 list \<Rightarrow> u32 \<Rightarrow> int option" where
  "bitmap_and_not_mask_first bm msk nbits = do {
     i \<leftarrow> bitmap_index (nbits - 1);
     scan_down (\<lambda>i. do { e \<leftarrow> entry bm i; m \<leftarrow> entry msk i; Some (e AND NOT m) }) int_pos (Suc i) }"

definition bitmap_lsb_first :: "u64 list \<Rightarrow> u32 \<Rightarrow> int option" where
  "bitmap_lsb_first bm nbits = do {
     i \<leftarrow> bitmap_index (nbits - 1); scan_up (entry bm) cast_pos 0 (Suc i) }"

definition bitmap_next :: "u64 list \<Rightarrow> u32 \<Rightarrow> int option" where
  "bitmap_next bm prev =
     (if prev = 0 then Some (-1) else do {
        i \<leftarrow> bitmap_index (prev - 1); e \<leftarrow> entry bm i; b \<leftarrow> bitmap_bit prev;
        res \<leftarrow> bit_next0 e b;
        if res \<ge> 0 then cast_pos i res else scan_down (entry bm) cast_pos i })"

definition bitmap_lsb_next :: "u64 list \<Rightarrow> u32 \<Rightarrow> u32 \<Rightarrow> int option" where
  "bitmap_lsb_next bm nbits prev =
     (if prev + 1 \<ge> nbits then Some (-1) else do {
        i \<leftarrow> bitmap_index (prev + 1); b \<leftarrow> bitmap_bit (prev + 1); e \<leftarrow> entry bm i;
        res \<leftarrow> lsb_next e (b - 1);
        if res \<ge> 0 then cast_pos i res else do {
        k \<leftarrow> bitmap_index (nbits - 1); scan_up (entry bm) cast_pos (Suc i) (k - i) } })"

section \<open>Words as sets of bits\<close>

lemma BIT_some: "0 \<le> b \<Longrightarrow> b < 64 \<Longrightarrow> BIT b = Some (2 ^ nat b)"
  by (simp add: BIT_def shl64_def)

lemma bit_imp_less_64: "bit (x :: u64) n \<Longrightarrow> n < 64"
  using bit_imp_le_length [of x n] by simp

lemma bits_mask_some: "0 \<le> w \<Longrightarrow> bits_mask w = Some (mask (nat w))"
proof (cases "w < 64")
  case True
  assume "0 \<le> w"
  with True show ?thesis by (simp add: bits_mask_def BIT_some mask_eq_exp_minus_1)
next
  case False
  have "(-1 :: u64) = mask (nat w)"
    by (rule bit_word_eqI) (use False in \<open>auto simp: bit_mask_iff bit_minus_1_iff\<close>)
  with False show ?thesis by (simp add: bits_mask_def)
qed

lemma bit_single: "bit ((2 :: u64) ^ b) n \<longleftrightarrow> n = b \<and> b < 64"
  by (auto simp: bit_exp_iff)

lemma bit_ops:
  assumes "0 \<le> b" and "b < 64"
  shows "bit_test x b = Some (bit x (nat b))"
    and "\<exists>y. bit_set x b = Some y \<and> (\<forall>n. bit y n \<longleftrightarrow> bit x n \<or> n = nat b)"
    and "\<exists>y. bit_clear x b = Some y \<and> (\<forall>n. bit y n \<longleftrightarrow> bit x n \<and> n \<noteq> nat b)"
proof -
  have "x AND 2 ^ nat b \<noteq> 0 \<longleftrightarrow> bit x (nat b)"
    using assms by (auto simp: bit_eq_iff [of "x AND _"] bit_and_iff bit_single)
  then show "bit_test x b = Some (bit x (nat b))" by (simp add: bit_test_def BIT_some assms)
  show "\<exists>y. bit_set x b = Some y \<and> (\<forall>n. bit y n \<longleftrightarrow> bit x n \<or> n = nat b)"
    "\<exists>y. bit_clear x b = Some y \<and> (\<forall>n. bit y n \<longleftrightarrow> bit x n \<and> n \<noteq> nat b)"
    using assms by (auto simp: bit_set_def bit_clear_def BIT_some bit_or_iff bit_and_iff bit_not_iff bit_single
        dest: bit_imp_less_64)
qed

text \<open>The largest and the smallest number with a property, or \<open>-1\<close> if there is none.\<close>

definition highest :: "(nat \<Rightarrow> bool) \<Rightarrow> int \<Rightarrow> bool" where
  "highest P r \<longleftrightarrow> (if \<exists>n. P n then \<exists>k. r = int k \<and> P k \<and> (\<forall>n. P n \<longrightarrow> n \<le> k) else r = -1)"

definition lowest :: "(nat \<Rightarrow> bool) \<Rightarrow> int \<Rightarrow> bool" where
  "lowest P r \<longleftrightarrow> (if \<exists>n. P n then \<exists>k. r = int k \<and> P k \<and> (\<forall>n. P n \<longrightarrow> k \<le> n) else r = -1)"

lemma word_nonzero_bit: "(x :: u64) \<noteq> 0 \<Longrightarrow> \<exists>n. bit x n"
  by (auto simp: bit_eq_iff)

lemma takeWhile_first:
  assumes "\<exists>i\<in>set xs. P i"
  shows "length (takeWhile (\<lambda>i. \<not> P i) xs) < length xs" and "P (xs ! length (takeWhile (\<lambda>i. \<not> P i) xs))"
    and "j < length (takeWhile (\<lambda>i. \<not> P i) xs) \<Longrightarrow> \<not> P (xs ! j)"
proof -
  let ?n = "length (takeWhile (\<lambda>i. \<not> P i) xs)"
  have "takeWhile (\<lambda>i. \<not> P i) xs \<noteq> xs" using assms by (metis takeWhile_eq_all_conv)
  then show l: "?n < length xs"
    by (metis length_takeWhile_le linorder_neqE_nat not_le takeWhile_eq_take take_all)
  show "P (xs ! ?n)" using nth_length_takeWhile [OF l] by simp
  show "j < ?n \<Longrightarrow> \<not> P (xs ! j)" by (metis nth_mem set_takeWhileD takeWhile_nth)
qed

lemma bit_first_highest: "highest (bit x) (bit_first x)"
proof (cases "x = 0")
  case True
  then show ?thesis by (simp add: highest_def bit_first_def)
next
  case False
  let ?xs = "rev [0..<64]" and ?n = "clzll x"
  from word_nonzero_bit [OF False] have ex: "\<exists>i\<in>set ?xs. bit x i"
    by (force dest: bit_imp_less_64)
  note t = takeWhile_first [OF ex, folded clzll_def]
  have nth: "?xs ! j = 63 - j" if "j < 64" for j using that by (simp add: rev_nth)
  have n: "?n < 64" using t(1) by simp
  have b: "bit x (63 - ?n)" using t(2) nth [OF n] by simp
  have "k \<le> 63 - ?n" if "bit x k" for k
  proof (rule ccontr)
    assume "\<not> k \<le> 63 - ?n"
    moreover have "k < 64" using that by (rule bit_imp_less_64)
    ultimately have "63 - k < ?n" "?xs ! (63 - k) = k" using n nth [of "63 - k"] by auto
    with t(3) [of "63 - k"] that show False by simp
  qed
  with b n False show ?thesis
    by (auto simp: highest_def bit_first_def intro!: exI [of _ "63 - ?n"])
qed

lemma lsb_first_lowest: "lowest (bit x) (lsb_first x)"
proof (cases "x = 0")
  case True
  then show ?thesis by (simp add: lowest_def lsb_first_def ffsll_def)
next
  case False
  let ?n = "length (takeWhile (\<lambda>i. \<not> bit x i) [0..<64])"
  from word_nonzero_bit [OF False] have ex: "\<exists>i\<in>set [0..<64]. bit x i"
    by (force dest: bit_imp_less_64)
  note t = takeWhile_first [OF ex]
  have n: "?n < 64" using t(1) by simp
  have b: "bit x ?n" using t(2) n by simp
  have "?n \<le> k" if "bit x k" for k
    using that t(3) [of k] bit_imp_less_64 [OF that] by (auto simp: not_less [symmetric])
  with b False show ?thesis
    by (auto simp: lowest_def lsb_first_def ffsll_def intro!: exI [of _ ?n])
qed

lemma highest_cong: "(\<And>n. P n \<longleftrightarrow> Q n) \<Longrightarrow> highest P r \<longleftrightarrow> highest Q r"
  and lowest_cong: "(\<And>n. P n \<longleftrightarrow> Q n) \<Longrightarrow> lowest P r \<longleftrightarrow> lowest Q r"
  by (simp_all add: highest_def lowest_def)

lemma bit_next0_highest:
  assumes "0 \<le> p"
  shows "\<exists>r. bit_next0 x p = Some r \<and> highest (\<lambda>n. bit x n \<and> (p = 0 \<or> n < nat p)) r"
proof -
  let ?m = "if p \<noteq> 0 then mask (nat p) else NOT 0 :: u64"
  have "bit (x AND ?m) n \<longleftrightarrow> bit x n \<and> (p = 0 \<or> n < nat p)" for n
    using bit_imp_less_64 [of x n] by (auto simp: bit_and_iff bit_mask_iff)
  then have "highest (\<lambda>n. bit x n \<and> (p = 0 \<or> n < nat p)) (bit_first (x AND ?m))"
    using bit_first_highest [of "x AND ?m"] by (rule highest_cong [THEN iffD1])
  then show ?thesis using assms by (auto simp: bit_next0_def bits_mask_some)
qed

lemma lsb_next_lowest:
  assumes "-1 \<le> p"
  shows "\<exists>r. lsb_next x p = Some r \<and> lowest (\<lambda>n. bit x n \<and> p < int n) r"
proof -
  let ?m = "NOT (mask (nat (p + 1))) :: u64"
  have "bit (x AND ?m) n \<longleftrightarrow> bit x n \<and> p < int n" for n
    using assms bit_imp_less_64 [of x n] by (auto simp: bit_and_iff bit_not_iff bit_mask_iff)
  then have "lowest (\<lambda>n. bit x n \<and> p < int n) (lsb_first (x AND ?m))"
    using lsb_first_lowest [of "x AND ?m"] by (rule lowest_cong [THEN iffD1])
  then show ?thesis using assms by (auto simp: lsb_next_def bits_mask_some)
qed

section \<open>Bitmaps as sets of positions\<close>

definition bm_bit :: "u64 list \<Rightarrow> nat \<Rightarrow> bool" where
  "bm_bit bm n \<longleftrightarrow> n div 64 < length bm \<and> bit (bm ! (n div 64)) (n mod 64)"

lemma bitmap_bit_some: "bitmap_bit n = Some (int (unat n mod 64))"
proof -
  have "unat ((ucast n :: u64) AND mask 6) = unat n mod 64"
    by (simp flip: take_bit_eq_mask add: unsigned_take_bit_eq) (simp add: take_bit_eq_mod)
  then have "uint ((ucast n :: u64) AND mask 6) = int (unat n mod 64)"
    by (metis uint_nat)
  then show ?thesis by (simp add: bitmap_bit_def bits_def bits_extract_def shr64_def bits_mask_some)
qed

lemma bitmap_index_some: "bitmap_index n = Some (unat n div 64)"
proof -
  have d: "unat (drop_bit 6 (ucast n :: u64)) = unat n div 64" by (simp add: drop_bit_word_unat)
  moreover have "unat n div 64 < 2 ^ 58" using unsigned_less [of n, where 'a = nat] by simp
  ultimately have "drop_bit 6 (ucast n :: u64) AND mask 58 = drop_bit 6 (ucast n)"
    by (simp add: take_bit_self flip: take_bit_eq_mask)
  with d show ?thesis by (simp add: bitmap_index_def bits_def bits_extract_def shr64_def bits_mask_some)
qed

lemma bitmap_test_some: "unat n div 64 < length bm \<Longrightarrow> bitmap_test bm n = Some (bm_bit bm (unat n))"
  by (simp add: bitmap_test_def bitmap_index_some bitmap_bit_some entry_def bit_ops bm_bit_def)

lemma bm_bit_update:
  assumes "i < length bm"
  shows "bm_bit (bm[i := e]) n \<longleftrightarrow> (if n div 64 = i then bit e (n mod 64) else bm_bit bm n)"
  using assms by (auto simp: bm_bit_def nth_list_update)

lemma position_eq: "n = m \<longleftrightarrow> n div 64 = m div 64 \<and> n mod 64 = m mod (64 :: nat)"
  by (metis mult_div_mod_eq)

lemma bitmap_set_bits:
  assumes "unat n div 64 < length bm"
  shows "\<exists>bm'. bitmap_set bm n = Some bm' \<and> length bm' = length bm \<and> (\<forall>k. bm_bit bm' k \<longleftrightarrow> bm_bit bm k \<or> k = unat n)"
    and "\<exists>bm'. bitmap_clear bm n = Some bm' \<and> length bm' = length bm \<and> (\<forall>k. bm_bit bm' k \<longleftrightarrow> bm_bit bm k \<and> k \<noteq> unat n)"
proof -
  let ?i = "unat n div 64" and ?b = "int (unat n mod 64)"
  have b: "0 \<le> ?b" "?b < 64" by simp_all
  obtain y where y: "bit_set (bm ! ?i) ?b = Some y" "\<And>k. bit y k \<longleftrightarrow> bit (bm ! ?i) k \<or> k = unat n mod 64"
    using bit_ops(2) [OF b, of "bm ! ?i"] by auto
  obtain z where z: "bit_clear (bm ! ?i) ?b = Some z" "\<And>k. bit z k \<longleftrightarrow> bit (bm ! ?i) k \<and> k \<noteq> unat n mod 64"
    using bit_ops(3) [OF b, of "bm ! ?i"] by auto
  have "bm_bit (bm[?i := y]) k \<longleftrightarrow> bm_bit bm k \<or> k = unat n" "bm_bit (bm[?i := z]) k \<longleftrightarrow> bm_bit bm k \<and> k \<noteq> unat n" for k
    unfolding bm_bit_update [OF assms] position_eq [of k "unat n"] using assms y(2) z(2)
    by (auto simp: bm_bit_def)
  then show "\<exists>bm'. bitmap_set bm n = Some bm' \<and> length bm' = length bm \<and> (\<forall>k. bm_bit bm' k \<longleftrightarrow> bm_bit bm k \<or> k = unat n)"
    "\<exists>bm'. bitmap_clear bm n = Some bm' \<and> length bm' = length bm \<and> (\<forall>k. bm_bit bm' k \<longleftrightarrow> bm_bit bm k \<and> k \<noteq> unat n)"
    using assms y(1) z(1) by (simp_all add: bitmap_set_def bitmap_clear_def bitmap_index_some bitmap_bit_some entry_def)
qed

section \<open>Searching\<close>

lemma scan_down_highest:
  assumes "\<And>j. j < i \<Longrightarrow> f j = Some (e j)" and "\<And>j b. j < i \<Longrightarrow> 0 \<le> b \<Longrightarrow> b < 64 \<Longrightarrow> res j b = Some (64 * int j + b)"
  shows "\<exists>r. scan_down f res i = Some r \<and> highest (\<lambda>n. n div 64 < i \<and> bit (e (n div 64)) (n mod 64)) r"
  using assms
proof (induction i)
  case 0
  then show ?case by (simp add: highest_def)
next
  case (Suc i)
  let ?P = "\<lambda>n. n div 64 < Suc i \<and> bit (e (n div 64)) (n mod 64)"
  have fi: "f i = Some (e i)" using Suc.prems(1) by simp
  show ?case
  proof (cases "e i = 0")
    case True
    then have "?P n \<longleftrightarrow> n div 64 < i \<and> bit (e (n div 64)) (n mod 64)" for n by (auto simp: less_Suc_eq)
    with Suc.IH Suc.prems True fi show ?thesis by (simp add: highest_cong [of ?P])
  next
    case False
    with bit_first_highest [of "e i"] word_nonzero_bit [of "e i"]
    obtain k where k: "bit_first (e i) = int k" "bit (e i) k" "\<And>n. bit (e i) n \<Longrightarrow> n \<le> k"
      by (auto simp: highest_def)
    have k64: "k < 64" using k(2) by (rule bit_imp_less_64)
    have P: "?P (64 * i + k)" using k k64 by simp
    have "n \<le> 64 * i + k" if "?P n" for n
    proof (cases "n div 64 = i")
      case True
      with that k(3) have "n mod 64 \<le> k" by auto
      with True show ?thesis using div_mult_mod_eq [of n 64] by simp
    next
      case False
      with that have "n div 64 + 1 \<le> i" by simp
      then show ?thesis using div_mult_mod_eq [of n 64] mod_less_divisor [of 64 n] by linarith
    qed
    with P False fi k k64 Suc.prems(2) [of i "int k"] show ?thesis
      by (auto simp: highest_def intro!: exI [of _ "64 * i + k"])
  qed
qed

lemma scan_up_lowest:
  assumes "\<And>j. i \<le> j \<Longrightarrow> j < i + k \<Longrightarrow> f j = Some (e j)"
    and "\<And>j b. j < i + k \<Longrightarrow> 0 \<le> b \<Longrightarrow> b < 64 \<Longrightarrow> res j b = Some (64 * int j + b)"
  shows "\<exists>r. scan_up f res i k = Some r \<and> lowest (\<lambda>n. i \<le> n div 64 \<and> n div 64 < i + k \<and> bit (e (n div 64)) (n mod 64)) r"
  using assms
proof (induction k arbitrary: i)
  case 0
  then show ?case by (simp add: lowest_def)
next
  case (Suc k)
  let ?P = "\<lambda>n. i \<le> n div 64 \<and> n div 64 < i + Suc k \<and> bit (e (n div 64)) (n mod 64)"
  have fi: "f i = Some (e i)" using Suc.prems(1) by simp
  show ?case
  proof (cases "e i = 0")
    case True
    have "?P n \<longleftrightarrow> Suc i \<le> n div 64 \<and> n div 64 < Suc i + k \<and> bit (e (n div 64)) (n mod 64)" for n
      using True by (cases "n div 64 = i") auto
    moreover have "\<exists>r. scan_up f res (Suc i) k = Some r \<and>
        lowest (\<lambda>n. Suc i \<le> n div 64 \<and> n div 64 < Suc i + k \<and> bit (e (n div 64)) (n mod 64)) r"
      by (rule Suc.IH) (use Suc.prems in auto)
    ultimately show ?thesis using True fi by (simp add: lowest_cong [of ?P])
  next
    case False
    with lsb_first_lowest [of "e i"] word_nonzero_bit [of "e i"]
    obtain b where b: "lsb_first (e i) = int b" "bit (e i) b" "\<And>n. bit (e i) n \<Longrightarrow> b \<le> n"
      by (auto simp: lowest_def)
    have b64: "b < 64" using b(2) by (rule bit_imp_less_64)
    have P: "?P (64 * i + b)" using b b64 by simp
    have "64 * i + b \<le> n" if "?P n" for n
    proof (cases "n div 64 = i")
      case True
      with that b(3) have "b \<le> n mod 64" by auto
      with True show ?thesis using div_mult_mod_eq [of n 64] by simp
    next
      case False
      with that have "i + 1 \<le> n div 64" by simp
      then show ?thesis using div_mult_mod_eq [of n 64] b64 by linarith
    qed
    with P False fi b b64 Suc.prems(2) [of i "int b"] show ?thesis
      by (auto simp: lowest_def intro!: exI [of _ "64 * i + b"])
  qed
qed

text \<open>A bitmap for a number of bits: as many entries as the macro computes, positions that fit \<^verbatim>\<open>int\<close>.\<close>

definition bitmap_for :: "u32 \<Rightarrow> u64 list \<Rightarrow> bool" where
  "bitmap_for nbits bm \<longleftrightarrow> 0 < unat nbits \<and> unat nbits \<le> 2 ^ 31 \<and> (unat nbits + 63) div 64 \<le> length bm"

definition bm_in :: "u32 \<Rightarrow> u64 list \<Rightarrow> nat \<Rightarrow> bool" where
  "bm_in nbits bm n \<longleftrightarrow> n div 64 < (unat nbits + 63) div 64 \<and> bm_bit bm n"

lemma entries_eq: "0 < n \<Longrightarrow> (n + 63) div 64 = Suc ((n - 1) div (64 :: nat))"
  by simp

lemma last_entry:
  assumes "bitmap_for nbits bm"
  shows "bitmap_index (nbits - 1) = Some ((unat nbits + 63) div 64 - 1)" and "0 < (unat nbits + 63) div 64"
    and "(unat nbits + 63) div 64 \<le> 2 ^ 25" and "(unat nbits + 63) div 64 \<le> length bm"
proof -
  have p: "0 < unat nbits" using assms by (simp add: bitmap_for_def)
  then have "nbits \<noteq> 0" by auto
  then have "unat (nbits - 1) = unat nbits - 1" by (simp add: unat_minus_one)
  moreover have "(unat nbits + 63) div 64 = Suc ((unat nbits - 1) div 64)" using p by (rule entries_eq)
  ultimately show "bitmap_index (nbits - 1) = Some ((unat nbits + 63) div 64 - 1)" "0 < (unat nbits + 63) div 64"
    by (simp_all add: bitmap_index_some)
  have "(unat nbits + 63) div 64 \<le> (2 ^ 31 + 63) div 64" using assms by (intro div_le_mono) (simp add: bitmap_for_def)
  then show "(unat nbits + 63) div 64 \<le> 2 ^ 25" by simp
  show "(unat nbits + 63) div 64 \<le> length bm" using assms by (simp add: bitmap_for_def)
qed

lemma int_pos_some: "j < 2 ^ 25 \<Longrightarrow> 0 \<le> b \<Longrightarrow> b < 64 \<Longrightarrow> int_pos j b = Some (64 * int j + b)"
  by (simp add: int_pos_def)

lemma cast_pos_some:
  assumes "j < 2 ^ 25" and "0 \<le> b" and "b < 64"
  shows "cast_pos j b = Some (64 * int j + b)"
proof -
  have "signed_take_bit 31 (64 * int j + b) = 64 * int j + b"
    using assms by (intro signed_take_bit_int_eq_self) auto
  moreover have "sint (word_of_int x :: u32) = signed_take_bit 31 x" for x
    by (simp only: sint_sbintrunc') simp
  ultimately show ?thesis unfolding cast_pos_def by (simp only:)
qed

lemma bitmap_first_highest:
  assumes "bitmap_for nbits bm"
  shows "\<exists>r. bitmap_first bm nbits = Some r \<and> highest (bm_in nbits bm) r"
proof -
  let ?l = "(unat nbits + 63) div 64"
  note l = last_entry [OF assms]
  have "\<exists>r. scan_down (entry bm) int_pos ?l = Some r \<and> highest (\<lambda>n. n div 64 < ?l \<and> bit (bm ! (n div 64)) (n mod 64)) r"
    by (rule scan_down_highest) (use l in \<open>auto simp: entry_def intro: int_pos_some\<close>)
  moreover have "bm_in nbits bm = (\<lambda>n. n div 64 < ?l \<and> bit (bm ! (n div 64)) (n mod 64))"
    using l(4) by (auto simp: fun_eq_iff bm_in_def bm_bit_def)
  ultimately show ?thesis using l(1,2) by (simp add: bitmap_first_def del: scan_down.simps)
qed

lemma bitmap_lsb_first_lowest:
  assumes "bitmap_for nbits bm"
  shows "\<exists>r. bitmap_lsb_first bm nbits = Some r \<and> lowest (bm_in nbits bm) r"
proof -
  let ?l = "(unat nbits + 63) div 64"
  note l = last_entry [OF assms]
  have "\<exists>r. scan_up (entry bm) cast_pos 0 ?l = Some r \<and>
      lowest (\<lambda>n. 0 \<le> n div 64 \<and> n div 64 < 0 + ?l \<and> bit (bm ! (n div 64)) (n mod 64)) r"
    by (rule scan_up_lowest) (use l in \<open>auto simp: entry_def intro: cast_pos_some\<close>)
  moreover have "bm_in nbits bm = (\<lambda>n. 0 \<le> n div 64 \<and> n div 64 < 0 + ?l \<and> bit (bm ! (n div 64)) (n mod 64))"
    using l(4) by (auto simp: fun_eq_iff bm_in_def bm_bit_def)
  ultimately show ?thesis using l(1,2) by (simp add: bitmap_lsb_first_def del: scan_up.simps)
qed

text \<open>A search in one entry first and then in the entries on its far side.\<close>

lemma highest_two:
  assumes P: "highest P r" and Q: "highest Q q" and R: "\<And>n. R n \<longleftrightarrow> P' n \<or> Q n"
    and P': "\<And>n. P' n \<longleftrightarrow> (\<exists>k. P k \<and> n = c + k)" and c: "\<And>n. Q n \<Longrightarrow> n < c"
  shows "highest R (if r \<ge> 0 then int c + r else q)"
proof (cases "\<exists>n. P n")
  case True
  with P obtain k where k: "r = int k" "P k" "\<And>n. P n \<Longrightarrow> n \<le> k" by (auto simp: highest_def)
  have "R (c + k)" using R P' k(2) by blast
  moreover have "n \<le> c + k" if "R n" for n
    using that R P' k(3) c by (metis add_le_cancel_left less_or_eq_imp_le trans_le_add1)
  ultimately show ?thesis using k(1) by (auto simp: highest_def intro!: exI [of _ "c + k"])
next
  case False
  then have "r = -1" using P by (simp add: highest_def)
  moreover have "R n \<longleftrightarrow> Q n" for n using R P' False by blast
  ultimately show ?thesis using Q by (simp add: highest_cong [of R Q])
qed

lemma lowest_two:
  assumes P: "lowest P r" and Q: "lowest Q q" and R: "\<And>n. R n \<longleftrightarrow> P' n \<or> Q n"
    and P': "\<And>n. P' n \<longleftrightarrow> (\<exists>k. P k \<and> n = c + k)" and c: "\<And>n k. Q n \<Longrightarrow> P k \<Longrightarrow> c + k \<le> n"
  shows "lowest R (if r \<ge> 0 then int c + r else q)"
proof (cases "\<exists>n. P n")
  case True
  with P obtain k where k: "r = int k" "P k" "\<And>n. P n \<Longrightarrow> k \<le> n" by (auto simp: lowest_def)
  have "R (c + k)" using R P' k(2) by blast
  moreover have "c + k \<le> n" if "R n" for n
    using that R P' k(2,3) c by (metis add_le_cancel_left)
  ultimately show ?thesis using k(1) by (auto simp: lowest_def intro!: exI [of _ "c + k"])
next
  case False
  then have "r = -1" using P by (simp add: lowest_def)
  moreover have "R n \<longleftrightarrow> Q n" for n using R P' False by blast
  ultimately show ?thesis using Q by (simp add: lowest_cong [of R Q])
qed

lemma same_entry:
  "n div 64 = i \<and> bit (x :: u64) (n mod 64) \<and> Q (n mod 64) \<longleftrightarrow> (\<exists>k. (bit x k \<and> Q k) \<and> n = 64 * i + k)"
proof
  assume "n div 64 = i \<and> bit x (n mod 64) \<and> Q (n mod 64)"
  moreover then have "n = 64 * i + n mod 64" by auto
  ultimately show "\<exists>k. (bit x k \<and> Q k) \<and> n = 64 * i + k" by blast
next
  assume "\<exists>k. (bit x k \<and> Q k) \<and> n = 64 * i + k"
  then obtain k where "bit x k" "Q k" "n = 64 * i + k" by blast
  moreover from \<open>bit x k\<close> have "k < 64" by (rule bit_imp_less_64)
  ultimately show "n div 64 = i \<and> bit x (n mod 64) \<and> Q (n mod 64)" by simp
qed

lemma below_split:
  fixes p :: nat
  assumes "0 < p" and "i = (p - 1) div 64"
  shows "n < p \<longleftrightarrow> n div 64 < i \<or> n div 64 = i \<and> (p mod 64 = 0 \<or> n mod 64 < p mod 64)"
proof (cases "p mod 64 = 0")
  case True
  then obtain q where q: "p = 64 * q" by auto
  then obtain q' where q': "q = Suc q'" using assms(1) by (cases q) auto
  have "(64 * Suc q' - 1) div 64 = q'" by simp
  then have "i = q'" using assms(2) q q' by simp
  then show ?thesis using True q q' div_mult_mod_eq [of n 64] mod_less_divisor [of 64 n] by auto
next
  case False
  have "p - 1 = 64 * (p div 64) + (p mod 64 - 1)" using False div_mult_mod_eq [of p 64] by linarith
  moreover have "p mod 64 - 1 < 64" by (meson less_imp_diff_less mod_less_divisor zero_less_numeral)
  ultimately have "(p - 1) div 64 = p div 64" by simp
  then have i: "i = p div 64" using assms(2) by simp
  show ?thesis
  proof
    assume "n < p"
    then have "n div 64 \<le> i" using i by (simp add: div_le_mono)
    moreover have "n mod 64 < p mod 64" if "n div 64 = i"
      using \<open>n < p\<close> that i div_mult_mod_eq [of n 64] div_mult_mod_eq [of p 64] by linarith
    ultimately show "n div 64 < i \<or> n div 64 = i \<and> (p mod 64 = 0 \<or> n mod 64 < p mod 64)" by auto
  next
    assume a: "n div 64 < i \<or> n div 64 = i \<and> (p mod 64 = 0 \<or> n mod 64 < p mod 64)"
    show "n < p"
    proof (cases "n div 64 < i")
      case True
      then have "n div 64 + 1 \<le> p div 64" using i by simp
      then show ?thesis using div_mult_mod_eq [of n 64] div_mult_mod_eq [of p 64] mod_less_divisor [of 64 n] by linarith
    next
      case no: False
      then show ?thesis using a False i div_mult_mod_eq [of n 64] div_mult_mod_eq [of p 64] by linarith
    qed
  qed
qed

lemma bitmap_next_highest:
  assumes f: "bitmap_for nbits bm" and p: "unat prev \<le> unat nbits"
  shows "\<exists>r. bitmap_next bm prev = Some r \<and> highest (\<lambda>n. n < unat prev \<and> bm_bit bm n) r"
proof (cases "prev = 0")
  case True
  then show ?thesis by (simp add: bitmap_next_def highest_def)
next
  case False
  let ?p = "unat prev" and ?b = "int (unat prev mod 64)"
  define i where "i = (?p - 1) div 64"
  note l = last_entry [OF f]
  have pos: "0 < ?p" using False by (simp add: unat_gt_0)
  have u: "unat (prev - 1) = ?p - 1" using False by (simp add: unat_minus_one)
  have "(?p - 1) div 64 \<le> (unat nbits - 1) div 64" using p by (intro div_le_mono) simp
  moreover have "(unat nbits + 63) div 64 = Suc ((unat nbits - 1) div 64)"
    using f entries_eq [of "unat nbits"] by (simp add: bitmap_for_def)
  ultimately have i: "i < (unat nbits + 63) div 64" by (simp add: i_def)
  then have i': "i < length bm" "i < 2 ^ 25" using l by simp_all
  obtain r where r: "bit_next0 (bm ! i) ?b = Some r" "highest (\<lambda>n. bit (bm ! i) n \<and> (?b = 0 \<or> n < nat ?b)) r"
    using bit_next0_highest [of ?b "bm ! i"] by auto
  have "\<exists>q. scan_down (entry bm) cast_pos i = Some q \<and> highest (\<lambda>n. n div 64 < i \<and> bit (bm ! (n div 64)) (n mod 64)) q"
    by (rule scan_down_highest) (use i' in \<open>auto simp: entry_def intro: cast_pos_some\<close>)
  then obtain q where q: "scan_down (entry bm) cast_pos i = Some q"
      "highest (\<lambda>n. n div 64 < i \<and> bit (bm ! (n div 64)) (n mod 64)) q" by blast
  have "highest (\<lambda>n. n < ?p \<and> bm_bit bm n) (if r \<ge> 0 then int (64 * i) + r else q)"
  proof (rule highest_two [OF r(2) q(2), where c = "64 * i"])
    show "n < ?p \<and> bm_bit bm n \<longleftrightarrow>
        (n div 64 = i \<and> bit (bm ! i) (n mod 64) \<and> (?p mod 64 = 0 \<or> n mod 64 < ?p mod 64)) \<or>
        (n div 64 < i \<and> bit (bm ! (n div 64)) (n mod 64))" for n
      unfolding below_split [OF pos i_def] using i'(1) by (auto simp: bm_bit_def)
    show "(n div 64 = i \<and> bit (bm ! i) (n mod 64) \<and> (?p mod 64 = 0 \<or> n mod 64 < ?p mod 64)) \<longleftrightarrow>
        (\<exists>k. (bit (bm ! i) k \<and> (?b = 0 \<or> k < nat ?b)) \<and> n = 64 * i + k)" for n
      using same_entry [of n i "bm ! i" "\<lambda>k. ?p mod 64 = 0 \<or> k < ?p mod 64"] by simp
    show "n < 64 * i" if "n div 64 < i \<and> bit (bm ! (n div 64)) (n mod 64)" for n
      using that div_mult_mod_eq [of n 64] mod_less_divisor [of 64 n] by linarith
  qed
  moreover have "r < 64"
    using r(2) by (auto simp: highest_def split: if_splits dest: bit_imp_less_64)
  moreover have "bitmap_index (prev - 1) = Some i" by (simp only: bitmap_index_some u i_def)
  then have "bitmap_next bm prev = (if r \<ge> 0 then cast_pos i r else Some q)"
    using False i' r(1) q(1) by (simp add: bitmap_next_def bitmap_bit_some entry_def)
  ultimately show ?thesis using cast_pos_some [OF i'(2), of r] by (simp split: if_splits)
qed

lemma above_split:
  fixes p :: nat
  assumes "i = p div 64"
  shows "p \<le> n \<longleftrightarrow> i < n div 64 \<or> n div 64 = i \<and> p mod 64 \<le> n mod 64"
proof -
  note d = div_mult_mod_eq [of n 64] div_mult_mod_eq [of p 64] mod_less_divisor [of 64 n] mod_less_divisor [of 64 p]
  show ?thesis
  proof (cases "i < n div 64")
    case True
    then have "p div 64 + 1 \<le> n div 64" using assms by simp
    then have "p \<le> n" using d by linarith
    with True show ?thesis by simp
  next
    case False
    show ?thesis
    proof (cases "n div 64 = i")
      case True
      then show ?thesis using d assms by linarith
    next
      case no: False
      then have "n div 64 + 1 \<le> p div 64" using assms False by simp
      then have "\<not> p \<le> n" using d by linarith
      with False no show ?thesis by simp
    qed
  qed
qed

lemma bitmap_lsb_next_lowest:
  assumes f: "bitmap_for nbits bm" and p: "unat prev < 2 ^ 32 - 1"
  shows "\<exists>r. bitmap_lsb_next bm nbits prev = Some r \<and>
    lowest (\<lambda>n. unat prev + 1 < unat nbits \<and> unat prev < n \<and> bm_in nbits bm n) r"
proof -
  let ?p = "unat prev + 1" and ?l = "(unat nbits + 63) div 64"
  have u: "unat (prev + 1) = ?p" using p by (simp add: unat_word_ariths)
  show ?thesis
  proof (cases "?p < unat nbits")
    case False
    then have "prev + 1 \<ge> nbits" using u by (simp add: word_le_nat_alt)
    with False show ?thesis by (simp add: bitmap_lsb_next_def lowest_def)
  next
    case True
    let ?b = "int (?p mod 64) - 1"
    define i where "i = ?p div 64"
    note l = last_entry [OF f]
    have "i \<le> (unat nbits - 1) div 64" unfolding i_def using True by (intro div_le_mono) simp
    moreover have "?l = Suc ((unat nbits - 1) div 64)" using f entries_eq [of "unat nbits"] by (simp add: bitmap_for_def)
    ultimately have i: "i < ?l" by simp
    then have i': "i < length bm" "i < 2 ^ 25" using l by simp_all
    obtain r where r: "lsb_next (bm ! i) ?b = Some r" "lowest (\<lambda>n. bit (bm ! i) n \<and> ?b < int n) r"
      using lsb_next_lowest [of ?b "bm ! i"] by auto
    have "\<exists>q. scan_up (entry bm) cast_pos (Suc i) (?l - 1 - i) = Some q \<and>
        lowest (\<lambda>n. Suc i \<le> n div 64 \<and> n div 64 < Suc i + (?l - 1 - i) \<and> bit (bm ! (n div 64)) (n mod 64)) q"
      by (rule scan_up_lowest) (use i l in \<open>auto simp: entry_def intro: cast_pos_some\<close>)
    then obtain q where q: "scan_up (entry bm) cast_pos (Suc i) (?l - 1 - i) = Some q"
        "lowest (\<lambda>n. Suc i \<le> n div 64 \<and> n div 64 < ?l \<and> bit (bm ! (n div 64)) (n mod 64)) q"
      using i by auto
    have "lowest (\<lambda>n. ?p < unat nbits \<and> unat prev < n \<and> bm_in nbits bm n) (if r \<ge> 0 then int (64 * i) + r else q)"
    proof (rule lowest_two [OF r(2) q(2), where c = "64 * i"])
      show "?p < unat nbits \<and> unat prev < n \<and> bm_in nbits bm n \<longleftrightarrow>
          (n div 64 = i \<and> bit (bm ! i) (n mod 64) \<and> ?p mod 64 \<le> n mod 64) \<or>
          (Suc i \<le> n div 64 \<and> n div 64 < ?l \<and> bit (bm ! (n div 64)) (n mod 64))" for n
        using above_split [OF i_def, of n] True i l(4) by (auto simp: bm_in_def bm_bit_def)
      show "(n div 64 = i \<and> bit (bm ! i) (n mod 64) \<and> ?p mod 64 \<le> n mod 64) \<longleftrightarrow>
          (\<exists>k. (bit (bm ! i) k \<and> ?b < int k) \<and> n = 64 * i + k)" for n
      proof -
        have "?b < int k \<longleftrightarrow> ?p mod 64 \<le> k" for k by linarith
        then show ?thesis using same_entry [of n i "bm ! i" "\<lambda>k. ?p mod 64 \<le> k"] by simp
      qed
      show "64 * i + k \<le> n" if "Suc i \<le> n div 64 \<and> n div 64 < ?l \<and> bit (bm ! (n div 64)) (n mod 64)"
          "bit (bm ! i) k \<and> ?b < int k" for n k
        using that bit_imp_less_64 [of "bm ! i" k] div_mult_mod_eq [of n 64] by linarith
    qed
    moreover have "r < 64"
      using r(2) by (auto simp: lowest_def split: if_splits dest: bit_imp_less_64)
    moreover have "\<not> prev + 1 \<ge> nbits" using True u by (simp add: word_le_nat_alt)
    moreover have "bitmap_index (prev + 1) = Some i" "bitmap_bit (prev + 1) = Some (int (?p mod 64))"
      by (simp_all only: bitmap_index_some bitmap_bit_some u i_def)
    ultimately have "bitmap_lsb_next bm nbits prev = (if r \<ge> 0 then cast_pos i r else Some q)"
      using i' r(1) q(1) l(1) by (simp add: bitmap_lsb_next_def entry_def)
    with \<open>lowest _ (if r \<ge> 0 then int (64 * i) + r else q)\<close> \<open>r < 64\<close> show ?thesis
      using cast_pos_some [OF i'(2), of r] by (simp split: if_splits)
  qed
qed

text \<open>
  C34. Searching a bitmap, for every contents and every number of bits up to \<open>2 ^ 31\<close>: the first
  bit found is the highest one set, the least significant first is the lowest one set, the next
  bit below a position is the highest one set below it, and the next one above a position is
  the lowest one set above it; each answer is \<open>-1\<close> when there is no such bit. The whole last
  entry is searched, also the part of it behind the last bit.
\<close>

theorem bitmap_search:
  assumes "bitmap_for nbits bm" and "unat prev \<le> unat nbits"
  shows "(\<exists>r. bitmap_first bm nbits = Some r \<and> highest (bm_in nbits bm) r) \<and>
    (\<exists>r. bitmap_lsb_first bm nbits = Some r \<and> lowest (bm_in nbits bm) r) \<and>
    (\<exists>r. bitmap_next bm prev = Some r \<and> highest (\<lambda>n. n < unat prev \<and> bm_bit bm n) r) \<and>
    (\<exists>r. bitmap_lsb_next bm nbits prev = Some r \<and>
      lowest (\<lambda>n. unat prev + 1 < unat nbits \<and> unat prev < n \<and> bm_in nbits bm n) r)"
proof -
  have "unat prev < 2 ^ 32 - 1" using assms by (simp add: bitmap_for_def)
  then show ?thesis
    using bitmap_first_highest [OF assms(1)] bitmap_lsb_first_lowest [OF assms(1)]
      bitmap_next_highest [OF assms] bitmap_lsb_next_lowest [OF assms(1)] by simp
qed

theorem bitmap_search_witness:
  "\<exists>r. bitmap_next [0x11, 0x8] 67 = Some r \<and> highest (\<lambda>n. n < 67 \<and> bm_bit [0x11, 0x8] n) r"
proof -
  have "bitmap_for 100 [0x11, 0x8]" "unat (67 :: u32) \<le> unat (100 :: u32)" by (simp_all add: bitmap_for_def)
  from bitmap_search [OF this] show ?thesis by simp
qed

section \<open>Changing bitmaps\<close>

lemma bitmap_size_entries:
  assumes "unat nbits \<le> 2 ^ 31"
  shows "unat (BITMAP_SIZE nbits) div 8 = (unat nbits + 63) div 64"
proof -
  have "unat (nbits + 63) = unat nbits + 63" using assms by (simp add: unat_word_ariths)
  then have l: "unat (BITMAP_LEN nbits) = (unat nbits + 63) div 64" by (simp add: BITMAP_LEN_def drop_bit_word_unat)
  have "(unat nbits + 63) div 64 \<le> (2 ^ 31 + 63) div 64" using assms by (intro div_le_mono) simp
  then have "8 * ((unat nbits + 63) div 64) < 2 ^ 32" by simp
  then have "unat (BITMAP_SIZE nbits) = 8 * unat (BITMAP_LEN nbits)"
    by (simp add: BITMAP_SIZE_def push_bit_eq_mult unat_word_ariths l)
  then show ?thesis by (simp add: l)
qed

lemma fill_bits:
  assumes "bitmap_for nbits bm"
  shows "\<exists>bm'. fill bm v (BITMAP_SIZE nbits) = Some bm' \<and> length bm' = length bm \<and>
    (\<forall>k. bm_bit bm' k \<longleftrightarrow> (if k div 64 < (unat nbits + 63) div 64 then bit v (k mod 64) else bm_bit bm k))"
proof -
  let ?n = "(unat nbits + 63) div 64"
  have n: "unat (BITMAP_SIZE nbits) div 8 = ?n" "?n \<le> length bm"
    using assms bitmap_size_entries by (simp_all add: bitmap_for_def)
  then have "fill bm v (BITMAP_SIZE nbits) = Some (replicate ?n v @ drop ?n bm)" by (simp add: fill_def Let_def)
  with n(2) show ?thesis by (auto simp: bm_bit_def nth_append)
qed

text \<open>
  C35. What each change of a bitmap does to every bit of the memory it is given, for every contents.
  Clearing and filling the whole map work on whole entries of 64 bits: every bit of the entries the map occupies is
  cleared or set, also those behind its last bit, and every bit of the memory after those entries is as it
  was. Setting or clearing one bit changes that bit and no other, and testing a bit reads it.
  Allocation gives memory whose entries of the map are cleared, or none when memory is short.
\<close>

theorem bitmap_updates:
  assumes f: "bitmap_for nbits bm" and n: "unat n < unat nbits"
    and k: "kalloc (BITMAP_SIZE nbits) = Some bm \<or> kalloc (BITMAP_SIZE nbits) = None"
  shows "(\<exists>bm'. bitmap_zero bm nbits = Some bm' \<and> length bm' = length bm \<and>
      (\<forall>k. bm_bit bm' k \<longleftrightarrow> bm_bit bm k \<and> (unat nbits + 63) div 64 \<le> k div 64)) \<and>
    (\<exists>bm'. bitmap_full bm nbits = Some bm' \<and> length bm' = length bm \<and>
      (\<forall>k. bm_bit bm' k \<longleftrightarrow> bm_bit bm k \<or> k div 64 < (unat nbits + 63) div 64)) \<and>
    (\<exists>bm'. bitmap_set bm n = Some bm' \<and> length bm' = length bm \<and> (\<forall>k. bm_bit bm' k \<longleftrightarrow> bm_bit bm k \<or> k = unat n)) \<and>
    (\<exists>bm'. bitmap_clear bm n = Some bm' \<and> length bm' = length bm \<and> (\<forall>k. bm_bit bm' k \<longleftrightarrow> bm_bit bm k \<and> k \<noteq> unat n)) \<and>
    bitmap_test bm n = Some (bm_bit bm (unat n)) \<and>
    (case kalloc (BITMAP_SIZE nbits) of None \<Rightarrow> bitmap_alloc kalloc nbits = Some None
     | Some m \<Rightarrow> \<exists>bm'. bitmap_alloc kalloc nbits = Some (Some bm') \<and> length bm' = length m \<and>
         (\<forall>k. bm_bit bm' k \<longleftrightarrow> bm_bit m k \<and> (unat nbits + 63) div 64 \<le> k div 64))"
proof -
  have "unat n div 64 \<le> (unat nbits - 1) div 64" using n by (intro div_le_mono) simp
  then have i: "unat n div 64 < length bm"
    using entries_eq [of "unat nbits"] f by (simp add: bitmap_for_def)
  have z: "\<exists>bm'. bitmap_zero bm nbits = Some bm' \<and> length bm' = length bm \<and>
      (\<forall>k. bm_bit bm' k \<longleftrightarrow> bm_bit bm k \<and> (unat nbits + 63) div 64 \<le> k div 64)"
    using fill_bits [OF f, of 0] by (auto simp: bitmap_zero_def)
  have "\<exists>bm'. bitmap_full bm nbits = Some bm' \<and> length bm' = length bm \<and>
      (\<forall>k. bm_bit bm' k \<longleftrightarrow> bm_bit bm k \<or> k div 64 < (unat nbits + 63) div 64)"
    using fill_bits [OF f, of "-1"] by (auto simp: bitmap_full_def bit_minus_1_iff)
  moreover have "nbits \<noteq> 0" using f by (auto simp: bitmap_for_def)
  then have "case kalloc (BITMAP_SIZE nbits) of None \<Rightarrow> bitmap_alloc kalloc nbits = Some None
     | Some m \<Rightarrow> \<exists>bm'. bitmap_alloc kalloc nbits = Some (Some bm') \<and> length bm' = length m \<and>
         (\<forall>k. bm_bit bm' k \<longleftrightarrow> bm_bit m k \<and> (unat nbits + 63) div 64 \<le> k div 64)"
    using k z by (auto simp: bitmap_alloc_def)
  ultimately show ?thesis using z bitmap_set_bits [OF i] bitmap_test_some [OF i] by blast
qed

theorem bitmap_updates_witness:
  "\<exists>bm'. bitmap_set [0, 0] 70 = Some bm' \<and> (\<forall>k. bm_bit bm' k \<longleftrightarrow> bm_bit [0, 0] k \<or> k = 70)"
proof -
  have "bitmap_for 100 [0, 0]" "unat (70 :: u32) < unat (100 :: u32)"
      "(\<lambda>_. Some [0, 0]) (BITMAP_SIZE 100) = Some [0, 0 :: u64] \<or> (\<lambda>_. Some [0, 0 :: u64]) (BITMAP_SIZE 100) = None"
    by (simp_all add: bitmap_for_def)
  from bitmap_updates [OF this] show ?thesis by auto
qed

text \<open>
  Two corners of the header. Filling a map of ten bits and then asking for its first bit gives
  position 63, which is not one of the ten; and a rotation by a multiple of 64 shifts by 64,
  which has no defined value.
\<close>

lemma bitmap_full_first: "bitmap_full [0] 10 \<bind> (\<lambda>bm. bitmap_first bm 10) = Some 63"
proof -
  have s: "unat (BITMAP_SIZE 10) div 8 = 1" by (simp add: BITMAP_SIZE_def BITMAP_LEN_def)
  have f: "bitmap_for 10 [- 1]" by (simp add: bitmap_for_def)
  from bitmap_first_highest [OF f] obtain r where r: "bitmap_first [- 1] 10 = Some r" "highest (bm_in 10 [- 1]) r" by blast
  have b: "bm_in 10 [- 1] k \<longleftrightarrow> k < 64" for k
    by (simp add: bm_in_def bm_bit_def bit_minus_1_iff div_less_iff_less_mult) auto
  have "r = 63"
  proof -
    have "highest (\<lambda>k. k < 64) r" by (rule highest_cong [THEN iffD1, OF b r(2)])
    moreover have "\<exists>n. n < (64 :: nat)" by (rule exI [of _ 0]) simp
    ultimately obtain k where k: "r = int k" "k < 64" "\<forall>n. n < 64 \<longrightarrow> n \<le> k" unfolding highest_def by (simp only: if_True) blast
    from k(3) have "63 \<le> k" by simp
    with k show ?thesis by simp
  qed
  with r(1) s show ?thesis by (simp add: bitmap_full_def fill_def)
qed

lemma bit_ror64_undefined: "unat n mod 64 = 0 \<Longrightarrow> bit_ror64 x n = None \<and> bit_rol64 x n = None"
proof -
  assume "unat n mod 64 = 0"
  moreover have "n AND 63 = take_bit 6 n" by (simp add: take_bit_eq_mask mask_numeral)
  ultimately have "n AND 63 = 0"
    by (simp add: word_unat_eq_iff unsigned_take_bit_eq) (simp add: take_bit_eq_mod)
  then show ?thesis by (simp add: bit_ror64_def bit_rol64_def shl64_def shr64_def Let_def)
qed

end
