(* ===== verification/KernArith.thy ===== *)
theory KernArith
  imports XePrelude "HOL-Library.Monad_Syntax"
begin

text \<open>
  Arithmetic of the kernel headers: the overflow-checked operations of \<^verbatim>\<open>os/overflow.h\<close>, the 64 by 64
  bit product of \<^verbatim>\<open>kern/arithmetic_128.h\<close> in its two variants, and the time values of
  \<^verbatim>\<open>mach/time_value.h\<close>. The lemmas say when a composed check is exact, that the portable product
  equals the one that uses a 128-bit type, and that adding normalized times is exact.
\<close>

unbundle bit_operations_syntax

section \<open>Checked operations\<close>

text \<open>
  The compiler's \<^verbatim>\<open>__builtin_add_overflow\<close> and its companions: they work on the mathematical values of their
  operands, store the result reduced to the type of the destination, and report whether that
  changed it. A type is given by its width and its signedness.
\<close>

record c_int_type =
  ct_bits :: nat
  ct_signed :: bool

definition ct_wrap :: "c_int_type \<Rightarrow> int \<Rightarrow> int" where
  "ct_wrap T v = (if ct_signed T then signed_take_bit (ct_bits T - 1) v else take_bit (ct_bits T) v)"

definition ct_fits :: "c_int_type \<Rightarrow> int \<Rightarrow> bool" where
  "ct_fits T v \<longleftrightarrow> ct_wrap T v = v"

definition os_add_overflow :: "c_int_type \<Rightarrow> int \<Rightarrow> int \<Rightarrow> bool \<times> int" where
  "os_add_overflow T a b = (ct_wrap T (a + b) \<noteq> a + b, ct_wrap T (a + b))"

definition os_sub_overflow :: "c_int_type \<Rightarrow> int \<Rightarrow> int \<Rightarrow> bool \<times> int" where
  "os_sub_overflow T a b = (ct_wrap T (a - b) \<noteq> a - b, ct_wrap T (a - b))"

definition os_mul_overflow :: "c_int_type \<Rightarrow> int \<Rightarrow> int \<Rightarrow> bool \<times> int" where
  "os_mul_overflow T a b = (ct_wrap T (a * b) \<noteq> a * b, ct_wrap T (a * b))"

definition os_add3_overflow :: "c_int_type \<Rightarrow> int \<Rightarrow> int \<Rightarrow> int \<Rightarrow> bool \<times> int" where
  "os_add3_overflow T a b c =
     (let (s, tmp) = os_add_overflow T a b; (t, res) = os_add_overflow T c tmp in (s \<or> t, res))"

definition os_mul3_overflow :: "c_int_type \<Rightarrow> int \<Rightarrow> int \<Rightarrow> int \<Rightarrow> bool \<times> int" where
  "os_mul3_overflow T a b c =
     (let (s, tmp) = os_mul_overflow T a b; (t, res) = os_mul_overflow T c tmp in (s \<or> t, res))"

definition os_add_and_mul_overflow :: "c_int_type \<Rightarrow> int \<Rightarrow> int \<Rightarrow> int \<Rightarrow> bool \<times> int" where
  "os_add_and_mul_overflow T a b x =
     (let (s, tmp) = os_add_overflow T a b; (t, res) = os_mul_overflow T x tmp in (s \<or> t, res))"

definition os_mul_and_add_overflow :: "c_int_type \<Rightarrow> int \<Rightarrow> int \<Rightarrow> int \<Rightarrow> bool \<times> int" where
  "os_mul_and_add_overflow T a x b =
     (let (s, tmp) = os_mul_overflow T a x; (t, res) = os_add_overflow T b tmp in (s \<or> t, res))"

definition os_convert_overflow :: "c_int_type \<Rightarrow> int \<Rightarrow> bool \<times> int" where
  "os_convert_overflow T a = os_add_overflow T a 0"

definition os_inc_overflow :: "c_int_type \<Rightarrow> int \<Rightarrow> bool \<times> int" where
  "os_inc_overflow T res = os_add_overflow T res 1"

definition os_dec_overflow :: "c_int_type \<Rightarrow> int \<Rightarrow> bool \<times> int" where
  "os_dec_overflow T res = os_sub_overflow T res 1"

lemmas os_defs = os_add_overflow_def os_sub_overflow_def os_mul_overflow_def os_add3_overflow_def
  os_mul3_overflow_def os_add_and_mul_overflow_def os_mul_and_add_overflow_def os_convert_overflow_def
  os_inc_overflow_def os_dec_overflow_def ct_fits_def Let_def

lemma ct_wrap_mod:
  "0 < ct_bits T \<Longrightarrow> \<exists>k. ct_wrap T v = v + 2 ^ ct_bits T * k"
proof -
  assume "0 < ct_bits T"
  have "v mod 2 ^ ct_bits T = v + 2 ^ ct_bits T * - (v div 2 ^ ct_bits T)"
    by (simp add: minus_div_mult_eq_mod [symmetric])
  moreover have "signed_take_bit (ct_bits T - 1) v = v + 2 ^ ct_bits T * - ((v + 2 ^ (ct_bits T - 1)) div 2 ^ ct_bits T)"
    using \<open>0 < ct_bits T\<close>
    by (simp add: signed_take_bit_eq_take_bit_shift take_bit_eq_mod minus_div_mult_eq_mod [symmetric] algebra_simps)
  ultimately show ?thesis unfolding ct_wrap_def take_bit_eq_mod by metis
qed

lemma ct_wrap_cong: "a mod 2 ^ ct_bits T = b mod 2 ^ ct_bits T \<Longrightarrow> 0 < ct_bits T \<Longrightarrow> ct_wrap T a = ct_wrap T b"
proof -
  assume h: "a mod 2 ^ ct_bits T = b mod 2 ^ ct_bits T" "0 < ct_bits T"
  then have "(a + 2 ^ (ct_bits T - 1)) mod 2 ^ ct_bits T = (b + 2 ^ (ct_bits T - 1)) mod 2 ^ ct_bits T"
    by (metis mod_add_left_eq)
  with h show ?thesis by (simp add: ct_wrap_def signed_take_bit_eq_take_bit_shift take_bit_eq_mod)
qed

lemma ct_wrap_nested:
  assumes "0 < ct_bits T"
  shows "ct_wrap T (c + ct_wrap T v) = ct_wrap T (c + v)" and "ct_wrap T (c * ct_wrap T v) = ct_wrap T (c * v)"
proof -
  obtain k where k: "ct_wrap T v = v + 2 ^ ct_bits T * k" using ct_wrap_mod [OF assms] by blast
  show "ct_wrap T (c + ct_wrap T v) = ct_wrap T (c + v)" unfolding k
    by (rule ct_wrap_cong [OF _ assms]) (simp add: add.assoc [symmetric])
  show "ct_wrap T (c * ct_wrap T v) = ct_wrap T (c * v)" unfolding k
    by (rule ct_wrap_cong [OF _ assms]) (simp add: distrib_left mult.left_commute [of c])
qed

lemma ct_fits_unsigned: "\<not> ct_signed T \<Longrightarrow> ct_fits T v \<longleftrightarrow> 0 \<le> v \<and> v < 2 ^ ct_bits T"
  by (simp add: ct_fits_def ct_wrap_def take_bit_int_eq_self_iff)

text \<open>
  The composed operations, at every type: the stored result is the full expression reduced
  to the type, and it is exact whenever no overflow is reported. For unsigned types and operands
  the sum of three and the product plus an addend also report an overflow only if the result
  does not fit.
\<close>

theorem overflow_checks:
  assumes "0 < ct_bits T"
  shows "snd (os_add3_overflow T a b c) = ct_wrap T (a + b + c) \<and>
    snd (os_mul3_overflow T a b c) = ct_wrap T (a * b * c) \<and>
    snd (os_add_and_mul_overflow T a b c) = ct_wrap T ((a + b) * c) \<and>
    snd (os_mul_and_add_overflow T a b c) = ct_wrap T (a * b + c) \<and>
    (\<not> fst (os_add3_overflow T a b c) \<longrightarrow> snd (os_add3_overflow T a b c) = a + b + c) \<and>
    (\<not> fst (os_mul3_overflow T a b c) \<longrightarrow> snd (os_mul3_overflow T a b c) = a * b * c) \<and>
    (\<not> fst (os_add_and_mul_overflow T a b c) \<longrightarrow> snd (os_add_and_mul_overflow T a b c) = (a + b) * c) \<and>
    (\<not> fst (os_mul_and_add_overflow T a b c) \<longrightarrow> snd (os_mul_and_add_overflow T a b c) = a * b + c) \<and>
    (\<not> ct_signed T \<longrightarrow> 0 \<le> a \<longrightarrow> 0 \<le> b \<longrightarrow> 0 \<le> c \<longrightarrow>
      (fst (os_add3_overflow T a b c) \<longleftrightarrow> \<not> ct_fits T (a + b + c)) \<and>
      (fst (os_mul_and_add_overflow T a b c) \<longleftrightarrow> \<not> ct_fits T (a * b + c)))"
proof -
  note n = ct_wrap_nested [OF assms]
  have r: "snd (os_add3_overflow T a b c) = ct_wrap T (a + b + c)"
    "snd (os_mul3_overflow T a b c) = ct_wrap T (a * b * c)"
    "snd (os_add_and_mul_overflow T a b c) = ct_wrap T ((a + b) * c)"
    "snd (os_mul_and_add_overflow T a b c) = ct_wrap T (a * b + c)"
    by (simp_all add: os_defs n ac_simps)
  moreover have "(fst (os_add3_overflow T a b c) \<longleftrightarrow> \<not> ct_fits T (a + b + c)) \<and>
      (fst (os_mul_and_add_overflow T a b c) \<longleftrightarrow> \<not> ct_fits T (a * b + c))"
    if u: "\<not> ct_signed T" and p: "0 \<le> a" "0 \<le> b" "0 \<le> c"
  proof -
    have "fst (os_add3_overflow T a b c) \<longleftrightarrow> \<not> ct_fits T (a + b) \<or> \<not> ct_fits T (c + (a + b))"
      "fst (os_mul_and_add_overflow T a b c) \<longleftrightarrow> \<not> ct_fits T (a * b) \<or> \<not> ct_fits T (c + a * b)"
      by (auto simp: os_defs)
    then show ?thesis using p by (auto simp: ct_fits_unsigned [OF u] add.commute)
  qed
  moreover have "\<not> fst (os_add3_overflow T a b c) \<longrightarrow> ct_wrap T (a + b + c) = a + b + c"
    "\<not> fst (os_mul3_overflow T a b c) \<longrightarrow> ct_wrap T (a * b * c) = a * b * c"
    "\<not> fst (os_add_and_mul_overflow T a b c) \<longrightarrow> ct_wrap T ((a + b) * c) = (a + b) * c"
    "\<not> fst (os_mul_and_add_overflow T a b c) \<longrightarrow> ct_wrap T (a * b + c) = a * b + c"
    by (auto simp: os_defs n ac_simps)
  ultimately show ?thesis by auto
qed

theorem overflow_checks_witness:
  "os_add3_overflow \<lparr>ct_bits = 8, ct_signed = False\<rparr> 200 50 6 = (True, 0) \<and>
   snd (os_mul3_overflow \<lparr>ct_bits = 8, ct_signed = False\<rparr> 200 50 6) = 60000 mod 256"
  using overflow_checks [of "\<lparr>ct_bits = 8, ct_signed = False\<rparr>" 200 50 6]
  by (simp add: prod_eq_iff ct_fits_def ct_wrap_def take_bit_eq_mod)

text \<open>
  The flags are not exact otherwise: a product with a zero factor, and a sum of signed operands,
  can overflow on the way to a result that fits.
\<close>

lemma mul3_false_alarm: "os_mul3_overflow \<lparr>ct_bits = 32, ct_signed = False\<rparr> (2 ^ 20) (2 ^ 20) 0 = (True, 0)"
  by (simp add: os_defs ct_wrap_def take_bit_eq_mod)

lemma add3_false_alarm: "os_add3_overflow \<lparr>ct_bits = 8, ct_signed = True\<rparr> 127 1 (- 1) = (True, 127)"
  by (simp add: os_defs ct_wrap_def signed_take_bit_eq_take_bit_shift take_bit_eq_mod)

section \<open>The product of two 64-bit numbers\<close>

text \<open>The variant for targets with a 128-bit type, and the portable one.\<close>

definition multi_overflow :: "u64 \<Rightarrow> u64 \<Rightarrow> u64" where
  "multi_overflow a b = (let prod = (ucast a :: 128 word) * ucast b in ucast (drop_bit 64 prod))"

record uint128_data_t =
  u128_high :: u64
  u128_low :: u64

definition add128_128 :: "uint128_data_t \<Rightarrow> uint128_data_t \<Rightarrow> uint128_data_t" where
  "add128_128 acc add = (
     let acc = acc\<lparr>u128_high := u128_high acc + u128_high add\<rparr>;
         acc = acc\<lparr>u128_low := u128_low acc + u128_low add\<rparr>
     in if u128_low acc < u128_low add then acc\<lparr>u128_high := u128_high acc + 1\<rparr> else acc)"

definition mul64x64 :: "u64 \<Rightarrow> u64 \<Rightarrow> uint128_data_t" where
  "mul64x64 x y = (
     let x1 = ucast (drop_bit 32 x) :: u32;
         x2 = ucast x :: u32;
         y1 = ucast (drop_bit 32 y) :: u32;
         y2 = ucast y :: u32;
         prod = \<lparr>u128_high = ucast x1 * ucast y1, u128_low = ucast x2 * ucast y2\<rparr>;
         low = ucast x1 * ucast y2;
         prod = add128_128 prod \<lparr>u128_high = drop_bit 32 low, u128_low = push_bit 32 low\<rparr>;
         low = ucast x2 * ucast y1
     in add128_128 prod \<lparr>u128_high = drop_bit 32 low, u128_low = push_bit 32 low\<rparr>)"

definition multi_overflow_32 :: "u64 \<Rightarrow> u64 \<Rightarrow> u64" where
  "multi_overflow_32 a b = u128_high (mul64x64 a b)"

definition u128_val :: "uint128_data_t \<Rightarrow> nat" where
  "u128_val p = unat (u128_high p) * 2 ^ 64 + unat (u128_low p)"

lemma u128_split:
  fixes h l :: nat
  assumes "l < 2 ^ 64"
  shows "(h mod 2 ^ 64) * 2 ^ 64 + l = (h * 2 ^ 64 + l) mod 2 ^ 128"
proof -
  have d: "(h * 2 ^ 64 + l) div 2 ^ 64 = h" "(h * 2 ^ 64 + l) mod 2 ^ 64 = l"
    using assms by (simp_all only: div_mult_self3 mod_mult_self3 div_less mod_less)
  have "(h * 2 ^ 64 + l) mod (2 ^ 64 * 2 ^ 64) = 2 ^ 64 * (h mod 2 ^ 64) + l"
    unfolding mod_mult2_eq d by simp
  moreover have "2 ^ 64 * 2 ^ 64 = (2 ^ 128 :: nat)" by simp
  ultimately show ?thesis by (simp only: mult.commute)
qed

lemma add128_val: "u128_val (add128_128 p q) = (u128_val p + u128_val q) mod 2 ^ 128"
proof -
  define h where "h = unat (u128_high p) + unat (u128_high q)"
  define l where "l = unat (u128_low p) + unat (u128_low q)"
  have b: "unat (u128_low p) < 2 ^ 64" "unat (u128_low q) < 2 ^ 64"
    using unsigned_less [of "u128_low p", where ?'a = nat] unsigned_less [of "u128_low q", where ?'a = nat] by simp_all
  have w: "unat (u128_low p + u128_low q) = l mod 2 ^ 64" "unat (u128_high p + u128_high q) = h mod 2 ^ 64"
    "unat (u128_high p + u128_high q + 1) = (h + 1) mod 2 ^ 64"
    by (simp_all add: unat_word_ariths l_def h_def mod_simps)
  have sum: "u128_val p + u128_val q = h * 2 ^ 64 + l" by (simp add: u128_val_def h_def l_def algebra_simps)
  have ca: "u128_low p + u128_low q < u128_low q \<longleftrightarrow> 2 ^ 64 \<le> l"
  proof (cases "l < 2 ^ 64")
    case True
    then show ?thesis unfolding word_less_nat_alt w(1) by (simp add: l_def)
  next
    case False
    then have "l mod 2 ^ 64 = l - 2 ^ 64" using b by (simp add: l_def mod_if)
    with False b show ?thesis unfolding word_less_nat_alt w(1) by (simp add: l_def)
  qed
  show ?thesis unfolding sum
  proof (cases "l < 2 ^ 64")
    case True
    with ca u128_split [OF True, of h] show "u128_val (add128_128 p q) = (h * 2 ^ 64 + l) mod 2 ^ 128"
      by (simp add: add128_128_def u128_val_def w Let_def)
  next
    case False
    then have l: "l mod 2 ^ 64 = l - 2 ^ 64" "l - 2 ^ 64 < 2 ^ 64" using b by (simp_all add: l_def mod_if)
    have "(h + 1) * 2 ^ 64 + (l - 2 ^ 64) = h * 2 ^ 64 + l" using False by (simp add: algebra_simps)
    with False ca u128_split [OF l(2), of "h + 1"] l(1)
    show "u128_val (add128_128 p q) = (h * 2 ^ 64 + l) mod 2 ^ 128"
      by (simp add: add128_128_def u128_val_def w Let_def)
  qed
qed

text \<open>The middle terms of the product: shifted left by 32 bits over the two words.\<close>

lemma u128_shifted: "u128_val \<lparr>u128_high = drop_bit 32 v, u128_low = push_bit 32 v\<rparr> = unat v * 2 ^ 32"
proof -
  have "unat v * 2 ^ 32 mod 2 ^ 64 = (unat v mod 2 ^ 32) * 2 ^ 32"
    using mult_mod_left [of "unat v" "2 ^ 32" "2 ^ 32"] by simp
  moreover have "unat (push_bit 32 v) = take_bit 64 (push_bit 32 (unat v))" by (simp add: unsigned_push_bit_eq)
  ultimately have "unat (push_bit 32 v) = (unat v mod 2 ^ 32) * 2 ^ 32" by (simp only: push_bit_eq_mult take_bit_eq_mod)
  then have "u128_val \<lparr>u128_high = drop_bit 32 v, u128_low = push_bit 32 v\<rparr> =
      unat v div 2 ^ 32 * 2 ^ 64 + (unat v mod 2 ^ 32) * 2 ^ 32"
    by (simp add: u128_val_def drop_bit_word_unat)
  also have "(2 :: nat) ^ 64 = 2 ^ 32 * 2 ^ 32" by simp
  also have "unat v div 2 ^ 32 * (2 ^ 32 * 2 ^ 32) + (unat v mod 2 ^ 32) * 2 ^ 32 =
      (unat v div 2 ^ 32 * 2 ^ 32 + unat v mod 2 ^ 32) * 2 ^ 32" by (simp only: distrib_right mult.assoc)
  finally show ?thesis by (simp only: div_mult_mod_eq)
qed

lemma mul_small: "unat (ucast a * ucast b :: u64) = unat a * unat b" for a b :: u32
proof -
  have "unat a * unat b < 2 ^ 32 * 2 ^ 32"
    using unsigned_less [of a, where ?'a = nat] unsigned_less [of b, where ?'a = nat] by (intro mult_strict_mono) simp_all
  then show ?thesis by (simp add: unat_word_ariths unsigned_ucast_eq take_bit_eq_mod)
qed

text \<open>
  C33. The portable multiplication computes the exact 128-bit product of any two 64-bit numbers, and
  so its upper half agrees with the variant that uses a 128-bit type.
\<close>

theorem mul64x64_exact:
  "u128_val (mul64x64 x y) = unat x * unat y \<and> multi_overflow_32 x y = multi_overflow x y"
proof -
  define x1 y1 where "x1 = (ucast (drop_bit 32 x) :: u32)" and "y1 = (ucast (drop_bit 32 y) :: u32)"
  define x2 y2 where "x2 = (ucast x :: u32)" and "y2 = (ucast y :: u32)"
  have half: "unat v = unat (ucast (drop_bit 32 v) :: u32) * 2 ^ 32 + unat (ucast v :: u32)" for v :: u64
  proof -
    have "unat v div 2 ^ 32 < 2 ^ 32" using unsigned_less [of v, where ?'a = nat] by (simp add: less_mult_imp_div_less)
    then show ?thesis
      by (simp add: unsigned_ucast_eq drop_bit_word_unat take_bit_eq_mod div_mult_mod_eq)
  qed
  have xy: "unat x * unat y < 2 ^ 128"
    using mult_strict_mono [of "unat x" "2 ^ 64" "unat y" "2 ^ 64"] unsigned_less [of x, where ?'a = nat]
      unsigned_less [of y, where ?'a = nat] by simp
  have "u128_val (mul64x64 x y) =
      (unat x1 * unat y1 * 2 ^ 64 + unat x2 * unat y2 + unat x1 * unat y2 * 2 ^ 32 + unat x2 * unat y1 * 2 ^ 32) mod 2 ^ 128"
    by (simp add: mul64x64_def Let_def add128_val u128_shifted mul_small mod_simps flip: x1_def x2_def y1_def y2_def)
      (simp add: u128_val_def mul_small)
  also have "unat x1 * unat y1 * 2 ^ 64 + unat x2 * unat y2 + unat x1 * unat y2 * 2 ^ 32 + unat x2 * unat y1 * 2 ^ 32 =
      unat x * unat y"
    unfolding half [of x] half [of y] x1_def x2_def y1_def y2_def by (simp add: algebra_simps)
  finally have v: "u128_val (mul64x64 x y) = unat x * unat y" using xy by simp
  have "unat (u128_low (mul64x64 x y)) < 2 ^ 64" using unsigned_less [of "u128_low (mul64x64 x y)", where ?'a = nat] by simp
  with v have "unat (u128_high (mul64x64 x y)) = unat x * unat y div 2 ^ 64"
    by (simp add: u128_val_def flip: v)
  moreover have "unat (multi_overflow x y) = unat x * unat y div 2 ^ 64"
    using xy by (simp add: multi_overflow_def Let_def unsigned_ucast_eq drop_bit_word_unat
        take_bit_eq_mod unat_word_ariths mod_mult_eq less_mult_imp_div_less)
  ultimately show ?thesis using v by (simp add: multi_overflow_32_def word_unat_eq_iff)
qed

section \<open>Time values\<close>

text \<open>Both fields are signed 32-bit integers; a signed overflow has no value.\<close>

record time_value =
  tv_seconds :: int
  tv_microseconds :: int

definition int32 :: "int \<Rightarrow> int option" where
  "int32 v = (if - (2 ^ 31) \<le> v \<and> v < 2 ^ 31 then Some v else None)"

definition TIME_MICROS_MAX :: int where
  "TIME_MICROS_MAX = 1000000"

definition time_value_add_usec :: "time_value \<Rightarrow> int \<Rightarrow> time_value option" where
  "time_value_add_usec val micros = do {
     us \<leftarrow> int32 (tv_microseconds val + micros);
     (if us \<ge> TIME_MICROS_MAX then do {
        s \<leftarrow> int32 (tv_seconds val + 1);
        Some \<lparr>tv_seconds = s, tv_microseconds = us - TIME_MICROS_MAX\<rparr> }
      else Some (val\<lparr>tv_microseconds := us\<rparr>)) }"

definition time_value_add :: "time_value \<Rightarrow> time_value \<Rightarrow> time_value option" where
  "time_value_add result addend = do {
     us \<leftarrow> int32 (tv_microseconds result + tv_microseconds addend);
     s \<leftarrow> int32 (tv_seconds result + tv_seconds addend);
     (if us \<ge> TIME_MICROS_MAX then do {
        s \<leftarrow> int32 (s + 1);
        Some \<lparr>tv_seconds = s, tv_microseconds = us - TIME_MICROS_MAX\<rparr> }
      else Some \<lparr>tv_seconds = s, tv_microseconds = us\<rparr>) }"

definition tv_normal :: "time_value \<Rightarrow> bool" where
  "tv_normal t \<longleftrightarrow> 0 \<le> tv_microseconds t \<and> tv_microseconds t < TIME_MICROS_MAX \<and> 0 \<le> tv_seconds t \<and>
     tv_seconds t < 2 ^ 31"

definition tv_total :: "time_value \<Rightarrow> int" where
  "tv_total t = tv_seconds t * TIME_MICROS_MAX + tv_microseconds t"

lemma time_value_add_usec_exact:
  assumes "tv_normal t" and "0 \<le> us" and "us < TIME_MICROS_MAX" and "tv_seconds t + 1 < 2 ^ 31"
  shows "\<exists>t'. time_value_add_usec t us = Some t' \<and> tv_normal t' \<and> tv_total t' = tv_total t + us"
  using assms by (auto simp: time_value_add_usec_def int32_def tv_normal_def tv_total_def TIME_MICROS_MAX_def)

lemma time_value_add_exact:
  assumes "tv_normal t" and "tv_normal u" and "tv_seconds t + tv_seconds u + 1 < 2 ^ 31"
  shows "\<exists>t'. time_value_add t u = Some t' \<and> tv_normal t' \<and> tv_total t' = tv_total t + tv_total u"
  using assms by (auto simp: time_value_add_def int32_def tv_normal_def tv_total_def TIME_MICROS_MAX_def)

end
