(* ===== verification/CMemory.thy ===== *)
theory CMemory
  imports XePrelude "HOL-Library.Monad_Syntax"
begin

text \<open>
  Byte-addressed memory for the SDK headers that read and write raw buffers: one C object with
  its address and its bytes, typed little-endian accesses (the target is x86-64), and the
  layout of C structures. An access outside the object has no value. Nothing in this theory
  models code of the repository.
\<close>

section \<open>Numbers as bytes\<close>

primrec le_val :: "u8 list \<Rightarrow> nat" where
  "le_val [] = 0"
| "le_val (b # bs) = unat b + 256 * le_val bs"

primrec le_bytes :: "nat \<Rightarrow> nat \<Rightarrow> u8 list" where
  "le_bytes 0 v = []"
| "le_bytes (Suc n) v = word_of_nat v # le_bytes n (v div 256)"

lemma length_le_bytes [simp]: "length (le_bytes n v) = n"
  by (induction n arbitrary: v) auto

lemma le_val_le_bytes: "le_val (le_bytes n v) = v mod 256 ^ n"
proof (induction n arbitrary: v)
  case (Suc n)
  have "unat (word_of_nat v :: u8) = v mod 256" by (simp add: unsigned_of_nat take_bit_eq_mod)
  with Suc show ?case by (simp add: mod_mult2_eq add.commute)
qed simp

lemma le_val_less: "le_val bs < 256 ^ length bs"
proof (induction bs)
  case (Cons b bs)
  have "unat b < 256" using unsigned_less [of b, where 'a = nat] by simp
  with Cons show ?case by simp
qed simp

lemma le_bytes_le_val: "le_bytes (length bs) (le_val bs) = bs"
proof (induction bs)
  case (Cons b bs)
  have "unat b < 256" using unsigned_less [of b, where 'a = nat] by simp
  moreover have "word_of_nat (unat b + 256 * le_val bs) = b"
  proof -
    have "(word_of_nat (256 * le_val bs) :: u8) = 0" by (subst word_of_nat_eq_0_iff) simp
    then show ?thesis by (simp only: of_nat_add) simp
  qed
  ultimately show ?case using Cons by simp
qed simp

section \<open>One C object\<close>

record cbuf =
  buf_base :: u64
  buf_bytes :: "u8 list"

definition load_bytes :: "cbuf \<Rightarrow> u64 \<Rightarrow> nat \<Rightarrow> u8 list option" where
  "load_bytes b p n = (
     let i = unat (p - buf_base b)
     in if i + n \<le> length (buf_bytes b) then Some (take n (drop i (buf_bytes b))) else None)"

definition store_bytes :: "cbuf \<Rightarrow> u64 \<Rightarrow> u8 list \<Rightarrow> cbuf option" where
  "store_bytes b p bs = (
     let i = unat (p - buf_base b)
     in if i + length bs \<le> length (buf_bytes b)
        then Some (b\<lparr>buf_bytes := take i (buf_bytes b) @ bs @ drop (i + length bs) (buf_bytes b)\<rparr>)
        else None)"

definition load8 :: "cbuf \<Rightarrow> u64 \<Rightarrow> u8 option" where
  "load8 b p = map_option (\<lambda>bs. word_of_nat (le_val bs)) (load_bytes b p 1)"

definition load16 :: "cbuf \<Rightarrow> u64 \<Rightarrow> u16 option" where
  "load16 b p = map_option (\<lambda>bs. word_of_nat (le_val bs)) (load_bytes b p 2)"

definition load32 :: "cbuf \<Rightarrow> u64 \<Rightarrow> u32 option" where
  "load32 b p = map_option (\<lambda>bs. word_of_nat (le_val bs)) (load_bytes b p 4)"

definition load64 :: "cbuf \<Rightarrow> u64 \<Rightarrow> u64 option" where
  "load64 b p = map_option (\<lambda>bs. word_of_nat (le_val bs)) (load_bytes b p 8)"

definition store16 :: "cbuf \<Rightarrow> u64 \<Rightarrow> u16 \<Rightarrow> cbuf option" where
  "store16 b p v = store_bytes b p (le_bytes 2 (unat v))"

definition store32 :: "cbuf \<Rightarrow> u64 \<Rightarrow> u32 \<Rightarrow> cbuf option" where
  "store32 b p v = store_bytes b p (le_bytes 4 (unat v))"

definition store64 :: "cbuf \<Rightarrow> u64 \<Rightarrow> u64 \<Rightarrow> cbuf option" where
  "store64 b p v = store_bytes b p (le_bytes 8 (unat v))"

text \<open>An object and the addresses that lie in it with some room behind them.\<close>

definition within :: "cbuf \<Rightarrow> u64 \<Rightarrow> nat \<Rightarrow> bool" where
  "within b p n \<longleftrightarrow> unat (p - buf_base b) + n \<le> length (buf_bytes b)"

lemma load_bytes_within: "load_bytes b p n = (if within b p n then Some (take n (drop (unat (p - buf_base b)) (buf_bytes b))) else None)"
  by (simp add: load_bytes_def within_def Let_def)

lemma load_some:
  "within b p 1 \<Longrightarrow> \<exists>v. load8 b p = Some v" "within b p 2 \<Longrightarrow> \<exists>v. load16 b p = Some v"
  "within b p 4 \<Longrightarrow> \<exists>v. load32 b p = Some v" "within b p 8 \<Longrightarrow> \<exists>v. load64 b p = Some v"
  by (simp_all add: load8_def load16_def load32_def load64_def load_bytes_within)

lemma load_store_same:
  assumes "store_bytes b p bs = Some b'"
  shows "load_bytes b' p (length bs) = Some bs"
  using assms by (auto simp: store_bytes_def load_bytes_def Let_def split: if_splits)

lemma word_le_bytes: "LENGTH('a) = 8 * n \<Longrightarrow> (word_of_nat (le_val (le_bytes n (unat w))) :: 'a::len word) = w"
proof -
  assume n: "LENGTH('a) = 8 * n"
  have "unat w < 256 ^ n" using unsigned_less [of w, where 'a = nat] by (simp add: n power_mult)
  then show ?thesis by (simp add: le_val_le_bytes)
qed

lemma load_store16: "store16 b p v = Some b' \<Longrightarrow> load16 b' p = Some v"
  using load_store_same [of b p "le_bytes 2 (unat v)" b'] by (simp add: store16_def load16_def word_le_bytes)

lemma load_store32: "store32 b p v = Some b' \<Longrightarrow> load32 b' p = Some v"
  using load_store_same [of b p "le_bytes 4 (unat v)" b'] by (simp add: store32_def load32_def word_le_bytes)

lemma load_store64: "store64 b p v = Some b' \<Longrightarrow> load64 b' p = Some v"
  using load_store_same [of b p "le_bytes 8 (unat v)" b'] by (simp add: store64_def load64_def word_le_bytes)

section \<open>Structures\<close>

datatype c_type = U8 | U16 | U32 | U64 | I8 | I16 | I32 | I64 | C_CHAR

primrec sizeof_type :: "c_type \<Rightarrow> nat" where
  "sizeof_type U8 = 1" | "sizeof_type U16 = 2" | "sizeof_type U32 = 4" | "sizeof_type U64 = 8"
| "sizeof_type I8 = 1" | "sizeof_type I16 = 2" | "sizeof_type I32 = 4" | "sizeof_type I64 = 8"
| "sizeof_type C_CHAR = 1"

text \<open>A field: its name, its type, and the number of elements (one for a scalar).\<close>

type_synonym c_field = "string \<times> c_type \<times> nat"

record c_struct =
  st_packed :: bool
  st_fields :: "c_field list"

definition field_size :: "c_field \<Rightarrow> nat" where
  "field_size f = (case f of (_, t, n) \<Rightarrow> n * sizeof_type t)"

definition field_align :: "c_field \<Rightarrow> nat" where
  "field_align f = (case f of (_, t, _) \<Rightarrow> sizeof_type t)"

definition align_up :: "nat \<Rightarrow> nat \<Rightarrow> nat" where
  "align_up a x = (if x mod a = 0 then x else x + (a - x mod a))"

text \<open>
  The size of a structure: the sum of its fields if it is packed; otherwise every field starts
  at a multiple of its alignment and the end is rounded up to the largest one.
\<close>

definition sizeof_packed :: "c_field list \<Rightarrow> nat" where
  "sizeof_packed fs = sum_list (map field_size fs)"

definition sizeof_natural :: "c_field list \<Rightarrow> nat" where
  "sizeof_natural fs =
     align_up (fold max (map field_align fs) 1) (fold (\<lambda>f off. align_up (field_align f) off + field_size f) fs 0)"

definition sizeof :: "c_struct \<Rightarrow> nat" where
  "sizeof s = (if st_packed s then sizeof_packed (st_fields s) else sizeof_natural (st_fields s))"

end
