(* ===== verification/ByteOrder.thy ===== *)
theory ByteOrder
  imports CMemory
begin

text \<open>
  The byte order facilities of \<^verbatim>\<open>libkern/_OSByteOrder.h\<close>, \<^verbatim>\<open>libkern/OSByteOrder.h\<close> and
  \<^verbatim>\<open>libkern/i386/OSByteOrder.h\<close> on the little-endian target of the driver: swapping of
  constants, and loads and stores in host, big-endian and little-endian order. The run-time
  swaps \<^verbatim>\<open>_OSSwapInt32/64\<close> of \<^verbatim>\<open>libkern/i386/_OSByteOrder.h\<close> are the \<^verbatim>\<open>bswap\<close> instruction, which
  reverses the bytes of its operand. A load or store outside the object has no value.
\<close>

section \<open>Swapping\<close>

definition OSSwapConstInt16 :: "u16 \<Rightarrow> u16" where
  "OSSwapConstInt16 x = drop_bit 8 (x AND 0xff00) OR push_bit 8 (x AND 0x00ff)"

definition OSSwapConstInt32 :: "u32 \<Rightarrow> u32" where
  "OSSwapConstInt32 x =
     drop_bit 24 (x AND 0xff000000) OR drop_bit 8 (x AND 0x00ff0000) OR
     push_bit 8 (x AND 0x0000ff00) OR push_bit 24 (x AND 0x000000ff)"

definition OSSwapConstInt64 :: "u64 \<Rightarrow> u64" where
  "OSSwapConstInt64 x =
     drop_bit 56 (x AND 0xff00000000000000) OR drop_bit 40 (x AND 0x00ff000000000000) OR
     drop_bit 24 (x AND 0x0000ff0000000000) OR drop_bit 8 (x AND 0x000000ff00000000) OR
     push_bit 8 (x AND 0x00000000ff000000) OR push_bit 24 (x AND 0x0000000000ff0000) OR
     push_bit 40 (x AND 0x000000000000ff00) OR push_bit 56 (x AND 0x00000000000000ff)"

definition OSSwapInt16 :: "u16 \<Rightarrow> u16" where
  "OSSwapInt16 dat = push_bit 8 dat OR drop_bit 8 dat"

definition OSSwapInt32 :: "u32 \<Rightarrow> u32" where
  "OSSwapInt32 dat = word_of_nat (le_val (rev (le_bytes 4 (unat dat))))"

definition OSSwapInt64 :: "u64 \<Rightarrow> u64" where
  "OSSwapInt64 dat = word_of_nat (le_val (rev (le_bytes 8 (unat dat))))"

datatype byte_order = OSUnknownByteOrder | OSLittleEndian | OSBigEndian

definition OSHostByteOrder :: byte_order where
  "OSHostByteOrder = OSLittleEndian"

section \<open>Loads and stores\<close>

definition OSReadInt16 :: "cbuf \<Rightarrow> u64 \<Rightarrow> u64 \<Rightarrow> u16 option" where
  "OSReadInt16 b base byteOffset = load16 b (base + byteOffset)"

definition OSReadInt32 :: "cbuf \<Rightarrow> u64 \<Rightarrow> u64 \<Rightarrow> u32 option" where
  "OSReadInt32 b base byteOffset = load32 b (base + byteOffset)"

definition OSReadInt64 :: "cbuf \<Rightarrow> u64 \<Rightarrow> u64 \<Rightarrow> u64 option" where
  "OSReadInt64 b base byteOffset = load64 b (base + byteOffset)"

definition OSWriteInt16 :: "cbuf \<Rightarrow> u64 \<Rightarrow> u64 \<Rightarrow> u16 \<Rightarrow> cbuf option" where
  "OSWriteInt16 b base byteOffset dat = store16 b (base + byteOffset) dat"

definition OSWriteInt32 :: "cbuf \<Rightarrow> u64 \<Rightarrow> u64 \<Rightarrow> u32 \<Rightarrow> cbuf option" where
  "OSWriteInt32 b base byteOffset dat = store32 b (base + byteOffset) dat"

definition OSWriteInt64 :: "cbuf \<Rightarrow> u64 \<Rightarrow> u64 \<Rightarrow> u64 \<Rightarrow> cbuf option" where
  "OSWriteInt64 b base byteOffset dat = store64 b (base + byteOffset) dat"

definition OSReadSwapInt16 :: "cbuf \<Rightarrow> u64 \<Rightarrow> u64 \<Rightarrow> u16 option" where
  "OSReadSwapInt16 b base byteOffset = do { result \<leftarrow> load16 b (base + byteOffset); Some (OSSwapInt16 result) }"

definition OSReadSwapInt32 :: "cbuf \<Rightarrow> u64 \<Rightarrow> u64 \<Rightarrow> u32 option" where
  "OSReadSwapInt32 b base byteOffset = do { result \<leftarrow> load32 b (base + byteOffset); Some (OSSwapInt32 result) }"

definition OSReadSwapInt64 :: "cbuf \<Rightarrow> u64 \<Rightarrow> u64 \<Rightarrow> u64 option" where
  "OSReadSwapInt64 b base byteOffset = do { result \<leftarrow> load64 b (base + byteOffset); Some (OSSwapInt64 result) }"

definition OSWriteSwapInt16 :: "cbuf \<Rightarrow> u64 \<Rightarrow> u64 \<Rightarrow> u16 \<Rightarrow> cbuf option" where
  "OSWriteSwapInt16 b base byteOffset dat = store16 b (base + byteOffset) (OSSwapInt16 dat)"

definition OSWriteSwapInt32 :: "cbuf \<Rightarrow> u64 \<Rightarrow> u64 \<Rightarrow> u32 \<Rightarrow> cbuf option" where
  "OSWriteSwapInt32 b base byteOffset dat = store32 b (base + byteOffset) (OSSwapInt32 dat)"

definition OSWriteSwapInt64 :: "cbuf \<Rightarrow> u64 \<Rightarrow> u64 \<Rightarrow> u64 \<Rightarrow> cbuf option" where
  "OSWriteSwapInt64 b base byteOffset dat = store64 b (base + byteOffset) (OSSwapInt64 dat)"

text \<open>The little-endian branch of \<^verbatim>\<open>libkern/OSByteOrder.h\<close>.\<close>

definition OSReadBigInt16 :: "cbuf \<Rightarrow> u64 \<Rightarrow> u64 \<Rightarrow> u16 option" where
  "OSReadBigInt16 = OSReadSwapInt16"

definition OSReadBigInt32 :: "cbuf \<Rightarrow> u64 \<Rightarrow> u64 \<Rightarrow> u32 option" where
  "OSReadBigInt32 = OSReadSwapInt32"

definition OSReadBigInt64 :: "cbuf \<Rightarrow> u64 \<Rightarrow> u64 \<Rightarrow> u64 option" where
  "OSReadBigInt64 = OSReadSwapInt64"

definition OSWriteBigInt16 :: "cbuf \<Rightarrow> u64 \<Rightarrow> u64 \<Rightarrow> u16 \<Rightarrow> cbuf option" where
  "OSWriteBigInt16 = OSWriteSwapInt16"

definition OSWriteBigInt32 :: "cbuf \<Rightarrow> u64 \<Rightarrow> u64 \<Rightarrow> u32 \<Rightarrow> cbuf option" where
  "OSWriteBigInt32 = OSWriteSwapInt32"

definition OSWriteBigInt64 :: "cbuf \<Rightarrow> u64 \<Rightarrow> u64 \<Rightarrow> u64 \<Rightarrow> cbuf option" where
  "OSWriteBigInt64 = OSWriteSwapInt64"

definition OSReadLittleInt16 :: "cbuf \<Rightarrow> u64 \<Rightarrow> u64 \<Rightarrow> u16 option" where
  "OSReadLittleInt16 = OSReadInt16"

definition OSReadLittleInt32 :: "cbuf \<Rightarrow> u64 \<Rightarrow> u64 \<Rightarrow> u32 option" where
  "OSReadLittleInt32 = OSReadInt32"

definition OSReadLittleInt64 :: "cbuf \<Rightarrow> u64 \<Rightarrow> u64 \<Rightarrow> u64 option" where
  "OSReadLittleInt64 = OSReadInt64"

definition OSWriteLittleInt16 :: "cbuf \<Rightarrow> u64 \<Rightarrow> u64 \<Rightarrow> u16 \<Rightarrow> cbuf option" where
  "OSWriteLittleInt16 = OSWriteInt16"

definition OSWriteLittleInt32 :: "cbuf \<Rightarrow> u64 \<Rightarrow> u64 \<Rightarrow> u32 \<Rightarrow> cbuf option" where
  "OSWriteLittleInt32 = OSWriteInt32"

definition OSWriteLittleInt64 :: "cbuf \<Rightarrow> u64 \<Rightarrow> u64 \<Rightarrow> u64 \<Rightarrow> cbuf option" where
  "OSWriteLittleInt64 = OSWriteInt64"

section \<open>Swapping reverses the bytes\<close>

lemma bit_word_of_nat_iff: "bit (word_of_nat v :: 'a :: len word) n \<longleftrightarrow> n < LENGTH('a) \<and> bit v n"
  by (simp add: bit_simps)

lemma bit_u8_less: "bit (b :: u8) n \<Longrightarrow> n < 8"
  using bit_imp_le_length [of b n] by simp

lemma bit_le_val: "bit (le_val bs) n \<longleftrightarrow> n div 8 < length bs \<and> bit (bs ! (n div 8)) (n mod 8)"
proof (induction bs arbitrary: n)
  case (Cons b bs)
  have v: "le_val (b # bs) = unat b + push_bit 8 (le_val bs)" by (simp add: push_bit_eq_mult mult.commute)
  have "bit (le_val (b # bs)) n \<longleftrightarrow> bit (unat b) n \<or> bit (push_bit 8 (le_val bs)) n"
    unfolding v by (rule bit_disjunctive_add_iff) (auto simp: bit_unsigned_iff bit_push_bit_iff_nat dest: bit_u8_less)
  then have "bit (le_val (b # bs)) n \<longleftrightarrow> bit b n \<or> 8 \<le> n \<and> bit (le_val bs) (n - 8)"
    by (auto simp: bit_unsigned_iff bit_push_bit_iff_nat dest: bit_u8_less)
  moreover have "\<not> bit b n" if "8 \<le> n" using that by (auto dest: bit_u8_less)
  ultimately show ?case
    using Cons.IH [of "n - 8"] by (cases "n < 8") (auto simp: le_div_geq le_mod_geq not_less nth_Cons split: nat.split)
qed simp

lemma bit_le_bytes: "i < n \<Longrightarrow> bit (le_bytes n v ! i) j \<longleftrightarrow> j < 8 \<and> bit v (8 * i + j)"
proof (induction n arbitrary: v i)
  case (Suc n)
  have "bit (v div 256) k \<longleftrightarrow> bit v (k + 8)" for k
    using bit_drop_bit_eq [of 8 v] by (simp add: drop_bit_eq_div add.commute)
  with Suc show ?case
    by (cases i) (auto simp: bit_of_nat_iff_bit bit_word_of_nat_iff ac_simps)
qed simp

lemma bit_OSSwapInt32: "bit (OSSwapInt32 x) n \<longleftrightarrow> n < 32 \<and> bit x (8 * (3 - n div 8) + n mod 8)"
proof (cases "n < 32")
  case True
  then have "n div 8 < 4" by (simp add: less_mult_imp_div_less)
  with True show ?thesis
    by (simp add: OSSwapInt32_def bit_word_of_nat_iff bit_le_val rev_nth bit_le_bytes bit_unsigned_iff)
qed (simp add: OSSwapInt32_def bit_word_of_nat_iff)

lemma bit_OSSwapInt64: "bit (OSSwapInt64 x) n \<longleftrightarrow> n < 64 \<and> bit x (8 * (7 - n div 8) + n mod 8)"
proof (cases "n < 64")
  case True
  then have "n div 8 < 8" by (simp add: less_mult_imp_div_less)
  with True show ?thesis
    by (simp add: OSSwapInt64_def bit_word_of_nat_iff bit_le_val rev_nth bit_le_bytes bit_unsigned_iff)
qed (simp add: OSSwapInt64_def bit_word_of_nat_iff)

lemma byte_masks:
  "(0xff000000 :: u32) = push_bit 24 (mask 8)" "(0x00ff0000 :: u32) = push_bit 16 (mask 8)"
  "(0x0000ff00 :: u32) = push_bit 8 (mask 8)" "(0x000000ff :: u32) = mask 8"
  by (simp_all add: mask_numeral)

lemma byte_masks64:
  "(0xff00000000000000 :: u64) = push_bit 56 (mask 8)" "(0x00ff000000000000 :: u64) = push_bit 48 (mask 8)"
  "(0x0000ff0000000000 :: u64) = push_bit 40 (mask 8)" "(0x000000ff00000000 :: u64) = push_bit 32 (mask 8)"
  "(0x00000000ff000000 :: u64) = push_bit 24 (mask 8)" "(0x0000000000ff0000 :: u64) = push_bit 16 (mask 8)"
  "(0x000000000000ff00 :: u64) = push_bit 8 (mask 8)" "(0x00000000000000ff :: u64) = mask 8"
  by (simp_all add: mask_numeral)

lemma byte_split: "n = 8 * (n div 8) + n mod (8 :: nat)" "n mod 8 < (8 :: nat)"
  by simp_all

lemma OSSwapConstInt32_eq: "OSSwapConstInt32 x = OSSwapInt32 x"
proof (rule bit_word_eqI)
  fix n :: nat assume n: "n < LENGTH(32)"
  define k j where "k = n div 8" and "j = n mod 8"
  have j: "n = 8 * k + j" "j < 8" "k < 4" using n by (auto simp: k_def j_def less_mult_imp_div_less)
  from \<open>k < 4\<close> have "k = 0 \<or> k = 1 \<or> k = 2 \<or> k = 3" by auto
  moreover have "bit (OSSwapInt32 x) n \<longleftrightarrow> bit x (8 * (3 - k) + j)"
    using n by (simp add: bit_OSSwapInt32 k_def j_def)
  ultimately show "bit (OSSwapConstInt32 x) n \<longleftrightarrow> bit (OSSwapInt32 x) n"
    using j unfolding OSSwapConstInt32_def byte_masks
    by (elim disjE) (simp_all add: bit_simps)
qed

lemma OSSwapConstInt64_eq: "OSSwapConstInt64 x = OSSwapInt64 x"
proof (rule bit_word_eqI)
  fix n :: nat assume n: "n < LENGTH(64)"
  define k j where "k = n div 8" and "j = n mod 8"
  have j: "n = 8 * k + j" "j < 8" "k < 8" using n by (auto simp: k_def j_def less_mult_imp_div_less)
  from \<open>k < 8\<close> have "k = 0 \<or> k = 1 \<or> k = 2 \<or> k = 3 \<or> k = 4 \<or> k = 5 \<or> k = 6 \<or> k = 7" by auto
  moreover have "bit (OSSwapInt64 x) n \<longleftrightarrow> bit x (8 * (7 - k) + j)"
    using n by (simp add: bit_OSSwapInt64 k_def j_def)
  ultimately show "bit (OSSwapConstInt64 x) n \<longleftrightarrow> bit (OSSwapInt64 x) n"
    using j unfolding OSSwapConstInt64_def byte_masks64
    by (elim disjE) (simp_all add: bit_simps)
qed

lemma OSSwapConstInt16_eq: "OSSwapConstInt16 x = OSSwapInt16 x"
proof (rule bit_word_eqI)
  fix n :: nat assume n: "n < LENGTH(16)"
  have m: "(0xff00 :: u16) = push_bit 8 (mask 8)" "(0x00ff :: u16) = mask 8" by (simp_all add: mask_numeral)
  show "bit (OSSwapConstInt16 x) n \<longleftrightarrow> bit (OSSwapInt16 x) n"
    unfolding OSSwapConstInt16_def OSSwapInt16_def m using n
    by (cases "n < 8") (auto simp: bit_simps dest: bit_imp_le_length)
qed

text \<open>Storing a swapped number stores its bytes in the opposite order.\<close>

lemma le_bytes_swap:
  "le_bytes 4 (unat (OSSwapInt32 x)) = rev (le_bytes 4 (unat x))"
  "le_bytes 8 (unat (OSSwapInt64 y)) = rev (le_bytes 8 (unat y))"
proof -
  have "unat (word_of_nat (le_val bs) :: u32) = le_val bs" if "length bs = 4" for bs
    using le_val_less [of bs] that by (simp add: unsigned_of_nat take_bit_eq_mod)
  then show "le_bytes 4 (unat (OSSwapInt32 x)) = rev (le_bytes 4 (unat x))"
    using le_bytes_le_val [of "rev (le_bytes 4 (unat x))"] by (simp add: OSSwapInt32_def)
  have "unat (word_of_nat (le_val bs) :: u64) = le_val bs" if "length bs = 8" for bs
    using le_val_less [of bs] that by (simp add: unsigned_of_nat take_bit_eq_mod)
  then show "le_bytes 8 (unat (OSSwapInt64 y)) = rev (le_bytes 8 (unat y))"
    using le_bytes_le_val [of "rev (le_bytes 8 (unat y))"] by (simp add: OSSwapInt64_def)
qed

lemma OSSwap_involutive:
  "OSSwapInt16 (OSSwapInt16 w) = w" "OSSwapInt32 (OSSwapInt32 x) = x" "OSSwapInt64 (OSSwapInt64 y) = y"
proof -
  show "OSSwapInt16 (OSSwapInt16 w) = w"
    by (rule bit_word_eqI) (auto simp: OSSwapInt16_def bit_simps dest: bit_imp_le_length)
  show "OSSwapInt32 (OSSwapInt32 x) = x"
    using le_bytes_swap(1) [of x] by (simp add: OSSwapInt32_def [of "OSSwapInt32 x"] word_le_bytes)
  show "OSSwapInt64 (OSSwapInt64 y) = y"
    using le_bytes_swap(2) [of y] by (simp add: OSSwapInt64_def [of "OSSwapInt64 y"] word_le_bytes)
qed

lemma le_bytes_swap16: "le_bytes 2 (unat (OSSwapInt16 w)) = rev (le_bytes 2 (unat w))"
proof -
  have "bit (OSSwapInt16 w) n \<longleftrightarrow> n < 16 \<and> bit w (if n < 8 then 8 + n else n - 8)" for n
    by (auto simp: OSSwapInt16_def bit_simps dest: bit_imp_le_length)
  then have b: "j < 8 \<Longrightarrow> bit (OSSwapInt16 w) j \<longleftrightarrow> bit w (8 + j)" "j < 8 \<Longrightarrow> bit (OSSwapInt16 w) (8 + j) \<longleftrightarrow> bit w j" for j
    by simp_all
  have "bit (le_bytes 2 (unat (OSSwapInt16 w)) ! i) j \<longleftrightarrow> bit (rev (le_bytes 2 (unat w)) ! i) j" if "i < 2" for i j
  proof -
    from that have "i = 0 \<or> i = 1" by auto
    then show ?thesis
    proof
      assume "i = 0"
      then show ?thesis by (cases "j < 8") (simp_all add: bit_le_bytes rev_nth bit_unsigned_iff b)
    next
      assume "i = 1"
      then show ?thesis by (cases "j < 8") (simp_all add: bit_le_bytes rev_nth bit_unsigned_iff b)
    qed
  qed
  then show ?thesis by (intro nth_equalityI bit_word_eqI) simp_all
qed

text \<open>
  C38. The byte order facilities, for every value and every place inside the object: the
  constant swaps and the run-time swaps agree, reading back a big-endian or little-endian
  store of 16, 32 or 64 bits gives the value that was stored, and the bytes in memory are those
  of the value, most significant first for a big-endian store and least significant first for a
  little-endian one.
\<close>

theorem byte_order_roundtrip:
  assumes "OSWriteBigInt16 b base off v16 = Some b16" and "OSWriteBigInt32 b base off v32 = Some b32"
    and "OSWriteBigInt64 b base off v64 = Some b64" and "OSWriteLittleInt16 b base off v16 = Some l16"
    and "OSWriteLittleInt32 b base off v32 = Some l32" and "OSWriteLittleInt64 b base off v64 = Some l64"
  shows "OSReadBigInt16 b16 base off = Some v16 \<and> OSReadBigInt32 b32 base off = Some v32 \<and>
    OSReadBigInt64 b64 base off = Some v64 \<and> OSReadLittleInt16 l16 base off = Some v16 \<and>
    OSReadLittleInt32 l32 base off = Some v32 \<and> OSReadLittleInt64 l64 base off = Some v64 \<and>
    load_bytes b16 (base + off) 2 = Some (rev (le_bytes 2 (unat v16))) \<and>
    load_bytes b32 (base + off) 4 = Some (rev (le_bytes 4 (unat v32))) \<and>
    load_bytes b64 (base + off) 8 = Some (rev (le_bytes 8 (unat v64))) \<and>
    load_bytes l16 (base + off) 2 = Some (le_bytes 2 (unat v16)) \<and>
    load_bytes l32 (base + off) 4 = Some (le_bytes 4 (unat v32)) \<and>
    load_bytes l64 (base + off) 8 = Some (le_bytes 8 (unat v64)) \<and>
    OSSwapConstInt16 v16 = OSSwapInt16 v16 \<and> OSSwapConstInt32 v32 = OSSwapInt32 v32 \<and>
    OSSwapConstInt64 v64 = OSSwapInt64 v64"
proof -
  let ?p = "base + off"
  have w: "store16 b ?p (OSSwapInt16 v16) = Some b16" "store32 b ?p (OSSwapInt32 v32) = Some b32"
    "store64 b ?p (OSSwapInt64 v64) = Some b64" "store16 b ?p v16 = Some l16" "store32 b ?p v32 = Some l32"
    "store64 b ?p v64 = Some l64"
    using assms by (simp_all add: OSWriteBigInt16_def OSWriteBigInt32_def OSWriteBigInt64_def OSWriteSwapInt16_def
        OSWriteSwapInt32_def OSWriteSwapInt64_def OSWriteLittleInt16_def OSWriteLittleInt32_def OSWriteLittleInt64_def
        OSWriteInt16_def OSWriteInt32_def OSWriteInt64_def)
  have "load_bytes b16 ?p 2 = Some (rev (le_bytes 2 (unat v16)))" "load_bytes b32 ?p 4 = Some (rev (le_bytes 4 (unat v32)))"
    "load_bytes b64 ?p 8 = Some (rev (le_bytes 8 (unat v64)))" "load_bytes l16 ?p 2 = Some (le_bytes 2 (unat v16))"
    "load_bytes l32 ?p 4 = Some (le_bytes 4 (unat v32))" "load_bytes l64 ?p 8 = Some (le_bytes 8 (unat v64))"
    using w [unfolded store16_def store32_def store64_def, THEN load_store_same]
    by (simp_all add: le_bytes_swap le_bytes_swap16)
  moreover note load_store16 [OF w(1)] load_store32 [OF w(2)] load_store64 [OF w(3)]
    load_store16 [OF w(4)] load_store32 [OF w(5)] load_store64 [OF w(6)]
  ultimately show ?thesis
    by (simp add: OSReadBigInt16_def OSReadBigInt32_def OSReadBigInt64_def OSReadSwapInt16_def OSReadSwapInt32_def
        OSReadSwapInt64_def OSReadLittleInt16_def OSReadLittleInt32_def OSReadLittleInt64_def OSReadInt16_def
        OSReadInt32_def OSReadInt64_def OSSwap_involutive OSSwapConstInt16_eq OSSwapConstInt32_eq OSSwapConstInt64_eq)
qed

theorem byte_order_roundtrip_witness:
  "\<exists>b'. OSWriteBigInt32 \<lparr>buf_base = 0x1000, buf_bytes = replicate 8 0\<rparr> 0x1000 0 0x12345678 = Some b' \<and>
     OSReadBigInt32 b' 0x1000 0 = Some 0x12345678"
proof -
  let ?b = "\<lparr>buf_base = 0x1000, buf_bytes = replicate 8 0\<rparr>"
  have s: "\<exists>b'. store_bytes ?b 0x1000 bs = Some b'" if "length bs \<le> 8" for bs
    using that by (simp add: store_bytes_def)
  have "\<exists>b'. store16 ?b 0x1000 v = Some b'" "\<exists>b'. store32 ?b 0x1000 x = Some b'" "\<exists>b'. store64 ?b 0x1000 y = Some b'" for v x y
    using s by (simp_all add: store16_def store32_def store64_def)
  then obtain b1 b2 b3 b4 b5 b6 where "OSWriteBigInt16 ?b 0x1000 0 1 = Some b1"
      "OSWriteBigInt32 ?b 0x1000 0 0x12345678 = Some b2" "OSWriteBigInt64 ?b 0x1000 0 1 = Some b3"
      "OSWriteLittleInt16 ?b 0x1000 0 1 = Some b4" "OSWriteLittleInt32 ?b 0x1000 0 0x12345678 = Some b5"
      "OSWriteLittleInt64 ?b 0x1000 0 1 = Some b6"
    by (simp add: OSWriteBigInt16_def OSWriteBigInt32_def OSWriteBigInt64_def OSWriteSwapInt16_def
        OSWriteSwapInt32_def OSWriteSwapInt64_def OSWriteLittleInt16_def OSWriteLittleInt32_def OSWriteLittleInt64_def
        OSWriteInt16_def OSWriteInt32_def OSWriteInt64_def) meson
  from this(2) byte_order_roundtrip [OF this] show ?thesis by blast
qed

end
