(* ===== verification/KcdataFormat.thy ===== *)
theory KcdataFormat
  imports CMemory
begin

text \<open>
  The data of \<^verbatim>\<open>kern/kcdata.h\<close>, the self-describing serialization format of the kernel, as far as its
  inline functions look at it: the item numbers they compare with, the structures whose sizes they
  use, and the descriptors of described elements. The structures are given by their fields in
  order; a flexible array member at the end takes no space.
\<close>

section \<open>Item types\<close>

definition KCDATA_TYPE_ARRAY :: u32 where "KCDATA_TYPE_ARRAY = 0x11"
definition KCDATA_TYPE_CONTAINER_BEGIN :: u32 where "KCDATA_TYPE_CONTAINER_BEGIN = 0x13"
definition KCDATA_TYPE_ARRAY_PAD0 :: u32 where "KCDATA_TYPE_ARRAY_PAD0 = 0x20"
definition KCDATA_TYPE_LIBRARY_LOADINFO :: u32 where "KCDATA_TYPE_LIBRARY_LOADINFO = 0x30"
definition KCDATA_TYPE_LIBRARY_LOADINFO64 :: u32 where "KCDATA_TYPE_LIBRARY_LOADINFO64 = 0x31"
definition KCDATA_TYPE_BUFFER_END :: u32 where "KCDATA_TYPE_BUFFER_END = 0xF19158ED"
definition STACKSHOT_KCTYPE_THREAD_SNAPSHOT :: u32 where "STACKSHOT_KCTYPE_THREAD_SNAPSHOT = 0x906"
definition STACKSHOT_KCTYPE_DONATING_PIDS :: u32 where "STACKSHOT_KCTYPE_DONATING_PIDS = 0x907"
definition STACKSHOT_KCTYPE_SHAREDCACHE_LOADINFO :: u32 where "STACKSHOT_KCTYPE_SHAREDCACHE_LOADINFO = 0x908"
definition STACKSHOT_KCTYPE_KERN_STACKFRAME :: u32 where "STACKSHOT_KCTYPE_KERN_STACKFRAME = 0x90A"
definition STACKSHOT_KCTYPE_KERN_STACKFRAME64 :: u32 where "STACKSHOT_KCTYPE_KERN_STACKFRAME64 = 0x90B"
definition STACKSHOT_KCTYPE_USER_STACKFRAME :: u32 where "STACKSHOT_KCTYPE_USER_STACKFRAME = 0x90C"
definition STACKSHOT_KCTYPE_USER_STACKFRAME64 :: u32 where "STACKSHOT_KCTYPE_USER_STACKFRAME64 = 0x90D"
definition STACKSHOT_KCTYPE_THREAD_DELTA_SNAPSHOT :: u32 where "STACKSHOT_KCTYPE_THREAD_DELTA_SNAPSHOT = 0x941"
definition TASK_CRASHINFO_CRASHED_THREADID :: u32 where "TASK_CRASHINFO_CRASHED_THREADID = 0x81A"

section \<open>Structures\<close>

definition kcdata_item :: c_struct where
  "kcdata_item = \<lparr>st_packed = False, st_fields =
    [(''type'', U32, 1), (''size'', U32, 1), (''flags'', U64, 1)]\<rparr>"

definition stack_snapshot_frame32 :: c_struct where
  "stack_snapshot_frame32 = \<lparr>st_packed = False, st_fields =
    [(''lr'', U32, 1), (''sp'', U32, 1)]\<rparr>"

definition stack_snapshot_frame64 :: c_struct where
  "stack_snapshot_frame64 = \<lparr>st_packed = False, st_fields =
    [(''lr'', U64, 1), (''sp'', U64, 1)]\<rparr>"

definition dyld_uuid_info_32 :: c_struct where
  "dyld_uuid_info_32 = \<lparr>st_packed = False, st_fields =
    [(''imageLoadAddress'', U32, 1), (''imageUUID'', U8, 16)]\<rparr>"

definition dyld_uuid_info_64 :: c_struct where
  "dyld_uuid_info_64 = \<lparr>st_packed = False, st_fields =
    [(''imageLoadAddress'', U64, 1), (''imageUUID'', U8, 16)]\<rparr>"

definition thread_snapshot_v2 :: c_struct where
  "thread_snapshot_v2 = \<lparr>st_packed = True, st_fields =
    [(''ths_thread_id'', U64, 1), (''ths_wait_event'', U64, 1), (''ths_continuation'', U64, 1),
     (''ths_total_syscalls'', U64, 1), (''ths_voucher_identifier'', U64, 1),
     (''ths_dqserialnum'', U64, 1), (''ths_user_time'', U64, 1), (''ths_sys_time'', U64, 1),
     (''ths_ss_flags'', U64, 1), (''ths_last_run_time'', U64, 1),
     (''ths_last_made_runnable_time'', U64, 1), (''ths_state'', U32, 1),
     (''ths_sched_flags'', U32, 1), (''ths_base_priority'', I16, 1),
     (''ths_sched_priority'', I16, 1), (''ths_eqos'', U8, 1), (''ths_rqos'', U8, 1),
     (''ths_rqos_override'', U8, 1), (''ths_io_tier'', U8, 1)]\<rparr>"

definition thread_delta_snapshot_v2 :: c_struct where
  "thread_delta_snapshot_v2 = \<lparr>st_packed = True, st_fields =
    [(''tds_thread_id'', U64, 1), (''tds_voucher_identifier'', U64, 1), (''tds_ss_flags'', U64, 1),
     (''tds_last_made_runnable_time'', U64, 1), (''tds_state'', U32, 1),
     (''tds_sched_flags'', U32, 1), (''tds_base_priority'', I16, 1),
     (''tds_sched_priority'', I16, 1), (''tds_eqos'', U8, 1), (''tds_rqos'', U8, 1),
     (''tds_rqos_override'', U8, 1), (''tds_io_tier'', U8, 1)]\<rparr>"

section \<open>Subtype descriptors\<close>

definition KCS_SUBTYPE_FLAGS_ARRAY :: u8 where "KCS_SUBTYPE_FLAGS_ARRAY = 0x1"

text \<open>The fields of a descriptor that its accessors use.\<close>

record subtype_desc =
  kcs_flags :: u8
  kcs_elem_size :: u32

definition KCS_SUBTYPE_PACK_SIZE :: "u32 \<Rightarrow> u32 \<Rightarrow> u32" where
  "KCS_SUBTYPE_PACK_SIZE e_count e_size = push_bit 16 (e_count AND 0xffff) OR (e_size AND 0xffff)"

definition kcs_get_elem_size :: "subtype_desc \<Rightarrow> u32" where
  "kcs_get_elem_size d =
     (if kcs_flags d AND KCS_SUBTYPE_FLAGS_ARRAY \<noteq> 0
      then (kcs_elem_size d AND 0xffff) * drop_bit 16 (kcs_elem_size d AND 0xffff0000)
      else kcs_elem_size d)"

definition kcs_get_elem_count :: "subtype_desc \<Rightarrow> u32" where
  "kcs_get_elem_count d =
     (if kcs_flags d AND KCS_SUBTYPE_FLAGS_ARRAY \<noteq> 0
      then drop_bit 16 (kcs_elem_size d) AND 0xffff
      else 1)"

text \<open>The return value is \<open>-1\<close> for arguments that do not fit and \<open>0\<close> otherwise.\<close>

definition kcs_set_elem_size :: "subtype_desc \<Rightarrow> u32 \<Rightarrow> u32 \<Rightarrow> int \<times> subtype_desc" where
  "kcs_set_elem_size d sz cnt =
     (if cnt > 1 then
        (if sz > 0xffff \<or> cnt > 0xffff then (-1, d)
         else (0, d\<lparr>kcs_elem_size := push_bit 16 (cnt AND 0xffff) OR (sz AND 0xffff)\<rparr>))
      else (0, d\<lparr>kcs_elem_size := sz\<rparr>))"

section \<open>Sizes\<close>

lemmas kc_numbers = KCDATA_TYPE_ARRAY_def KCDATA_TYPE_CONTAINER_BEGIN_def KCDATA_TYPE_ARRAY_PAD0_def
  KCDATA_TYPE_LIBRARY_LOADINFO_def KCDATA_TYPE_LIBRARY_LOADINFO64_def KCDATA_TYPE_BUFFER_END_def
  STACKSHOT_KCTYPE_THREAD_SNAPSHOT_def STACKSHOT_KCTYPE_DONATING_PIDS_def STACKSHOT_KCTYPE_SHAREDCACHE_LOADINFO_def
  STACKSHOT_KCTYPE_KERN_STACKFRAME_def STACKSHOT_KCTYPE_KERN_STACKFRAME64_def STACKSHOT_KCTYPE_USER_STACKFRAME_def
  STACKSHOT_KCTYPE_USER_STACKFRAME64_def STACKSHOT_KCTYPE_THREAD_DELTA_SNAPSHOT_def TASK_CRASHINFO_CRASHED_THREADID_def

lemmas kc_layouts = sizeof_def sizeof_packed_def sizeof_natural_def align_up_def field_size_def field_align_def

lemma struct_sizes:
  "sizeof kcdata_item = 16" "sizeof thread_snapshot_v2 = 0x68" "sizeof dyld_uuid_info_64 = 24"
  "sizeof dyld_uuid_info_32 = 20" "sizeof stack_snapshot_frame32 = 8" "sizeof stack_snapshot_frame64 = 16"
  "sizeof thread_delta_snapshot_v2 = 48"
  by code_simp+

section \<open>Described elements\<close>

text \<open>
  Setting the size and count of a described field and reading them back. A count above one
  needs the array flag in the descriptor and is refused when size or count has more than 16
  bits, leaving the descriptor alone; otherwise the count comes back as it was given, and the
  size as the total of all elements. A single element needs the flag to be clear.
\<close>

theorem kcs_elem_roundtrip:
  assumes "kcs_flags d AND KCS_SUBTYPE_FLAGS_ARRAY \<noteq> 0 \<longleftrightarrow> cnt > 1" and "cnt \<noteq> 0"
    and "kcs_set_elem_size d sz cnt = (r, d')"
  shows "if cnt > 1 \<and> (sz > 0xffff \<or> cnt > 0xffff) then r = -1 \<and> d' = d
    else r = 0 \<and> kcs_get_elem_count d' = cnt \<and> unat (kcs_get_elem_size d') = unat sz * unat cnt"
proof -
  have m: "(0xffff :: u32) = mask 16" "(0xffff0000 :: u32) = push_bit 16 (mask 16)" by (simp_all add: mask_numeral)
  have small: "x AND 0xffff = x" "unat x < 2 ^ 16" if "x \<le> 0xffff" for x :: u32
  proof -
    show "unat x < 2 ^ 16" using that by (simp add: word_le_nat_alt)
    then show "x AND 0xffff = x" unfolding m by (simp add: take_bit_self flip: take_bit_eq_mask)
  qed
  consider "cnt > 1" "sz > 0xffff \<or> cnt > 0xffff" | "cnt > 1" "sz \<le> 0xffff" "cnt \<le> 0xffff" | "\<not> cnt > 1"
    by (metis not_less)
  then show ?thesis
  proof cases
    case 1
    then show ?thesis using assms(3) by (auto simp: kcs_set_elem_size_def)
  next
    case 2
    let ?w = "push_bit 16 cnt OR sz"
    have b: "bit sz n \<Longrightarrow> n < 16" "bit cnt n \<Longrightarrow> n < 16" for n
      using bit_unat_bound [OF small(2) [OF 2(2)]] bit_unat_bound [OF small(2) [OF 2(3)]] by blast+
    have "?w AND 0xffff = sz" "drop_bit 16 (?w AND 0xffff0000) = cnt" "drop_bit 16 ?w AND 0xffff = cnt"
      unfolding m by (rule bit_word_eqI, auto simp: bit_simps dest: b)+
    moreover have "unat (sz * cnt) = unat sz * unat cnt"
    proof -
      have "unat sz * unat cnt < 2 ^ 16 * 2 ^ 16" using small 2 by (intro mult_strict_mono) auto
      then show ?thesis by (simp add: unat_word_ariths)
    qed
    moreover have "\<not> 0xffff < sz" "\<not> 0xffff < cnt" using 2 by (simp_all add: not_less)
    then have "r = 0" "d' = d\<lparr>kcs_elem_size := ?w\<rparr>" "kcs_flags d AND KCS_SUBTYPE_FLAGS_ARRAY \<noteq> 0"
      using assms 2 small(1) [OF 2(2)] small(1) [OF 2(3)] by (simp_all add: kcs_set_elem_size_def)
    ultimately show ?thesis
      using \<open>\<not> 0xffff < sz\<close> \<open>\<not> 0xffff < cnt\<close>
      by (simp add: kcs_get_elem_size_def kcs_get_elem_count_def del: drop_bit_or)
  next
    case 3
    then have "cnt = 1" using assms(2) by (metis linorder_neqE word_less_1 unsigned_eq_0_iff)
    with 3 assms show ?thesis
      by (auto simp: kcs_set_elem_size_def kcs_get_elem_size_def kcs_get_elem_count_def)
  qed
qed

theorem kcs_elem_roundtrip_witness:
  "kcs_get_elem_count (snd (kcs_set_elem_size \<lparr>kcs_flags = 1, kcs_elem_size = 0\<rparr> 8 4)) = 4 \<and>
   unat (kcs_get_elem_size (snd (kcs_set_elem_size \<lparr>kcs_flags = 1, kcs_elem_size = 0\<rparr> 8 4))) = 32"
proof -
  let ?d = "\<lparr>kcs_flags = 1, kcs_elem_size = 0\<rparr>"
  have "kcs_flags ?d AND KCS_SUBTYPE_FLAGS_ARRAY \<noteq> 0 \<longleftrightarrow> (4 :: u32) > 1" "(4 :: u32) \<noteq> 0"
    by (simp_all add: KCS_SUBTYPE_FLAGS_ARRAY_def)
  from kcs_elem_roundtrip [OF this, of 8 "fst (kcs_set_elem_size ?d 8 4)" "snd (kcs_set_elem_size ?d 8 4)"]
  show ?thesis by simp
qed

end
