(* ===== verification/KcdataIter.thy ===== *)
theory KcdataIter
  imports KcdataFormat
begin

text \<open>
  The safe iterators of \<^verbatim>\<open>kern/kcdata.h\<close>: functions that walk a buffer of items of untrusted
  contents. A buffer is one C object; every read of the functions goes through its bounds and
  has no value outside them, so a theorem that a function has a value says that it stays
  inside. Pointers are 64-bit numbers and their additions wrap around as in the code. The
  theorems show that a walk from inside a buffer ends and never leaves it, whatever the bytes
  are, that it finds the first item asked for in a buffer built to the documented layout, and
  that what the checks of arrays, containers and strings accept can be accessed.
\<close>

section \<open>The iterators\<close>

record kcdata_iter_t =
  it_item :: u64
  it_end :: u64

definition kcdata_iter :: "u64 \<Rightarrow> u64 \<Rightarrow> kcdata_iter_t" where
  "kcdata_iter buffer sz = \<lparr>it_item = buffer, it_end = buffer + sz\<rparr>"

definition kcdata_iter_unsafe :: "u64 \<Rightarrow> kcdata_iter_t" where
  "kcdata_iter_unsafe buffer = \<lparr>it_item = buffer, it_end = NOT 0\<rparr>"

definition kcdata_invalid_iter :: kcdata_iter_t where
  "kcdata_invalid_iter = \<lparr>it_item = 0, it_end = 0\<rparr>"

text \<open>The fields of the item under the iterator; the payload starts behind the fixed part.\<close>

definition item_type :: "cbuf \<Rightarrow> kcdata_iter_t \<Rightarrow> u32 option" where
  "item_type b iter = load32 b (it_item iter)"

definition item_size :: "cbuf \<Rightarrow> kcdata_iter_t \<Rightarrow> u32 option" where
  "item_size b iter = load32 b (it_item iter + 4)"

definition item_flags :: "cbuf \<Rightarrow> kcdata_iter_t \<Rightarrow> u64 option" where
  "item_flags b iter = load64 b (it_item iter + 8)"

definition kcdata_iter_valid :: "cbuf \<Rightarrow> kcdata_iter_t \<Rightarrow> bool option" where
  "kcdata_iter_valid b iter =
     (if it_item iter + of_nat (sizeof kcdata_item) \<le> it_end iter then do {
        sz \<leftarrow> item_size b iter;
        Some (it_item iter + of_nat (sizeof kcdata_item) + ucast sz \<le> it_end iter) }
      else Some False)"

definition kcdata_iter_next :: "cbuf \<Rightarrow> kcdata_iter_t \<Rightarrow> kcdata_iter_t option" where
  "kcdata_iter_next b iter = do {
     sz \<leftarrow> item_size b iter;
     Some (iter\<lparr>it_item := it_item iter + of_nat (sizeof kcdata_item) + ucast sz\<rparr>) }"

definition kcdata_iter_type :: "cbuf \<Rightarrow> kcdata_iter_t \<Rightarrow> u32 option" where
  "kcdata_iter_type b iter = do {
     t \<leftarrow> item_type b iter;
     Some (if t AND NOT 0xf = KCDATA_TYPE_ARRAY_PAD0 then KCDATA_TYPE_ARRAY else t) }"

definition kcdata_calc_padding :: "u32 \<Rightarrow> u32" where
  "kcdata_calc_padding sz = (- sz) AND 0xf"

definition KCDATA_FLAGS_STRUCT_PADDING_MASK :: u64 where "KCDATA_FLAGS_STRUCT_PADDING_MASK = 0xf"
definition KCDATA_FLAGS_STRUCT_HAS_PADDING :: u64 where "KCDATA_FLAGS_STRUCT_HAS_PADDING = 0x80"
definition KCDATA_DESC_MAXLEN :: u32 where "KCDATA_DESC_MAXLEN = 32"

definition kcdata_flags_get_padding :: "u64 \<Rightarrow> u32" where
  "kcdata_flags_get_padding flags = ucast (flags AND KCDATA_FLAGS_STRUCT_PADDING_MASK)"

definition kcdata_iter_is_legacy_item :: "cbuf \<Rightarrow> kcdata_iter_t \<Rightarrow> u32 \<Rightarrow> bool option" where
  "kcdata_iter_is_legacy_item b iter legacy_size = (
     let legacy_size_padded = legacy_size + kcdata_calc_padding legacy_size in do {
       sz \<leftarrow> item_size b iter;
       if sz = legacy_size_padded then do {
         flags \<leftarrow> item_flags b iter;
         Some (flags AND (KCDATA_FLAGS_STRUCT_PADDING_MASK OR KCDATA_FLAGS_STRUCT_HAS_PADDING) = 0) }
       else Some False })"

text \<open>The default branch of the switch in \<^verbatim>\<open>kcdata_iter_size\<close>.\<close>

definition kcdata_unpadded_size :: "cbuf \<Rightarrow> kcdata_iter_t \<Rightarrow> u32 option" where
  "kcdata_unpadded_size b iter = do {
     sz \<leftarrow> item_size b iter;
     flags \<leftarrow> item_flags b iter;
     Some (if sz < kcdata_flags_get_padding flags then 0 else sz - kcdata_flags_get_padding flags) }"

definition kcdata_iter_size :: "cbuf \<Rightarrow> kcdata_iter_t \<Rightarrow> u32 option" where
  "kcdata_iter_size b iter = do {
     t \<leftarrow> kcdata_iter_type b iter;
     if t = KCDATA_TYPE_ARRAY \<or> t = KCDATA_TYPE_CONTAINER_BEGIN then item_size b iter
     else if t = STACKSHOT_KCTYPE_THREAD_SNAPSHOT then do {
       legacy \<leftarrow> kcdata_iter_is_legacy_item b iter (of_nat (sizeof thread_snapshot_v2));
       if legacy then Some (of_nat (sizeof thread_snapshot_v2)) else kcdata_unpadded_size b iter }
     else if t = STACKSHOT_KCTYPE_SHAREDCACHE_LOADINFO then do {
       legacy \<leftarrow> kcdata_iter_is_legacy_item b iter (of_nat (sizeof dyld_uuid_info_64));
       if legacy then Some (of_nat (sizeof dyld_uuid_info_64)) else kcdata_unpadded_size b iter }
     else kcdata_unpadded_size b iter }"

definition kcdata_iter_flags :: "cbuf \<Rightarrow> kcdata_iter_t \<Rightarrow> u64 option" where
  "kcdata_iter_flags b iter = item_flags b iter"

definition kcdata_iter_payload :: "kcdata_iter_t \<Rightarrow> u64" where
  "kcdata_iter_payload iter = it_item iter + 16"

definition kcdata_iter_array_elem_type :: "cbuf \<Rightarrow> kcdata_iter_t \<Rightarrow> u32 option" where
  "kcdata_iter_array_elem_type b iter = do {
     flags \<leftarrow> item_flags b iter;
     Some (ucast (drop_bit 32 flags AND 0xffffffff)) }"

definition kcdata_iter_array_elem_count :: "cbuf \<Rightarrow> kcdata_iter_t \<Rightarrow> u32 option" where
  "kcdata_iter_array_elem_count b iter = do {
     flags \<leftarrow> item_flags b iter;
     Some (ucast (flags AND 0xffffffff)) }"

definition kcdata_iter_array_size_switch :: "cbuf \<Rightarrow> kcdata_iter_t \<Rightarrow> u32 option" where
  "kcdata_iter_array_size_switch b iter = do {
     t \<leftarrow> kcdata_iter_array_elem_type b iter;
     Some (
       if t = KCDATA_TYPE_LIBRARY_LOADINFO then of_nat (sizeof dyld_uuid_info_32)
       else if t = KCDATA_TYPE_LIBRARY_LOADINFO64 then of_nat (sizeof dyld_uuid_info_64)
       else if t = STACKSHOT_KCTYPE_KERN_STACKFRAME \<or> t = STACKSHOT_KCTYPE_USER_STACKFRAME
         then of_nat (sizeof stack_snapshot_frame32)
       else if t = STACKSHOT_KCTYPE_KERN_STACKFRAME64 \<or> t = STACKSHOT_KCTYPE_USER_STACKFRAME64
         then of_nat (sizeof stack_snapshot_frame64)
       else if t = STACKSHOT_KCTYPE_DONATING_PIDS then of_nat (sizeof_type I32)
       else if t = STACKSHOT_KCTYPE_THREAD_DELTA_SNAPSHOT then of_nat (sizeof thread_delta_snapshot_v2)
       else if t = TASK_CRASHINFO_CRASHED_THREADID then of_nat (sizeof_type U64)
       else 0) }"

definition kcdata_iter_array_valid :: "cbuf \<Rightarrow> kcdata_iter_t \<Rightarrow> bool option" where
  "kcdata_iter_array_valid b iter = do {
     valid \<leftarrow> kcdata_iter_valid b iter;
     if \<not> valid then Some False else do {
     t \<leftarrow> kcdata_iter_type b iter;
     if t \<noteq> KCDATA_TYPE_ARRAY then Some False else do {
     cnt \<leftarrow> kcdata_iter_array_elem_count b iter;
     sz \<leftarrow> item_size b iter;
     if cnt = 0 then Some (sz = 0) else do {
     ty \<leftarrow> item_type b iter;
     if ty = KCDATA_TYPE_ARRAY then do {
       elem_size \<leftarrow> kcdata_iter_array_size_switch b iter;
       if elem_size = 0 then Some False
       else Some (cnt \<le> sz div elem_size \<and> sz mod cnt < 16) }
     else Some (ty AND 0xf \<le> sz \<and> cnt \<le> sz - (ty AND 0xf) \<and> (sz - (ty AND 0xf)) mod cnt = 0) } } } }"

definition kcdata_iter_array_elem_size :: "cbuf \<Rightarrow> kcdata_iter_t \<Rightarrow> u32 option" where
  "kcdata_iter_array_elem_size b iter = do {
     ty \<leftarrow> item_type b iter;
     if ty = KCDATA_TYPE_ARRAY then kcdata_iter_array_size_switch b iter else do {
     cnt \<leftarrow> kcdata_iter_array_elem_count b iter;
     if cnt = 0 then Some 0 else do {
     sz \<leftarrow> item_size b iter;
     Some ((sz - (ty AND 0xf)) div cnt) } } }"

definition kcdata_iter_container_valid :: "cbuf \<Rightarrow> kcdata_iter_t \<Rightarrow> bool option" where
  "kcdata_iter_container_valid b iter = do {
     valid \<leftarrow> kcdata_iter_valid b iter;
     if \<not> valid then Some False else do {
     t \<leftarrow> kcdata_iter_type b iter;
     if t \<noteq> KCDATA_TYPE_CONTAINER_BEGIN then Some False else do {
     sz \<leftarrow> item_size b iter;
     Some (of_nat (sizeof_type U32) \<le> sz) } } }"

definition kcdata_iter_container_type :: "cbuf \<Rightarrow> kcdata_iter_t \<Rightarrow> u32 option" where
  "kcdata_iter_container_type b iter = load32 b (kcdata_iter_payload iter)"

definition kcdata_iter_container_id :: "cbuf \<Rightarrow> kcdata_iter_t \<Rightarrow> u64 option" where
  "kcdata_iter_container_id b iter = item_flags b iter"

text \<open>
  The loop of \<^verbatim>\<open>KCDATA_ITER_FOREACH\<close> with the body of \<^verbatim>\<open>kcdata_iter_find_type\<close>. No value means that
  the loop left the buffer or did not end.
\<close>

partial_function (option) kcdata_iter_find_type :: "cbuf \<Rightarrow> kcdata_iter_t \<Rightarrow> u32 \<Rightarrow> kcdata_iter_t option" where
  "kcdata_iter_find_type b iter ty = do {
     valid \<leftarrow> kcdata_iter_valid b iter;
     if \<not> valid then Some kcdata_invalid_iter else do {
     raw \<leftarrow> item_type b iter;
     if raw = KCDATA_TYPE_BUFFER_END then Some kcdata_invalid_iter else do {
     t \<leftarrow> kcdata_iter_type b iter;
     if t = ty then Some iter else do {
     iter' \<leftarrow> kcdata_iter_next b iter;
     kcdata_iter_find_type b iter' ty } } } }"

definition kcdata_iter_data_with_desc_valid :: "cbuf \<Rightarrow> kcdata_iter_t \<Rightarrow> u32 \<Rightarrow> bool option" where
  "kcdata_iter_data_with_desc_valid b iter minsize = do {
     valid \<leftarrow> kcdata_iter_valid b iter;
     if \<not> valid then Some False else do {
     sz \<leftarrow> kcdata_iter_size b iter;
     if sz < KCDATA_DESC_MAXLEN + minsize then Some False else do {
     c \<leftarrow> load8 b (kcdata_iter_payload iter + ucast (KCDATA_DESC_MAXLEN - 1));
     Some (c = 0) } } }"

fun strnlen :: "cbuf \<Rightarrow> u64 \<Rightarrow> nat \<Rightarrow> nat option" where
  "strnlen b s 0 = Some 0"
| "strnlen b s (Suc n) = do {
     c \<leftarrow> load8 b s;
     if c = 0 then Some 0 else do { k \<leftarrow> strnlen b (s + 1) n; Some (Suc k) } }"

definition kcdata_iter_string :: "cbuf \<Rightarrow> kcdata_iter_t \<Rightarrow> u32 \<Rightarrow> u64 option" where
  "kcdata_iter_string b iter offset = do {
     sz \<leftarrow> kcdata_iter_size b iter;
     if offset > sz then Some 0 else
     let maxlen = sz - offset;
         s = kcdata_iter_payload iter + ucast offset in do {
       k \<leftarrow> strnlen b s (unat maxlen);
       Some (if k < unat maxlen then s else 0) } }"

text \<open>The three out parameters are written when they are not null.\<close>

definition kcdata_iter_get_data_with_desc ::
  "cbuf \<Rightarrow> kcdata_iter_t \<Rightarrow> bool \<Rightarrow> bool \<Rightarrow> bool \<Rightarrow> (u64 option \<times> u64 option \<times> u32 option) option" where
  "kcdata_iter_get_data_with_desc b iter desc_ptr data_ptr size_ptr = (
     let desc = (if desc_ptr then Some (kcdata_iter_payload iter) else None);
         dat = (if data_ptr then Some (kcdata_iter_payload iter + ucast KCDATA_DESC_MAXLEN) else None)
     in if size_ptr then do {
          sz \<leftarrow> kcdata_iter_size b iter;
          Some (desc, dat, Some (sz - KCDATA_DESC_MAXLEN)) }
        else Some (desc, dat, None))"

section \<open>The documented layout\<close>

text \<open>
  A buffer as the comment of the header describes it: each item is its type, the length of its
  data, its flags and the data; an item of type \<^verbatim>\<open>KCDATA_TYPE_BUFFER_END\<close> closes the list. Reading
  a list of bytes as items stops at the first item that is not complete or is the end.
\<close>

type_synonym kc_item = "u32 \<times> u64 \<times> u8 list"

definition enc_item :: "kc_item \<Rightarrow> u8 list" where
  "enc_item x = (case x of (t, f, d) \<Rightarrow>
     le_bytes 4 (unat t) @ le_bytes 4 (length d) @ le_bytes 8 (unat f) @ d)"

definition enc_items :: "kc_item list \<Rightarrow> u8 list" where
  "enc_items xs = concat (map enc_item xs) @ enc_item (KCDATA_TYPE_BUFFER_END, 0, [])"

function kc_parse :: "u8 list \<Rightarrow> kc_item list" where
  "kc_parse bs = (
     if length bs < 16 then [] else
     let t = word_of_nat (le_val (take 4 bs)); n = le_val (take 4 (drop 4 bs));
         f = word_of_nat (le_val (take 8 (drop 8 bs)))
     in if length bs < 16 + n \<or> t = KCDATA_TYPE_BUFFER_END then []
        else (t, f, take n (drop 16 bs)) # kc_parse (drop (16 + n) bs))"
  by auto
termination
  by (relation "measure length") auto

declare kc_parse.simps [simp del]

definition kc_norm :: "u32 \<Rightarrow> u32" where
  "kc_norm t = (if t AND NOT 0xf = KCDATA_TYPE_ARRAY_PAD0 then KCDATA_TYPE_ARRAY else t)"

text \<open>The distance in bytes to the first item of the wanted type.\<close>

fun kc_find :: "u32 \<Rightarrow> kc_item list \<Rightarrow> nat option" where
  "kc_find ty [] = None"
| "kc_find ty ((t, f, d) # xs) = (if kc_norm t = ty then Some 0 else map_option ((+) (16 + length d)) (kc_find ty xs))"

lemma kc_parse_enc_item:
  assumes "t \<noteq> KCDATA_TYPE_BUFFER_END" and "length d < 2 ^ 32"
  shows "kc_parse (enc_item (t, f, d) @ bs) = (t, f, d) # kc_parse bs"
proof -
  let ?bs = "enc_item (t, f, d) @ bs"
  have "take 4 ?bs = le_bytes 4 (unat t)" "take 4 (drop 4 ?bs) = le_bytes 4 (length d)"
    "take 8 (drop 8 ?bs) = le_bytes 8 (unat f)" "take (length d) (drop 16 ?bs) = d"
    "drop (16 + length d) ?bs = bs" "\<not> length ?bs < 16 + length d"
    by (simp_all add: enc_item_def)
  moreover have "le_val (le_bytes 4 (length d)) = length d" using assms(2) by (simp add: le_val_le_bytes)
  ultimately show ?thesis
    using assms(1) by (subst kc_parse.simps) (simp add: Let_def word_le_bytes)
qed

lemma kc_parse_end: "kc_parse (enc_item (KCDATA_TYPE_BUFFER_END, 0, []) @ bs) = []"
  by (subst kc_parse.simps) (simp add: Let_def enc_item_def word_le_bytes)

lemma kc_parse_enc_items:
  assumes "list_all (\<lambda>(t, f, d). t \<noteq> KCDATA_TYPE_BUFFER_END \<and> length d < 2 ^ 32) xs"
  shows "kc_parse (enc_items xs @ bs) = xs"
  using assms
proof (induction xs)
  case (Cons x xs)
  then show ?case
    by (cases x) (simp add: enc_items_def kc_parse_enc_item)
qed (simp add: enc_items_def kc_parse_end)

section \<open>Walking a buffer\<close>

text \<open>
  The object must end at least 4 GiB below the top of the address space: an item may claim any
  32-bit size, and the code adds it to a pointer before it compares.
\<close>

definition placed :: "cbuf \<Rightarrow> bool" where
  "placed b \<longleftrightarrow> unat (buf_base b) + length (buf_bytes b) + 2 ^ 32 \<le> 2 ^ 64"

definition iter_at :: "cbuf \<Rightarrow> nat \<Rightarrow> kcdata_iter_t" where
  "iter_at b i = \<lparr>it_item = buf_base b + of_nat i, it_end = buf_base b + of_nat (length (buf_bytes b))\<rparr>"

lemma unat_addr:
  assumes "placed b" and "k < length (buf_bytes b) + 2 ^ 32"
  shows "unat (buf_base b + word_of_nat k) = unat (buf_base b) + k"
proof -
  have "unat (buf_base b) + k < 2 ^ 64" using assms by (simp add: placed_def)
  then show ?thesis by (simp add: unat_word_ariths unsigned_of_nat take_bit_eq_mod)
qed

lemma addr_le:
  assumes "placed b" and "k < length (buf_bytes b) + 2 ^ 32"
  shows "buf_base b + word_of_nat k \<le> buf_base b + word_of_nat (length (buf_bytes b)) \<longleftrightarrow> k \<le> length (buf_bytes b)"
  using unat_addr [OF assms] unat_addr [OF assms(1), of "length (buf_bytes b)"]
  by (simp add: word_le_nat_alt)

lemma load_at:
  assumes "placed b" and "k + n \<le> length (buf_bytes b)"
  shows "load_bytes b (buf_base b + word_of_nat k) n = Some (take n (drop k (buf_bytes b)))"
proof -
  have "k < 2 ^ 64" using assms by (simp add: placed_def)
  then have "unat (word_of_nat k :: u64) = k" by (simp add: unsigned_of_nat take_bit_eq_mod)
  with assms(2) show ?thesis by (simp add: load_bytes_def)
qed

lemma ucast_of_unat: "(ucast (x :: u32) :: u64) = word_of_nat (unat x)"
  by (simp add: word_unat_eq_iff unsigned_of_nat)

lemma le_val_word32: "length bs = 4 \<Longrightarrow> unat (word_of_nat (le_val bs) :: u32) = le_val bs"
  using le_val_less [of bs] by (simp add: unsigned_of_nat take_bit_eq_mod)

lemma item_fields:
  assumes "placed b" and "i + 16 \<le> length (buf_bytes b)"
  shows "item_type b (iter_at b i) = Some (word_of_nat (le_val (take 4 (drop i (buf_bytes b)))))"
    and "item_size b (iter_at b i) = Some (word_of_nat (le_val (take 4 (drop 4 (drop i (buf_bytes b))))))"
    and "item_flags b (iter_at b i) = Some (word_of_nat (le_val (take 8 (drop 8 (drop i (buf_bytes b))))))"
  using load_at [OF assms(1), of i 4] load_at [OF assms(1), of "i + 4" 4] load_at [OF assms(1), of "i + 8" 8] assms(2)
  by (simp_all add: item_type_def item_size_def item_flags_def iter_at_def load32_def load64_def ac_simps)

text \<open>The size field of the item at an offset.\<close>

definition size_at :: "cbuf \<Rightarrow> nat \<Rightarrow> nat" where
  "size_at b i = le_val (take 4 (drop 4 (drop i (buf_bytes b))))"

lemma item_size_at:
  assumes "placed b" and "i + 16 \<le> length (buf_bytes b)"
  shows "\<exists>w. item_size b (iter_at b i) = Some w \<and> unat w = size_at b i"
  using item_fields(2) [OF assms] assms(2) le_val_word32 [of "take 4 (drop 4 (drop i (buf_bytes b)))"]
  by (simp add: size_at_def)

lemma item_end_addr:
  assumes "unat w = n"
  shows "it_item (iter_at b i) + word_of_nat (sizeof kcdata_item) + ucast (w :: u32) = buf_base b + word_of_nat (i + 16 + n)"
  by (simp add: iter_at_def struct_sizes ucast_of_unat assms ac_simps)

lemma kcdata_iter_valid_at:
  assumes "placed b" and "i \<le> length (buf_bytes b)"
  shows "kcdata_iter_valid b (iter_at b i) =
    Some (i + 16 \<le> length (buf_bytes b) \<and> i + 16 + size_at b i \<le> length (buf_bytes b))"
proof -
  let ?n = "length (buf_bytes b)"
  have e: "it_item (iter_at b i) + word_of_nat (sizeof kcdata_item) = buf_base b + word_of_nat (i + 16)"
    by (simp add: iter_at_def struct_sizes ac_simps)
  have 1: "it_item (iter_at b i) + word_of_nat (sizeof kcdata_item) \<le> it_end (iter_at b i) \<longleftrightarrow> i + 16 \<le> ?n"
    unfolding e using addr_le [OF assms(1), of "i + 16"] assms(2) by (simp add: iter_at_def)
  show ?thesis
  proof (cases "i + 16 \<le> ?n")
    case True
    then obtain w where w: "item_size b (iter_at b i) = Some w" "unat w = size_at b i"
      using item_size_at [OF assms(1)] by blast
    have "size_at b i < 2 ^ 32" using unsigned_less [of w, where 'a = nat] w(2) by simp
    then have "i + 16 + size_at b i < ?n + 2 ^ 32" using True by simp
    from addr_le [OF assms(1) this]
    have "it_item (iter_at b i) + word_of_nat (sizeof kcdata_item) + ucast w \<le> it_end (iter_at b i) \<longleftrightarrow>
        i + 16 + size_at b i \<le> ?n"
      unfolding item_end_addr [OF w(2)] by (simp only: iter_at_def kcdata_iter_t.simps)
    with 1 True w show ?thesis by (simp add: kcdata_iter_valid_def)
  next
    case False
    with 1 show ?thesis by (simp add: kcdata_iter_valid_def)
  qed
qed

lemma kcdata_iter_next_at:
  assumes "placed b" and "i + 16 \<le> length (buf_bytes b)"
  shows "kcdata_iter_next b (iter_at b i) = Some (iter_at b (i + 16 + size_at b i))"
proof -
  obtain w where "item_size b (iter_at b i) = Some w" "unat w = size_at b i"
    using item_size_at [OF assms] by blast
  with item_end_addr [of w "size_at b i" b i] show ?thesis
    by (simp add: kcdata_iter_next_def) (simp add: iter_at_def)
qed

lemma kcdata_iter_type_at:
  assumes "placed b" and "i + 16 \<le> length (buf_bytes b)"
  shows "kcdata_iter_type b (iter_at b i) = Some (kc_norm (word_of_nat (le_val (take 4 (drop i (buf_bytes b))))))"
  using item_fields(1) [OF assms] by (simp add: kcdata_iter_type_def kc_norm_def)

lemma find_type_walk:
  assumes "placed b" and "bs = drop i (buf_bytes b)" and "i \<le> length (buf_bytes b)"
  shows "kcdata_iter_find_type b (iter_at b i) ty =
    Some (case kc_find ty (kc_parse bs) of None \<Rightarrow> kcdata_invalid_iter | Some k \<Rightarrow> iter_at b (i + k))"
  using assms(2,3)
proof (induction bs arbitrary: i rule: kc_parse.induct)
  case (1 bs i)
  let ?t = "word_of_nat (le_val (take 4 bs)) :: u32" and ?n = "size_at b i"
  have n: "le_val (take 4 (drop 4 bs)) = ?n" using "1.prems" by (simp add: size_at_def)
  have v: "kcdata_iter_valid b (iter_at b i) = Some (16 \<le> length bs \<and> 16 + ?n \<le> length bs)"
    using kcdata_iter_valid_at [OF assms(1) "1.prems"(2)] "1.prems" by (auto simp: le_diff_conv2 algebra_simps)
  show ?case
  proof (cases "16 \<le> length bs \<and> 16 + ?n \<le> length bs")
    case False
    with v n show ?thesis
      by (subst kcdata_iter_find_type.simps, subst kc_parse.simps) (auto simp: Let_def not_less)
  next
    case True
    then have i: "i + 16 \<le> length (buf_bytes b)" and i2: "i + 16 + ?n \<le> length (buf_bytes b)"
      using "1.prems" by auto
    note f = item_fields(1) [OF assms(1) i] kcdata_iter_type_at [OF assms(1) i] kcdata_iter_next_at [OF assms(1) i]
    show ?thesis
    proof (cases "?t = KCDATA_TYPE_BUFFER_END")
      case End: True
      with v True f "1.prems" show ?thesis
        by (subst kcdata_iter_find_type.simps, subst kc_parse.simps) (simp add: Let_def)
    next
      case False
      have IH: "kcdata_iter_find_type b (iter_at b (i + 16 + ?n)) ty =
          Some (case kc_find ty (kc_parse (drop (16 + ?n) bs)) of None \<Rightarrow> kcdata_invalid_iter | Some k \<Rightarrow> iter_at b (i + 16 + ?n + k))"
        by (rule "1.IH" [OF _ refl refl refl, unfolded n]) (use True False i2 "1.prems" in \<open>simp_all add: ac_simps\<close>)
      have p: "kc_parse bs = (?t, word_of_nat (le_val (take 8 (drop 8 bs))), take ?n (drop 16 bs)) # kc_parse (drop (16 + ?n) bs)"
        using True False n by (subst kc_parse.simps) (simp add: Let_def not_less)
      have l: "length (take ?n (drop 16 bs)) = ?n" using True by (auto simp: min_def)
      show ?thesis
        using v True f False "1.prems" IH l unfolding p
        by (subst kcdata_iter_find_type.simps) (auto simp: add.assoc split: option.split)
    qed
  qed
qed

text \<open>
  C20. Looking for an item in a buffer of arbitrary bytes, from any position in it: the walk
  ends, never reads outside the buffer, and returns the iterator at the first item of the
  wanted type among the complete items in front of the end marker, or the invalid iterator if
  there is none. The buffer must end at least 4 GiB below the top of the address space.
\<close>

theorem kcdata_find_type_refines:
  assumes "placed b" and "i \<le> length (buf_bytes b)"
  shows "kcdata_iter_find_type b (iter_at b i) ty =
    Some (case kc_find ty (kc_parse (drop i (buf_bytes b))) of
            None \<Rightarrow> kcdata_invalid_iter
          | Some k \<Rightarrow> iter_at b (i + k))"
  by (rule find_type_walk [OF assms(1) refl assms(2)])

theorem kcdata_find_type_refines_witness:
  "kcdata_iter_find_type \<lparr>buf_base = 0x1000, buf_bytes = replicate 20 0xff\<rparr>
     (iter_at \<lparr>buf_base = 0x1000, buf_bytes = replicate 20 0xff\<rparr> 8) 5 = Some kcdata_invalid_iter"
proof -
  let ?b = "\<lparr>buf_base = 0x1000, buf_bytes = replicate 20 0xff\<rparr>"
  have "placed ?b" "8 \<le> length (buf_bytes ?b)" by (simp_all add: placed_def)
  moreover have "kc_parse (drop 8 (replicate 20 0xff)) = []" by (subst kc_parse.simps) simp
  ultimately show ?thesis using kcdata_find_type_refines [of ?b 8 5] by simp
qed

text \<open>
  C21. The iterator over a buffer that holds any list of items in the documented layout,
  followed by anything: the first item of the wanted type is found where it was put, where all
  numbered array types count as the array type, and a type that does not occur gives the
  invalid iterator.
\<close>

theorem kcdata_find_type_encoded:
  assumes "placed b" and "buf_bytes b = enc_items xs @ rest"
    and "list_all (\<lambda>(t, f, d). t \<noteq> KCDATA_TYPE_BUFFER_END \<and> length d < 2 ^ 32) xs"
  shows "kcdata_iter_find_type b (kcdata_iter (buf_base b) (of_nat (length (buf_bytes b)))) ty =
    Some (case kc_find ty xs of None \<Rightarrow> kcdata_invalid_iter | Some k \<Rightarrow> iter_at b k)"
proof -
  have "kcdata_iter (buf_base b) (of_nat (length (buf_bytes b))) = iter_at b 0"
    by (simp add: kcdata_iter_def iter_at_def)
  then show ?thesis
    using find_type_walk [OF assms(1), of _ 0 ty] assms(2) kc_parse_enc_items [OF assms(3), of rest]
    by (simp cong: option.case_cong)
qed

theorem kcdata_find_type_encoded_witness:
  "\<exists>b. kcdata_iter_find_type b (kcdata_iter (buf_base b) (of_nat (length (buf_bytes b)))) 0x11 = Some (iter_at b 18) \<and>
     kcdata_iter_find_type b (kcdata_iter (buf_base b) (of_nat (length (buf_bytes b)))) 0x33 = Some kcdata_invalid_iter"
proof -
  let ?xs = "[(0x30, 0, [1, 2]), (0x24, 1, [3])] :: kc_item list"
  let ?b = "\<lparr>buf_base = 0x1000, buf_bytes = enc_items ?xs @ []\<rparr>"
  have l: "length (buf_bytes ?b) = 51" by (simp add: enc_items_def enc_item_def)
  have "placed ?b" "buf_bytes ?b = enc_items ?xs @ []"
    "list_all (\<lambda>(t, f, d). t \<noteq> KCDATA_TYPE_BUFFER_END \<and> length d < 2 ^ 32) ?xs"
    using l by (simp_all add: placed_def kc_numbers)
  from kcdata_find_type_encoded [OF this, of "0x11"] kcdata_find_type_encoded [OF this, of "0x33"] show ?thesis
    by (intro exI [of _ ?b]) (simp add: kc_norm_def kc_numbers)
qed

section \<open>What the checks accept can be accessed\<close>

lemma payload_within:
  assumes "placed b" and "i + 16 + n \<le> length (buf_bytes b)" and "off + k \<le> n"
  shows "within b (kcdata_iter_payload (iter_at b i) + word_of_nat off) k"
proof -
  have "i + 16 + off < 2 ^ 64" using assms by (simp add: placed_def)
  then have "unat (word_of_nat (i + 16 + off) :: u64) = i + 16 + off"
    by (simp only: unsigned_of_nat take_bit_eq_mod) simp
  moreover have "kcdata_iter_payload (iter_at b i) + word_of_nat off - buf_base b = word_of_nat (i + 16 + off)"
    by (simp add: kcdata_iter_payload_def iter_at_def)
  ultimately have "unat (kcdata_iter_payload (iter_at b i) + word_of_nat off - buf_base b) = i + 16 + off" by (simp only:)
  then show ?thesis using assms by (simp add: within_def)
qed

lemma valid_bounds:
  assumes "placed b" and "i \<le> length (buf_bytes b)" and "kcdata_iter_valid b (iter_at b i) = Some True"
  shows "i + 16 \<le> length (buf_bytes b)" and "i + 16 + size_at b i \<le> length (buf_bytes b)"
  using kcdata_iter_valid_at [OF assms(1,2)] assms(3) by simp_all

lemma array_total_size:
  assumes "placed b" and "i \<le> length (buf_bytes b)" and valid: "kcdata_iter_array_valid b (iter_at b i) = Some True"
    and cnt: "kcdata_iter_array_elem_count b (iter_at b i) = Some cnt"
    and es: "kcdata_iter_array_elem_size b (iter_at b i) = Some es" and pos: "cnt \<noteq> 0"
  shows "unat cnt * unat es \<le> size_at b i" and "kcdata_iter_valid b (iter_at b i) = Some True"
proof -
  let ?it = "iter_at b i"
  show v: "kcdata_iter_valid b ?it = Some True"
    using valid by (auto simp: kcdata_iter_array_valid_def bind_eq_Some_conv split: if_splits)
  note i = valid_bounds [OF assms(1,2) v]
  obtain sz where sz: "item_size b ?it = Some sz" "unat sz = size_at b i" using item_size_at [OF assms(1) i(1)] by blast
  obtain ty where ty: "item_type b ?it = Some ty" using item_fields(1) [OF assms(1) i(1)] by simp
  show "unat cnt * unat es \<le> size_at b i"
  proof (cases "ty = KCDATA_TYPE_ARRAY")
    case True
    with valid v cnt es sz ty pos have "cnt \<le> sz div es" "es \<noteq> 0"
      by (auto simp: kcdata_iter_array_valid_def kcdata_iter_array_elem_size_def bind_eq_Some_conv split: if_splits)
    then have "unat cnt \<le> unat sz div unat es" by (simp add: word_le_nat_alt unat_div_distrib)
    then have "unat cnt * unat es \<le> unat sz div unat es * unat es" by (rule mult_le_mono1)
    also have "\<dots> \<le> unat sz" by (rule div_times_less_eq_dividend)
    finally show ?thesis using sz by simp
  next
    case False
    with valid v cnt es sz ty pos have "ty AND 0xf \<le> sz" "es = (sz - (ty AND 0xf)) div cnt"
      by (auto simp: kcdata_iter_array_valid_def kcdata_iter_array_elem_size_def bind_eq_Some_conv split: if_splits)
    then have "unat es = (unat sz - unat (ty AND 0xf)) div unat cnt"
      by (simp add: unat_div_distrib unat_sub)
    then have "unat cnt * unat es \<le> unat sz - unat (ty AND 0xf)"
      by (simp add: times_div_less_eq_dividend)
    then show ?thesis using sz by simp
  qed
qed

text \<open>
  C36. An array item that passes its check can be read: for every buffer contents, each element
  below the item's element count, at the item's element size, lies inside the payload of the
  item and inside the buffer.
\<close>

theorem kcdata_array_in_bounds:
  assumes "placed b" and "i \<le> length (buf_bytes b)" and "kcdata_iter_array_valid b (iter_at b i) = Some True"
    and "kcdata_iter_array_elem_count b (iter_at b i) = Some cnt"
    and "kcdata_iter_array_elem_size b (iter_at b i) = Some es" and "k < unat cnt"
  shows "unat cnt * unat es \<le> size_at b i \<and>
    within b (kcdata_iter_payload (iter_at b i) + of_nat (k * unat es)) (unat es)"
proof -
  have pos: "cnt \<noteq> 0" using assms(6) by auto
  note t = array_total_size [OF assms(1-5) pos]
  have "k * unat es + unat es \<le> unat cnt * unat es"
    using assms(6) mult_le_mono1 [of "Suc k" "unat cnt" "unat es"] by simp
  with t(1) have "k * unat es + unat es \<le> size_at b i" by simp
  with t payload_within [OF assms(1) valid_bounds(2) [OF assms(1,2) t(2)]] show ?thesis by blast
qed

text \<open>The item at the front of a buffer in the documented layout.\<close>

lemma item_fields_enc:
  assumes "placed b" and "buf_bytes b = enc_item (t, f, d) @ rest" and "length d < 2 ^ 32"
  shows "item_type b (iter_at b 0) = Some t" and "item_size b (iter_at b 0) = Some (of_nat (length d))"
    and "item_flags b (iter_at b 0) = Some f" and "kcdata_iter_valid b (iter_at b 0) = Some True"
proof -
  have l: "0 + 16 \<le> length (buf_bytes b)" by (simp add: assms(2) enc_item_def)
  have t: "take 4 (buf_bytes b) = le_bytes 4 (unat t)" "take 4 (drop 4 (buf_bytes b)) = le_bytes 4 (length d)"
    "take 8 (drop 8 (buf_bytes b)) = le_bytes 8 (unat f)"
    by (simp_all add: assms(2) enc_item_def)
  have n: "le_val (le_bytes 4 (length d)) = length d" using assms(3) by (simp add: le_val_le_bytes)
  show "item_type b (iter_at b 0) = Some t" "item_size b (iter_at b 0) = Some (of_nat (length d))"
    "item_flags b (iter_at b 0) = Some f"
    using item_fields [OF assms(1) l] by (simp_all add: t n word_le_bytes)
  have "size_at b 0 = length d" by (simp add: size_at_def t n)
  then show "kcdata_iter_valid b (iter_at b 0) = Some True"
    using kcdata_iter_valid_at [OF assms(1), of 0] by (simp add: assms(2) enc_item_def)
qed

definition array_example :: cbuf where
  "array_example = \<lparr>buf_base = 0x1000, buf_bytes = enc_item (0x20, 2, replicate 8 7)\<rparr>"

theorem kcdata_array_in_bounds_witness:
  "within array_example (kcdata_iter_payload (iter_at array_example 0) + 4) 4"
proof -
  have p: "placed array_example" "0 \<le> length (buf_bytes array_example)"
      "buf_bytes array_example = enc_item (0x20, 2, replicate 8 7) @ []"
    by (simp_all add: array_example_def placed_def enc_item_def)
  note f = item_fields_enc [OF p(1,3)]
  have "kcdata_iter_array_valid array_example (iter_at array_example 0) = Some True"
    "kcdata_iter_array_elem_count array_example (iter_at array_example 0) = Some 2"
    "kcdata_iter_array_elem_size array_example (iter_at array_example 0) = Some 4"
    by (simp_all add: kcdata_iter_array_valid_def kcdata_iter_array_elem_count_def kcdata_iter_array_elem_size_def
        kcdata_iter_type_def kc_numbers f)
  with p show ?thesis using kcdata_array_in_bounds [of array_example 0 2 4 1] by simp
qed

lemma kcdata_iter_size_at:
  assumes "placed b" and "i + 16 \<le> length (buf_bytes b)"
  shows "\<exists>z. kcdata_iter_size b (iter_at b i) = Some z \<and> unat z \<le> size_at b i"
proof -
  let ?it = "iter_at b i"
  obtain sz where sz: "item_size b ?it = Some sz" "unat sz = size_at b i" using item_size_at [OF assms] by blast
  obtain f where f: "item_flags b ?it = Some f" using item_fields(3) [OF assms] by simp
  obtain t where t: "kcdata_iter_type b ?it = Some t" using kcdata_iter_type_at [OF assms] by simp
  obtain u where u: "kcdata_unpadded_size b ?it = Some u" "unat u \<le> unat sz"
    using sz f by (auto simp: kcdata_unpadded_size_def word_le_nat_alt unat_sub not_less)
  have p: "(104 :: u32) + kcdata_calc_padding 104 = 112" "(24 :: u32) + kcdata_calc_padding 24 = 32"
    by (simp_all add: kcdata_calc_padding_def)
  have l: "\<exists>l. kcdata_iter_is_legacy_item b ?it 104 = Some l \<and> (l \<longrightarrow> 104 \<le> unat sz)"
    "\<exists>l. kcdata_iter_is_legacy_item b ?it 24 = Some l \<and> (l \<longrightarrow> 24 \<le> unat sz)"
    using sz f by (auto simp: kcdata_iter_is_legacy_item_def p)
  then obtain l1 l2 where "kcdata_iter_is_legacy_item b ?it 104 = Some l1" "l1 \<Longrightarrow> 104 \<le> unat sz"
      "kcdata_iter_is_legacy_item b ?it 24 = Some l2" "l2 \<Longrightarrow> 24 \<le> unat sz"
    by blast
  then show ?thesis
    using t sz u by (auto simp: kcdata_iter_size_def struct_sizes)
qed

lemma strnlen_total:
  assumes "placed b" and "i + 16 + n \<le> length (buf_bytes b)" and "off + m \<le> n"
  shows "\<exists>k. strnlen b (kcdata_iter_payload (iter_at b i) + word_of_nat off) m = Some k \<and> k \<le> m \<and>
    (k < m \<longrightarrow> load8 b (kcdata_iter_payload (iter_at b i) + word_of_nat (off + k)) = Some 0)"
  using assms(3)
proof (induction m arbitrary: off)
  case (Suc m)
  let ?p = "kcdata_iter_payload (iter_at b i)"
  obtain c where c: "load8 b (?p + word_of_nat off) = Some c"
    using payload_within [OF assms(1,2), of off 1] Suc.prems load_some(1) by force
  show ?case
  proof (cases "c = 0")
    case True
    with c show ?thesis by simp
  next
    case False
    from Suc.IH [of "Suc off"] Suc.prems obtain k where "strnlen b (?p + word_of_nat (Suc off)) m = Some k" "k \<le> m"
        "k < m \<longrightarrow> load8 b (?p + word_of_nat (Suc off + k)) = Some 0"
      by auto
    with c False show ?thesis by (auto simp: ac_simps)
  qed
qed simp

lemma kcdata_string_checked:
  assumes p: "placed b" and il: "i \<le> length (buf_bytes b)" and v: "kcdata_iter_valid b (iter_at b i) = Some True"
  shows "\<exists>s. kcdata_iter_string b (iter_at b i) offset = Some s \<and>
      (s = 0 \<or> s = kcdata_iter_payload (iter_at b i) + ucast offset \<and>
        (\<exists>k. unat offset + k < size_at b i \<and> load8 b (s + of_nat k) = Some 0))"
proof -
  let ?it = "iter_at b i" and ?p = "kcdata_iter_payload (iter_at b i)"
  note i = valid_bounds [OF p il v]
  obtain z where z: "kcdata_iter_size b ?it = Some z" "unat z \<le> size_at b i" using kcdata_iter_size_at [OF p i(1)] by blast
  show ?thesis
  proof (cases "offset > z")
    case True
    with z show ?thesis by (simp add: kcdata_iter_string_def)
  next
    case False
    then have o: "unat offset + unat (z - offset) = unat z" by (simp add: not_less word_le_nat_alt unat_sub)
    then have "unat offset + unat (z - offset) \<le> size_at b i" using z(2) by simp
    from strnlen_total [OF p i(2) this]
    obtain k where k: "strnlen b (?p + ucast offset) (unat (z - offset)) = Some k"
        "k < unat (z - offset) \<longrightarrow> load8 b (?p + word_of_nat (unat offset + k)) = Some 0"
      by (auto simp del: of_nat_add)
    have k2: "load8 b (?p + ucast offset + of_nat k) = Some 0" if "k < unat (z - offset)"
      using k(2) that by (simp add: add.assoc)
    show ?thesis
    proof (cases "k < unat (z - offset)")
      case True
      have "unat offset + k < size_at b i" using True o z(2) by simp
      with True k2 k(1) z(1) False show ?thesis by (auto simp: kcdata_iter_string_def Let_def)
    next
      case no: False
      with k(1) z(1) False show ?thesis by (simp add: kcdata_iter_string_def Let_def)
    qed
  qed
qed

lemma kcdata_container_checked:
  assumes p: "placed b" and il: "i \<le> length (buf_bytes b)" and v: "kcdata_iter_valid b (iter_at b i) = Some True"
    and c: "kcdata_iter_container_valid b (iter_at b i) = Some True"
  shows "kcdata_iter_container_type b (iter_at b i) \<noteq> None"
proof -
  let ?it = "iter_at b i" and ?p = "kcdata_iter_payload (iter_at b i)"
  note i = valid_bounds [OF p il v]
  obtain sz where sz: "item_size b ?it = Some sz" "unat sz = size_at b i" using item_size_at [OF p i(1)] by blast
  with c v have "4 \<le> sz"
    by (auto simp: kcdata_iter_container_valid_def bind_eq_Some_conv split: if_splits)
  then have "4 \<le> unat sz" by (simp add: word_le_nat_alt)
  then have "within b (?p + word_of_nat 0) 4" using payload_within [OF p i(2), of 0 4] sz by simp
  then show ?thesis using load_some(3) [of b ?p] by (auto simp: kcdata_iter_container_type_def)
qed

lemma kcdata_desc_checked:
  assumes p: "placed b" and il: "i \<le> length (buf_bytes b)" and v: "kcdata_iter_valid b (iter_at b i) = Some True"
    and m: "unat minsize + 32 < 2 ^ 32" and d: "kcdata_iter_data_with_desc_valid b (iter_at b i) minsize = Some True"
  shows "\<exists>dat n. kcdata_iter_get_data_with_desc b (iter_at b i) True True True =
      Some (Some (kcdata_iter_payload (iter_at b i)), Some dat, Some n) \<and>
    load8 b (kcdata_iter_payload (iter_at b i) + 31) = Some 0 \<and> minsize \<le> n \<and> within b dat (unat n)"
proof -
  let ?it = "iter_at b i" and ?p = "kcdata_iter_payload (iter_at b i)"
  note i = valid_bounds [OF p il v]
  obtain z where z: "kcdata_iter_size b ?it = Some z" "unat z \<le> size_at b i" using kcdata_iter_size_at [OF p i(1)] by blast
  have c: "load8 b (?p + 31) = Some 0" and ge: "\<not> z < 32 + minsize"
    using d v z(1) by (auto simp: kcdata_iter_data_with_desc_valid_def KCDATA_DESC_MAXLEN_def bind_eq_Some_conv split: if_splits)
  have "unat (32 + minsize) = 32 + unat minsize" using m by (simp add: unat_word_ariths)
  with ge have u: "32 + unat minsize \<le> unat z" by (simp add: not_less word_le_nat_alt)
  then have "(32 :: u32) \<le> z" by (simp add: word_le_nat_alt)
  then have n: "unat (z - 32) = unat z - 32" by (simp add: unat_sub)
  with u have le: "minsize \<le> z - 32" by (simp add: word_le_nat_alt)
  have "within b (?p + word_of_nat 32) (unat (z - 32))"
    by (rule payload_within [OF p i(2)]) (use n z u in linarith)
  with c le z(1) show ?thesis
    by (simp add: kcdata_iter_get_data_with_desc_def KCDATA_DESC_MAXLEN_def)
qed

text \<open>
  C37. The remaining checks on a valid item, for every buffer contents. A string that is
  returned starts at the offset asked for and has its terminator inside the payload; without
  one, or with the offset outside, the answer is null. A container that passes its check has a
  type that can be read. An item with description that passes its check has a terminated
  description of 32 bytes, and its data, of at least the size asked for, lies inside the
  payload; that size must leave room for the 32 bytes in 32 bits.
\<close>

theorem kcdata_payload_checks:
  assumes p: "placed b" and il: "i \<le> length (buf_bytes b)" and v: "kcdata_iter_valid b (iter_at b i) = Some True"
    and m: "unat minsize + 32 < 2 ^ 32"
  shows "(\<exists>s. kcdata_iter_string b (iter_at b i) offset = Some s \<and>
      (s = 0 \<or> s = kcdata_iter_payload (iter_at b i) + ucast offset \<and>
        (\<exists>k. unat offset + k < size_at b i \<and> load8 b (s + of_nat k) = Some 0))) \<and>
    (kcdata_iter_container_valid b (iter_at b i) = Some True \<longrightarrow> kcdata_iter_container_type b (iter_at b i) \<noteq> None) \<and>
    (kcdata_iter_data_with_desc_valid b (iter_at b i) minsize = Some True \<longrightarrow>
      (\<exists>dat n. kcdata_iter_get_data_with_desc b (iter_at b i) True True True =
          Some (Some (kcdata_iter_payload (iter_at b i)), Some dat, Some n) \<and>
        load8 b (kcdata_iter_payload (iter_at b i) + 31) = Some 0 \<and> minsize \<le> n \<and> within b dat (unat n)))"
  using kcdata_string_checked [OF p il v, of offset] kcdata_container_checked [OF p il v]
    kcdata_desc_checked [OF p il v m] by blast

definition desc_example :: cbuf where
  "desc_example = \<lparr>buf_base = 0x1000, buf_bytes = enc_item (1, 0, replicate 40 0)\<rparr>"

theorem kcdata_payload_checks_witness:
  "\<exists>s. kcdata_iter_string desc_example (iter_at desc_example 0) 32 = Some s"
proof -
  have p: "placed desc_example" "0 \<le> length (buf_bytes desc_example)"
      "buf_bytes desc_example = enc_item (1, 0, replicate 40 0) @ []"
    by (simp_all add: desc_example_def placed_def enc_item_def)
  have "unat (8 :: u32) + 32 < 2 ^ 32" by simp
  from kcdata_payload_checks [OF p(1,2) item_fields_enc(4) [OF p(1,3)] this, of 32] show ?thesis by auto
qed

text \<open>
  Without the 4 GiB of distance the check is not sound: here an item that claims almost 4 GiB
  is accepted in a buffer of 16 bytes, because the sum of pointer and size wraps around.
\<close>

lemma kcdata_iter_valid_wraps:
  "kcdata_iter_valid
     \<lparr>buf_base = 0xFFFFFFFFFFFFFF00, buf_bytes = le_bytes 4 1 @ le_bytes 4 0xFFFFFFFF @ le_bytes 8 0\<rparr>
     (kcdata_iter 0xFFFFFFFFFFFFFF00 16) = Some True"
  by (simp add: kcdata_iter_valid_def kcdata_iter_def item_size_def load32_def load_bytes_def struct_sizes
      le_val_le_bytes)

end
