(* ===== verification/TreeZipper.thy ===== *)
theory TreeZipper
  imports XePrelude "HOL-Library.Tree"
begin

text \<open>
  The abstract side of the red-black trees of \<^verbatim>\<open>libkern/tree.h\<close>: coloured trees whose nodes are
  the addresses of elements, a tree with a hole as the list of frames from the hole to the root,
  and what the two repair loops of the header do to such a tree. Shown here: both repairs keep the
  sequence of nodes and restore the colour and black height conditions, and these conditions
  bound the height by twice the logarithm of the size. Nothing in this theory models code.
\<close>

section \<open>Coloured trees\<close>

datatype rb_color = Red | Black

type_synonym rtree = "(u64 \<times> rb_color) tree"

abbreviation ino :: "rtree \<Rightarrow> u64 list" where
  "ino t \<equiv> map fst (inorder t)"

abbreviation addrs :: "rtree \<Rightarrow> u64 set" where
  "addrs t \<equiv> fst ` set_tree t"

fun addr :: "rtree \<Rightarrow> u64" where
  "addr Leaf = 0"
| "addr (Node l (a, c) r) = a"

fun color :: "rtree \<Rightarrow> rb_color" where
  "color Leaf = Black"
| "color (Node l (a, c) r) = c"

fun paint :: "rb_color \<Rightarrow> rtree \<Rightarrow> rtree" where
  "paint c Leaf = Leaf"
| "paint c (Node l (a, d) r) = Node l (a, c) r"

fun bheight :: "rtree \<Rightarrow> nat" where
  "bheight Leaf = 0"
| "bheight (Node l (a, c) r) = bheight l + (if c = Black then 1 else 0)"

text \<open>The conditions listed at the top of the header: a red node has black children, and every path
  down has the same number of black nodes.\<close>

fun balanced :: "rtree \<Rightarrow> bool" where
  "balanced Leaf = True"
| "balanced (Node l (a, c) r) \<longleftrightarrow> balanced l \<and> balanced r \<and> bheight l = bheight r \<and>
     (c = Red \<longrightarrow> color l = Black \<and> color r = Black)"

definition rbt :: "rtree \<Rightarrow> bool" where
  "rbt t \<longleftrightarrow> balanced t \<and> color t = Black"

lemma not_Black [simp]: "c \<noteq> Black \<longleftrightarrow> c = Red" "c \<noteq> Red \<longleftrightarrow> c = Black"
  by (cases c; simp)+

lemma paint_simps [simp]:
  "paint c (paint d t) = paint c t" "ino (paint c t) = ino t" "addrs (paint c t) = addrs t"
  "addr (paint c t) = addr t" "paint c t = Leaf \<longleftrightarrow> t = Leaf"
  "color (paint c t) = (if t = Leaf then Black else c)"
  by (cases "(c, t)" rule: paint.cases; simp)+

lemma paint_color: "color t = c \<Longrightarrow> paint c t = t"
  by (cases "(c, t)" rule: paint.cases) auto

lemma balanced_paint [simp]: "balanced t \<Longrightarrow> balanced (paint Black t)"
  by (cases "(Black, t)" rule: paint.cases) auto

lemma bheight_paint [simp]:
  "bheight (paint Black t) = bheight t + (if color t = Red then 1 else 0)"
  by (cases "(Black, t)" rule: paint.cases) auto

lemma color_RedE:
  assumes "color t = Red"
  obtains l a r where "t = Node l (a, Red) r"
  using assms by (cases t rule: color.cases) auto

lemma black_nodeE:
  assumes "color t = Black" and "0 < bheight t"
  obtains l a r where "t = Node l (a, Black) r"
  using assms by (cases t rule: color.cases) auto

section \<open>A tree with a hole\<close>

datatype rb_frame = InLeft u64 rb_color rtree | InRight rtree u64 rb_color

type_synonym rb_ctx = "rb_frame list"

fun plug :: "rb_ctx \<Rightarrow> rtree \<Rightarrow> rtree" where
  "plug [] t = t"
| "plug (InLeft a c r # k) t = plug k (Node t (a, c) r)"
| "plug (InRight l a c # k) t = plug k (Node l (a, c) t)"

fun parent_of :: "rb_ctx \<Rightarrow> u64" where
  "parent_of [] = 0"
| "parent_of (InLeft a c r # k) = a"
| "parent_of (InRight l a c # k) = a"

fun parent_color :: "rb_ctx \<Rightarrow> rb_color" where
  "parent_color [] = Black"
| "parent_color (InLeft a c r # k) = c"
| "parent_color (InRight l a c # k) = c"

fun lefts :: "rb_ctx \<Rightarrow> u64 list" where
  "lefts [] = []"
| "lefts (InLeft a c r # k) = lefts k"
| "lefts (InRight l a c # k) = lefts k @ ino l @ [a]"

fun rights :: "rb_ctx \<Rightarrow> u64 list" where
  "rights [] = []"
| "rights (InLeft a c r # k) = a # ino r @ rights k"
| "rights (InRight l a c # k) = rights k"

lemma ino_plug [simp]: "ino (plug k t) = lefts k @ ino t @ rights k"
  by (induction k t rule: plug.induct) auto

lemma plug_append: "plug (j @ k) t = plug k (plug j t)"
  by (induction j t rule: plug.induct) auto

lemma lefts_append: "lefts (j @ k) = lefts k @ lefts j"
  by (induction j rule: lefts.induct) auto

lemma rights_append: "rights (j @ k) = rights j @ rights k"
  by (induction j rule: rights.induct) auto

lemma parent_append:
  "parent_of (j @ k) = (if j = [] then parent_of k else parent_of j)"
  "parent_color (j @ k) = (if j = [] then parent_color k else parent_color j)"
  by (cases j rule: parent_of.cases; simp)+

lemma addrs_ino: "addrs t = set (ino t)"
  by simp

lemma addrs_plug [simp]: "addrs (plug k t) = set (lefts k) \<union> addrs t \<union> set (rights k)"
  using arg_cong [OF ino_plug [of k t], of set] by (auto simp del: ino_plug)

text \<open>Every node of a tree is at the bottom of some frames.\<close>

lemma focus_ex: "a \<in> addrs t \<Longrightarrow> \<exists>k l c r. t = plug k (Node l (a, c) r)"
proof (induction t)
  case (Node l x r)
  obtain b c where x: "x = (b, c)" by (cases x)
  consider "a = b" | "a \<in> addrs l" | "a \<in> addrs r" using Node.prems x by auto
  then show ?case
  proof cases
    case 1
    then show ?thesis using x by (metis plug.simps(1))
  next
    case 2
    then obtain k l' c' r' where "l = plug k (Node l' (a, c') r')" using Node.IH by blast
    then show ?thesis by (intro exI [of _ "k @ [InLeft b c r]"]) (auto simp: x plug_append)
  next
    case 3
    then obtain k l' c' r' where "r = plug k (Node l' (a, c') r')" using Node.IH by blast
    then show ?thesis by (intro exI [of _ "k @ [InRight l b c]"]) (auto simp: x plug_append)
  qed
qed simp

text \<open>The frames want a tree of black height \<open>n\<close> in the hole.\<close>

fun fits :: "rb_ctx \<Rightarrow> nat \<Rightarrow> bool" where
  "fits [] n = True"
| "fits (InLeft a c r # k) n \<longleftrightarrow> balanced r \<and> bheight r = n \<and>
     (c = Red \<longrightarrow> color r = Black \<and> parent_color k = Black \<and> k \<noteq> []) \<and> fits k (n + (if c = Black then 1 else 0))"
| "fits (InRight l a c # k) n \<longleftrightarrow> balanced l \<and> bheight l = n \<and>
     (c = Red \<longrightarrow> color l = Black \<and> parent_color k = Black \<and> k \<noteq> []) \<and> fits k (n + (if c = Black then 1 else 0))"

lemma rbt_plug: "rbt (plug k t) \<longleftrightarrow>
  balanced t \<and> fits k (bheight t) \<and> (color t = Red \<longrightarrow> parent_color k = Black \<and> k \<noteq> [])"
  by (induction k t rule: plug.induct) (auto simp: rbt_def)

lemma balanced_plug: "balanced t \<Longrightarrow> fits k (bheight t) \<Longrightarrow> (color t = Red \<longrightarrow> parent_color k = Black) \<Longrightarrow>
  balanced (plug k t)"
  by (induction k t rule: plug.induct) auto

lemma rbt_paint: "balanced t \<Longrightarrow> rbt (paint Black t)"
  by (simp add: rbt_def)

text \<open>Only the colours of the frames count, not the addresses.\<close>

lemma fits_rename: "fits (j @ InRight l x c # k) n \<longleftrightarrow> fits (j @ InRight l y c # k) n"
  by (induction j n rule: fits.induct) (auto simp: parent_append)

lemma rbt_rename: "rbt (plug (j @ InRight l x c # k) t) \<longleftrightarrow> rbt (plug (j @ InRight l y c # k) t)"
  unfolding rbt_plug fits_rename [of j l x c k _ y] by (simp add: parent_append)

text \<open>A gap where a node with one child was.\<close>

lemma gap:
  assumes "rbt (plug k (Node a (y, d) b))" and "a = Leaf \<and> u = b \<or> b = Leaf \<and> u = a"
  shows "balanced u" and "d = Black \<Longrightarrow> fits k (Suc (bheight u))" and "d = Red \<Longrightarrow> rbt (plug k u)"
  using assms by (auto simp: rbt_plug)

lemma fits_single: "fits [v] n \<Longrightarrow> parent_color [v] = Black"
  by (cases v) auto

definition sound :: "rb_ctx \<Rightarrow> bool" where
  "sound k \<longleftrightarrow> (\<exists>n. fits k n)"

lemma sound_tl: "sound (f # k) \<Longrightarrow> sound k"
  by (cases f) (auto simp: sound_def)

lemma sound_single: "sound [f] \<Longrightarrow> parent_color [f] = Black"
  by (auto simp: sound_def dest: fits_single)

section \<open>The repair after an insertion\<close>

text \<open>The hole holds a red node; a red node above it is the only fault.\<close>

fun grown :: "rb_ctx \<Rightarrow> rtree \<Rightarrow> rtree" where
  "grown (InLeft p Red s # InLeft g cg u # k) t =
     (if color u = Red then grown k (Node (Node t (p, Black) s) (g, Red) (paint Black u))
      else plug k (Node t (p, Black) (Node s (g, Red) u)))"
| "grown (InRight l p Red # InLeft g cg u # k) t =
     (if color u = Red then grown k (Node (Node l (p, Black) t) (g, Red) (paint Black u))
      else (case t of Leaf \<Rightarrow> Leaf | Node a (x, cx) b \<Rightarrow>
        plug k (Node (Node l (p, Red) a) (x, Black) (Node b (g, Red) u))))"
| "grown (InRight l p Red # InRight u g cg # k) t =
     (if color u = Red then grown k (Node (paint Black u) (g, Red) (Node l (p, Black) t))
      else plug k (Node (Node u (g, Red) l) (p, Black) t))"
| "grown (InLeft p Red r # InRight u g cg # k) t =
     (if color u = Red then grown k (Node (paint Black u) (g, Red) (Node t (p, Black) r))
      else (case t of Leaf \<Rightarrow> Leaf | Node a (x, cx) b \<Rightarrow>
        plug k (Node (Node u (g, Red) a) (x, Black) (Node b (p, Red) r))))"
| "grown k t = plug k t"

lemma grown_ino: "color t = Red \<Longrightarrow> ino (grown k t) = lefts k @ ino t @ rights k"
  by (induction k t rule: grown.induct) (auto elim!: color_RedE)

lemma grown_balanced:
  "color t = Red \<Longrightarrow> balanced t \<Longrightarrow> fits k (bheight t) \<Longrightarrow> balanced (grown k t)"
  by (induction k t rule: grown.induct) (auto intro!: balanced_plug elim!: color_RedE dest: fits_single)

section \<open>The repair after a removal\<close>

text \<open>
  The tree \<open>t\<close> below \<open>p\<close> has one black node too few on every path, its sibling is black. Either the
  whole is made short in turn (the second component), or the fault is gone.
\<close>

fun lack_left :: "rtree \<Rightarrow> u64 \<Rightarrow> rb_color \<Rightarrow> rtree \<Rightarrow> rtree \<times> bool" where
  "lack_left t p c (Node sl (s, cs) sr) =
     (if color sl = Black \<and> color sr = Black then (Node t (p, c) (Node sl (s, Red) sr), True)
      else if color sr = Black then
        (case sl of Leaf \<Rightarrow> (Leaf, False) | Node a (x, cx) b \<Rightarrow>
           (Node (Node t (p, Black) a) (x, c) (Node b (s, Black) sr), False))
      else (Node (Node t (p, Black) sl) (s, c) (paint Black sr), False))"
| "lack_left t p c Leaf = (Leaf, False)"

fun lack_right :: "rtree \<Rightarrow> u64 \<Rightarrow> rb_color \<Rightarrow> rtree \<Rightarrow> rtree \<times> bool" where
  "lack_right (Node sl (s, cs) sr) p c t =
     (if color sl = Black \<and> color sr = Black then (Node (Node sl (s, Red) sr) (p, c) t, True)
      else if color sl = Black then
        (case sr of Leaf \<Rightarrow> (Leaf, False) | Node a (x, cx) b \<Rightarrow>
           (Node (Node sl (s, Black) a) (x, c) (Node b (p, Black) t), False))
      else (Node (paint Black sl) (s, c) (Node sr (p, Black) t), False))"
| "lack_right Leaf p c t = (Leaf, False)"

text \<open>A red sibling is first rotated parent_of \<open>p\<close>; then the fault ends at \<open>p\<close>.\<close>

definition settle :: "rb_ctx \<Rightarrow> rtree \<times> bool \<Rightarrow> rtree" where
  "settle k u = (if snd u then plug k (paint Black (fst u)) else paint Black (plug k (fst u)))"

fun shrunk :: "rb_ctx \<Rightarrow> rtree \<Rightarrow> rtree" where
  "shrunk [] t = paint Black t"
| "shrunk (InLeft p c w # k) t =
     (if color t = Red then plug (InLeft p c w # k) (paint Black t)
      else if color w = Red then
        (case w of Leaf \<Rightarrow> Leaf | Node sl (s, cs) sr \<Rightarrow> settle (InLeft s Black sr # k) (lack_left t p Red sl))
      else (case lack_left t p c w of (u, short) \<Rightarrow> if short then shrunk k u else paint Black (plug k u)))"
| "shrunk (InRight w p c # k) t =
     (if color t = Red then plug (InRight w p c # k) (paint Black t)
      else if color w = Red then
        (case w of Leaf \<Rightarrow> Leaf | Node sl (s, cs) sr \<Rightarrow> settle (InRight sl s Black # k) (lack_right sr p Red t))
      else (case lack_right w p c t of (u, short) \<Rightarrow> if short then shrunk k u else paint Black (plug k u)))"

lemma lack_left_ok:
  assumes "lack_left t p c w = (u, short)" and "color w = Black" and "balanced w" and "balanced t"
    and "color t = Black" and "bheight w = Suc (bheight t)"
  shows "ino u = ino t @ p # ino w \<and> balanced (paint Black u) \<and> (short \<or> balanced u) \<and> color u = c \<and>
    bheight u + (if short then 1 else 0) = bheight w + (if c = Black then 1 else 0)"
  using assms by (cases w rule: color.cases) (auto split: if_splits elim!: color_RedE)

lemma lack_right_ok:
  assumes "lack_right w p c t = (u, short)" and "color w = Black" and "balanced w" and "balanced t"
    and "color t = Black" and "bheight w = Suc (bheight t)"
  shows "ino u = ino w @ p # ino t \<and> balanced (paint Black u) \<and> (short \<or> balanced u) \<and> color u = c \<and>
    bheight u + (if short then 1 else 0) = bheight w + (if c = Black then 1 else 0)"
  using assms by (cases w rule: color.cases) (auto split: if_splits elim!: color_RedE)

lemma lack_left_ino: "lack_left t p c w = (u, short) \<Longrightarrow> w \<noteq> Leaf \<Longrightarrow> ino u = ino t @ p # ino w"
  by (cases w rule: color.cases) (auto split: if_splits elim!: color_RedE)

lemma lack_right_ino: "lack_right w p c t = (u, short) \<Longrightarrow> w \<noteq> Leaf \<Longrightarrow> ino u = ino w @ p # ino t"
  by (cases w rule: color.cases) (auto split: if_splits elim!: color_RedE)

lemma lack_left_top: "lack_left t p c w = (u, short) \<Longrightarrow> short \<Longrightarrow> w \<noteq> Leaf \<Longrightarrow> addr u = p \<and> color u = c"
  by (cases w rule: color.cases) (auto split: if_splits elim!: color_RedE)

lemma lack_right_top: "lack_right w p c t = (u, short) \<Longrightarrow> short \<Longrightarrow> w \<noteq> Leaf \<Longrightarrow> addr u = p \<and> color u = c"
  by (cases w rule: color.cases) (auto split: if_splits elim!: color_RedE)

lemma settle_ok:
  assumes "balanced (paint Black u)" and "short \<or> balanced u" and "color u = Red" and "fits k n"
    and "bheight u + (if short then 1 else 0) = n" and "parent_color k = Black"
  shows "rbt (settle k (u, short)) \<and> ino (settle k (u, short)) = lefts k @ ino u @ rights k"
  using assms by (cases short) (auto simp: settle_def rbt_plug intro!: rbt_paint balanced_plug)

lemma shrunk_end:
  assumes "balanced u" and "fits k (bheight u)" and "color u = Red \<longrightarrow> parent_color k = Black"
  shows "rbt (paint Black (plug k u)) \<and> ino (paint Black (plug k u)) = lefts k @ ino u @ rights k"
  using assms by (simp add: rbt_paint balanced_plug)

lemma balanced_black: "balanced (paint Black t) \<Longrightarrow> color t = Black \<Longrightarrow> balanced t"
  by (simp add: paint_color)

lemma shrunk_ok:
  "balanced (paint Black t) \<Longrightarrow> fits k (Suc (bheight t)) \<Longrightarrow>
     rbt (shrunk k t) \<and> ino (shrunk k t) = lefts k @ ino t @ rights k"
proof (induction k t rule: shrunk.induct)
  case (1 t)
  then show ?case by (simp add: rbt_def)
next
  case (2 p c w k t)
  consider "color t = Red" | "color t = Black" "color w = Red" | "color t = Black" "color w = Black"
    by (cases "color t"; cases "color w") auto
  then show ?case
  proof cases
    case 1
    then show ?thesis using 2(2,3) by (simp add: rbt_plug)
  next
    case red: 2
    then obtain sl s sr where w: "w = Node sl (s, Red) sr" by (auto elim: color_RedE)
    obtain u short where u: "lack_left t p Red sl = (u, short)" by fastforce
    have t: "balanced t" using 2(2) red(1) by (rule balanced_black)
    have f: "balanced sl" "balanced sr" "bheight sl = Suc (bheight t)" "bheight sr = bheight sl"
        "color sl = Black" "fits k (Suc (bheight sl))"
      using 2(3) w by auto
    from lack_left_ok [OF u f(5,1) t red(1) f(3)] settle_ok [of u short "InLeft s Black sr # k" "bheight sl"] f
    have "rbt (settle (InLeft s Black sr # k) (u, short)) \<and>
        ino (settle (InLeft s Black sr # k) (u, short)) = lefts k @ ino t @ p # ino w @ rights k"
      by (simp add: w)
    then show ?thesis using red w u by simp
  next
    case black: 3
    obtain u short where u: "lack_left t p c w = (u, short)" by fastforce
    have f: "balanced w" "bheight w = Suc (bheight t)" "fits k (bheight w + (if c = Black then 1 else 0))"
        "c = Red \<longrightarrow> parent_color k = Black"
      using 2(3) by simp_all
    note l = lack_left_ok [OF u black(2) f(1) balanced_black [OF 2(2) black(1)] black(1) f(2)]
    show ?thesis
    proof (cases short)
      case True
      then have "rbt (shrunk k u) \<and> ino (shrunk k u) = lefts k @ ino u @ rights k"
        using l f by (intro 2(1) [OF _ _ u [symmetric]]) (simp_all add: black)
      then show ?thesis using l black u True by simp
    next
      case False
      then have "rbt (paint Black (plug k u)) \<and> ino (paint Black (plug k u)) = lefts k @ ino u @ rights k"
        using l f by (intro shrunk_end) simp_all
      then show ?thesis using l black u False by simp
    qed
  qed
next
  case (3 w p c k t)
  consider "color t = Red" | "color t = Black" "color w = Red" | "color t = Black" "color w = Black"
    by (cases "color t"; cases "color w") auto
  then show ?case
  proof cases
    case 1
    then show ?thesis using 3(2,3) by (simp add: rbt_plug)
  next
    case red: 2
    then obtain sl s sr where w: "w = Node sl (s, Red) sr" by (auto elim: color_RedE)
    obtain u short where u: "lack_right sr p Red t = (u, short)" by fastforce
    have t: "balanced t" using 3(2) red(1) by (rule balanced_black)
    have f: "balanced sl" "balanced sr" "bheight sr = Suc (bheight t)" "bheight sl = bheight sr"
        "color sr = Black" "fits k (Suc (bheight sr))"
      using 3(3) w by auto
    from lack_right_ok [OF u f(5,2) t red(1) f(3)] settle_ok [of u short "InRight sl s Black # k" "bheight sr"] f
    have "rbt (settle (InRight sl s Black # k) (u, short)) \<and>
        ino (settle (InRight sl s Black # k) (u, short)) = lefts k @ ino w @ p # ino t @ rights k"
      by (simp add: w)
    then show ?thesis using red w u by simp
  next
    case black: 3
    obtain u short where u: "lack_right w p c t = (u, short)" by fastforce
    have f: "balanced w" "bheight w = Suc (bheight t)" "fits k (bheight w + (if c = Black then 1 else 0))"
        "c = Red \<longrightarrow> parent_color k = Black"
      using 3(3) by simp_all
    note l = lack_right_ok [OF u black(2) f(1) balanced_black [OF 3(2) black(1)] black(1) f(2)]
    show ?thesis
    proof (cases short)
      case True
      then have "rbt (shrunk k u) \<and> ino (shrunk k u) = lefts k @ ino u @ rights k"
        using l f by (intro 3(1) [OF _ _ u [symmetric]]) (simp_all add: black)
      then show ?thesis using l black u True by simp
    next
      case False
      then have "rbt (paint Black (plug k u)) \<and> ino (paint Black (plug k u)) = lefts k @ ino u @ rights k"
        using l f by (intro shrunk_end) simp_all
      then show ?thesis using l black u False by simp
    qed
  qed
qed

section \<open>Height\<close>

lemma height_bheight: "balanced t \<Longrightarrow> height t \<le> 2 * bheight t + (if color t = Red then 1 else 0)"
  by (induction t rule: balanced.induct) (auto split: if_splits)

lemma bheight_size: "balanced t \<Longrightarrow> 2 ^ bheight t \<le> size1 t"
  by (induction t rule: balanced.induct) auto

lemma rbt_height: "rbt t \<Longrightarrow> 2 ^ height t \<le> (size1 t)\<^sup>2"
proof -
  assume "rbt t"
  then have "height t \<le> 2 * bheight t" "(2::nat) ^ bheight t \<le> size1 t"
    using height_bheight [of t] bheight_size [of t] by (auto simp: rbt_def)
  then have "(2::nat) ^ height t \<le> (2 ^ bheight t)\<^sup>2" by (simp flip: power_mult add: mult.commute)
  also have "\<dots> \<le> (size1 t)\<^sup>2" using \<open>2 ^ bheight t \<le> size1 t\<close> by (rule power_mono) simp
  finally show ?thesis .
qed

end
