(* ===== verification/RbTree.thy ===== *)
theory RbTree
  imports TreeZipper "HOL-Library.Monad_Syntax"
begin

text \<open>
  The red-black trees of \<^verbatim>\<open>libkern/tree.h\<close>, on an explicit store of entries: the macros of the
  header and the functions that \<^verbatim>\<open>RB_GENERATE\<close> generates, for one tree. The colour is the lowest
  bit of the parent pointer. The comparison of two elements is a parameter: it reads the clients'
  keys, which no operation writes. A null dereference has no value, and neither has a loop that
  does not end. Shown here: recolouring and the rotations do to the store what their
  abstract counterparts do to the tree.
\<close>

unbundle bit_operations_syntax

section \<open>Entries, colours and parents\<close>

record rb_entry =
  rbe_left :: u64
  rbe_right :: u64
  rbe_parent :: u64

text \<open>The head of the tree, and the entries of all elements by address.\<close>

record rb_state =
  rbh_root :: u64
  rb_mem :: "u64 \<Rightarrow> rb_entry"

definition RB_BLACK :: u32 where
  "RB_BLACK = 0"

definition RB_RED :: u32 where
  "RB_RED = 1"

definition RB_PLACEHOLDER :: u64 where
  "RB_PLACEHOLDER = 0"

definition RB_COLOR_MASK :: u64 where
  "RB_COLOR_MASK = 1"

definition RB_INIT :: "rb_state \<Rightarrow> rb_state" where
  "RB_INIT s = s\<lparr>rbh_root := 0\<rparr>"

definition RB_EMPTY :: "rb_state \<Rightarrow> bool" where
  "RB_EMPTY s \<longleftrightarrow> rbh_root s = 0"

definition rb_at :: "u64 \<Rightarrow> rb_state \<Rightarrow> rb_entry option" where
  "rb_at p s = (if p = 0 then None else Some (rb_mem s p))"

definition rb_upd :: "u64 \<Rightarrow> (rb_entry \<Rightarrow> rb_entry) \<Rightarrow> rb_state \<Rightarrow> rb_state option" where
  "rb_upd p f s = (if p = 0 then None else Some (s\<lparr>rb_mem := (rb_mem s)(p := f (rb_mem s p))\<rparr>))"

definition RB_LEFT :: "u64 \<Rightarrow> rb_state \<Rightarrow> u64 option" where
  "RB_LEFT elm s = map_option rbe_left (rb_at elm s)"

definition RB_RIGHT :: "u64 \<Rightarrow> rb_state \<Rightarrow> u64 option" where
  "RB_RIGHT elm s = map_option rbe_right (rb_at elm s)"

definition set_RB_LEFT :: "u64 \<Rightarrow> u64 \<Rightarrow> rb_state \<Rightarrow> rb_state option" where
  "set_RB_LEFT elm v = rb_upd elm (\<lambda>e. e\<lparr>rbe_left := v\<rparr>)"

definition set_RB_RIGHT :: "u64 \<Rightarrow> u64 \<Rightarrow> rb_state \<Rightarrow> rb_state option" where
  "set_RB_RIGHT elm v = rb_upd elm (\<lambda>e. e\<lparr>rbe_right := v\<rparr>)"

definition RB_GETPARENT :: "u64 \<Rightarrow> rb_state \<Rightarrow> u64 option" where
  "RB_GETPARENT elm s = do {
     e \<leftarrow> rb_at elm s;
     let parent = rbe_parent e;
     (if parent \<noteq> 0 then do {
        let parent = parent AND NOT RB_COLOR_MASK;
        Some (if parent = RB_PLACEHOLDER then 0 else parent) }
      else Some 0) }"

definition RB_GETCOLOR :: "u64 \<Rightarrow> rb_state \<Rightarrow> u32 option" where
  "RB_GETCOLOR elm s = do {
     e \<leftarrow> rb_at elm s;
     Some (ucast (rbe_parent e AND RB_COLOR_MASK)) }"

definition RB_SETCOLOR :: "u64 \<Rightarrow> u32 \<Rightarrow> rb_state \<Rightarrow> rb_state option" where
  "RB_SETCOLOR elm c s = do {
     parent \<leftarrow> RB_GETPARENT elm s;
     let parent = (if parent = 0 then RB_PLACEHOLDER else parent);
     rb_upd elm (\<lambda>e. e\<lparr>rbe_parent := parent OR ucast c\<rparr>) s }"

definition RB_SETPARENT :: "u64 \<Rightarrow> u64 \<Rightarrow> rb_state \<Rightarrow> (u64 \<times> rb_state) option" where
  "RB_SETPARENT elm parent s = do {
     c \<leftarrow> RB_GETCOLOR elm s;
     s \<leftarrow> rb_upd elm (\<lambda>e. e\<lparr>rbe_parent := parent\<rparr>) s;
     s \<leftarrow> (if c \<noteq> 0 then RB_SETCOLOR elm c s else Some s);
     p \<leftarrow> RB_GETPARENT elm s;
     Some (p, s) }"

definition RB_SET :: "u64 \<Rightarrow> u64 \<Rightarrow> rb_state \<Rightarrow> rb_state option" where
  "RB_SET elm parent s = do {
     (p, s) \<leftarrow> RB_SETPARENT elm parent s;
     s \<leftarrow> set_RB_RIGHT elm 0 s;
     s \<leftarrow> set_RB_LEFT elm 0 s;
     RB_SETCOLOR elm RB_RED s }"

definition RB_SET_BLACKRED :: "u64 \<Rightarrow> u64 \<Rightarrow> rb_state \<Rightarrow> rb_state option" where
  "RB_SET_BLACKRED black red s = do {
     s \<leftarrow> RB_SETCOLOR black RB_BLACK s;
     RB_SETCOLOR red RB_RED s }"

section \<open>Rotations\<close>

text \<open>
  Hanging \<open>new\<close> below \<open>parent\<close> in the place of \<open>old\<close>: the same four lines in both rotations
  and in the removal.
\<close>

definition rb_swap_child :: "u64 \<Rightarrow> u64 \<Rightarrow> u64 \<Rightarrow> rb_state \<Rightarrow> rb_state option" where
  "rb_swap_child parent old new s = do {
     l \<leftarrow> RB_LEFT parent s;
     (if l = old then set_RB_LEFT parent new s else set_RB_RIGHT parent new s) }"

text \<open>A child that is there gets a new parent.\<close>

definition rb_adopt :: "u64 \<Rightarrow> u64 \<Rightarrow> rb_state \<Rightarrow> rb_state option" where
  "rb_adopt child parent s =
     (if child \<noteq> 0 then do { (_, s) \<leftarrow> RB_SETPARENT child parent s; Some s } else Some s)"

text \<open>The part that both rotations share: \<open>tmp\<close> takes the place of \<open>elm\<close> below its parent.\<close>

definition rb_lift :: "u64 \<Rightarrow> u64 \<Rightarrow> rb_state \<Rightarrow> rb_state option" where
  "rb_lift elm tmp s = do {
     parent \<leftarrow> RB_GETPARENT elm s;
     (p, s) \<leftarrow> RB_SETPARENT tmp parent s;
     (if p \<noteq> 0 then do {
        parent \<leftarrow> RB_GETPARENT elm s;
        rb_swap_child parent elm tmp s }
      else Some (s\<lparr>rbh_root := tmp\<rparr>)) }"

text \<open>\<^verbatim>\<open>RB_AUGMENT\<close> has its default definition: it does nothing.\<close>

definition RB_ROTATE_LEFT :: "u64 \<Rightarrow> rb_state \<Rightarrow> (u64 \<times> rb_state) option" where
  "RB_ROTATE_LEFT elm s = do {
     tmp \<leftarrow> RB_RIGHT elm s;
     l \<leftarrow> RB_LEFT tmp s;
     s \<leftarrow> set_RB_RIGHT elm l s;
     l \<leftarrow> RB_LEFT tmp s;
     s \<leftarrow> rb_adopt l elm s;
     s \<leftarrow> rb_lift elm tmp s;
     s \<leftarrow> set_RB_LEFT tmp elm s;
     (_, s) \<leftarrow> RB_SETPARENT elm tmp s;
     _ \<leftarrow> RB_GETPARENT tmp s;
     Some (tmp, s) }"

definition RB_ROTATE_RIGHT :: "u64 \<Rightarrow> rb_state \<Rightarrow> (u64 \<times> rb_state) option" where
  "RB_ROTATE_RIGHT elm s = do {
     tmp \<leftarrow> RB_LEFT elm s;
     r \<leftarrow> RB_RIGHT tmp s;
     s \<leftarrow> set_RB_LEFT elm r s;
     r \<leftarrow> RB_RIGHT tmp s;
     s \<leftarrow> rb_adopt r elm s;
     s \<leftarrow> rb_lift elm tmp s;
     s \<leftarrow> set_RB_RIGHT tmp elm s;
     (_, s) \<leftarrow> RB_SETPARENT elm tmp s;
     _ \<leftarrow> RB_GETPARENT tmp s;
     Some (tmp, s) }"

section \<open>A tree in the store\<close>

text \<open>An element's address is not null and leaves the lowest bit free.\<close>

definition okp :: "u64 \<Rightarrow> bool" where
  "okp a \<longleftrightarrow> a \<noteq> 0 \<and> even a"

fun color_bit :: "rb_color \<Rightarrow> u64" where
  "color_bit Black = 0"
| "color_bit Red = 1"

fun color_code :: "rb_color \<Rightarrow> u32" where
  "color_code Black = RB_BLACK"
| "color_code Red = RB_RED"

definition rb_cell :: "u64 \<Rightarrow> u64 \<Rightarrow> u64 \<Rightarrow> rb_color \<Rightarrow> rb_entry" where
  "rb_cell l r p c = \<lparr>rbe_left = l, rbe_right = r, rbe_parent = p OR color_bit c\<rparr>"

lemma entry_sel [simp]: "rbe_left (rb_cell l r p c) = l" "rbe_right (rb_cell l r p c) = r"
  "rbe_left_update (\<lambda>_. v) (rb_cell l r p c) = rb_cell v r p c"
  "rbe_right_update (\<lambda>_. v) (rb_cell l r p c) = rb_cell l v p c"
  by (simp_all add: rb_cell_def)

lemma even_or_bit:
  fixes p :: u64
  assumes "even p"
  shows "(p OR color_bit c) AND NOT 1 = p" and "(p OR color_bit c) AND 1 = color_bit c"
proof -
  have "\<not> bit p 0" using assms by (simp add: bit_0)
  then show "(p OR color_bit c) AND NOT 1 = p" "(p OR color_bit c) AND 1 = color_bit c"
    by (cases c; auto intro!: bit_eqI simp: bit_simps bit_1_iff; metis gr0I bit_0)+
qed

lemma RB_GETPARENT_entry:
  assumes "a \<noteq> 0" and "rb_mem s a = rb_cell l r p c" and "even p"
  shows "RB_GETPARENT a s = Some p"
proof -
  have m: "(p OR color_bit c) AND NOT RB_COLOR_MASK = p"
    unfolding RB_COLOR_MASK_def using assms(3) by (rule even_or_bit)
  moreover have "p = 0" if "p OR color_bit c = 0" using m unfolding that by simp
  ultimately show ?thesis
    using assms(1,2) by (auto simp only: RB_GETPARENT_def rb_at_def rb_cell_def Let_def RB_PLACEHOLDER_def
        rb_entry.simps if_False bind.bind_lunit if_cancel if_True split: if_splits)
qed

lemma RB_GETCOLOR_entry:
  assumes "a \<noteq> 0" and "rb_mem s a = rb_cell l r p c" and "even p"
  shows "RB_GETCOLOR a s = Some (color_code c)"
proof -
  have "(p OR color_bit c) AND RB_COLOR_MASK = color_bit c"
    unfolding RB_COLOR_MASK_def using assms(3) by (rule even_or_bit)
  then have "RB_GETCOLOR a s = Some (ucast (color_bit c))"
    using assms(1,2) by (simp add: RB_GETCOLOR_def rb_at_def rb_cell_def)
  then show ?thesis by (cases c) (simp_all add: RB_BLACK_def RB_RED_def)
qed

lemma RB_SETCOLOR_entry:
  "a \<noteq> 0 \<Longrightarrow> rb_mem s a = rb_cell l r p c \<Longrightarrow> even p \<Longrightarrow>
   RB_SETCOLOR a (color_code d) s = Some (s\<lparr>rb_mem := (rb_mem s)(a := rb_cell l r p d)\<rparr>)"
  by (cases d) (simp_all add: RB_SETCOLOR_def RB_GETPARENT_entry rb_upd_def RB_PLACEHOLDER_def rb_cell_def
      RB_BLACK_def RB_RED_def)

lemma RB_SETPARENT_entry:
  assumes "a \<noteq> 0" and "rb_mem s a = rb_cell l r p c" and "even p" and "even q"
  shows "RB_SETPARENT a q s = Some (q, s\<lparr>rb_mem := (rb_mem s)(a := rb_cell l r q c)\<rparr>)"
proof -
  have upd: "rb_upd a (\<lambda>e. e\<lparr>rbe_parent := q\<rparr>) s = Some (s\<lparr>rb_mem := (rb_mem s)(a := rb_cell l r q Black)\<rparr>)"
    using assms by (simp add: rb_upd_def rb_cell_def)
  note g = RB_GETCOLOR_entry [OF assms(1-3)]
  show ?thesis
  proof (cases c)
    case Red
    then show ?thesis
      using assms g RB_SETCOLOR_entry [of a "s\<lparr>rb_mem := (rb_mem s)(a := rb_cell l r q Black)\<rparr>" l r q Black Red]
      by (simp add: RB_SETPARENT_def upd RB_RED_def RB_GETPARENT_entry)
  qed (use assms g in \<open>simp add: RB_SETPARENT_def upd RB_BLACK_def RB_GETPARENT_entry\<close>)
qed

lemma RB_links_entry:
  "a \<noteq> 0 \<Longrightarrow> rb_mem s a = rb_cell l r p c \<Longrightarrow> RB_LEFT a s = Some l"
  "a \<noteq> 0 \<Longrightarrow> rb_mem s a = rb_cell l r p c \<Longrightarrow> RB_RIGHT a s = Some r"
  "a \<noteq> 0 \<Longrightarrow> rb_mem s a = rb_cell l r p c \<Longrightarrow>
     set_RB_LEFT a v s = Some (s\<lparr>rb_mem := (rb_mem s)(a := rb_cell v r p c)\<rparr>)"
  "a \<noteq> 0 \<Longrightarrow> rb_mem s a = rb_cell l r p c \<Longrightarrow>
     set_RB_RIGHT a v s = Some (s\<lparr>rb_mem := (rb_mem s)(a := rb_cell l v p c)\<rparr>)"
  by (simp_all add: RB_LEFT_def RB_RIGHT_def set_RB_LEFT_def set_RB_RIGHT_def rb_at_def rb_upd_def)

lemmas entry_ops = RB_GETPARENT_entry RB_GETCOLOR_entry RB_SETCOLOR_entry RB_SETPARENT_entry RB_links_entry

fun rb_tree_at :: "(u64 \<Rightarrow> rb_entry) \<Rightarrow> u64 \<Rightarrow> rtree \<Rightarrow> bool" where
  "rb_tree_at m p Leaf = True"
| "rb_tree_at m p (Node l (a, c) r) \<longleftrightarrow> okp a \<and> m a = rb_cell (addr l) (addr r) p c \<and> rb_tree_at m a l \<and> rb_tree_at m a r"

fun ctx_at :: "u64 \<Rightarrow> (u64 \<Rightarrow> rb_entry) \<Rightarrow> u64 \<Rightarrow> rb_ctx \<Rightarrow> bool" where
  "ctx_at root m p [] \<longleftrightarrow> root = p"
| "ctx_at root m p (InLeft a c r # k) \<longleftrightarrow> okp a \<and> m a = rb_cell p (addr r) (parent_of k) c \<and>
     rb_tree_at m a r \<and> ctx_at root m a k"
| "ctx_at root m p (InRight l a c # k) \<longleftrightarrow> okp a \<and> m a = rb_cell (addr l) p (parent_of k) c \<and>
     rb_tree_at m a l \<and> ctx_at root m a k"

definition rb_tree :: "rb_state \<Rightarrow> rtree \<Rightarrow> bool" where
  "rb_tree s t \<longleftrightarrow> rbh_root s = addr t \<and> rb_tree_at (rb_mem s) 0 t \<and> distinct (ino t)"

lemma tree_at_cong: "(\<And>a. a \<in> addrs t \<Longrightarrow> m a = m' a) \<Longrightarrow> rb_tree_at m p t = rb_tree_at m' p t"
  by (induction m p t rule: rb_tree_at.induct) auto

lemma tree_at_upd [simp]: "a \<notin> addrs t \<Longrightarrow> rb_tree_at (m(a := e)) p t = rb_tree_at m p t"
  by (rule tree_at_cong) auto

lemma ctx_at_cong:
  "(\<And>a. a \<in> set (lefts k) \<Longrightarrow> m a = m' a) \<Longrightarrow> (\<And>a. a \<in> set (rights k) \<Longrightarrow> m a = m' a) \<Longrightarrow>
   ctx_at root m p k = ctx_at root m' p k"
  by (induction root m p k rule: ctx_at.induct) (auto cong: tree_at_cong)

lemma tree_at_same: "rb_tree_at m p t \<Longrightarrow> (\<And>a. a \<in> addrs t \<Longrightarrow> m' a = m a) \<Longrightarrow> rb_tree_at m' p t"
  using tree_at_cong [of t m m' p] by simp

lemma ctx_at_same:
  "ctx_at root m p k \<Longrightarrow> (\<And>a. a \<in> set (lefts k) \<union> set (rights k) \<Longrightarrow> m' a = m a) \<Longrightarrow> ctx_at root m' p k"
  using ctx_at_cong [of k m m' root p] by simp

lemma ctx_at_upd [simp]:
  "a \<notin> set (lefts k) \<Longrightarrow> a \<notin> set (rights k) \<Longrightarrow> ctx_at root (m(a := e)) p k = ctx_at root m p k"
  by (induction root m p k rule: ctx_at.induct) auto

lemma rb_tree_plug:
  "rb_tree s (plug k t) \<longleftrightarrow> ctx_at (rbh_root s) (rb_mem s) (addr t) k \<and> rb_tree_at (rb_mem s) (parent_of k) t \<and>
     distinct (ino (plug k t))"
proof -
  have "rbh_root s = addr (plug k t) \<and> rb_tree_at (rb_mem s) 0 (plug k t) \<longleftrightarrow>
      ctx_at (rbh_root s) (rb_mem s) (addr t) k \<and> rb_tree_at (rb_mem s) (parent_of k) t"
    by (induction k t rule: plug.induct) auto
  then show ?thesis unfolding rb_tree_def by blast
qed

lemma parent_even: "ctx_at root m p k \<Longrightarrow> even (parent_of k)"
  by (cases k rule: parent_of.cases) (auto simp: okp_def)

lemma parent_in: "k \<noteq> [] \<Longrightarrow> parent_of k \<in> set (lefts k) \<union> set (rights k)"
  by (cases k rule: parent_of.cases) auto

lemma parent_zero: "ctx_at root m p k \<Longrightarrow> parent_of k = 0 \<longleftrightarrow> k = []"
  by (cases k rule: parent_of.cases) (auto simp: okp_def)

text \<open>What \<^verbatim>\<open>rb_swap_child\<close> leaves in the store, or the assignment to the root where there is no parent.\<close>

fun rehang :: "rb_ctx \<Rightarrow> u64 \<Rightarrow> rb_state \<Rightarrow> rb_state" where
  "rehang [] q s = s\<lparr>rbh_root := q\<rparr>"
| "rehang (InLeft a c r # k) q s = s\<lparr>rb_mem := (rb_mem s)(a := rb_cell q (addr r) (parent_of k) c)\<rparr>"
| "rehang (InRight l a c # k) q s = s\<lparr>rb_mem := (rb_mem s)(a := rb_cell (addr l) q (parent_of k) c)\<rparr>"

lemma addr_in: "addr t \<noteq> 0 \<Longrightarrow> addr t \<in> addrs t"
  by (cases t rule: addr.cases) auto

lemma swap_child:
  assumes "ctx_at (rbh_root s) (rb_mem s) p k" and "k \<noteq> []" and "p \<noteq> 0" and "p \<notin> set (lefts k)"
  shows "rb_swap_child (parent_of k) p q s = Some (rehang k q s)"
  using assms addr_in
  by (cases k rule: parent_of.cases)
    (auto simp: rb_swap_child_def RB_links_entry okp_def)

lemma rehang_ctx:
  assumes "ctx_at (rbh_root s) (rb_mem s) p k" and "distinct (lefts k @ rights k)"
  shows "ctx_at (rbh_root (rehang k q s)) (rb_mem (rehang k q s)) q k"
  using assms by (cases k rule: parent_of.cases) auto

lemma rehang_mem: "a \<notin> set (lefts k) \<Longrightarrow> a \<notin> set (rights k) \<Longrightarrow> rb_mem (rehang k q s) a = rb_mem s a"
  by (cases k rule: parent_of.cases) auto

section \<open>Running an operation on a tree\<close>

text \<open>The operation has a value, leaves the tree \<open>t\<close>, and no other entry has changed.\<close>

definition makes :: "rb_state \<Rightarrow> rb_state option \<Rightarrow> rtree \<Rightarrow> bool" where
  "makes s r t \<longleftrightarrow> (\<exists>s'. r = Some s' \<and> rb_tree s' t \<and> (\<forall>a. a \<notin> addrs t \<longrightarrow> rb_mem s' a = rb_mem s a))"

lemma makes_Some [simp]: "rb_tree s t \<Longrightarrow> makes s (Some s) t"
  by (simp add: makes_def)

lemma makes_bind:
  assumes "makes s r t" and "\<And>s'. rb_tree s' t \<Longrightarrow> makes s' (f s') u" and "ino t = ino u"
  shows "makes s (r \<bind> f) u"
  using assms unfolding makes_def addrs_ino by (metis bind.bind_lunit)

definition rb_yields :: "rb_state \<Rightarrow> ('a \<times> rb_state) option \<Rightarrow> 'a \<Rightarrow> rtree \<Rightarrow> bool" where
  "rb_yields s r v t \<longleftrightarrow> (\<exists>s'. r = Some (v, s') \<and> rb_tree s' t \<and> (\<forall>a. a \<notin> addrs t \<longrightarrow> rb_mem s' a = rb_mem s a))"

lemma makes_yields_bind:
  assumes "rb_yields s r v t" and "\<And>s'. rb_tree s' t \<Longrightarrow> makes s' (f (v, s')) u" and "ino t = ino u"
  shows "makes s (r \<bind> f) u"
  using assms unfolding makes_def rb_yields_def addrs_ino by (metis bind.bind_lunit)

lemma yields_bind:
  assumes "makes s r t" and "\<And>s'. rb_tree s' t \<Longrightarrow> rb_yields s' (f s') v u" and "ino t = ino u"
  shows "rb_yields s (r \<bind> f) v u"
  using assms unfolding makes_def rb_yields_def addrs_ino by (metis bind.bind_lunit)

lemma yields_yields_bind:
  assumes "rb_yields s r w t" and "\<And>s'. rb_tree s' t \<Longrightarrow> rb_yields s' (f (w, s')) v u" and "ino t = ino u"
  shows "rb_yields s (r \<bind> f) v u"
  using assms unfolding rb_yields_def addrs_ino by (metis bind.bind_lunit)

lemma yields_Some [simp]: "rb_tree s t \<Longrightarrow> rb_yields s (Some (v, s)) v t"
  by (simp add: rb_yields_def)

text \<open>Reads at the node in focus.\<close>

lemma focus_reads:
  assumes "rb_tree s (plug k (Node l (a, c) r))"
  shows "RB_LEFT a s = Some (addr l)" and "RB_RIGHT a s = Some (addr r)"
    and "RB_GETPARENT a s = Some (parent_of k)" and "RB_GETCOLOR a s = Some (color_code c)" and "okp a"
  using assms parent_even by (auto simp: rb_tree_plug okp_def intro!: entry_ops)

lemma focus_setcolor:
  assumes "rb_tree s (plug k (Node l (a, c) r))"
  shows "makes s (RB_SETCOLOR a (color_code d) s) (plug k (Node l (a, d) r))"
proof -
  from assms have "even (parent_of k)" by (auto simp: rb_tree_plug dest: parent_even)
  with assms show ?thesis
    unfolding rb_tree_plug makes_def
    by (subst RB_SETCOLOR_entry [of a s "addr l" "addr r" "parent_of k" c]) (auto simp: okp_def rb_tree_plug)
qed

lemma adopt:
  assumes "rb_tree_at (rb_mem s) p t" and "even p" and "even q" and "distinct (ino t)"
  obtains m where "rb_adopt (addr t) q s = Some (s\<lparr>rb_mem := m\<rparr>)"
    and "rb_tree_at m q t" and "\<And>a. a \<notin> addrs t \<Longrightarrow> m a = rb_mem s a"
proof (cases t rule: addr.cases)
  case 1
  then show ?thesis using that [of "rb_mem s"] by (simp add: rb_adopt_def)
next
  case (2 l a c r)
  with assms show ?thesis
    by (intro that [of "(rb_mem s)(a := rb_cell (addr l) (addr r) q c)"])
      (auto simp: rb_adopt_def okp_def RB_SETPARENT_entry [of a s "addr l" "addr r" p c])
qed

lemma lift:
  assumes "ctx_at (rbh_root s) (rb_mem s) x k" and "rb_mem s x = rb_cell a b (parent_of k) c"
    and "rb_mem s y = rb_cell e f x d" and "okp x" and "okp y" and "x \<noteq> y" and "distinct (lefts k @ rights k)"
    and "x \<notin> set (lefts k) \<union> set (rights k)" and "y \<notin> set (lefts k) \<union> set (rights k)"
  obtains s' where "rb_lift x y s = Some s'" and "ctx_at (rbh_root s') (rb_mem s') y k"
    and "rb_mem s' y = rb_cell e f (parent_of k) d"
    and "\<And>a. a \<notin> set (lefts k) \<Longrightarrow> a \<notin> set (rights k) \<Longrightarrow> a \<noteq> y \<Longrightarrow> rb_mem s' a = rb_mem s a"
proof -
  let ?s = "s\<lparr>rb_mem := (rb_mem s)(y := rb_cell e f (parent_of k) d)\<rparr>"
  have "even (parent_of k)" using assms(1) by (rule parent_even)
  then have p: "RB_GETPARENT x s = Some (parent_of k)" "RB_SETPARENT y (parent_of k) s = Some (parent_of k, ?s)"
      "RB_GETPARENT x ?s = Some (parent_of k)"
    using assms by (auto simp: okp_def RB_GETPARENT_entry RB_SETPARENT_entry)
  have c: "ctx_at (rbh_root ?s) (rb_mem ?s) x k" using assms by simp
  have "rb_lift x y s = Some (rehang k y ?s)"
  proof (cases "k = []")
    case False
    then show ?thesis
      using p parent_zero [OF assms(1)] swap_child [OF c False, of y] assms by (simp add: rb_lift_def okp_def)
  qed (use p in \<open>simp add: rb_lift_def\<close>)
  then show ?thesis
    using rehang_ctx [OF c, of y] assms by (intro that [of "rehang k y ?s"]) (auto simp: rehang_mem)
qed

text \<open>Both rotations at once: with \<open>d\<close> the trees and entries are read from right to left.\<close>

definition node_dir :: "bool \<Rightarrow> rtree \<Rightarrow> u64 \<times> rb_color \<Rightarrow> rtree \<Rightarrow> rtree" where
  "node_dir d l x r = (if d then Node r x l else Node l x r)"

definition entry_dir :: "bool \<Rightarrow> u64 \<Rightarrow> u64 \<Rightarrow> u64 \<Rightarrow> rb_color \<Rightarrow> rb_entry" where
  "entry_dir d l r p c = (if d then rb_cell r l p c else rb_cell l r p c)"

lemma node_dir_simps [simp]: "addr (node_dir d l (a, c) r) = a" "addrs (node_dir d l (a, c) r) = insert a (addrs l \<union> addrs r)"
  "rb_tree_at m p (node_dir d l (a, c) r) \<longleftrightarrow> okp a \<and> m a = entry_dir d (addr l) (addr r) p c \<and> rb_tree_at m a l \<and> rb_tree_at m a r"
  "distinct (ino (node_dir d l (a, c) r)) \<longleftrightarrow> distinct (ino l @ a # ino r)"
  by (auto simp: node_dir_def entry_dir_def)

lemma lift_dir:
  assumes "ctx_at (rbh_root s) (rb_mem s) x k" and "rb_mem s x = entry_dir d a b (parent_of k) c"
    and "rb_mem s y = entry_dir d e f x c'" and "okp x" and "okp y" and "x \<noteq> y" and "distinct (lefts k @ rights k)"
    and "x \<notin> set (lefts k) \<union> set (rights k)" and "y \<notin> set (lefts k) \<union> set (rights k)"
  obtains s' where "rb_lift x y s = Some s'" and "ctx_at (rbh_root s') (rb_mem s') y k"
    and "rb_mem s' y = entry_dir d e f (parent_of k) c'"
    and "\<And>a. a \<notin> set (lefts k) \<Longrightarrow> a \<notin> set (rights k) \<Longrightarrow> a \<noteq> y \<Longrightarrow> rb_mem s' a = rb_mem s a"
proof -
  obtain a' b' e' f' where eq: "\<And>p c. entry_dir d a b p c = rb_cell a' b' p c" "\<And>p c. entry_dir d e f p c = rb_cell e' f' p c"
    by (cases d) (auto simp: entry_dir_def)
  show ?thesis
    by (rule lift [OF assms(1) assms(2) [unfolded eq] assms(3) [unfolded eq] assms(4-9)], erule that) (simp_all add: eq)
qed

lemma rotate_core:
  assumes "rb_tree s (plug k (node_dir d A (x, c) (node_dir d B (y, e) C)))"
  obtains s2 s3 where
    "rb_adopt (addr B) x (s\<lparr>rb_mem := (rb_mem s)(x := entry_dir d (addr A) (addr B) (parent_of k) c)\<rparr>) = Some s2"
    and "rb_mem s2 y = entry_dir d (addr B) (addr C) x e"
    and "rb_lift x y s2 = Some s3" and "rb_mem s3 y = entry_dir d (addr B) (addr C) (parent_of k) e"
    and "rb_mem s3 x = entry_dir d (addr A) (addr B) (parent_of k) c"
    and "rb_tree (s3\<lparr>rb_mem := (rb_mem s3)(y := entry_dir d x (addr C) (parent_of k) e, x := entry_dir d (addr A) (addr B) y c)\<rparr>)
       (plug k (node_dir d (node_dir d A (x, c) B) (y, e) C))"
    and "\<And>a. a \<notin> addrs (plug k (node_dir d (node_dir d A (x, c) B) (y, e) C)) \<Longrightarrow> rb_mem s3 a = rb_mem s a"
proof -
  let ?m = "rb_mem s"
  have m: "?m y = entry_dir d (addr B) (addr C) x e" "okp x" "okp y"
      "rb_tree_at ?m x A" "rb_tree_at ?m y B" "rb_tree_at ?m y C" "ctx_at (rbh_root s) ?m x k"
    and d: "distinct (lefts k @ ino A @ x # ino B @ y # ino C @ rights k)"
    using assms by (auto simp: rb_tree_plug)
  have xy: "x \<notin> addrs B" "y \<notin> addrs B" "x \<noteq> y" "x \<notin> set (lefts k) \<union> set (rights k)" "distinct (ino B)"
      "y \<notin> set (lefts k) \<union> set (rights k)" "distinct (lefts k @ rights k)"
    using d by auto
  have k: "a \<notin> addrs B" "a \<noteq> x" "a \<noteq> y" if "a \<in> set (lefts k) \<union> set (rights k)" for a using d that by auto
  have A: "a \<notin> addrs B" "a \<noteq> x" "a \<noteq> y" "a \<notin> set (lefts k)" "a \<notin> set (rights k)" if "a \<in> addrs A \<union> addrs C" for a
    using d that by auto
  have B: "a \<noteq> x" "a \<noteq> y" "a \<notin> set (lefts k)" "a \<notin> set (rights k)" if "a \<in> addrs B" for a using d that by auto
  let ?s1 = "s\<lparr>rb_mem := ?m(x := entry_dir d (addr A) (addr B) (parent_of k) c)\<rparr>"
  have "rb_tree_at (rb_mem ?s1) y B" "even x" "even y" using m xy by (auto simp: okp_def)
  then obtain m2 where a: "rb_adopt (addr B) x ?s1 = Some (?s1\<lparr>rb_mem := m2\<rparr>)"
    and m2: "rb_tree_at m2 x B" "\<And>a. a \<notin> addrs B \<Longrightarrow> m2 a = rb_mem ?s1 a"
    using adopt [of ?s1 y B x] xy by blast
  let ?s2 = "?s1\<lparr>rb_mem := m2\<rparr>"
  have c2: "ctx_at (rbh_root ?s2) (rb_mem ?s2) x k"
    by (simp, rule ctx_at_same [OF m(7)]) (use m2(2) k in simp)
  have e2: "rb_mem ?s2 x = entry_dir d (addr A) (addr B) (parent_of k) c"
      "rb_mem ?s2 y = entry_dir d (addr B) (addr C) x e"
    using m2 m xy by simp_all
  obtain s3 where l: "rb_lift x y ?s2 = Some s3" and c3: "ctx_at (rbh_root s3) (rb_mem s3) y k"
    and y3: "rb_mem s3 y = entry_dir d (addr B) (addr C) (parent_of k) e"
    and m3: "\<And>a. a \<notin> set (lefts k) \<Longrightarrow> a \<notin> set (rights k) \<Longrightarrow> a \<noteq> y \<Longrightarrow> rb_mem s3 a = m2 a"
    using lift_dir [OF c2 e2 m(2,3) xy(3,7,4,6)] by auto
  let ?m5 = "(rb_mem s3)(y := entry_dir d x (addr C) (parent_of k) e, x := entry_dir d (addr A) (addr B) y c)"
  have t: "rb_tree_at ?m5 x A" by (rule tree_at_same [OF m(4)]) (use m3 m2 A in simp)
  have u: "rb_tree_at ?m5 x B" by (rule tree_at_same [OF m2(1)]) (use m3 B in simp)
  have v: "rb_tree_at ?m5 y C" by (rule tree_at_same [OF m(6)]) (use m3 m2 A in simp)
  show ?thesis
  proof (rule that [OF a e2(2) l y3])
    show "rb_mem s3 x = entry_dir d (addr A) (addr B) (parent_of k) c" using m3 m2 xy by simp
    show "rb_tree (s3\<lparr>rb_mem := ?m5\<rparr>) (plug k (node_dir d (node_dir d A (x, c) B) (y, e) C))"
    proof -
      have "distinct (ino (plug k (node_dir d (node_dir d A (x, c) B) (y, e) C)))" using d by auto
      with t u v c3 xy m(2,3) show ?thesis by (simp add: rb_tree_plug del: ino_plug)
    qed
    show "rb_mem s3 a = ?m a" if "a \<notin> addrs (plug k (node_dir d (node_dir d A (x, c) B) (y, e) C))" for a
      using that m3 m2 by simp
  qed
qed

lemma rotate_left:
  assumes "rb_tree s (plug k (Node A (x, c) (Node B (y, e) C)))"
  shows "rb_yields s (RB_ROTATE_LEFT x s) y (plug k (Node (Node A (x, c) B) (y, e) C))"
proof -
  have m: "rb_mem s x = rb_cell (addr A) y (parent_of k) c" "rb_mem s y = rb_cell (addr B) (addr C) x e"
      "x \<noteq> 0" "even x" "y \<noteq> 0" "even y" "x \<noteq> y" "even (parent_of k)"
    using assms parent_even by (auto simp: rb_tree_plug okp_def)
  have "rb_tree s (plug k (Node A (x, c) (Node B (y, e) C)))"
    by (rule assms)
  then obtain s2 s3 where
    a: "rb_adopt (addr B) x (s\<lparr>rb_mem := (rb_mem s)(x := rb_cell (addr A) (addr B) (parent_of k) c)\<rparr>) = Some s2"
    and "rb_mem s2 y = rb_cell (addr B) (addr C) x e"
    and l: "rb_lift x y s2 = Some s3" and e: "rb_mem s3 y = rb_cell (addr B) (addr C) (parent_of k) e"
      "rb_mem s3 x = rb_cell (addr A) (addr B) (parent_of k) c"
    and t: "rb_tree (s3\<lparr>rb_mem := (rb_mem s3)(y := rb_cell x (addr C) (parent_of k) e, x := rb_cell (addr A) (addr B) y c)\<rparr>)
       (plug k (Node (Node A (x, c) B) (y, e) C))" (is "rb_tree ?s _")
    and f: "\<And>a. a \<notin> addrs (plug k (Node (Node A (x, c) B) (y, e) C)) \<Longrightarrow> rb_mem s3 a = rb_mem s a"
    by (rule rotate_core [where d = False, unfolded node_dir_def entry_dir_def if_False]) (rule that; assumption)
  have "RB_ROTATE_LEFT x s = Some (y, ?s)"
    by (simp add: RB_ROTATE_LEFT_def entry_ops m m(7) [symmetric] a l e)
  with t f show ?thesis unfolding rb_yields_def by simp
qed

lemma rotate_right:
  assumes "rb_tree s (plug k (Node (Node C (y, e) B) (x, c) A))"
  shows "rb_yields s (RB_ROTATE_RIGHT x s) y (plug k (Node C (y, e) (Node B (x, c) A)))"
proof -
  have m: "rb_mem s x = rb_cell y (addr A) (parent_of k) c" "rb_mem s y = rb_cell (addr C) (addr B) x e"
      "x \<noteq> 0" "even x" "y \<noteq> 0" "even y" "x \<noteq> y" "even (parent_of k)"
    using assms parent_even by (auto simp: rb_tree_plug okp_def)
  have "rb_tree s (plug k (Node (Node C (y, e) B) (x, c) A))"
    by (rule assms)
  then obtain s2 s3 where
    a: "rb_adopt (addr B) x (s\<lparr>rb_mem := (rb_mem s)(x := rb_cell (addr B) (addr A) (parent_of k) c)\<rparr>) = Some s2"
    and "rb_mem s2 y = rb_cell (addr C) (addr B) x e"
    and l: "rb_lift x y s2 = Some s3" and e: "rb_mem s3 y = rb_cell (addr C) (addr B) (parent_of k) e"
      "rb_mem s3 x = rb_cell (addr B) (addr A) (parent_of k) c"
    and t: "rb_tree (s3\<lparr>rb_mem := (rb_mem s3)(y := rb_cell (addr C) x (parent_of k) e, x := rb_cell (addr B) (addr A) y c)\<rparr>)
       (plug k (Node C (y, e) (Node B (x, c) A)))" (is "rb_tree ?s _")
    and f: "\<And>a. a \<notin> addrs (plug k (Node C (y, e) (Node B (x, c) A))) \<Longrightarrow> rb_mem s3 a = rb_mem s a"
    by (rule rotate_core [where d = True, unfolded node_dir_def entry_dir_def if_True]) (rule that; assumption)
  have "RB_ROTATE_RIGHT x s = Some (y, ?s)"
    by (simp add: RB_ROTATE_RIGHT_def entry_ops m m(7) [symmetric] a l e)
  with t f show ?thesis unfolding rb_yields_def by simp
qed

end
