(* ===== verification/CmpOrder.thy ===== *)
theory CmpOrder
  imports XePrelude
begin

text \<open>
  What the search trees of \<^verbatim>\<open>libkern/tree.h\<close> ask of the comparison their clients give them: it
  orders the elements, in the manner of \<^verbatim>\<open>memcmp\<close>. The comparison reads the clients' keys and is
  a parameter of every tree. Nothing in this theory models code.
\<close>

type_synonym elm_cmp = "u64 \<Rightarrow> u64 \<Rightarrow> int"

definition cmp_order :: "elm_cmp \<Rightarrow> bool" where
  "cmp_order cmp \<longleftrightarrow> (\<forall>a b. sgn (cmp b a) = - sgn (cmp a b)) \<and>
     (\<forall>a b c. cmp a b \<le> 0 \<longrightarrow> cmp b c \<le> 0 \<longrightarrow> cmp a c \<le> 0)"

text \<open>Strictly increasing: no two elements compare equal.\<close>

definition ordered :: "elm_cmp \<Rightarrow> u64 list \<Rightarrow> bool" where
  "ordered cmp xs \<longleftrightarrow> sorted_wrt (\<lambda>a b. cmp a b < 0) xs"

definition insert_elm :: "elm_cmp \<Rightarrow> u64 \<Rightarrow> u64 list \<Rightarrow> u64 list" where
  "insert_elm cmp x xs = takeWhile (\<lambda>a. cmp a x < 0) xs @ x # dropWhile (\<lambda>a. cmp a x < 0) xs"

lemma cmp_flip:
  assumes "cmp_order cmp"
  shows "cmp a b < 0 \<longleftrightarrow> 0 < cmp b a" and "cmp a b = 0 \<longleftrightarrow> cmp b a = 0"
proof -
  have "sgn (cmp a b) = - sgn (cmp b a)" using assms unfolding cmp_order_def by blast
  then show "cmp a b < 0 \<longleftrightarrow> 0 < cmp b a" "cmp a b = 0 \<longleftrightarrow> cmp b a = 0"
    by (auto simp: sgn_if split: if_splits)
qed

lemma cmp_refl: "cmp_order cmp \<Longrightarrow> cmp a a = 0"
  using cmp_flip(1) [of cmp a a] by fastforce

lemma cmp_trans:
  assumes "cmp_order cmp"
  shows "cmp a b < 0 \<Longrightarrow> cmp b c \<le> 0 \<Longrightarrow> cmp a c < 0" and "cmp a b \<le> 0 \<Longrightarrow> cmp b c < 0 \<Longrightarrow> cmp a c < 0"
proof -
  have t: "cmp x y \<le> 0 \<Longrightarrow> cmp y z \<le> 0 \<Longrightarrow> cmp x z \<le> 0" for x y z using assms unfolding cmp_order_def by blast
  show "cmp a c < 0" if "cmp a b < 0" "cmp b c \<le> 0"
    using that t [of b c a] cmp_flip [OF assms, of a b] cmp_flip [OF assms, of c a] by linarith
  show "cmp a c < 0" if "cmp a b \<le> 0" "cmp b c < 0"
    using that t [of c a b] cmp_flip [OF assms, of b c] cmp_flip [OF assms, of c a] by linarith
qed

lemma cmp_less_trans: "cmp_order cmp \<Longrightarrow> cmp a b < 0 \<Longrightarrow> cmp b c < 0 \<Longrightarrow> cmp a c < 0"
  using cmp_trans(1) [of cmp a b c] by simp

lemma ordered_append:
  "ordered cmp (xs @ ys) \<longleftrightarrow> ordered cmp xs \<and> ordered cmp ys \<and> (\<forall>x\<in>set xs. \<forall>y\<in>set ys. cmp x y < 0)"
  by (simp add: ordered_def sorted_wrt_append)

lemma ordered_simps [simp]:
  "ordered cmp []" "ordered cmp (x # xs) \<longleftrightarrow> (\<forall>y\<in>set xs. cmp x y < 0) \<and> ordered cmp xs"
  by (simp_all add: ordered_def)

lemma ordered_distinct: "cmp_order cmp \<Longrightarrow> ordered cmp xs \<Longrightarrow> distinct xs"
  by (induction xs) (auto simp: cmp_refl)

lemma ordered_remove: "ordered cmp (xs @ x # ys) \<Longrightarrow> ordered cmp (xs @ ys)"
  by (auto simp: ordered_append)

lemma ordered_remove1: "ordered cmp xs \<Longrightarrow> ordered cmp (remove1 x xs)"
proof (cases "x \<in> set xs")
  case True
  assume "ordered cmp xs"
  moreover from True obtain ys zs where "xs = ys @ x # zs" "x \<notin> set ys" by (meson split_list_first)
  ultimately show ?thesis using ordered_remove [of cmp ys x zs] by (simp add: remove1_append)
qed (simp add: remove1_idem)

lemma ordered_unique: "cmp_order cmp \<Longrightarrow> ordered cmp xs \<Longrightarrow> a \<in> set xs \<Longrightarrow> b \<in> set xs \<Longrightarrow> cmp a b = 0 \<Longrightarrow> a = b"
proof (induction xs)
  case (Cons c xs)
  then show ?case using cmp_flip(2) [of cmp a b] by (cases "a = c"; cases "b = c") auto
qed simp

lemma insert_elm_at:
  assumes "\<And>a. a \<in> set ls \<Longrightarrow> cmp a x < 0" and "\<And>a. a \<in> set rs \<Longrightarrow> \<not> cmp a x < 0"
  shows "insert_elm cmp x (ls @ rs) = ls @ x # rs"
proof -
  have "takeWhile (\<lambda>a. cmp a x < 0) rs = []" "dropWhile (\<lambda>a. cmp a x < 0) rs = rs"
    using assms(2) by (cases rs; simp)+
  then show ?thesis using assms(1) by (simp add: insert_elm_def)
qed

lemma set_insert_elm [simp]: "set (insert_elm cmp x xs) = insert x (set xs)"
proof -
  have "set xs = set (takeWhile (\<lambda>a. cmp a x < 0) xs) \<union> set (dropWhile (\<lambda>a. cmp a x < 0) xs)"
    by (metis set_append takeWhile_dropWhile_id)
  then show ?thesis by (simp add: insert_elm_def)
qed

lemma ordered_insert_elm:
  assumes "cmp_order cmp" and "ordered cmp xs" and "\<And>a. a \<in> set xs \<Longrightarrow> cmp x a \<noteq> 0"
  shows "ordered cmp (insert_elm cmp x xs)"
  using assms(2,3)
proof (induction xs)
  case (Cons a xs)
  show ?case
  proof (cases "cmp a x < 0")
    case True
    then have e: "insert_elm cmp x (a # xs) = a # insert_elm cmp x xs" by (simp add: insert_elm_def)
    with True Cons show ?thesis by (simp add: e)
  next
    case False
    then have "cmp x a < 0" using Cons.prems(2) [of a] cmp_flip(1) [OF assms(1), of a x] by simp
    with False Cons.prems show ?thesis
      using cmp_less_trans [OF assms(1), of x a] by (auto simp: insert_elm_def)
  qed
qed (simp add: insert_elm_def)

lemma find_unique:
  assumes "a \<in> set xs" and "P a" and "\<And>b. b \<in> set xs \<Longrightarrow> P b \<Longrightarrow> b = a"
  shows "find P xs = Some a"
proof (cases "find P xs")
  case None
  with assms(1,2) show ?thesis by (auto simp: find_None_iff)
next
  case (Some b)
  then have "b \<in> set xs" "P b" by (auto simp: find_Some_iff)
  with assms(3) Some show ?thesis by blast
qed

lemma find_equal:
  assumes "cmp_order cmp" and "ordered cmp xs" and "a \<in> set xs" and "cmp x a = 0"
  shows "find (\<lambda>a. cmp x a = 0) xs = Some a"
proof (rule find_unique [OF assms(3), of "\<lambda>a. cmp x a = 0", OF assms(4)])
  fix b assume b: "b \<in> set xs" "cmp x b = 0"
  have "cmp a x = 0" "cmp b x = 0" using assms(4) b(2) cmp_flip(2) [OF assms(1), of _ x] by blast+
  then have "\<not> cmp a b < 0" "\<not> cmp b a < 0"
    using cmp_trans(1) [OF assms(1), of a b x] cmp_trans(1) [OF assms(1), of b a x] by linarith+
  then have "cmp b a = 0" using cmp_flip(1) [OF assms(1), of a b] by linarith
  with ordered_unique [OF assms(1,2) b(1) assms(3)] show "b = a" .
qed

text \<open>The first element with a property, or \<open>d\<close>.\<close>

definition pick :: "u64 \<Rightarrow> (u64 \<Rightarrow> bool) \<Rightarrow> u64 list \<Rightarrow> u64" where
  "pick d P xs = (case find P xs of None \<Rightarrow> d | Some a \<Rightarrow> a)"

lemma pick_simps [simp]: "pick d P [] = d" "pick d P (x # xs) = (if P x then x else pick d P xs)"
  by (simp_all add: pick_def)

lemma pick_append: "pick d P (xs @ ys) = pick (pick d P ys) P xs"
  by (induction xs) auto

lemma pick_none: "(\<And>a. a \<in> set xs \<Longrightarrow> \<not> P a) \<Longrightarrow> pick d P xs = d"
  by (induction xs) auto

text \<open>The first element of a list or null; the last one.\<close>

definition first :: "u64 list \<Rightarrow> u64" where
  "first xs = (if xs = [] then 0 else hd xs)"

definition final :: "u64 list \<Rightarrow> u64" where
  "final xs = (if xs = [] then 0 else last xs)"

lemma first_simps [simp]: "first [] = 0" "first (x # xs) = x" "final [] = 0" "final [x] = x"
  by (simp_all add: first_def final_def)

lemma first_append: "first (xs @ ys) = (if xs = [] then first ys else first xs)"
  "final (xs @ ys) = (if ys = [] then final xs else final ys)"
  "final (x # xs) = (if xs = [] then x else final xs)"
  by (simp_all add: first_def final_def)

lemma distinct_split:
  "distinct (xs @ a # ys) \<Longrightarrow> xs @ a # ys = us @ a # vs \<Longrightarrow> xs = us \<and> ys = vs"
  by (metis append_Cons_eq_iff not_distinct_conv_prefix distinct_append distinct.simps(2) disjoint_iff list.set_intros(1))

text \<open>An instance: elements ordered by their addresses.\<close>

definition by_address :: elm_cmp where
  "by_address a b = int (unat a) - int (unat b)"

lemma by_address_order: "cmp_order by_address"
  by (auto simp: cmp_order_def by_address_def sgn_if)

end
