(* ===== verification/RbInsert.thy ===== *)
theory RbInsert
  imports RbTree CmpOrder
begin

text \<open>
  Search and insertion of \<^verbatim>\<open>libkern/tree.h\<close>: the loops that descend from the root, and the repair of
  the colours from the new node upwards.
\<close>

section \<open>The repair loop\<close>

text \<open>The conditions \<^verbatim>\<open>p && GETCOLOR(p) == RB_RED\<close> and \<^verbatim>\<open>p == NULL || GETCOLOR(p) == RB_BLACK\<close>.\<close>

definition rb_is_red :: "u64 \<Rightarrow> rb_state \<Rightarrow> bool option" where
  "rb_is_red p s = (if p = 0 then Some False else do { c \<leftarrow> RB_GETCOLOR p s; Some (c = RB_RED) })"

definition rb_is_black :: "u64 \<Rightarrow> rb_state \<Rightarrow> bool option" where
  "rb_is_black p s = (if p = 0 then Some True else do { c \<leftarrow> RB_GETCOLOR p s; Some (c = RB_BLACK) })"

text \<open>The loop body for a parent that is a left child, and the one for a right child.\<close>

definition rb_insert_left :: "u64 \<Rightarrow> u64 \<Rightarrow> u64 \<Rightarrow> rb_state \<Rightarrow> (u64 \<times> rb_state) option" where
  "rb_insert_left gparent parent elm s = do {
     tmp \<leftarrow> RB_RIGHT gparent s;
     red \<leftarrow> rb_is_red tmp s;
     (if red then do {
        s \<leftarrow> RB_SETCOLOR tmp RB_BLACK s;
        s \<leftarrow> RB_SET_BLACKRED parent gparent s;
        Some (gparent, s) }
      else do {
        r \<leftarrow> RB_RIGHT parent s;
        (parent, elm, s) \<leftarrow> (if r = elm then do {
            (_, s) \<leftarrow> RB_ROTATE_LEFT parent s;
            Some (elm, parent, s) }
          else Some (parent, elm, s));
        s \<leftarrow> RB_SET_BLACKRED parent gparent s;
        (_, s) \<leftarrow> RB_ROTATE_RIGHT gparent s;
        Some (elm, s) }) }"

definition rb_insert_right :: "u64 \<Rightarrow> u64 \<Rightarrow> u64 \<Rightarrow> rb_state \<Rightarrow> (u64 \<times> rb_state) option" where
  "rb_insert_right gparent parent elm s = do {
     tmp \<leftarrow> RB_LEFT gparent s;
     red \<leftarrow> rb_is_red tmp s;
     (if red then do {
        s \<leftarrow> RB_SETCOLOR tmp RB_BLACK s;
        s \<leftarrow> RB_SET_BLACKRED parent gparent s;
        Some (gparent, s) }
      else do {
        l \<leftarrow> RB_LEFT parent s;
        (parent, elm, s) \<leftarrow> (if l = elm then do {
            (_, s) \<leftarrow> RB_ROTATE_RIGHT parent s;
            Some (elm, parent, s) }
          else Some (parent, elm, s));
        s \<leftarrow> RB_SET_BLACKRED parent gparent s;
        (_, s) \<leftarrow> RB_ROTATE_LEFT gparent s;
        Some (elm, s) }) }"

partial_function (option) rb_insert_loop :: "u64 \<Rightarrow> rb_state \<Rightarrow> rb_state option" where
  "rb_insert_loop elm s = do {
     parent \<leftarrow> RB_GETPARENT elm s;
     red \<leftarrow> rb_is_red parent s;
     (if \<not> red then Some s
      else do {
        gparent \<leftarrow> RB_GETPARENT parent s;
        l \<leftarrow> RB_LEFT gparent s;
        (elm, s) \<leftarrow> (if parent = l then rb_insert_left gparent parent elm s
          else rb_insert_right gparent parent elm s);
        rb_insert_loop elm s }) }"

definition RB_INSERT_COLOR :: "u64 \<Rightarrow> rb_state \<Rightarrow> rb_state option" where
  "RB_INSERT_COLOR elm s = do {
     s \<leftarrow> rb_insert_loop elm s;
     RB_SETCOLOR (rbh_root s) RB_BLACK s }"

section \<open>Insertion and search\<close>

text \<open>The descent: the element found equal or null, its last \<^verbatim>\<open>parent\<close> and \<^verbatim>\<open>comp\<close>.\<close>

partial_function (option) rb_descend ::
  "elm_cmp \<Rightarrow> u64 \<Rightarrow> u64 \<Rightarrow> int \<Rightarrow> u64 \<Rightarrow> rb_state \<Rightarrow> (u64 \<times> u64 \<times> int) option" where
  "rb_descend cmp elm parent ord tmp s =
     (if tmp = 0 then Some (0, parent, ord)
      else do {
        let parent = tmp;
        let ord = cmp elm parent;
        (if ord < 0 then do { l \<leftarrow> RB_LEFT tmp s; rb_descend cmp elm parent ord l s }
         else if ord > 0 then do { r \<leftarrow> RB_RIGHT tmp s; rb_descend cmp elm parent ord r s }
         else Some (tmp, parent, ord)) })"

definition RB_INSERT :: "elm_cmp \<Rightarrow> u64 \<Rightarrow> rb_state \<Rightarrow> (u64 \<times> rb_state) option" where
  "RB_INSERT cmp elm s = do {
     (tmp, parent, ord) \<leftarrow> rb_descend cmp elm 0 0 (rbh_root s) s;
     (if tmp \<noteq> 0 then Some (tmp, s)
      else do {
        s \<leftarrow> RB_SET elm parent s;
        s \<leftarrow> (if parent \<noteq> 0 then
            if ord < 0 then set_RB_LEFT parent elm s else set_RB_RIGHT parent elm s
          else Some (s\<lparr>rbh_root := elm\<rparr>));
        s \<leftarrow> RB_INSERT_COLOR elm s;
        Some (0, s) }) }"

text \<open>The loop of the plain search, and the one that remembers the last element above the key.\<close>

partial_function (option) rb_find_loop :: "elm_cmp \<Rightarrow> u64 \<Rightarrow> u64 \<Rightarrow> rb_state \<Rightarrow> u64 option" where
  "rb_find_loop cmp elm tmp s =
     (if tmp = 0 then Some 0
      else do {
        let ord = cmp elm tmp;
        (if ord < 0 then do { l \<leftarrow> RB_LEFT tmp s; rb_find_loop cmp elm l s }
         else if ord > 0 then do { r \<leftarrow> RB_RIGHT tmp s; rb_find_loop cmp elm r s }
         else Some tmp) })"

definition RB_FIND :: "elm_cmp \<Rightarrow> u64 \<Rightarrow> rb_state \<Rightarrow> u64 option" where
  "RB_FIND cmp elm s = rb_find_loop cmp elm (rbh_root s) s"

partial_function (option) rb_nfind_loop :: "elm_cmp \<Rightarrow> u64 \<Rightarrow> u64 \<Rightarrow> u64 \<Rightarrow> rb_state \<Rightarrow> u64 option" where
  "rb_nfind_loop cmp elm res tmp s =
     (if tmp = 0 then Some res
      else do {
        let ord = cmp elm tmp;
        (if ord < 0 then do { let res = tmp; l \<leftarrow> RB_LEFT tmp s; rb_nfind_loop cmp elm res l s }
         else if ord > 0 then do { r \<leftarrow> RB_RIGHT tmp s; rb_nfind_loop cmp elm res r s }
         else Some tmp) })"

definition RB_NFIND :: "elm_cmp \<Rightarrow> u64 \<Rightarrow> rb_state \<Rightarrow> u64 option" where
  "RB_NFIND cmp elm s = rb_nfind_loop cmp elm 0 (rbh_root s) s"

section \<open>The repair does what its abstract counterpart does\<close>

lemma color_code_simps [simp]: "color_code c = RB_RED \<longleftrightarrow> c = Red" "color_code c = RB_BLACK \<longleftrightarrow> c = Black"
  by (cases c; simp add: RB_RED_def RB_BLACK_def)+

lemma is_color:
  assumes "rb_tree s (plug k t)"
  shows "rb_is_red (addr t) s = Some (color t = Red)" and "rb_is_black (addr t) s = Some (color t = Black)"
  using assms by (cases t rule: addr.cases; auto simp: rb_is_red_def rb_is_black_def focus_reads okp_def dest: focus_reads(5))+

lemma setcolor_at:
  assumes "rb_tree s (plug k (Node l (a, c) r))"
  shows "makes s (RB_SETCOLOR a RB_BLACK s) (plug k (Node l (a, Black) r))"
    and "makes s (RB_SETCOLOR a RB_RED s) (plug k (Node l (a, Red) r))"
  using focus_setcolor [OF assms, of Black] focus_setcolor [OF assms, of Red] by simp_all

text \<open>The outer rotation, after a parent \<open>p\<close> and grandparent \<open>g\<close> have been recoloured.\<close>

lemma blackred_left:
  assumes "rb_tree s (plug k (Node (Node t (p, cp) v) (g, cg) u))"
  shows "makes s (RB_SET_BLACKRED p g s) (plug k (Node (Node t (p, Black) v) (g, Red) u))"
  unfolding RB_SET_BLACKRED_def
  by (rule makes_bind [OF setcolor_at(1) [of s "InLeft g cg u # k" t p cp v, simplified plug.simps, OF assms]],
      drule setcolor_at(2) [of _ k]) simp_all

lemma blackred_right:
  assumes "rb_tree s (plug k (Node u (g, cg) (Node v (p, cp) t)))"
  shows "makes s (RB_SET_BLACKRED p g s) (plug k (Node u (g, Red) (Node v (p, Black) t)))"
  unfolding RB_SET_BLACKRED_def
  by (rule makes_bind [OF setcolor_at(1) [of s "InRight u g cg # k" v p cp t, simplified plug.simps, OF assms]],
      drule setcolor_at(2) [of _ k]) simp_all

lemma recolor_left:
  assumes "rb_tree s (plug k (Node (Node t (p, cp) v) (g, cg) (Node ul (a, ca) ur)))"
  shows "rb_yields s (do { s \<leftarrow> RB_SETCOLOR a RB_BLACK s; s \<leftarrow> RB_SET_BLACKRED p g s; Some (g, s) }) g
    (plug k (Node (Node t (p, Black) v) (g, Red) (Node ul (a, Black) ur)))"
proof (rule yields_bind)
  show "makes s (RB_SETCOLOR a RB_BLACK s) (plug k (Node (Node t (p, cp) v) (g, cg) (Node ul (a, Black) ur)))"
    using setcolor_at(1) [of s "InRight (Node t (p, cp) v) g cg # k" ul a ca ur] assms by simp
  show "rb_yields s' (RB_SET_BLACKRED p g s' \<bind> (\<lambda>s. Some (g, s))) g
      (plug k (Node (Node t (p, Black) v) (g, Red) (Node ul (a, Black) ur)))"
    if "rb_tree s' (plug k (Node (Node t (p, cp) v) (g, cg) (Node ul (a, Black) ur)))" for s'
    using blackred_left [OF that] by (rule yields_bind) simp_all
qed simp

lemma recolor_right:
  assumes "rb_tree s (plug k (Node (Node ul (a, ca) ur) (g, cg) (Node v (p, cp) t)))"
  shows "rb_yields s (do { s \<leftarrow> RB_SETCOLOR a RB_BLACK s; s \<leftarrow> RB_SET_BLACKRED p g s; Some (g, s) }) g
    (plug k (Node (Node ul (a, Black) ur) (g, Red) (Node v (p, Black) t)))"
proof (rule yields_bind)
  show "makes s (RB_SETCOLOR a RB_BLACK s) (plug k (Node (Node ul (a, Black) ur) (g, cg) (Node v (p, cp) t)))"
    using setcolor_at(1) [of s "InLeft g cg (Node v (p, cp) t) # k" ul a ca ur] assms by simp
  show "rb_yields s' (RB_SET_BLACKRED p g s' \<bind> (\<lambda>s. Some (g, s))) g
      (plug k (Node (Node ul (a, Black) ur) (g, Red) (Node v (p, Black) t)))"
    if "rb_tree s' (plug k (Node (Node ul (a, Black) ur) (g, cg) (Node v (p, cp) t)))" for s'
    using blackred_right [OF that] by (rule yields_bind) simp_all
qed simp

lemma turn_right:
  assumes "rb_tree s (plug k (Node (Node t (p, cp) v) (g, cg) u))"
  shows "rb_yields s (do { s \<leftarrow> RB_SET_BLACKRED p g s; (_, s) \<leftarrow> RB_ROTATE_RIGHT g s; Some (e, s) }) e
    (plug k (Node t (p, Black) (Node v (g, Red) u)))"
proof (rule yields_bind [OF blackred_left [OF assms]])
  fix s' assume "rb_tree s' (plug k (Node (Node t (p, Black) v) (g, Red) u))"
  from rotate_right [OF this]
  show "rb_yields s' (RB_ROTATE_RIGHT g s' \<bind> (\<lambda>(_, s). Some (e, s))) e (plug k (Node t (p, Black) (Node v (g, Red) u)))"
    by (rule yields_yields_bind) simp_all
qed simp

lemma turn_left:
  assumes "rb_tree s (plug k (Node u (g, cg) (Node v (p, cp) t)))"
  shows "rb_yields s (do { s \<leftarrow> RB_SET_BLACKRED p g s; (_, s) \<leftarrow> RB_ROTATE_LEFT g s; Some (e, s) }) e
    (plug k (Node (Node u (g, Red) v) (p, Black) t))"
proof (rule yields_bind [OF blackred_right [OF assms]])
  fix s' assume "rb_tree s' (plug k (Node u (g, Red) (Node v (p, Black) t)))"
  from rotate_left [OF this]
  show "rb_yields s' (RB_ROTATE_LEFT g s' \<bind> (\<lambda>(_, s). Some (e, s))) e (plug k (Node (Node u (g, Red) v) (p, Black) t))"
    by (rule yields_yields_bind) simp_all
qed simp

lemma insert_left:
  assumes t: "rb_tree s (plug k (Node (Node t (p, Red) v) (g, cg) u))"
  shows "color u = Red \<Longrightarrow>
      rb_yields s (rb_insert_left g p e s) g (plug k (Node (Node t (p, Black) v) (g, Red) (paint Black u)))"
    and "color u = Black \<Longrightarrow> addr v \<noteq> e \<Longrightarrow>
      rb_yields s (rb_insert_left g p e s) e (plug k (Node t (p, Black) (Node v (g, Red) u)))"
    and "color u = Black \<Longrightarrow> v = Node a (x, cx) b \<Longrightarrow>
      rb_yields s (rb_insert_left g p x s) p (plug k (Node (Node t (p, Red) a) (x, Black) (Node b (g, Red) u)))"
proof -
  have r: "RB_RIGHT g s = Some (addr u)" "RB_RIGHT p s = Some (addr v)"
      "rb_is_red (addr u) s = Some (color u = Red)"
    using focus_reads [OF t] focus_reads [of s "InLeft g cg u # k" t p Red v]
      is_color(1) [of s "InRight (Node t (p, Red) v) g cg # k" u] t by simp_all
  show "rb_yields s (rb_insert_left g p e s) g (plug k (Node (Node t (p, Black) v) (g, Red) (paint Black u)))"
    if "color u = Red"
    using recolor_left r t that by (auto elim!: color_RedE simp: rb_insert_left_def)
  show "rb_yields s (rb_insert_left g p e s) e (plug k (Node t (p, Black) (Node v (g, Red) u)))"
    if "color u = Black" "addr v \<noteq> e"
    using turn_right [OF t] r that by (simp add: rb_insert_left_def)
  show "rb_yields s (rb_insert_left g p x s) p (plug k (Node (Node t (p, Red) a) (x, Black) (Node b (g, Red) u)))"
    if "color u = Black" "v = Node a (x, cx) b"
  proof -
    have "rb_yields s (RB_ROTATE_LEFT p s) x (plug k (Node (Node (Node t (p, Red) a) (x, cx) b) (g, cg) u))"
      using rotate_left [of s "InLeft g cg u # k" t p Red a x cx b] t that by simp
    then have "rb_yields s (RB_ROTATE_LEFT p s \<bind> (\<lambda>y. RB_SET_BLACKRED x g (snd y) \<bind>
          (\<lambda>s. RB_ROTATE_RIGHT g s \<bind> (\<lambda>(_, s). Some (p, s)))))
        p (plug k (Node (Node t (p, Red) a) (x, Black) (Node b (g, Red) u)))"
      by (rule yields_yields_bind) (simp_all add: turn_right)
    then show ?thesis using r that by (simp add: rb_insert_left_def case_prod_beta)
  qed
qed

lemma insert_right:
  assumes t: "rb_tree s (plug k (Node u (g, cg) (Node v (p, Red) t)))"
  shows "color u = Red \<Longrightarrow>
      rb_yields s (rb_insert_right g p e s) g (plug k (Node (paint Black u) (g, Red) (Node v (p, Black) t)))"
    and "color u = Black \<Longrightarrow> addr v \<noteq> e \<Longrightarrow>
      rb_yields s (rb_insert_right g p e s) e (plug k (Node (Node u (g, Red) v) (p, Black) t))"
    and "color u = Black \<Longrightarrow> v = Node a (x, cx) b \<Longrightarrow>
      rb_yields s (rb_insert_right g p x s) p (plug k (Node (Node u (g, Red) a) (x, Black) (Node b (p, Red) t)))"
proof -
  have r: "RB_LEFT g s = Some (addr u)" "RB_LEFT p s = Some (addr v)"
      "rb_is_red (addr u) s = Some (color u = Red)"
    using focus_reads [OF t] focus_reads [of s "InRight u g cg # k" v p Red t]
      is_color(1) [of s "InLeft g cg (Node v (p, Red) t) # k" u] t by simp_all
  show "rb_yields s (rb_insert_right g p e s) g (plug k (Node (paint Black u) (g, Red) (Node v (p, Black) t)))"
    if "color u = Red"
    using recolor_right r t that by (auto elim!: color_RedE simp: rb_insert_right_def)
  show "rb_yields s (rb_insert_right g p e s) e (plug k (Node (Node u (g, Red) v) (p, Black) t))"
    if "color u = Black" "addr v \<noteq> e"
    using turn_left [OF t] r that by (simp add: rb_insert_right_def)
  show "rb_yields s (rb_insert_right g p x s) p (plug k (Node (Node u (g, Red) a) (x, Black) (Node b (p, Red) t)))"
    if "color u = Black" "v = Node a (x, cx) b"
  proof -
    have "rb_yields s (RB_ROTATE_RIGHT p s) x (plug k (Node u (g, cg) (Node a (x, cx) (Node b (p, Red) t))))"
      using rotate_right [of s "InRight u g cg # k" a x cx b p Red t] t that by simp
    then have "rb_yields s (RB_ROTATE_RIGHT p s \<bind> (\<lambda>y. RB_SET_BLACKRED x g (snd y) \<bind>
          (\<lambda>s. RB_ROTATE_LEFT g s \<bind> (\<lambda>(_, s). Some (p, s)))))
        p (plug k (Node (Node u (g, Red) a) (x, Black) (Node b (p, Red) t)))"
      by (rule yields_yields_bind) (simp_all add: turn_left)
    then show ?thesis using r that by (simp add: rb_insert_right_def case_prod_beta)
  qed
qed

text \<open>Reads at the frame above the hole.\<close>

lemma frame_reads:
  assumes "rb_tree s (plug k t)" and "k \<noteq> []"
  shows "RB_GETPARENT (parent_of k) s = Some (parent_of (tl k))"
    and "rb_is_red (parent_of k) s = Some (parent_color k = Red)"
  using assms focus_reads(3-5) by (cases k rule: parent_of.cases; fastforce simp: rb_is_red_def okp_def)+

lemma hole_reads:
  assumes "rb_tree s (plug k t)" and "t \<noteq> Leaf"
  shows "RB_GETPARENT (addr t) s = Some (parent_of k)"
  using assms focus_reads(3) by (cases t rule: addr.cases) auto

lemma left_child:
  "rb_tree s (plug (InLeft a c r # k) t) \<Longrightarrow> RB_LEFT a s = Some (addr t)"
  "rb_tree s (plug (InRight l a c # k) t) \<Longrightarrow> RB_LEFT a s = Some (addr l)"
  using focus_reads(1) by auto

lemma siblings_differ:
  assumes "rb_tree s (plug (InRight l a c # k) t)" and "t \<noteq> Leaf"
  shows "addr l \<noteq> addr t"
  using assms addr_in [of l] by (cases t rule: addr.cases) (auto simp: rb_tree_plug okp_def)

text \<open>The rounds of the loop.\<close>

lemma insert_stop:
  assumes "rb_tree s (plug k t)" and "t \<noteq> Leaf" and "parent_color k = Black"
  shows "makes s (rb_insert_loop (addr t) s) (plug k t)"
proof -
  have "rb_is_red (parent_of k) s = Some False"
    using assms frame_reads(2) [of s k t] by (cases "k = []") (auto simp: rb_is_red_def)
  then show ?thesis using assms hole_reads [OF assms(1,2)] by (simp add: rb_insert_loop.simps)
qed

lemma insert_round:
  assumes "rb_tree s (plug (f # k) t)" and "t \<noteq> Leaf" and "parent_color (f # k) = Red" and "k \<noteq> []"
  shows "rb_insert_loop (addr t) s = (case k of
      InLeft g c u # j \<Rightarrow> rb_insert_left g (parent_of [f]) (addr t) s
    | InRight u g c # j \<Rightarrow> rb_insert_right g (parent_of [f]) (addr t) s) \<bind> (\<lambda>(e, s). rb_insert_loop e s)"
proof -
  let ?p = "parent_of [f]"
  obtain t' where t': "rb_tree s (plug k t')" "addr t' = ?p" "t' \<noteq> Leaf" "parent_of (f # k) = ?p"
    using assms(1) by (cases f) auto
  have "RB_GETPARENT (addr t) s = Some ?p" "RB_GETPARENT ?p s = Some (parent_of k)" "rb_is_red ?p s = Some True"
    using frame_reads [OF assms(1)] hole_reads [OF assms(1,2)] assms(3) t' by simp_all
  moreover obtain l where "RB_LEFT (parent_of k) s = Some l" "?p = l \<longleftrightarrow> (\<exists>g c u j. k = InLeft g c u # j)"
    using t' assms(4) left_child siblings_differ by (cases k rule: parent_of.cases) fastforce+
  ultimately show ?thesis
    using assms(4) by (subst rb_insert_loop.simps) (cases k rule: parent_of.cases; simp)
qed

text \<open>A red uncle moves the fault up, a black one ends the loop.\<close>

lemma insert_up:
  assumes "rb_yields s r e (plug k u)" and "addr u = e" and "color u = Red"
    and "\<And>s'. rb_tree s' (plug k u) \<Longrightarrow> makes s' (rb_insert_loop (addr u) s') (grown k u)"
  shows "makes s (r \<bind> (\<lambda>(e, s). rb_insert_loop e s)) (grown k u)"
  by (rule makes_yields_bind [OF assms(1)]) (use assms(2-4) in \<open>simp_all add: grown_ino\<close>)

lemma insert_done:
  assumes "rb_yields s r e (plug k (plug [f] u))" and "addr u = e" and "u \<noteq> Leaf" and "parent_color [f] = Black"
  shows "makes s (r \<bind> (\<lambda>(e, s). rb_insert_loop e s)) (plug k (plug [f] u))"
proof (rule makes_yields_bind [OF assms(1)])
  fix s' assume "rb_tree s' (plug k (plug [f] u))"
  then show "makes s' (case (e, s') of (e, s) \<Rightarrow> rb_insert_loop e s) (plug k (plug [f] u))"
    using insert_stop [of s' "f # k" u] assms(2-4) by (cases f) simp_all
qed simp

lemma insert_loop:
  "rb_tree s (plug k t) \<Longrightarrow> color t = Red \<Longrightarrow> sound k \<Longrightarrow> makes s (rb_insert_loop (addr t) s) (grown k t)"
proof (induction k t arbitrary: s rule: grown.induct)
  case (1 p v g cg u k t)
  then have tree: "rb_tree s (plug k (Node (Node t (p, Red) v) (g, cg) u))" and t: "t \<noteq> Leaf" and k: "sound k"
    by (auto dest!: sound_tl)
  have r: "rb_insert_loop (addr t) s = rb_insert_left g p (addr t) s \<bind> (\<lambda>(e, s). rb_insert_loop e s)"
    using insert_round [OF 1(2) t] by simp
  have "addr v \<noteq> addr t" using tree t addr_in [of v] by (cases t rule: addr.cases) (auto simp: rb_tree_plug okp_def)
  then show ?case
    unfolding r using insert_up [OF insert_left(1) [OF tree, of "addr t"] _ _ 1(1) [OF _ _ _ k]] 1(3)
      insert_done [where f = "InLeft p Black (Node v (g, Red) u)" and u = "t", simplified plug.simps,
        OF insert_left(2) [OF tree]] t
    by (cases "color u = Red") simp_all
next
  case (2 l p g cg u k t)
  then have tree: "rb_tree s (plug k (Node (Node l (p, Red) t) (g, cg) u))" and t: "t \<noteq> Leaf" and k: "sound k"
    by (auto dest!: sound_tl)
  have r: "rb_insert_loop (addr t) s = rb_insert_left g p (addr t) s \<bind> (\<lambda>(e, s). rb_insert_loop e s)"
    using insert_round [OF 2(2) t] by simp
  obtain a x b where t': "t = Node a (x, Red) b" using 2(3) by (rule color_RedE)
  show ?case
    unfolding r using insert_up [OF insert_left(1) [OF tree, of "addr t"] _ _ 2(1) [OF _ _ _ k]] 2(3)
      insert_done [where f = "InLeft x Black (Node b (g, Red) u)" and u = "Node l (p, Red) a", simplified plug.simps,
        OF insert_left(3) [OF tree]] t
    by (cases "color u = Red") (simp_all add: t')
next
  case (3 l p u g cg k t)
  then have tree: "rb_tree s (plug k (Node u (g, cg) (Node l (p, Red) t)))" and t: "t \<noteq> Leaf" and k: "sound k"
    by (auto dest!: sound_tl)
  have r: "rb_insert_loop (addr t) s = rb_insert_right g p (addr t) s \<bind> (\<lambda>(e, s). rb_insert_loop e s)"
    using insert_round [OF 3(2) t] by simp
  have "addr l \<noteq> addr t" using tree t addr_in [of l] by (cases t rule: addr.cases) (auto simp: rb_tree_plug okp_def)
  then show ?case
    unfolding r using insert_up [OF insert_right(1) [OF tree, of "addr t"] _ _ 3(1) [OF _ _ _ k]] 3(3)
      insert_done [where f = "InRight (Node u (g, Red) l) p Black" and u = "t", simplified plug.simps,
        OF insert_right(2) [OF tree]] t
    by (cases "color u = Red") simp_all
next
  case (4 p v u g cg k t)
  then have tree: "rb_tree s (plug k (Node u (g, cg) (Node t (p, Red) v)))" and t: "t \<noteq> Leaf" and k: "sound k"
    by (auto dest!: sound_tl)
  have r: "rb_insert_loop (addr t) s = rb_insert_right g p (addr t) s \<bind> (\<lambda>(e, s). rb_insert_loop e s)"
    using insert_round [OF 4(2) t] by simp
  obtain a x b where t': "t = Node a (x, Red) b" using 4(3) by (rule color_RedE)
  show ?case
    unfolding r using insert_up [OF insert_right(1) [OF tree, of "addr t"] _ _ 4(1) [OF _ _ _ k]] 4(3)
      insert_done [where f = "InRight (Node u (g, Red) a) x Black" and u = "Node b (p, Red) v", simplified plug.simps,
        OF insert_right(3) [OF tree]] t
    by (cases "color u = Red") (simp_all add: t')
qed (simp only: grown.simps; rule insert_stop; force dest: sound_single)+

lemma insert_color:
  assumes "rb_tree s (plug k t)" and "color t = Red" and "sound k"
  shows "makes s (RB_INSERT_COLOR (addr t) s) (paint Black (grown k t))"
  unfolding RB_INSERT_COLOR_def
proof (rule makes_bind [OF insert_loop [OF assms]])
  fix s' assume s': "rb_tree s' (grown k t)"
  have "ino (grown k t) \<noteq> []" using grown_ino [OF assms(2)] assms(2) by (auto elim: color_RedE)
  then obtain l a c r where g: "grown k t = Node l (a, c) r" by (cases "grown k t" rule: addr.cases) auto
  then have "rbh_root s' = a" using s' by (simp add: rb_tree_def)
  then show "makes s' (RB_SETCOLOR (rbh_root s') RB_BLACK s') (paint Black (grown k t))"
    using setcolor_at(1) [of s' "[]" l a c r] s' g by simp
qed simp

section \<open>The descent\<close>

text \<open>The side of the last comparison and the frame above the hole agree.\<close>

fun side :: "int \<Rightarrow> rb_ctx \<Rightarrow> bool" where
  "side d [] = True"
| "side d (InLeft a c r # k) \<longleftrightarrow> d < 0"
| "side d (InRight l a c # k) \<longleftrightarrow> 0 < d"

text \<open>The hole is where \<open>x\<close> belongs.\<close>

definition hole_for :: "elm_cmp \<Rightarrow> u64 \<Rightarrow> rb_ctx \<Rightarrow> bool" where
  "hole_for cmp x k \<longleftrightarrow> (\<forall>a\<in>set (lefts k). 0 < cmp x a) \<and> (\<forall>a\<in>set (rights k). cmp x a < 0)"

lemma hole_for_step:
  assumes "cmp_order cmp" and "ordered cmp (ino (plug k (Node l (a, c) r)))" and "hole_for cmp x k"
  shows "cmp x a < 0 \<Longrightarrow> hole_for cmp x (InLeft a c r # k)" and "0 < cmp x a \<Longrightarrow> hole_for cmp x (InRight l a c # k)"
proof -
  have "\<forall>b\<in>addrs r. cmp a b < 0" "\<forall>b\<in>addrs l. cmp b a < 0"
    using assms(2) by (auto simp: ordered_append)
  then show "cmp x a < 0 \<Longrightarrow> hole_for cmp x (InLeft a c r # k)" "0 < cmp x a \<Longrightarrow> hole_for cmp x (InRight l a c # k)"
    using assms(3) cmp_less_trans [OF assms(1)] cmp_flip(1) [OF assms(1)] by (fastforce simp: hole_for_def)+
qed

lemma descend:
  assumes "cmp_order cmp"
  shows "rb_tree s (plug k t) \<Longrightarrow> ordered cmp (ino (plug k t)) \<Longrightarrow> hole_for cmp x k \<Longrightarrow> side d k \<Longrightarrow>
    (\<exists>j l a c r. plug k t = plug j (Node l (a, c) r) \<and> cmp x a = 0 \<and> hole_for cmp x j \<and>
       rb_descend cmp x (parent_of k) d (addr t) s = Some (a, a, 0)) \<or>
    (\<exists>j e. plug k t = plug j Leaf \<and> rb_descend cmp x (parent_of k) d (addr t) s = Some (0, parent_of j, e) \<and>
       side e j \<and> hole_for cmp x j)"
proof (induction t arbitrary: k d)
  case Leaf
  then show ?case by (subst rb_descend.simps, subst rb_descend.simps) auto
next
  case (Node l y r)
  obtain a c where y: "y = (a, c)" by (cases y)
  have f: "rb_tree s (plug k (Node l (a, c) r))" using Node.prems y by simp
  note h = hole_for_step [OF assms Node.prems(2) [unfolded y] Node.prems(3)]
  have a: "a \<noteq> 0" using focus_reads(5) [OF f] by (simp add: okp_def)
  consider "cmp x a < 0" | "0 < cmp x a" | "cmp x a = 0" by linarith
  then show ?case
  proof cases
    case 1
    then have "rb_descend cmp x (parent_of k) d (addr (Node l y r)) s =
        rb_descend cmp x (parent_of (InLeft a c r # k)) (cmp x a) (addr l) s"
      using a focus_reads(1) [OF f] y by (subst rb_descend.simps) simp
    then show ?thesis using Node.IH(1) [of "InLeft a c r # k" "cmp x a"] Node.prems h(1) 1 y by simp
  next
    case 2
    then have "rb_descend cmp x (parent_of k) d (addr (Node l y r)) s =
        rb_descend cmp x (parent_of (InRight l a c # k)) (cmp x a) (addr r) s"
      using a focus_reads(2) [OF f] y by (subst rb_descend.simps) simp
    then show ?thesis using Node.IH(2) [of "InRight l a c # k" "cmp x a"] Node.prems h(2) 2 y by simp
  next
    case 3
    then have "rb_descend cmp x (parent_of k) d (addr (Node l y r)) s = Some (a, a, 0)"
      using a y by (subst rb_descend.simps) simp
    then show ?thesis using 3 y Node.prems(3) by auto
  qed
qed

section \<open>Insertion\<close>

lemma RB_SETPARENT_any:
  assumes "x \<noteq> 0" and "even p"
  obtains l r d where "RB_SETPARENT x p s = Some (p, s\<lparr>rb_mem := (rb_mem s)(x := rb_cell l r p d)\<rparr>)"
proof -
  obtain l r q where e: "rb_mem s x = \<lparr>rbe_left = l, rbe_right = r, rbe_parent = q\<rparr>" by (cases "rb_mem s x") auto
  let ?s = "s\<lparr>rb_mem := (rb_mem s)(x := rb_cell l r p Black)\<rparr>"
  have u: "rb_upd x (\<lambda>e. e\<lparr>rbe_parent := p\<rparr>) s = Some ?s"
    using assms(1) e by (simp add: rb_upd_def rb_cell_def)
  have "q AND 1 = 0 \<or> q AND 1 = 1" by (simp add: and_one_eq mod2_eq_if)
  moreover have "RB_GETCOLOR x s = Some (ucast (q AND 1))"
    using assms(1) e by (simp add: RB_GETCOLOR_def rb_at_def RB_COLOR_MASK_def)
  moreover have "color_code Black = 0" "color_code Red = 1" by (simp_all add: RB_BLACK_def RB_RED_def)
  ultimately obtain d where c: "RB_GETCOLOR x s = Some (color_code d)" by (metis unsigned_0 unsigned_1)
  show ?thesis
  proof (cases d)
    case Red
    then show ?thesis
      using assms c RB_SETCOLOR_entry [of x ?s l r p Black Red]
      by (intro that [of l r Red]) (simp add: RB_SETPARENT_def u RB_RED_def RB_GETPARENT_entry)
  next
    case Black
    then show ?thesis
      using assms c by (intro that [of l r Black]) (simp add: RB_SETPARENT_def u RB_BLACK_def RB_GETPARENT_entry)
  qed
qed

lemma RB_SET_entry:
  assumes "x \<noteq> 0" and "even p"
  shows "RB_SET x p s = Some (s\<lparr>rb_mem := (rb_mem s)(x := rb_cell 0 0 p Red)\<rparr>)"
proof -
  obtain l r d where "RB_SETPARENT x p s = Some (p, s\<lparr>rb_mem := (rb_mem s)(x := rb_cell l r p d)\<rparr>)"
    using assms by (rule RB_SETPARENT_any)
  then show ?thesis
    using assms RB_SETCOLOR_entry [of x "s\<lparr>rb_mem := (rb_mem s)(x := rb_cell 0 0 p d)\<rparr>" 0 0 p d Red]
    by (simp add: RB_SET_def RB_links_entry)
qed

text \<open>A new red leaf in the hole.\<close>

lemma link_leaf:
  assumes "rb_tree s (plug k Leaf)" and "side d k" and "okp x" and "x \<notin> addrs (plug k Leaf)"
  obtains s1 s2 where "RB_SET x (parent_of k) s = Some s1"
    and "(if parent_of k \<noteq> 0 then if d < 0 then set_RB_LEFT (parent_of k) x s1 else set_RB_RIGHT (parent_of k) x s1
      else Some (s1\<lparr>rbh_root := x\<rparr>)) = Some s2"
    and "rb_tree s2 (plug k (Node Leaf (x, Red) Leaf))"
    and "\<And>a. a \<notin> addrs (plug k (Node Leaf (x, Red) Leaf)) \<Longrightarrow> rb_mem s2 a = rb_mem s a"
proof -
  let ?s1 = "s\<lparr>rb_mem := (rb_mem s)(x := rb_cell 0 0 (parent_of k) Red)\<rparr>"
  have c: "ctx_at (rbh_root s) (rb_mem s) 0 k" and d: "distinct (lefts k @ rights k)"
    using assms(1) by (simp_all add: rb_tree_plug)
  then have c1: "ctx_at (rbh_root ?s1) (rb_mem ?s1) 0 k" using assms(4) by simp
  show ?thesis
  proof (rule that [of ?s1 "rehang k x ?s1"])
    show "RB_SET x (parent_of k) s = Some ?s1"
      using assms(3) parent_even [OF c] by (intro RB_SET_entry) (simp_all add: okp_def)
    show "(if parent_of k \<noteq> 0 then if d < 0 then set_RB_LEFT (parent_of k) x ?s1 else set_RB_RIGHT (parent_of k) x ?s1
      else Some (?s1\<lparr>rbh_root := x\<rparr>)) = Some (rehang k x ?s1)"
      using c1 assms(2) by (cases k rule: parent_of.cases) (auto simp: okp_def RB_links_entry)
    show "rb_tree (rehang k x ?s1) (plug k (Node Leaf (x, Red) Leaf))"
      using rehang_ctx [OF c1 d, of x] assms(3,4) d by (auto simp: rb_tree_plug rehang_mem)
    show "rb_mem (rehang k x ?s1) a = rb_mem s a" if "a \<notin> addrs (plug k (Node Leaf (x, Red) Leaf))" for a
      using that by (simp add: rehang_mem)
  qed
qed

text \<open>The tree holds the elements \<open>xs\<close>, in increasing order.\<close>

definition rb_holds :: "elm_cmp \<Rightarrow> rb_state \<Rightarrow> u64 list \<Rightarrow> bool" where
  "rb_holds cmp s xs \<longleftrightarrow> (\<exists>t. rb_tree s t \<and> rbt t \<and> ino t = xs) \<and> ordered cmp xs"

lemma insert_fresh:
  assumes "rb_tree s (plug k Leaf)" and "rbt (plug k Leaf)" and "side d k" and "okp x" and "x \<notin> addrs (plug k Leaf)"
    and "rb_descend cmp x 0 0 (rbh_root s) s = Some (0, parent_of k, d)"
  obtains s' t where "RB_INSERT cmp x s = Some (0, s')" and "rb_tree s' t" and "rbt t"
    and "ino t = lefts k @ x # rights k" and "\<And>a. a \<notin> addrs t \<Longrightarrow> rb_mem s' a = rb_mem s a"
proof -
  let ?n = "Node Leaf (x, Red) Leaf"
  obtain s1 s2 where s1: "RB_SET x (parent_of k) s = Some s1"
    and s2: "(if parent_of k \<noteq> 0 then if d < 0 then set_RB_LEFT (parent_of k) x s1 else set_RB_RIGHT (parent_of k) x s1
      else Some (s1\<lparr>rbh_root := x\<rparr>)) = Some s2"
    and t: "rb_tree s2 (plug k ?n)" and f: "\<And>a. a \<notin> addrs (plug k ?n) \<Longrightarrow> rb_mem s2 a = rb_mem s a"
    using assms(1,3-5) by (rule link_leaf) (rule that; assumption)
  have k: "fits k 0" using assms(2) by (simp add: rbt_plug)
  then have "sound k" unfolding sound_def by blast
  then obtain s' where s': "RB_INSERT_COLOR x s2 = Some s'" "rb_tree s' (paint Black (grown k ?n))"
      "\<forall>a. a \<notin> addrs (paint Black (grown k ?n)) \<longrightarrow> rb_mem s' a = rb_mem s2 a"
    using insert_color [OF t] unfolding makes_def by auto
  show ?thesis
  proof (rule that [OF _ s'(2)])
    show "RB_INSERT cmp x s = Some (0, s')" using assms(6) s1 s2 s'(1) by (simp add: RB_INSERT_def)
    show "rbt (paint Black (grown k ?n))" using k by (intro rbt_paint grown_balanced) simp_all
    show i: "ino (paint Black (grown k ?n)) = lefts k @ x # rights k" by (simp add: grown_ino)
    show "rb_mem s' a = rb_mem s a" if "a \<notin> addrs (paint Black (grown k ?n))" for a
    proof -
      have "a \<notin> addrs (plug k ?n)" using that unfolding addrs_ino i by simp
      with that s'(3) f show ?thesis by simp
    qed
  qed
qed

text \<open>
  Inserting into a red-black tree: if the tree holds an element that compares equal, that element
  is returned and nothing changes. Otherwise the new element is put at its place in the order, the
  result is again a red-black tree, null is returned, and no entry outside the tree is written.
\<close>

lemma inserted:
  assumes "cmp_order cmp" and "rb_holds cmp s xs" and "okp x" and "x \<notin> set xs"
  shows "case find (\<lambda>a. cmp x a = 0) xs of
      Some a \<Rightarrow> RB_INSERT cmp x s = Some (a, s)
    | None \<Rightarrow> (\<exists>s'. RB_INSERT cmp x s = Some (0, s') \<and> rb_holds cmp s' (insert_elm cmp x xs) \<and>
        (\<forall>a. a \<noteq> x \<and> a \<notin> set xs \<longrightarrow> rb_mem s' a = rb_mem s a))"
proof -
  obtain t where t: "rb_tree s t" "rbt t" "ino t = xs" and o: "ordered cmp xs"
    using assms(2) by (auto simp: rb_holds_def)
  have "hole_for cmp x []" by (simp add: hole_for_def)
  from descend [OF assms(1), of s "[]" t x 0] this t o
  consider (found) j l a c r where "t = plug j (Node l (a, c) r)" "cmp x a = 0"
      "rb_descend cmp x 0 0 (rbh_root s) s = Some (a, a, 0)"
    | (fresh) j e where "t = plug j Leaf" "rb_descend cmp x 0 0 (rbh_root s) s = Some (0, parent_of j, e)"
      "side e j" "hole_for cmp x j"
    by (auto simp: rb_tree_def)
  then show ?thesis
  proof cases
    case found
    then have "a \<in> set xs" using t by auto
    then have "find (\<lambda>a. cmp x a = 0) xs = Some a" using found(2) by (rule find_equal [OF assms(1) o])
    moreover have "a \<noteq> 0" using focus_reads(5) [of s j l a c r] found t by (simp add: okp_def)
    ultimately show ?thesis using found by (simp add: RB_INSERT_def)
  next
    case fresh
    have xs: "xs = lefts j @ rights j" using fresh t by auto
    have n: "find (\<lambda>a. cmp x a = 0) xs = None"
      using fresh(4) xs by (auto simp: find_None_iff hole_for_def)
    have "insert_elm cmp x xs = lefts j @ x # rights j"
      unfolding xs using fresh(4) by (intro insert_elm_at) (auto simp: hole_for_def cmp_flip(1) [OF assms(1), of _ x])
    moreover have "ordered cmp (insert_elm cmp x xs)"
      using n assms(1) o by (intro ordered_insert_elm) (auto simp: find_None_iff)
    moreover have p: "x \<notin> addrs (plug j Leaf)" "rb_tree s (plug j Leaf)" "rbt (plug j Leaf)"
      using assms(4) xs t(1,2) fresh(1) by simp_all
    moreover obtain s' u where "RB_INSERT cmp x s = Some (0, s')" and "rb_tree s' u" and "rbt u"
      and i: "ino u = lefts j @ x # rights j" and f: "\<And>a. a \<notin> addrs u \<Longrightarrow> rb_mem s' a = rb_mem s a"
      by (rule insert_fresh [OF p(2,3) fresh(3) assms(3) p(1) fresh(2)]) (rule that; assumption)
    moreover have "rb_mem s' a = rb_mem s a" if "a \<noteq> x" "a \<notin> set xs" for a
      using f [of a] that unfolding addrs_ino i xs by simp
    ultimately show ?thesis unfolding n rb_holds_def by auto
  qed
qed

section \<open>Searches\<close>

lemma node_order:
  assumes "cmp_order cmp" and "ordered cmp (ino l @ a # ino r)"
  shows "cmp x a \<le> 0 \<Longrightarrow> b \<in> addrs r \<Longrightarrow> cmp x b < 0" and "0 \<le> cmp x a \<Longrightarrow> b \<in> addrs l \<Longrightarrow> 0 < cmp x b"
proof -
  have "\<forall>b\<in>addrs r. cmp a b < 0" "\<forall>b\<in>addrs l. cmp b a < 0"
    using assms(2) by (auto simp: ordered_append)
  then show "cmp x a \<le> 0 \<Longrightarrow> b \<in> addrs r \<Longrightarrow> cmp x b < 0" "0 \<le> cmp x a \<Longrightarrow> b \<in> addrs l \<Longrightarrow> 0 < cmp x b"
    using cmp_trans(2) [OF assms(1), of x a b] cmp_trans(1) [OF assms(1), of b a x] cmp_flip [OF assms(1), of b x]
      cmp_flip [OF assms(1), of a x] by force+
qed

lemma find_loop:
  assumes "cmp_order cmp"
  shows "rb_tree s (plug k t) \<Longrightarrow> ordered cmp (ino t) \<Longrightarrow>
    rb_find_loop cmp x (addr t) s = Some (pick 0 (\<lambda>a. cmp x a = 0) (ino t))"
proof (induction t arbitrary: k)
  case Leaf
  then show ?case by (subst rb_find_loop.simps) simp
next
  case (Node l y r)
  obtain a c where y: "y = (a, c)" by (cases y)
  have f: "rb_tree s (plug k (Node l (a, c) r))" using Node.prems y by simp
  note r = focus_reads [OF f]
  have o: "ordered cmp (ino l @ a # ino r)" "ordered cmp (ino l)" "ordered cmp (ino r)"
    using Node.prems(2) y by (auto simp: ordered_append)
  note n = node_order [OF assms o(1), of x]
  have "rb_find_loop cmp x (addr l) s = Some (pick 0 (\<lambda>a. cmp x a = 0) (ino l))"
    using Node.IH(1) [of "InLeft a c r # k"] f o by simp
  moreover have "rb_find_loop cmp x (addr r) s = Some (pick 0 (\<lambda>a. cmp x a = 0) (ino r))"
    using Node.IH(2) [of "InRight l a c # k"] f o by simp
  moreover have "pick d (\<lambda>a. cmp x a = 0) (ino r) = d" if "cmp x a < 0" for d
    using n(1) that by (intro pick_none) fastforce
  moreover have "pick d (\<lambda>a. cmp x a = 0) (ino l) = d" if "cmp x a \<ge> 0" for d
    using n(2) that by (intro pick_none) fastforce
  ultimately show ?case
    using r y by (subst rb_find_loop.simps, cases "cmp x a" "0 :: int" rule: linorder_cases)
      (simp_all add: okp_def pick_append)
qed

lemma nfind_loop:
  assumes "cmp_order cmp"
  shows "rb_tree s (plug k t) \<Longrightarrow> ordered cmp (ino t) \<Longrightarrow>
    rb_nfind_loop cmp x d (addr t) s = Some (pick d (\<lambda>a. cmp x a \<le> 0) (ino t))"
proof (induction t arbitrary: k d)
  case Leaf
  then show ?case by (subst rb_nfind_loop.simps) simp
next
  case (Node l y r)
  obtain a c where y: "y = (a, c)" by (cases y)
  have f: "rb_tree s (plug k (Node l (a, c) r))" using Node.prems y by simp
  note r = focus_reads [OF f]
  have o: "ordered cmp (ino l @ a # ino r)" "ordered cmp (ino l)" "ordered cmp (ino r)"
    using Node.prems(2) y by (auto simp: ordered_append)
  note n = node_order [OF assms o(1), of x]
  have "rb_nfind_loop cmp x d (addr l) s = Some (pick d (\<lambda>a. cmp x a \<le> 0) (ino l))" for d
    using Node.IH(1) [of "InLeft a c r # k"] f o by simp
  moreover have "rb_nfind_loop cmp x d (addr r) s = Some (pick d (\<lambda>a. cmp x a \<le> 0) (ino r))" for d
    using Node.IH(2) [of "InRight l a c # k"] f o by simp
  moreover have "pick d (\<lambda>a. cmp x a \<le> 0) (ino l) = d" if "cmp x a \<ge> 0" for d
    using n(2) that by (intro pick_none) fastforce
  ultimately show ?case
    using r y by (subst rb_nfind_loop.simps, cases "cmp x a" "0 :: int" rule: linorder_cases)
      (simp_all add: okp_def pick_append)
qed

lemma searched:
  assumes "cmp_order cmp" and "rb_holds cmp s xs"
  shows "RB_FIND cmp x s = Some (pick 0 (\<lambda>a. cmp x a = 0) xs) \<and>
    RB_NFIND cmp x s = Some (pick 0 (\<lambda>a. cmp x a \<le> 0) xs)"
proof -
  obtain t where t: "rb_tree s (plug [] t)" "ino t = xs" and o: "ordered cmp xs"
    using assms(2) by (auto simp: rb_holds_def)
  then have "rbh_root s = addr t" by (simp add: rb_tree_def)
  with find_loop [OF assms(1) t(1)] nfind_loop [OF assms(1) t(1)] t o show ?thesis
    by (simp add: RB_FIND_def RB_NFIND_def)
qed

end
