(* ===== verification/RbRemove.thy ===== *)
theory RbRemove
  imports RbInsert
begin

text \<open>
  Removal from the red-black trees of \<^verbatim>\<open>libkern/tree.h\<close>: the loop that repairs the black heights
  from the gap upwards, and the unlinking of an element, by its successor where it has two
  children.
\<close>

section \<open>The repair loop\<close>

text \<open>
  The three parts of the loop body for an element that is a left child: a red sibling is rotated
  above the parent; a sibling whose far child is black is rotated with its near child; the
  sibling takes the place and colour of the parent.
\<close>

definition rb_remove_left_red :: "u64 \<Rightarrow> u64 \<Rightarrow> rb_state \<Rightarrow> (u64 \<times> rb_state) option" where
  "rb_remove_left_red parent tmp s = do {
     c \<leftarrow> RB_GETCOLOR tmp s;
     (if c = RB_RED then do {
        s \<leftarrow> RB_SET_BLACKRED tmp parent s;
        (_, s) \<leftarrow> RB_ROTATE_LEFT parent s;
        tmp \<leftarrow> RB_RIGHT parent s;
        Some (tmp, s) }
      else Some (tmp, s)) }"

definition rb_remove_left_near :: "u64 \<Rightarrow> u64 \<Rightarrow> rb_state \<Rightarrow> (u64 \<times> rb_state) option" where
  "rb_remove_left_near parent tmp s = do {
     r \<leftarrow> RB_RIGHT tmp s;
     black \<leftarrow> rb_is_black r s;
     (if black then do {
        oleft \<leftarrow> RB_LEFT tmp s;
        s \<leftarrow> (if oleft \<noteq> 0 then RB_SETCOLOR oleft RB_BLACK s else Some s);
        s \<leftarrow> RB_SETCOLOR tmp RB_RED s;
        (_, s) \<leftarrow> RB_ROTATE_RIGHT tmp s;
        tmp \<leftarrow> RB_RIGHT parent s;
        Some (tmp, s) }
      else Some (tmp, s)) }"

definition rb_remove_left_end :: "u64 \<Rightarrow> u64 \<Rightarrow> rb_state \<Rightarrow> (u64 \<times> rb_state) option" where
  "rb_remove_left_end parent tmp s = do {
     c \<leftarrow> RB_GETCOLOR parent s;
     s \<leftarrow> RB_SETCOLOR tmp c s;
     s \<leftarrow> RB_SETCOLOR parent RB_BLACK s;
     r \<leftarrow> RB_RIGHT tmp s;
     s \<leftarrow> (if r \<noteq> 0 then RB_SETCOLOR r RB_BLACK s else Some s);
     RB_ROTATE_LEFT parent s }"

text \<open>The body once the sibling is black: whether the loop breaks, and the next \<^verbatim>\<open>parent\<close> and \<^verbatim>\<open>elm\<close>.\<close>

definition rb_remove_left_black :: "u64 \<Rightarrow> u64 \<Rightarrow> rb_state \<Rightarrow> ((bool \<times> u64 \<times> u64) \<times> rb_state) option" where
  "rb_remove_left_black parent tmp s = do {
     l \<leftarrow> RB_LEFT tmp s;
     lblack \<leftarrow> rb_is_black l s;
     r \<leftarrow> RB_RIGHT tmp s;
     rblack \<leftarrow> (if lblack then rb_is_black r s else Some False);
     (if lblack \<and> rblack then do {
        s \<leftarrow> RB_SETCOLOR tmp RB_RED s;
        let elm = parent;
        parent \<leftarrow> RB_GETPARENT elm s;
        Some ((False, parent, elm), s) }
      else do {
        (tmp, s) \<leftarrow> rb_remove_left_near parent tmp s;
        (_, s) \<leftarrow> rb_remove_left_end parent tmp s;
        Some ((True, parent, rbh_root s), s) }) }"

definition rb_remove_left :: "u64 \<Rightarrow> rb_state \<Rightarrow> ((bool \<times> u64 \<times> u64) \<times> rb_state) option" where
  "rb_remove_left parent s = do {
     tmp \<leftarrow> RB_RIGHT parent s;
     (tmp, s) \<leftarrow> rb_remove_left_red parent tmp s;
     rb_remove_left_black parent tmp s }"

text \<open>The same for a right child.\<close>

definition rb_remove_right_red :: "u64 \<Rightarrow> u64 \<Rightarrow> rb_state \<Rightarrow> (u64 \<times> rb_state) option" where
  "rb_remove_right_red parent tmp s = do {
     c \<leftarrow> RB_GETCOLOR tmp s;
     (if c = RB_RED then do {
        s \<leftarrow> RB_SET_BLACKRED tmp parent s;
        (_, s) \<leftarrow> RB_ROTATE_RIGHT parent s;
        tmp \<leftarrow> RB_LEFT parent s;
        Some (tmp, s) }
      else Some (tmp, s)) }"

definition rb_remove_right_near :: "u64 \<Rightarrow> u64 \<Rightarrow> rb_state \<Rightarrow> (u64 \<times> rb_state) option" where
  "rb_remove_right_near parent tmp s = do {
     l \<leftarrow> RB_LEFT tmp s;
     black \<leftarrow> rb_is_black l s;
     (if black then do {
        oright \<leftarrow> RB_RIGHT tmp s;
        s \<leftarrow> (if oright \<noteq> 0 then RB_SETCOLOR oright RB_BLACK s else Some s);
        s \<leftarrow> RB_SETCOLOR tmp RB_RED s;
        (_, s) \<leftarrow> RB_ROTATE_LEFT tmp s;
        tmp \<leftarrow> RB_LEFT parent s;
        Some (tmp, s) }
      else Some (tmp, s)) }"

definition rb_remove_right_end :: "u64 \<Rightarrow> u64 \<Rightarrow> rb_state \<Rightarrow> (u64 \<times> rb_state) option" where
  "rb_remove_right_end parent tmp s = do {
     c \<leftarrow> RB_GETCOLOR parent s;
     s \<leftarrow> RB_SETCOLOR tmp c s;
     s \<leftarrow> RB_SETCOLOR parent RB_BLACK s;
     l \<leftarrow> RB_LEFT tmp s;
     s \<leftarrow> (if l \<noteq> 0 then RB_SETCOLOR l RB_BLACK s else Some s);
     RB_ROTATE_RIGHT parent s }"

definition rb_remove_right_black :: "u64 \<Rightarrow> u64 \<Rightarrow> rb_state \<Rightarrow> ((bool \<times> u64 \<times> u64) \<times> rb_state) option" where
  "rb_remove_right_black parent tmp s = do {
     l \<leftarrow> RB_LEFT tmp s;
     lblack \<leftarrow> rb_is_black l s;
     r \<leftarrow> RB_RIGHT tmp s;
     rblack \<leftarrow> (if lblack then rb_is_black r s else Some False);
     (if lblack \<and> rblack then do {
        s \<leftarrow> RB_SETCOLOR tmp RB_RED s;
        let elm = parent;
        parent \<leftarrow> RB_GETPARENT elm s;
        Some ((False, parent, elm), s) }
      else do {
        (tmp, s) \<leftarrow> rb_remove_right_near parent tmp s;
        (_, s) \<leftarrow> rb_remove_right_end parent tmp s;
        Some ((True, parent, rbh_root s), s) }) }"

definition rb_remove_right :: "u64 \<Rightarrow> rb_state \<Rightarrow> ((bool \<times> u64 \<times> u64) \<times> rb_state) option" where
  "rb_remove_right parent s = do {
     tmp \<leftarrow> RB_LEFT parent s;
     (tmp, s) \<leftarrow> rb_remove_right_red parent tmp s;
     rb_remove_right_black parent tmp s }"

partial_function (option) rb_remove_loop :: "u64 \<Rightarrow> u64 \<Rightarrow> rb_state \<Rightarrow> (u64 \<times> rb_state) option" where
  "rb_remove_loop parent elm s = do {
     black \<leftarrow> rb_is_black elm s;
     (if black \<and> elm \<noteq> rbh_root s then do {
        l \<leftarrow> RB_LEFT parent s;
        ((stop, parent, elm), s) \<leftarrow> (if l = elm then rb_remove_left parent s else rb_remove_right parent s);
        (if stop then Some (elm, s) else rb_remove_loop parent elm s) }
      else Some (elm, s)) }"

definition RB_REMOVE_COLOR :: "u64 \<Rightarrow> u64 \<Rightarrow> rb_state \<Rightarrow> rb_state option" where
  "RB_REMOVE_COLOR parent elm s = do {
     (elm, s) \<leftarrow> rb_remove_loop parent elm s;
     (if elm \<noteq> 0 then RB_SETCOLOR elm RB_BLACK s else Some s) }"

section \<open>Removal\<close>

text \<open>The loops to the leftmost element below, and over the ancestors for \<^verbatim>\<open>RB_AUGMENT\<close>.\<close>

partial_function (option) rb_leftmost :: "u64 \<Rightarrow> rb_state \<Rightarrow> u64 option" where
  "rb_leftmost elm s = do {
     l \<leftarrow> RB_LEFT elm s;
     (if l \<noteq> 0 then rb_leftmost l s else Some elm) }"

partial_function (option) rb_augment_up :: "u64 \<Rightarrow> rb_state \<Rightarrow> unit option" where
  "rb_augment_up elm s = do {
     up \<leftarrow> RB_GETPARENT elm s;
     (if up \<noteq> 0 then rb_augment_up up s else Some ()) }"

text \<open>\<open>child\<close> takes the place of \<open>elm\<close>; the parent and the colour that \<open>elm\<close> had.\<close>

definition rb_unlink :: "u64 \<Rightarrow> u64 \<Rightarrow> rb_state \<Rightarrow> ((u64 \<times> u32) \<times> rb_state) option" where
  "rb_unlink elm child s = do {
     parent \<leftarrow> RB_GETPARENT elm s;
     c \<leftarrow> RB_GETCOLOR elm s;
     s \<leftarrow> rb_adopt child parent s;
     s \<leftarrow> (if parent \<noteq> 0 then rb_swap_child parent elm child s else Some (s\<lparr>rbh_root := child\<rparr>));
     Some ((parent, c), s) }"

text \<open>\<open>elm\<close>, already unlinked, takes over the links of \<open>old\<close>.\<close>

definition rb_supplant :: "u64 \<Rightarrow> u64 \<Rightarrow> rb_state \<Rightarrow> rb_state option" where
  "rb_supplant old elm s = do {
     e \<leftarrow> rb_at old s;
     s \<leftarrow> rb_upd elm (\<lambda>_. e) s;
     p \<leftarrow> RB_GETPARENT old s;
     s \<leftarrow> (if p \<noteq> 0 then rb_swap_child p old elm s else Some (s\<lparr>rbh_root := elm\<rparr>));
     l \<leftarrow> RB_LEFT old s;
     (_, s) \<leftarrow> RB_SETPARENT l elm s;
     r \<leftarrow> RB_RIGHT old s;
     rb_adopt r elm s }"

text \<open>The part before the label \<^verbatim>\<open>color\<close>: the values of \<^verbatim>\<open>parent\<close>, \<^verbatim>\<open>child\<close> and \<^verbatim>\<open>color\<close>.\<close>

definition rb_remove_links :: "u64 \<Rightarrow> rb_state \<Rightarrow> ((u64 \<times> u64 \<times> u32) \<times> rb_state) option" where
  "rb_remove_links elm s = do {
     let old = elm;
     l \<leftarrow> RB_LEFT elm s;
     r \<leftarrow> RB_RIGHT elm s;
     (if l = 0 then do {
        let child = r;
        ((parent, c), s) \<leftarrow> rb_unlink elm child s;
        Some ((parent, child, c), s) }
      else if r = 0 then do {
        let child = l;
        ((parent, c), s) \<leftarrow> rb_unlink elm child s;
        Some ((parent, child, c), s) }
      else do {
        elm \<leftarrow> rb_leftmost r s;
        child \<leftarrow> RB_RIGHT elm s;
        ((parent, c), s) \<leftarrow> rb_unlink elm child s;
        p \<leftarrow> RB_GETPARENT elm s;
        let parent = (if p = old then elm else parent);
        s \<leftarrow> rb_supplant old elm s;
        _ \<leftarrow> (if parent \<noteq> 0 then rb_augment_up parent s else Some ());
        Some ((parent, child, c), s) }) }"

definition RB_REMOVE :: "u64 \<Rightarrow> rb_state \<Rightarrow> (u64 \<times> rb_state) option" where
  "RB_REMOVE elm s = do {
     ((parent, child, c), s) \<leftarrow> rb_remove_links elm s;
     s \<leftarrow> (if c = RB_BLACK then RB_REMOVE_COLOR parent child s else Some s);
     Some (elm, s) }"

section \<open>The repair does what its abstract counterpart does\<close>

lemma blacken:
  assumes "rb_tree s (plug k t)"
  shows "makes s (if addr t \<noteq> 0 then RB_SETCOLOR (addr t) RB_BLACK s else Some s) (plug k (paint Black t))"
  using assms setcolor_at(1) focus_reads(5) by (cases t rule: addr.cases) (auto simp: okp_def)

lemma remove_left_end:
  assumes "rb_tree s (plug k (Node t (p, c) (Node sl (q, d) sr)))"
  shows "rb_yields s (rb_remove_left_end p q s) q (plug k (Node (Node t (p, Black) sl) (q, c) (paint Black sr)))"
    (is "rb_yields _ _ _ ?T")
proof -
  have 4: "rb_yields s (RB_ROTATE_LEFT p s) q ?T"
    if "rb_tree s (plug k (Node t (p, Black) (Node sl (q, c) (paint Black sr))))" for s
    using that by (rule rotate_left)
  have 3: "rb_yields s (do { r \<leftarrow> RB_RIGHT q s; s \<leftarrow> (if r \<noteq> 0 then RB_SETCOLOR r RB_BLACK s else Some s); RB_ROTATE_LEFT p s }) q ?T"
    if "rb_tree s (plug k (Node t (p, Black) (Node sl (q, c) sr)))" for s
    using focus_reads(2) [of s "InRight t p Black # k" sl q c sr] that
      yields_bind [OF blacken [of s "InRight sl q c # InRight t p Black # k" sr] 4] by simp
  have 2: "rb_yields s (do { s \<leftarrow> RB_SETCOLOR p RB_BLACK s; r \<leftarrow> RB_RIGHT q s;
      s \<leftarrow> (if r \<noteq> 0 then RB_SETCOLOR r RB_BLACK s else Some s); RB_ROTATE_LEFT p s }) q ?T"
    if "rb_tree s (plug k (Node t (p, c) (Node sl (q, c) sr)))" for s
    using setcolor_at(1) [OF that] by (rule yields_bind [OF _ 3]) simp_all
  have "makes s (RB_SETCOLOR q (color_code c) s) (plug k (Node t (p, c) (Node sl (q, c) sr)))"
    using focus_setcolor [of s "InRight t p c # k" sl q d sr] assms by simp
  from yields_bind [OF this 2] show ?thesis
    unfolding rb_remove_left_end_def focus_reads(4) [OF assms] by simp
qed

lemma remove_left_near:
  assumes "rb_tree s (plug k (Node t (p, c) (Node sl (q, d) sr)))"
  shows "color sr = Red \<Longrightarrow> rb_yields s (rb_remove_left_near p q s) q (plug k (Node t (p, c) (Node sl (q, d) sr)))"
    and "color sr = Black \<Longrightarrow> sl = Node a (x, e) b \<Longrightarrow>
      rb_yields s (rb_remove_left_near p q s) x (plug k (Node t (p, c) (Node a (x, Black) (Node b (q, Red) sr))))"
proof -
  have r: "RB_RIGHT q s = Some (addr sr)" "RB_LEFT q s = Some (addr sl)" "rb_is_black (addr sr) s = Some (color sr = Black)"
    using focus_reads [of s "InRight t p c # k" sl q d sr] is_color(2) [of s "InRight sl q d # InRight t p c # k" sr] assms
    by simp_all
  show "rb_yields s (rb_remove_left_near p q s) q (plug k (Node t (p, c) (Node sl (q, d) sr)))" if "color sr = Red"
    using r assms that by (simp add: rb_remove_left_near_def)
  show "rb_yields s (rb_remove_left_near p q s) x (plug k (Node t (p, c) (Node a (x, Black) (Node b (q, Red) sr))))"
      (is "rb_yields _ _ _ ?T") if b: "color sr = Black" and sl: "sl = Node a (x, e) b"
  proof -
    have 4: "rb_yields s (do { tmp \<leftarrow> RB_RIGHT p s; Some (tmp, s) }) x ?T" if "rb_tree s ?T" for s
      using focus_reads(2) [OF that] that by simp
    have 3: "rb_yields s (do { (_, s) \<leftarrow> RB_ROTATE_RIGHT q s; tmp \<leftarrow> RB_RIGHT p s; Some (tmp, s) }) x ?T"
      if "rb_tree s (plug k (Node t (p, c) (Node (Node a (x, Black) b) (q, Red) sr)))" for s
      by (rule yields_yields_bind [where t = ?T])
        (use rotate_right [of s "InRight t p c # k" a x Black b q Red sr] that 4 in simp_all)
    have 2: "rb_yields s (do { s \<leftarrow> RB_SETCOLOR q RB_RED s; (_, s) \<leftarrow> RB_ROTATE_RIGHT q s; tmp \<leftarrow> RB_RIGHT p s; Some (tmp, s) }) x ?T"
      if "rb_tree s (plug k (Node t (p, c) (Node (Node a (x, Black) b) (q, d) sr)))" for s
      by (rule yields_bind [where t = "plug k (Node t (p, c) (Node (Node a (x, Black) b) (q, Red) sr))"])
        (use setcolor_at(2) [of s "InRight t p c # k" "Node a (x, Black) b" q d sr] that 3 in simp_all)
    have "makes s (if addr sl \<noteq> 0 then RB_SETCOLOR (addr sl) RB_BLACK s else Some s)
        (plug k (Node t (p, c) (Node (Node a (x, Black) b) (q, d) sr)))"
      using blacken [of s "InLeft q d sr # InRight t p c # k" sl] assms sl by simp
    from yields_bind [OF this 2] show ?thesis
      using r b by (simp add: rb_remove_left_near_def)
  qed
qed

lemma remove_left_black:
  assumes "rb_tree s (plug k (Node t (p, c) (Node sl (q, d) sr)))" and "lack_left t p c (Node sl (q, d) sr) = (u, short)"
  shows "rb_yields s (rb_remove_left_black p q s)
    (if short then (False, parent_of k, p) else (True, p, addr (plug k u))) (plug k u)"
proof -
  have r: "RB_LEFT q s = Some (addr sl)" "RB_RIGHT q s = Some (addr sr)"
      "rb_is_black (addr sl) s = Some (color sl = Black)" "rb_is_black (addr sr) s = Some (color sr = Black)"
    using focus_reads [of s "InRight t p c # k" sl q d sr] is_color(2) [of s "InLeft q d sr # InRight t p c # k" sl]
      is_color(2) [of s "InRight sl q d # InRight t p c # k" sr] assms(1) by simp_all
  have stop: "rb_yields s (do { (_, s) \<leftarrow> rb_remove_left_end p y s; Some ((True, p, rbh_root s), s) }) (True, p, addr (plug k w)) (plug k w)"
    if "rb_tree s (plug k (Node t (p, c) (Node yl (y, e) yr)))" "w = Node (Node t (p, Black) yl) (y, c) (paint Black yr)"
    for s y yl yr e w
    using remove_left_end [OF that(1)] that(2) by (auto intro!: yields_yields_bind simp: rb_tree_def)
  consider "color sl = Black" "color sr = Black" | "color sr = Red" | "color sl = Red" "color sr = Black"
    by (cases "color sl"; cases "color sr") auto
  then show ?thesis
  proof cases
    case 1
    have "makes s (RB_SETCOLOR q RB_RED s) (plug k (Node t (p, c) (Node sl (q, Red) sr)))"
      using setcolor_at(2) [of s "InRight t p c # k" sl q d sr] assms(1) by simp
    moreover have "rb_yields s (do { parent \<leftarrow> RB_GETPARENT p s; Some ((False, parent, p), s) }) (False, parent_of k, p)
        (plug k (Node t (p, c) (Node sl (q, Red) sr)))" if "rb_tree s (plug k (Node t (p, c) (Node sl (q, Red) sr)))" for s
      using focus_reads(3) [OF that] that by simp
    ultimately show ?thesis
      using 1 r assms(2) by (auto simp: rb_remove_left_black_def intro: yields_bind)
  next
    case 2
    have "rb_yields s (do { (tmp, s) \<leftarrow> rb_remove_left_near p q s; (_, s) \<leftarrow> rb_remove_left_end p tmp s;
        Some ((True, p, rbh_root s), s) }) (True, p, addr (plug k u)) (plug k u)"
      using remove_left_near(1) [OF assms(1) 2] 2 assms(2)
      by - (rule yields_yields_bind, auto intro!: stop)
    then show ?thesis using 2 r assms(2) by (auto simp: rb_remove_left_black_def)
  next
    case 3
    then obtain a x b where sl: "sl = Node a (x, Red) b" by (auto elim: color_RedE)
    have "rb_yields s (do { (tmp, s) \<leftarrow> rb_remove_left_near p q s; (_, s) \<leftarrow> rb_remove_left_end p tmp s;
        Some ((True, p, rbh_root s), s) }) (True, p, addr (plug k u)) (plug k u)"
      using remove_left_near(2) [OF assms(1) 3(2) sl] 3 assms(2) sl
      by - (rule yields_yields_bind, auto intro!: stop)
    then show ?thesis using 3 r assms(2) sl by (auto simp: rb_remove_left_black_def)
  qed
qed

lemma remove_left_red:
  assumes "rb_tree s (plug k (Node t (p, c) (Node sl (q, d) sr)))"
  shows "d = Black \<Longrightarrow> rb_yields s (rb_remove_left_red p q s) q (plug k (Node t (p, c) (Node sl (q, d) sr)))"
    and "d = Red \<Longrightarrow> rb_yields s (rb_remove_left_red p q s) (addr sl) (plug k (Node (Node t (p, Red) sl) (q, Black) sr))"
proof -
  have r: "RB_GETCOLOR q s = Some (color_code d)"
    using focus_reads(4) [of s "InRight t p c # k" sl q d sr] assms by simp
  show "rb_yields s (rb_remove_left_red p q s) q (plug k (Node t (p, c) (Node sl (q, d) sr)))" if "d = Black"
    using r assms that by (simp add: rb_remove_left_red_def RB_BLACK_def RB_RED_def)
  show "rb_yields s (rb_remove_left_red p q s) (addr sl) (plug k (Node (Node t (p, Red) sl) (q, Black) sr))"
      (is "rb_yields _ _ _ ?T") if "d = Red"
  proof -
    have 3: "rb_yields s (do { tmp \<leftarrow> RB_RIGHT p s; Some (tmp, s) }) (addr sl) ?T" if "rb_tree s ?T" for s
      using focus_reads(2) [of s "InLeft q Black sr # k" t p Red sl] that by simp
    have 2: "rb_yields s (do { (_, s) \<leftarrow> RB_ROTATE_LEFT p s; tmp \<leftarrow> RB_RIGHT p s; Some (tmp, s) }) (addr sl) ?T"
      if "rb_tree s (plug k (Node t (p, Red) (Node sl (q, Black) sr)))" for s
      by (rule yields_yields_bind [OF rotate_left [OF that]]) (use 3 in simp_all)
    from yields_bind [OF blackred_right [OF assms] 2] show ?thesis
      using r that by (simp add: rb_remove_left_red_def)
  qed
qed

lemma remove_left:
  assumes "rb_tree s (plug k (Node t (p, c) w))" and "w \<noteq> Leaf"
    and "\<forall>sl q sr. w = Node sl (q, Red) sr \<longrightarrow> sl \<noteq> Leaf"
  shows "color w = Black \<Longrightarrow> lack_left t p c w = (u, short) \<Longrightarrow> rb_yields s (rb_remove_left p s)
      (if short then (False, parent_of k, p) else (True, p, addr (plug k u))) (plug k u)"
    and "w = Node sl (q, Red) sr \<Longrightarrow> lack_left t p Red sl = (u, short) \<Longrightarrow> rb_yields s (rb_remove_left p s)
      (if short then (False, q, p) else (True, p, addr (plug (InLeft q Black sr # k) u))) (plug (InLeft q Black sr # k) u)"
proof -
  have r: "RB_RIGHT p s = Some (addr w)" using focus_reads(2) [OF assms(1)] .
  show "rb_yields s (rb_remove_left p s) (if short then (False, parent_of k, p) else (True, p, addr (plug k u))) (plug k u)"
    if b: "color w = Black" and l: "lack_left t p c w = (u, short)"
  proof -
    obtain wl q wr where w: "w = Node wl (q, Black) wr" using assms(2) b by (cases w rule: addr.cases) auto
    have t: "rb_tree s (plug k (Node t (p, c) (Node wl (q, Black) wr)))" using assms(1) w by simp
    have "rb_yields s (do { (tmp, s) \<leftarrow> rb_remove_left_red p q s; rb_remove_left_black p tmp s })
        (if short then (False, parent_of k, p) else (True, p, addr (plug k u))) (plug k u)"
      by (rule yields_yields_bind [OF remove_left_red(1) [OF t refl]])
        (use remove_left_black [OF _ l [unfolded w]] lack_left_ino [OF l] w in simp_all)
    then show ?thesis using r w by (simp add: rb_remove_left_def)
  qed
  show "rb_yields s (rb_remove_left p s)
      (if short then (False, q, p) else (True, p, addr (plug (InLeft q Black sr # k) u))) (plug (InLeft q Black sr # k) u)"
    if w: "w = Node sl (q, Red) sr" and l: "lack_left t p Red sl = (u, short)"
  proof -
    obtain xl x e xr where sl: "sl = Node xl (x, e) xr" using assms(3) w by (cases sl rule: addr.cases) auto
    have t: "rb_tree s (plug k (Node t (p, c) (Node sl (q, Red) sr)))" using assms(1) w by simp
    have "rb_yields s (do { (tmp, s) \<leftarrow> rb_remove_left_red p q s; rb_remove_left_black p tmp s })
        (if short then (False, q, p) else (True, p, addr (plug (InLeft q Black sr # k) u))) (plug (InLeft q Black sr # k) u)"
      by (rule yields_yields_bind [OF remove_left_red(2) [OF t refl]])
        (use remove_left_black [of _ "InLeft q Black sr # k", OF _ l [unfolded sl]] lack_left_ino [OF l] sl in \<open>(cases short; simp)+\<close>)
    then show ?thesis using r w by (simp add: rb_remove_left_def)
  qed
qed

lemma remove_right_end:
  assumes "rb_tree s (plug k (Node (Node sl (q, d) sr) (p, c) t))"
  shows "rb_yields s (rb_remove_right_end p q s) q (plug k (Node (paint Black sl) (q, c) (Node sr (p, Black) t)))"
    (is "rb_yields _ _ _ ?T")
proof -
  have 4: "rb_yields s (RB_ROTATE_RIGHT p s) q ?T"
    if "rb_tree s (plug k (Node (Node (paint Black sl) (q, c) sr) (p, Black) t))" for s
    using that by (rule rotate_right)
  have 3: "rb_yields s (do { r \<leftarrow> RB_LEFT q s; s \<leftarrow> (if r \<noteq> 0 then RB_SETCOLOR r RB_BLACK s else Some s); RB_ROTATE_RIGHT p s }) q ?T"
    if "rb_tree s (plug k (Node (Node sl (q, c) sr) (p, Black) t))" for s
    using focus_reads(1) [of s "InLeft p Black t # k" sl q c sr] that
      yields_bind [OF blacken [of s "InLeft q c sr # InLeft p Black t # k" sl] 4] by simp
  have 2: "rb_yields s (do { s \<leftarrow> RB_SETCOLOR p RB_BLACK s; r \<leftarrow> RB_LEFT q s;
      s \<leftarrow> (if r \<noteq> 0 then RB_SETCOLOR r RB_BLACK s else Some s); RB_ROTATE_RIGHT p s }) q ?T"
    if "rb_tree s (plug k (Node (Node sl (q, c) sr) (p, c) t))" for s
    using setcolor_at(1) [OF that] by (rule yields_bind [OF _ 3]) simp_all
  have "makes s (RB_SETCOLOR q (color_code c) s) (plug k (Node (Node sl (q, c) sr) (p, c) t))"
    using focus_setcolor [of s "InLeft p c t # k" sl q d sr] assms by simp
  from yields_bind [OF this 2] show ?thesis
    unfolding rb_remove_right_end_def focus_reads(4) [OF assms] by simp
qed

lemma remove_right_near:
  assumes "rb_tree s (plug k (Node (Node sl (q, d) sr) (p, c) t))"
  shows "color sl = Red \<Longrightarrow> rb_yields s (rb_remove_right_near p q s) q (plug k (Node (Node sl (q, d) sr) (p, c) t))"
    and "color sl = Black \<Longrightarrow> sr = Node b (x, e) a \<Longrightarrow>
      rb_yields s (rb_remove_right_near p q s) x (plug k (Node (Node (Node sl (q, Red) b) (x, Black) a) (p, c) t))"
proof -
  have r: "RB_LEFT q s = Some (addr sl)" "RB_RIGHT q s = Some (addr sr)" "rb_is_black (addr sl) s = Some (color sl = Black)"
    using focus_reads [of s "InLeft p c t # k" sl q d sr] is_color(2) [of s "InLeft q d sr # InLeft p c t # k" sl] assms
    by simp_all
  show "rb_yields s (rb_remove_right_near p q s) q (plug k (Node (Node sl (q, d) sr) (p, c) t))" if "color sl = Red"
    using r assms that by (simp add: rb_remove_right_near_def)
  show "rb_yields s (rb_remove_right_near p q s) x (plug k (Node (Node (Node sl (q, Red) b) (x, Black) a) (p, c) t))"
      (is "rb_yields _ _ _ ?T") if b: "color sl = Black" and sr: "sr = Node b (x, e) a"
  proof -
    have 4: "rb_yields s (do { tmp \<leftarrow> RB_LEFT p s; Some (tmp, s) }) x ?T" if "rb_tree s ?T" for s
      using focus_reads(1) [OF that] that by simp
    have 3: "rb_yields s (do { (_, s) \<leftarrow> RB_ROTATE_LEFT q s; tmp \<leftarrow> RB_LEFT p s; Some (tmp, s) }) x ?T"
      if "rb_tree s (plug k (Node (Node sl (q, Red) (Node b (x, Black) a)) (p, c) t))" for s
      by (rule yields_yields_bind [where t = ?T])
        (use rotate_left [of s "InLeft p c t # k" sl q Red b x Black a] that 4 in simp_all)
    have 2: "rb_yields s (do { s \<leftarrow> RB_SETCOLOR q RB_RED s; (_, s) \<leftarrow> RB_ROTATE_LEFT q s; tmp \<leftarrow> RB_LEFT p s; Some (tmp, s) }) x ?T"
      if "rb_tree s (plug k (Node (Node sl (q, d) (Node b (x, Black) a)) (p, c) t))" for s
      by (rule yields_bind [where t = "plug k (Node (Node sl (q, Red) (Node b (x, Black) a)) (p, c) t)"])
        (use setcolor_at(2) [of s "InLeft p c t # k" sl q d "Node b (x, Black) a"] that 3 in simp_all)
    have "makes s (if addr sr \<noteq> 0 then RB_SETCOLOR (addr sr) RB_BLACK s else Some s)
        (plug k (Node (Node sl (q, d) (Node b (x, Black) a)) (p, c) t))"
      using blacken [of s "InRight sl q d # InLeft p c t # k" sr] assms sr by simp
    from yields_bind [OF this 2] show ?thesis
      using r b by (simp add: rb_remove_right_near_def)
  qed
qed

lemma remove_right_black:
  assumes "rb_tree s (plug k (Node (Node sl (q, d) sr) (p, c) t))" and "lack_right (Node sl (q, d) sr) p c t = (u, short)"
  shows "rb_yields s (rb_remove_right_black p q s)
    (if short then (False, parent_of k, p) else (True, p, addr (plug k u))) (plug k u)"
proof -
  have r: "RB_RIGHT q s = Some (addr sr)" "RB_LEFT q s = Some (addr sl)"
      "rb_is_black (addr sr) s = Some (color sr = Black)" "rb_is_black (addr sl) s = Some (color sl = Black)"
    using focus_reads [of s "InLeft p c t # k" sl q d sr] is_color(2) [of s "InRight sl q d # InLeft p c t # k" sr]
      is_color(2) [of s "InLeft q d sr # InLeft p c t # k" sl] assms(1) by simp_all
  have stop: "rb_yields s (do { (_, s) \<leftarrow> rb_remove_right_end p y s; Some ((True, p, rbh_root s), s) }) (True, p, addr (plug k w)) (plug k w)"
    if "rb_tree s (plug k (Node (Node yl (y, e) yr) (p, c) t))" "w = Node (paint Black yl) (y, c) (Node yr (p, Black) t)"
    for s y yr yl e w
    using remove_right_end [OF that(1)] that(2) by (auto intro!: yields_yields_bind simp: rb_tree_def)
  consider "color sr = Black" "color sl = Black" | "color sl = Red" | "color sr = Red" "color sl = Black"
    by (cases "color sr"; cases "color sl") auto
  then show ?thesis
  proof cases
    case 1
    have "makes s (RB_SETCOLOR q RB_RED s) (plug k (Node (Node sl (q, Red) sr) (p, c) t))"
      using setcolor_at(2) [of s "InLeft p c t # k" sl q d sr] assms(1) by simp
    moreover have "rb_yields s (do { parent \<leftarrow> RB_GETPARENT p s; Some ((False, parent, p), s) }) (False, parent_of k, p)
        (plug k (Node (Node sl (q, Red) sr) (p, c) t))" if "rb_tree s (plug k (Node (Node sl (q, Red) sr) (p, c) t))" for s
      using focus_reads(3) [OF that] that by simp
    ultimately show ?thesis
      using 1 r assms(2) by (auto simp: rb_remove_right_black_def intro: yields_bind)
  next
    case 2
    have "rb_yields s (do { (tmp, s) \<leftarrow> rb_remove_right_near p q s; (_, s) \<leftarrow> rb_remove_right_end p tmp s;
        Some ((True, p, rbh_root s), s) }) (True, p, addr (plug k u)) (plug k u)"
      using remove_right_near(1) [OF assms(1) 2] 2 assms(2)
      by - (rule yields_yields_bind, auto intro!: stop)
    then show ?thesis using 2 r assms(2) by (auto simp: rb_remove_right_black_def)
  next
    case 3
    then obtain a x b where sr: "sr = Node b (x, Red) a" by (auto elim: color_RedE)
    have "rb_yields s (do { (tmp, s) \<leftarrow> rb_remove_right_near p q s; (_, s) \<leftarrow> rb_remove_right_end p tmp s;
        Some ((True, p, rbh_root s), s) }) (True, p, addr (plug k u)) (plug k u)"
      using remove_right_near(2) [OF assms(1) 3(2) sr] 3 assms(2) sr
      by - (rule yields_yields_bind, auto intro!: stop)
    then show ?thesis using 3 r assms(2) sr by (auto simp: rb_remove_right_black_def)
  qed
qed

lemma remove_right_red:
  assumes "rb_tree s (plug k (Node (Node sl (q, d) sr) (p, c) t))"
  shows "d = Black \<Longrightarrow> rb_yields s (rb_remove_right_red p q s) q (plug k (Node (Node sl (q, d) sr) (p, c) t))"
    and "d = Red \<Longrightarrow> rb_yields s (rb_remove_right_red p q s) (addr sr) (plug k (Node sl (q, Black) (Node sr (p, Red) t)))"
proof -
  have r: "RB_GETCOLOR q s = Some (color_code d)"
    using focus_reads(4) [of s "InLeft p c t # k" sl q d sr] assms by simp
  show "rb_yields s (rb_remove_right_red p q s) q (plug k (Node (Node sl (q, d) sr) (p, c) t))" if "d = Black"
    using r assms that by (simp add: rb_remove_right_red_def RB_BLACK_def RB_RED_def)
  show "rb_yields s (rb_remove_right_red p q s) (addr sr) (plug k (Node sl (q, Black) (Node sr (p, Red) t)))"
      (is "rb_yields _ _ _ ?T") if "d = Red"
  proof -
    have 3: "rb_yields s (do { tmp \<leftarrow> RB_LEFT p s; Some (tmp, s) }) (addr sr) ?T" if "rb_tree s ?T" for s
      using focus_reads(1) [of s "InRight sl q Black # k" sr p Red t] that by simp
    have 2: "rb_yields s (do { (_, s) \<leftarrow> RB_ROTATE_RIGHT p s; tmp \<leftarrow> RB_LEFT p s; Some (tmp, s) }) (addr sr) ?T"
      if "rb_tree s (plug k (Node (Node sl (q, Black) sr) (p, Red) t))" for s
      by (rule yields_yields_bind [OF rotate_right [OF that]]) (use 3 in simp_all)
    from yields_bind [OF blackred_left [OF assms] 2] show ?thesis
      using r that by (simp add: rb_remove_right_red_def)
  qed
qed

lemma remove_right:
  assumes "rb_tree s (plug k (Node w (p, c) t))" and "w \<noteq> Leaf"
    and "\<forall>sr q sl. w = Node sl (q, Red) sr \<longrightarrow> sr \<noteq> Leaf"
  shows "color w = Black \<Longrightarrow> lack_right w p c t = (u, short) \<Longrightarrow> rb_yields s (rb_remove_right p s)
      (if short then (False, parent_of k, p) else (True, p, addr (plug k u))) (plug k u)"
    and "w = Node sl (q, Red) sr \<Longrightarrow> lack_right sr p Red t = (u, short) \<Longrightarrow> rb_yields s (rb_remove_right p s)
      (if short then (False, q, p) else (True, p, addr (plug (InRight sl q Black # k) u))) (plug (InRight sl q Black # k) u)"
proof -
  have r: "RB_LEFT p s = Some (addr w)" using focus_reads(1) [OF assms(1)] .
  show "rb_yields s (rb_remove_right p s) (if short then (False, parent_of k, p) else (True, p, addr (plug k u))) (plug k u)"
    if b: "color w = Black" and l: "lack_right w p c t = (u, short)"
  proof -
    obtain wr q wl where w: "w = Node wl (q, Black) wr" using assms(2) b by (cases w rule: addr.cases) auto
    have t: "rb_tree s (plug k (Node (Node wl (q, Black) wr) (p, c) t))" using assms(1) w by simp
    have "rb_yields s (do { (tmp, s) \<leftarrow> rb_remove_right_red p q s; rb_remove_right_black p tmp s })
        (if short then (False, parent_of k, p) else (True, p, addr (plug k u))) (plug k u)"
      by (rule yields_yields_bind [OF remove_right_red(1) [OF t refl]])
        (use remove_right_black [OF _ l [unfolded w]] lack_right_ino [OF l] w in simp_all)
    then show ?thesis using r w by (simp add: rb_remove_right_def)
  qed
  show "rb_yields s (rb_remove_right p s)
      (if short then (False, q, p) else (True, p, addr (plug (InRight sl q Black # k) u))) (plug (InRight sl q Black # k) u)"
    if w: "w = Node sl (q, Red) sr" and l: "lack_right sr p Red t = (u, short)"
  proof -
    obtain xr x e xl where sr: "sr = Node xl (x, e) xr" using assms(3) w by (cases sr rule: addr.cases) auto
    have t: "rb_tree s (plug k (Node (Node sl (q, Red) sr) (p, c) t))" using assms(1) w by simp
    have "rb_yields s (do { (tmp, s) \<leftarrow> rb_remove_right_red p q s; rb_remove_right_black p tmp s })
        (if short then (False, q, p) else (True, p, addr (plug (InRight sl q Black # k) u))) (plug (InRight sl q Black # k) u)"
      by (rule yields_yields_bind [OF remove_right_red(2) [OF t refl]])
        (use remove_right_black [of _ "InRight sl q Black # k", OF _ l [unfolded sr]] lack_right_ino [OF l] sr in \<open>(cases short; simp)+\<close>)
    then show ?thesis using r w by (simp add: rb_remove_right_def)
  qed
qed

lemma remove_color_round:
  "RB_REMOVE_COLOR parent elm s = do {
     black \<leftarrow> rb_is_black elm s;
     (if black \<and> elm \<noteq> rbh_root s then do {
        l \<leftarrow> RB_LEFT parent s;
        ((stop, parent, elm), s) \<leftarrow> (if l = elm then rb_remove_left parent s else rb_remove_right parent s);
        (if stop then if elm \<noteq> 0 then RB_SETCOLOR elm RB_BLACK s else Some s else RB_REMOVE_COLOR parent elm s) }
      else if elm \<noteq> 0 then RB_SETCOLOR elm RB_BLACK s else Some s) }"
  unfolding RB_REMOVE_COLOR_def
  by (subst rb_remove_loop.simps) (auto split: Option.bind_split simp: case_prod_beta)

lemma root_of_plug: "k \<noteq> [] \<Longrightarrow> addr (plug k t) \<in> set (lefts k) \<union> set (rights k)"
proof (induction k t rule: plug.induct)
  case (2 a c r k t)
  then show ?case by (cases "k = []") auto
next
  case (3 l a c k t)
  then show ?case by (cases "k = []") auto
qed simp

lemma below_root:
  assumes "rb_tree s (plug k t)" and "k \<noteq> []"
  shows "addr t \<noteq> rbh_root s"
proof
  assume "addr t = rbh_root s"
  then have r: "addr t \<in> set (lefts k) \<union> set (rights k)"
    using assms root_of_plug [of k t] by (simp add: rb_tree_def)
  have "addr (plug k t) \<noteq> 0"
    using assms root_of_plug [of k t] by (cases "plug k t" rule: addr.cases) (auto simp: rb_tree_def okp_def dest: arg_cong [of _ _ ino])
  then have "addr t \<noteq> 0" using assms(1) \<open>addr t = rbh_root s\<close> by (simp add: rb_tree_def)
  with r show False using assms(1) addr_in [of t] by (auto simp: rb_tree_def)
qed

text \<open>What follows one round, and the three ways on.\<close>

definition remove_rest :: "(bool \<times> u64 \<times> u64) \<times> rb_state \<Rightarrow> rb_state option" where
  "remove_rest = (\<lambda>((stop, parent, elm), s).
     if stop then if elm \<noteq> 0 then RB_SETCOLOR elm RB_BLACK s else Some s else RB_REMOVE_COLOR parent elm s)"

lemma remove_color_red:
  assumes "rb_tree s (plug k t)" and "color t = Red"
  shows "makes s (RB_REMOVE_COLOR p (addr t) s) (plug k (paint Black t))"
  using blacken [OF assms(1)] is_color(2) [OF assms(1)] assms(2) by (simp add: remove_color_round)

lemma remove_color_left:
  assumes "rb_tree s (plug (InLeft p c w # k) t)" and "color t = Black"
  shows "RB_REMOVE_COLOR p (addr t) s = rb_remove_left p s \<bind> remove_rest"
  using is_color(2) [OF assms(1)] assms(2) below_root [OF assms(1)] left_child(1) [OF assms(1)]
  by (subst remove_color_round) (simp add: remove_rest_def case_prod_beta')

lemma remove_color_right:
  assumes "rb_tree s (plug (InRight w p c # k) t)" and "color t = Black" and "w \<noteq> Leaf"
  shows "RB_REMOVE_COLOR p (addr t) s = rb_remove_right p s \<bind> remove_rest"
proof -
  have "addr w \<noteq> addr t"
    using assms siblings_differ [OF assms(1)] by (cases "t = Leaf"; cases w rule: addr.cases) (auto simp: rb_tree_plug okp_def)
  then show ?thesis
    using is_color(2) [OF assms(1)] assms(2) below_root [OF assms(1)] left_child(2) [OF assms(1)]
    by (subst remove_color_round) (simp add: remove_rest_def case_prod_beta')
qed

lemma remove_up:
  assumes "rb_yields s r (False, parent_of k, addr u) (plug k u)"
    and "\<And>s'. rb_tree s' (plug k u) \<Longrightarrow> makes s' (RB_REMOVE_COLOR (parent_of k) (addr u) s') T"
    and "ino (plug k u) = ino T"
  shows "makes s (r \<bind> remove_rest) T"
  by (rule makes_yields_bind [OF assms(1) _ assms(3)]) (simp add: remove_rest_def assms(2))

lemma remove_stop:
  assumes "rb_yields s r (True, p, addr (plug k u)) (plug k u)"
  shows "makes s (r \<bind> remove_rest) (paint Black (plug k u))"
proof (rule makes_yields_bind [OF assms])
  show "makes s' (remove_rest ((True, p, addr (plug k u)), s')) (paint Black (plug k u))" if "rb_tree s' (plug k u)" for s'
    using blacken [of s' "[]" "plug k u"] that by (simp add: remove_rest_def)
qed simp

lemma remove_color:
  "rb_tree s (plug k t) \<Longrightarrow> balanced (paint Black t) \<Longrightarrow> fits k (Suc (bheight t)) \<Longrightarrow>
     makes s (RB_REMOVE_COLOR (parent_of k) (addr t) s) (shrunk k t)"
proof (induction k t arbitrary: s rule: shrunk.induct)
  case (1 t)
  then have "rbh_root s = addr t" by (simp add: rb_tree_def)
  then show ?case
    using blacken [of s "[]" t] is_color(2) [of s "[]" t] 1(1) by (simp add: remove_color_round)
next
  case (2 p c w k t)
  then have tree: "rb_tree s (plug k (Node t (p, c) w))" by simp
  have w: "w \<noteq> Leaf" "\<forall>sl q sr. w = Node sl (q, Red) sr \<longrightarrow> sl \<noteq> Leaf" using 2(4) by auto
  note l = remove_left [OF tree w]
  consider "color t = Red" | "color t = Black" "color w = Red" | "color t = Black" "color w = Black"
    by (cases "color t"; cases "color w") auto
  then show ?case
  proof cases
    case 1
    then show ?thesis using remove_color_red [OF 2(2)] by simp
  next
    case red: 2
    then obtain sl q sr where w': "w = Node sl (q, Red) sr" by (auto elim: color_RedE)
    obtain u short where u: "lack_left t p Red sl = (u, short)" by fastforce
    have sl: "sl \<noteq> Leaf" using 2(4) w' by auto
    have "makes s (RB_REMOVE_COLOR p (addr t) s) (settle (InLeft q Black sr # k) (u, short))"
      unfolding remove_color_left [OF 2(2) red(1)]
    proof (cases short)
      case True
      then show "makes s (rb_remove_left p s \<bind> remove_rest) (settle (InLeft q Black sr # k) (u, short))"
        using remove_up [of s _ "InLeft q Black sr # k" u] l(2) [OF w' u] lack_left_top [OF u True sl]
          remove_color_red [of _ "InLeft q Black sr # k" u]
        by (simp add: settle_def)
    next
      case False
      then show "makes s (rb_remove_left p s \<bind> remove_rest) (settle (InLeft q Black sr # k) (u, short))"
        using remove_stop [of s _ p "InLeft q Black sr # k" u] l(2) [OF w' u] by (simp add: settle_def)
    qed
    then show ?thesis using red w' u by simp
  next
    case black: 3
    obtain u short where u: "lack_left t p c w = (u, short)" by fastforce
    have "makes s (RB_REMOVE_COLOR p (addr t) s) (if short then shrunk k u else paint Black (plug k u))"
      unfolding remove_color_left [OF 2(2) black(1)]
    proof (cases short)
      case True
      have f: "balanced w" "bheight w = Suc (bheight t)" "fits k (bheight w + (if c = Black then 1 else 0))" using 2(4) by simp_all
      have b: "balanced (paint Black u)" "fits k (Suc (bheight u))"
        using lack_left_ok [OF u black(2) f(1) balanced_black [OF 2(3) black(1)] black(1) f(2)] f(3) True by auto
      have "makes s (rb_remove_left p s \<bind> remove_rest) (shrunk k u)"
      proof (rule remove_up)
        show "rb_yields s (rb_remove_left p s) (False, parent_of k, addr u) (plug k u)"
          using l(1) [OF black(2) u] True lack_left_top [OF u True w(1)] by simp
        show "makes s' (RB_REMOVE_COLOR (parent_of k) (addr u) s') (shrunk k u)" if "rb_tree s' (plug k u)" for s'
          using 2(1) [OF _ _ u [symmetric] True that b] black by simp
        show "ino (plug k u) = ino (shrunk k u)" using shrunk_ok [OF b] by simp
      qed
      then show "makes s (rb_remove_left p s \<bind> remove_rest) (if short then shrunk k u else paint Black (plug k u))"
        using True by simp
    next
      case False
      then show "makes s (rb_remove_left p s \<bind> remove_rest) (if short then shrunk k u else paint Black (plug k u))"
        using remove_stop [of s _ p k u] l(1) [OF black(2) u] by simp
    qed
    then show ?thesis using black u by simp
  qed
next
  case (3 w p c k t)
  then have tree: "rb_tree s (plug k (Node w (p, c) t))" by simp
  have w: "w \<noteq> Leaf" "\<forall>sr q sl. w = Node sl (q, Red) sr \<longrightarrow> sr \<noteq> Leaf" using 3(4) by auto
  note l = remove_right [OF tree w]
  consider "color t = Red" | "color t = Black" "color w = Red" | "color t = Black" "color w = Black"
    by (cases "color t"; cases "color w") auto
  then show ?case
  proof cases
    case 1
    then show ?thesis using remove_color_red [OF 3(2)] by simp
  next
    case red: 2
    then obtain sr q sl where w': "w = Node sl (q, Red) sr" by (auto elim: color_RedE)
    obtain u short where u: "lack_right sr p Red t = (u, short)" by fastforce
    have sr: "sr \<noteq> Leaf" using 3(4) w' by auto
    have "makes s (RB_REMOVE_COLOR p (addr t) s) (settle (InRight sl q Black # k) (u, short))"
      unfolding remove_color_right [OF 3(2) red(1) w(1)]
    proof (cases short)
      case True
      then show "makes s (rb_remove_right p s \<bind> remove_rest) (settle (InRight sl q Black # k) (u, short))"
        using remove_up [of s _ "InRight sl q Black # k" u] l(2) [OF w' u] lack_right_top [OF u True sr]
          remove_color_red [of _ "InRight sl q Black # k" u]
        by (simp add: settle_def)
    next
      case False
      then show "makes s (rb_remove_right p s \<bind> remove_rest) (settle (InRight sl q Black # k) (u, short))"
        using remove_stop [of s _ p "InRight sl q Black # k" u] l(2) [OF w' u] by (simp add: settle_def)
    qed
    then show ?thesis using red w' u by simp
  next
    case black: 3
    obtain u short where u: "lack_right w p c t = (u, short)" by fastforce
    have "makes s (RB_REMOVE_COLOR p (addr t) s) (if short then shrunk k u else paint Black (plug k u))"
      unfolding remove_color_right [OF 3(2) black(1) w(1)]
    proof (cases short)
      case True
      have f: "balanced w" "bheight w = Suc (bheight t)" "fits k (bheight w + (if c = Black then 1 else 0))" using 3(4) by simp_all
      have b: "balanced (paint Black u)" "fits k (Suc (bheight u))"
        using lack_right_ok [OF u black(2) f(1) balanced_black [OF 3(3) black(1)] black(1) f(2)] f(3) True by auto
      have "makes s (rb_remove_right p s \<bind> remove_rest) (shrunk k u)"
      proof (rule remove_up)
        show "rb_yields s (rb_remove_right p s) (False, parent_of k, addr u) (plug k u)"
          using l(1) [OF black(2) u] True lack_right_top [OF u True w(1)] by simp
        show "makes s' (RB_REMOVE_COLOR (parent_of k) (addr u) s') (shrunk k u)" if "rb_tree s' (plug k u)" for s'
          using 3(1) [OF _ _ u [symmetric] True that b] black by simp
        show "ino (plug k u) = ino (shrunk k u)" using shrunk_ok [OF b] by simp
      qed
      then show "makes s (rb_remove_right p s \<bind> remove_rest) (if short then shrunk k u else paint Black (plug k u))"
        using True by simp
    next
      case False
      then show "makes s (rb_remove_right p s \<bind> remove_rest) (if short then shrunk k u else paint Black (plug k u))"
        using remove_stop [of s _ p k u] l(1) [OF black(2) u] by simp
    qed
    then show ?thesis using black u by simp
  qed
qed

section \<open>Unlinking\<close>

lemma unlinked:
  assumes "rb_tree s (plug k (Node l (x, c) r))" and "l = Leaf \<and> t = r \<or> r = Leaf \<and> t = l"
  obtains s' where "rb_unlink x (addr t) s = Some ((parent_of k, color_code c), s')" and "rb_tree s' (plug k t)"
    and "\<And>a. a \<notin> addrs (plug k t) \<Longrightarrow> rb_mem s' a = rb_mem s a" and "x \<notin> addrs (plug k t)"
proof -
  have c: "ctx_at (rbh_root s) (rb_mem s) x k" and t: "rb_tree_at (rb_mem s) x t" and x: "okp x" and p: "even (parent_of k)"
    and d: "distinct (lefts k @ ino t @ rights k)" and nx: "x \<notin> set (lefts k)" "x \<notin> set (rights k)" "x \<notin> addrs t"
    using assms parent_even by (auto simp: rb_tree_plug)
  have dk: "distinct (lefts k @ rights k)" "distinct (ino t)" using d by auto
  obtain m where m: "rb_adopt (addr t) (parent_of k) s = Some (s\<lparr>rb_mem := m\<rparr>)" "rb_tree_at m (parent_of k) t"
      "\<And>a. a \<notin> addrs t \<Longrightarrow> m a = rb_mem s a"
    using adopt [OF t _ p dk(2)] x by (auto simp: okp_def)
  let ?s = "s\<lparr>rb_mem := m\<rparr>"
  have k: "a \<notin> addrs t" if "a \<in> set (lefts k) \<union> set (rights k)" for a using d that by auto
  have t': "a \<notin> set (lefts k)" "a \<notin> set (rights k)" if "a \<in> addrs t" for a using d that by auto
  have c': "ctx_at (rbh_root ?s) (rb_mem ?s) x k"
    by (simp, rule ctx_at_same [OF c]) (use m(3) k in simp)
  show ?thesis
  proof (rule that [of "rehang k (addr t) ?s"])
    have "(if parent_of k \<noteq> 0 then rb_swap_child (parent_of k) x (addr t) ?s else Some (?s\<lparr>rbh_root := addr t\<rparr>)) =
        Some (rehang k (addr t) ?s)"
      using swap_child [OF c'] parent_zero [OF c] nx x by (cases "k = []") (simp_all add: okp_def)
    then show "rb_unlink x (addr t) s = Some ((parent_of k, color_code c), rehang k (addr t) ?s)"
      using focus_reads [OF assms(1)] m(1) by (simp add: rb_unlink_def)
    have "rb_tree_at (rb_mem (rehang k (addr t) ?s)) (parent_of k) t"
      by (rule tree_at_same [OF m(2)]) (use t' in \<open>simp add: rehang_mem\<close>)
    then show "rb_tree (rehang k (addr t) ?s) (plug k t)"
      using rehang_ctx [OF c' dk(1)] d by (simp add: rb_tree_plug)
    show "rb_mem (rehang k (addr t) ?s) a = rb_mem s a" if "a \<notin> addrs (plug k t)" for a
      using that m(3) by (simp add: rehang_mem)
    show "x \<notin> addrs (plug k t)" using nx by simp
  qed
qed

lemma supplant:
  assumes "rb_tree s (plug k (Node l (x, c) r))" and "l \<noteq> Leaf" and "okp y" and "y \<notin> addrs (plug k (Node l (x, c) r))"
  obtains s' where "rb_supplant x y s = Some s'" and "rb_tree s' (plug k (Node l (y, c) r))"
    and "\<And>a. a \<notin> addrs (plug k (Node l (y, c) r)) \<Longrightarrow> rb_mem s' a = rb_mem s a"
proof -
  have c: "ctx_at (rbh_root s) (rb_mem s) x k" and l: "rb_tree_at (rb_mem s) x l" and r: "rb_tree_at (rb_mem s) x r"
    and x: "okp x" "even x" "x \<noteq> 0" "rb_mem s x = rb_cell (addr l) (addr r) (parent_of k) c" and p: "even (parent_of k)"
    and d: "distinct (lefts k @ ino l @ x # ino r @ rights k)"
    using assms(1) parent_even by (auto simp: rb_tree_plug okp_def)
  have y: "y \<notin> set (lefts k)" "y \<notin> set (rights k)" "y \<notin> addrs l" "y \<notin> addrs r" "y \<noteq> x" "y \<noteq> 0" "even y"
    using assms(3,4) by (auto simp: okp_def)
  have dk: "distinct (lefts k @ rights k)" "distinct (ino l)" "distinct (ino r)" "x \<notin> set (lefts k)" "x \<notin> set (rights k)"
      "x \<notin> addrs l" "x \<notin> addrs r"
    using d by auto
  have A: "a \<notin> set (lefts k)" "a \<notin> set (rights k)" "a \<notin> addrs r" "a \<noteq> y" if "a \<in> addrs l" for a using d y that by auto
  have B: "a \<notin> set (lefts k)" "a \<notin> set (rights k)" "a \<notin> addrs l" "a \<noteq> y" if "a \<in> addrs r" for a using d y that by auto
  have K: "a \<notin> addrs l" "a \<notin> addrs r" if "a \<in> set (lefts k) \<union> set (rights k)" for a using d that by auto
  let ?s1 = "s\<lparr>rb_mem := (rb_mem s)(y := rb_cell (addr l) (addr r) (parent_of k) c)\<rparr>"
  define s2 where "s2 = rehang k y ?s1"
  have c1: "ctx_at (rbh_root ?s1) (rb_mem ?s1) x k" using c y by simp
  have c2: "ctx_at (rbh_root s2) (rb_mem s2) y k" unfolding s2_def using c1 dk(1) by (rule rehang_ctx)
  have m2: "rb_mem s2 a = rb_mem ?s1 a" if "a \<notin> set (lefts k)" "a \<notin> set (rights k)" for a
    unfolding s2_def using that by (rule rehang_mem)
  have "rb_tree_at (rb_mem s2) x l" by (rule tree_at_same [OF l]) (use m2 A in simp)
  with x(2) y(7) dk(2) obtain m3 where m3: "rb_adopt (addr l) y s2 = Some (s2\<lparr>rb_mem := m3\<rparr>)" "rb_tree_at m3 y l"
      "\<And>a. a \<notin> addrs l \<Longrightarrow> m3 a = rb_mem s2 a"
    using adopt [of s2 x l y] by blast
  have "rb_tree_at m3 x r" by (rule tree_at_same [OF r]) (use m3 m2 B in simp)
  with x(2) y(7) dk(3) obtain m4 where m4: "rb_adopt (addr r) y (s2\<lparr>rb_mem := m3\<rparr>) = Some (s2\<lparr>rb_mem := m4\<rparr>)"
      "rb_tree_at m4 y r" "\<And>a. a \<notin> addrs r \<Longrightarrow> m4 a = m3 a"
    using adopt [of "s2\<lparr>rb_mem := m3\<rparr>" x r y] by auto
  have swap: "(if parent_of k \<noteq> 0 then rb_swap_child (parent_of k) x y ?s1 else Some (?s1\<lparr>rbh_root := y\<rparr>)) = Some s2"
    using swap_child [OF c1, of y] parent_zero [OF c] dk x by (cases "k = []") (simp_all add: s2_def)
  have l0: "addr l \<noteq> 0" using assms(1,2) by (cases l rule: addr.cases) (auto simp: rb_tree_plug okp_def)
  then obtain v where v: "RB_SETPARENT (addr l) y s2 = Some (v, s2\<lparr>rb_mem := m3\<rparr>)"
    using m3(1) by (auto simp: rb_adopt_def bind_eq_Some_conv)
  have e: "rb_mem s2 x = rb_cell (addr l) (addr r) (parent_of k) c" "m3 x = rb_cell (addr l) (addr r) (parent_of k) c"
    using m2 m3 dk x y by simp_all
  show ?thesis
  proof (rule that [of "s2\<lparr>rb_mem := m4\<rparr>"])
    have u: "rb_at x s = Some (rb_cell (addr l) (addr r) (parent_of k) c)"
        "rb_upd y (\<lambda>_. rb_cell (addr l) (addr r) (parent_of k) c) s = Some ?s1" "RB_GETPARENT x ?s1 = Some (parent_of k)"
      using x y p by (simp_all add: rb_at_def rb_upd_def RB_GETPARENT_entry)
    show "rb_supplant x y s = Some (s2\<lparr>rb_mem := m4\<rparr>)"
      unfolding rb_supplant_def by (simp only: u swap bind.bind_lunit) (simp add: e x v RB_links_entry m4(1))
    have "ctx_at (rbh_root s2) m4 y k" by (rule ctx_at_same [OF c2]) (use m4 m3 K in simp)
    moreover have "rb_tree_at m4 y l" by (rule tree_at_same [OF m3(2)]) (use m4 A in simp)
    moreover have "m4 y = rb_cell (addr l) (addr r) (parent_of k) c" using m4 m3 m2 y by simp
    ultimately show "rb_tree (s2\<lparr>rb_mem := m4\<rparr>) (plug k (Node l (y, c) r))"
      using m4(2) assms(3) d y by (simp add: rb_tree_plug)
    show "rb_mem (s2\<lparr>rb_mem := m4\<rparr>) a = rb_mem s a" if "a \<notin> addrs (plug k (Node l (y, c) r))" for a
      using that m4 m3 m2 by (simp add: image_Un)
  qed
qed

section \<open>Removal\<close>

lemma addr_ok: "rb_tree s (plug k t) \<Longrightarrow> t \<noteq> Leaf \<Longrightarrow> addr t \<noteq> 0"
  by (cases t rule: addr.cases) (auto simp: rb_tree_plug okp_def)

text \<open>The element the descent to the left ends at, with the frames above it.\<close>

lemma leftmost:
  assumes "rb_tree s (plug k t)" and "t \<noteq> Leaf"
  obtains j y d r where "t = plug j (Node Leaf (y, d) r)" and "lefts j = []" and "rb_leftmost (addr t) s = Some y"
proof -
  have "\<exists>j y d r. t = plug j (Node Leaf (y, d) r) \<and> lefts j = [] \<and> rb_leftmost (addr t) s = Some y"
    using assms
  proof (induction t arbitrary: k)
    case (Node l z r)
    obtain a c where z: "z = (a, c)" by (cases z)
    note f = focus_reads [of s k l a c r]
    show ?case
    proof (cases "l = Leaf")
      case True
      then show ?thesis using Node.prems z f(1)
        by (intro exI [of _ "[]"] exI [of _ a] exI [of _ c] exI [of _ r]) (simp add: rb_leftmost.simps)
    next
      case False
      then have "addr l \<noteq> 0" using addr_ok [of s "InLeft a c r # k" l] Node.prems z by simp
      moreover obtain j y d r' where "l = plug j (Node Leaf (y, d) r')" "lefts j = []" "rb_leftmost (addr l) s = Some y"
        using Node.IH(1) [of "InLeft a c r # k"] Node.prems z False by auto
      ultimately show ?thesis using Node.prems z f(1)
        by (intro exI [of _ "j @ [InLeft a c r]"] exI [of _ y] exI [of _ d] exI [of _ r'])
          (simp add: rb_leftmost.simps [of a] lefts_append plug_append)
    qed
  qed simp
  then show ?thesis using that by blast
qed

lemma augment_up: "rb_tree s (plug k t) \<Longrightarrow> k \<noteq> [] \<Longrightarrow> rb_augment_up (parent_of k) s = Some ()"
proof (induction k t rule: plug.induct)
  case (2 a c r k t)
  then show ?case
    using frame_reads(1) [OF 2(2,3)] parent_zero [of "rbh_root s" "rb_mem s" a k]
    by (cases "k = []") (auto simp: rb_augment_up.simps [of a] rb_tree_plug)
next
  case (3 l a c k t)
  then show ?case
    using frame_reads(1) [OF 3(2,3)] parent_zero [of "rbh_root s" "rb_mem s" a k]
    by (cases "k = []") (auto simp: rb_augment_up.simps [of a] rb_tree_plug)
qed simp

text \<open>
  Before the repair: the links are those of the tree without \<open>x\<close>, with a gap of the colour of
  the node that is gone.
\<close>

lemma remove_links_one:
  assumes "rb_tree s (plug k (Node l (x, c) r))" and "rbt (plug k (Node l (x, c) r))"
    and "l = Leaf \<and> u = r \<or> l \<noteq> Leaf \<and> r = Leaf \<and> u = l"
  obtains s' where "rb_remove_links x s = Some ((parent_of k, addr u, color_code c), s')" and "rb_tree s' (plug k u)"
    and "\<And>a. a \<notin> addrs (plug k u) \<Longrightarrow> rb_mem s' a = rb_mem s a"
proof -
  obtain s' where s': "rb_unlink x (addr u) s = Some ((parent_of k, color_code c), s')" "rb_tree s' (plug k u)"
      "\<And>a. a \<notin> addrs (plug k u) \<Longrightarrow> rb_mem s' a = rb_mem s a"
    using unlinked [OF assms(1), of u] assms(3) by blast
  have "l \<noteq> Leaf \<Longrightarrow> addr l \<noteq> 0" using addr_ok [of s "InLeft x c r # k" l] assms(1) by simp
  then show ?thesis
    using that [OF _ s'(2,3)] s'(1) focus_reads(1,2) [OF assms(1)] assms(3) by (auto simp: rb_remove_links_def)
qed

lemma remove_links_two:
  assumes "rb_tree s (plug k (Node l (x, c) r))" and "l \<noteq> Leaf" and "r = plug j (Node Leaf (y, d) u)" and "rb_leftmost (addr r) s = Some y"
  obtains s' where
    "rb_remove_links x s = Some ((parent_of (j @ InRight l y c # k), addr u, color_code d), s')"
    and "rb_tree s' (plug (j @ InRight l y c # k) u)"
    and "\<And>a. a \<notin> addrs (plug k (Node l (x, c) r)) \<Longrightarrow> rb_mem s' a = rb_mem s a"
proof -
  let ?K = "j @ InRight l x c # k" and ?K' = "j @ InRight l y c # k"
  have K: "rb_tree s (plug ?K (Node Leaf (y, d) u))" using assms(1,3) by (simp add: plug_append)
  then obtain s1 where s1: "rb_unlink y (addr u) s = Some ((parent_of ?K, color_code d), s1)" "rb_tree s1 (plug ?K u)"
      "\<And>a. a \<notin> addrs (plug ?K u) \<Longrightarrow> rb_mem s1 a = rb_mem s a" and y: "y \<notin> addrs (plug ?K u)"
    using unlinked [OF K, of u] by blast
  note f = focus_reads [OF K] focus_reads(1,2) [OF assms(1)]
  have eq: "plug ?K u = plug k (Node l (x, c) (plug j u))" "plug ?K' u = plug k (Node l (y, c) (plug j u))"
    by (simp_all add: plug_append)
  obtain s2 where s2: "rb_supplant x y s1 = Some s2" "rb_tree s2 (plug ?K' u)"
      "\<And>a. a \<notin> addrs (plug ?K' u) \<Longrightarrow> rb_mem s2 a = rb_mem s1 a"
    using supplant [OF s1(2) [unfolded eq] assms(2) f(5) y [unfolded eq]] unfolding eq by blast
  have x: "x \<notin> set (lefts j) \<union> set (rights j)" "addr l \<noteq> 0" "addr r \<noteq> 0"
  proof -
    have "r \<noteq> Leaf" using arg_cong [OF assms(3), of ino] by auto
    then show "addr l \<noteq> 0" "addr r \<noteq> 0"
      using addr_ok [of s "InLeft x c r # k" l] addr_ok [of s "InRight l x c # k" r] assms(1,2) by simp_all
    have "x \<notin> addrs r" using assms(1) by (auto simp: rb_tree_plug)
    then show "x \<notin> set (lefts j) \<union> set (rights j)" using assms(3) by simp
  qed
  then have p: "(if parent_of ?K = x then y else parent_of ?K) = parent_of ?K'"
    using parent_in [of j] by (auto simp: parent_append)
  have "rb_augment_up (parent_of ?K') s2 = Some ()" using augment_up [OF s2(2)] by simp
  moreover have "RB_GETPARENT y s1 = Some (parent_of ?K)"
    unfolding f(3) [symmetric] by (simp add: RB_GETPARENT_def rb_at_def s1(3) [OF y])
  ultimately have "rb_remove_links x s = Some ((parent_of ?K', addr u, color_code d), s2)"
    using f(2,6,7) s1(1) s2(1) assms(4) p x by (simp add: rb_remove_links_def Let_def)
  then show ?thesis
  proof (rule that [OF _ s2(2)])
    show "rb_mem s2 a = rb_mem s a" if "a \<notin> addrs (plug k (Node l (x, c) r))" for a
      using that s2(3) [of a] s1(3) [of a] assms(3) by (simp add: eq image_Un)
  qed
qed

lemma remove_links:
  assumes "rb_tree s t" and "rbt t" and "x \<in> addrs t"
  obtains j u c s' where "rb_remove_links x s = Some ((parent_of j, addr u, color_code c), s')"
    and "rb_tree s' (plug j u)" and "ino (plug j u) = remove1 x (ino t)"
    and "\<And>a. a \<notin> addrs t \<Longrightarrow> rb_mem s' a = rb_mem s a"
    and "balanced u" and "c = Black \<Longrightarrow> fits j (Suc (bheight u))" and "c = Red \<Longrightarrow> rbt (plug j u)"
proof -
  obtain k l c r where t: "t = plug k (Node l (x, c) r)" using focus_ex [OF assms(3)] by blast
  note tree = assms(1) [unfolded t] and rbt = assms(2) [unfolded t]
  have i: "remove1 x (ino t) = lefts k @ ino l @ ino r @ rights k"
    using assms(1) by (auto simp: t rb_tree_def remove1_append)
  show ?thesis
  proof (cases "l = Leaf \<or> r = Leaf")
    case True
    then obtain u where u: "l = Leaf \<and> u = r \<or> l \<noteq> Leaf \<and> r = Leaf \<and> u = l" by blast
    obtain s' where "rb_remove_links x s = Some ((parent_of k, addr u, color_code c), s')" "rb_tree s' (plug k u)"
        "\<And>a. a \<notin> addrs (plug k u) \<Longrightarrow> rb_mem s' a = rb_mem s a"
      using remove_links_one [OF tree rbt u] by blast
    then show ?thesis
      using gap [OF rbt, of u] u i by (intro that [of k u c s']) (auto simp: t)
  next
    case False
    have "rb_tree s (plug (InRight l x c # k) r)" "r \<noteq> Leaf" using tree False by simp_all
    then obtain j y d u where r: "r = plug j (Node Leaf (y, d) u)" "lefts j = []" "rb_leftmost (addr r) s = Some y"
      by (rule leftmost) (rule that; assumption)
    let ?K = "j @ InRight l y c # k"
    obtain s' where s': "rb_remove_links x s = Some ((parent_of ?K, addr u, color_code d), s')" "rb_tree s' (plug ?K u)"
        "\<And>a. a \<notin> addrs (plug k (Node l (x, c) r)) \<Longrightarrow> rb_mem s' a = rb_mem s a"
      using remove_links_two [OF tree _ r(1,3)] False by blast
    have "rbt (plug (j @ InRight l x c # k) (Node Leaf (y, d) u))" using rbt r by (simp add: plug_append)
    then have "rbt (plug ?K (Node Leaf (y, d) u))" by (simp only: rbt_rename [of j l x c k _ y])
    from gap [OF this, of u] s' show ?thesis
      using r i by (intro that [of ?K u d s']) (auto simp: t lefts_append rights_append)
  qed
qed

text \<open>
  Removing an element from a red-black tree, wherever it is, returns it, leaves the other elements
  in their order, and leaves a red-black tree; entries outside the tree are not written.
\<close>

lemma removed:
  assumes "rb_holds cmp s xs" and "x \<in> set xs"
  shows "\<exists>s'. RB_REMOVE x s = Some (x, s') \<and> rb_holds cmp s' (remove1 x xs) \<and>
    (\<forall>a. a \<notin> set xs \<longrightarrow> rb_mem s' a = rb_mem s a)"
proof -
  obtain t where t: "rb_tree s t" "rbt t" "ino t = xs" and o: "ordered cmp xs"
    using assms(1) by (auto simp: rb_holds_def)
  have "x \<in> addrs t" using assms(2) t(3) addrs_ino by metis
  then obtain j u c s1 where l: "rb_remove_links x s = Some ((parent_of j, addr u, color_code c), s1)"
    and u: "rb_tree s1 (plug j u)" "ino (plug j u) = remove1 x (ino t)"
    and f: "\<And>a. a \<notin> addrs t \<Longrightarrow> rb_mem s1 a = rb_mem s a"
    and b: "balanced u" "c = Black \<Longrightarrow> fits j (Suc (bheight u))" "c = Red \<Longrightarrow> rbt (plug j u)"
    by (rule remove_links [OF t(1,2)]) (rule that; assumption)
  have "\<exists>s' v. (if color_code c = RB_BLACK then RB_REMOVE_COLOR (parent_of j) (addr u) s1 else Some s1) = Some s' \<and>
      rb_tree s' v \<and> rbt v \<and> ino v = remove1 x xs \<and> (\<forall>a. a \<notin> addrs (plug j u) \<longrightarrow> rb_mem s' a = rb_mem s1 a)"
  proof (cases c)
    case Black
    then have b': "balanced (paint Black u)" "fits j (Suc (bheight u))" using b by simp_all
    have i: "rbt (shrunk j u)" "ino (shrunk j u) = remove1 x xs" "ino (shrunk j u) = ino (plug j u)"
      using shrunk_ok [OF b'] u(2) t(3) by simp_all
    have a: "addrs (shrunk j u) = addrs (plug j u)" unfolding addrs_ino by (simp only: i(3))
    obtain s' where "RB_REMOVE_COLOR (parent_of j) (addr u) s1 = Some s'" "rb_tree s' (shrunk j u)"
        "\<forall>a. a \<notin> addrs (plug j u) \<longrightarrow> rb_mem s' a = rb_mem s1 a"
      using remove_color [OF u(1) b'] unfolding makes_def a by blast
    then show ?thesis using i(1,2) Black by (intro exI [of _ s'] exI [of _ "shrunk j u"]) simp
  next
    case Red
    have "rbt (plug j u)" "ino (plug j u) = remove1 x xs" using Red b(3) u(2) t(3) by simp_all
    then show ?thesis using Red u(1) by (intro exI [of _ s1] exI [of _ "plug j u"]) (simp add: RB_RED_def RB_BLACK_def)
  qed
  then obtain s' v where "RB_REMOVE x s = Some (x, s')" "rb_tree s' v" "rbt v" "ino v = remove1 x xs"
      and f': "\<And>a. a \<notin> addrs (plug j u) \<Longrightarrow> rb_mem s' a = rb_mem s1 a"
    using l by (auto simp: RB_REMOVE_def)
  moreover have "rb_mem s' a = rb_mem s a" if "a \<notin> set xs" for a
  proof -
    have "a \<notin> addrs t" using that t(3) addrs_ino [of t] by simp
    moreover from that have "a \<notin> addrs (plug j u)"
      using u(2) t(3) addrs_ino [of "plug j u"] notin_set_remove1 [of a xs x] by simp
    ultimately show ?thesis using f f' by simp
  qed
  moreover have "ordered cmp (remove1 x xs)"
    using o by (rule ordered_remove1)
  ultimately show ?thesis unfolding rb_holds_def by blast
qed

end
