(* ===== verification/RbIter.thy ===== *)
theory RbIter
  imports RbRemove
begin

text \<open>
  Iteration over the red-black trees of \<^verbatim>\<open>libkern/tree.h\<close>: successor, predecessor, the ends, and the
  loops, with a body that may remove the element it is given.
\<close>

section \<open>Neighbours\<close>

partial_function (option) rb_rightmost :: "u64 \<Rightarrow> rb_state \<Rightarrow> u64 option" where
  "rb_rightmost elm s = do {
     r \<leftarrow> RB_RIGHT elm s;
     (if r \<noteq> 0 then rb_rightmost r s else Some elm) }"

text \<open>Up as long as the element is a right (left) child, then the parent.\<close>

partial_function (option) rb_climb_right :: "u64 \<Rightarrow> rb_state \<Rightarrow> u64 option" where
  "rb_climb_right elm s = do {
     p \<leftarrow> RB_GETPARENT elm s;
     (if p \<noteq> 0 then do {
        r \<leftarrow> RB_RIGHT p s;
        (if elm = r then rb_climb_right p s else Some p) }
      else Some p) }"

partial_function (option) rb_climb_left :: "u64 \<Rightarrow> rb_state \<Rightarrow> u64 option" where
  "rb_climb_left elm s = do {
     p \<leftarrow> RB_GETPARENT elm s;
     (if p \<noteq> 0 then do {
        l \<leftarrow> RB_LEFT p s;
        (if elm = l then rb_climb_left p s else Some p) }
      else Some p) }"

definition RB_NEXT :: "u64 \<Rightarrow> rb_state \<Rightarrow> u64 option" where
  "RB_NEXT elm s = do {
     r \<leftarrow> RB_RIGHT elm s;
     (if r \<noteq> 0 then rb_leftmost r s
      else do {
        p \<leftarrow> RB_GETPARENT elm s;
        l \<leftarrow> (if p \<noteq> 0 then RB_LEFT p s else Some 0);
        (if p \<noteq> 0 \<and> elm = l then Some p else rb_climb_right elm s) }) }"

definition RB_PREV :: "u64 \<Rightarrow> rb_state \<Rightarrow> u64 option" where
  "RB_PREV elm s = do {
     l \<leftarrow> RB_LEFT elm s;
     (if l \<noteq> 0 then rb_rightmost l s
      else do {
        p \<leftarrow> RB_GETPARENT elm s;
        r \<leftarrow> (if p \<noteq> 0 then RB_RIGHT p s else Some 0);
        (if p \<noteq> 0 \<and> elm = r then Some p else rb_climb_left elm s) }) }"

definition RB_NEGINF :: int where
  "RB_NEGINF = -1"

definition RB_INF :: int where
  "RB_INF = 1"

partial_function (option) rb_minmax_loop :: "int \<Rightarrow> u64 \<Rightarrow> u64 \<Rightarrow> rb_state \<Rightarrow> u64 option" where
  "rb_minmax_loop val parent tmp s =
     (if tmp = 0 then Some parent
      else do {
        n \<leftarrow> (if val < 0 then RB_LEFT tmp s else RB_RIGHT tmp s);
        rb_minmax_loop val tmp n s })"

definition RB_MINMAX :: "int \<Rightarrow> rb_state \<Rightarrow> u64 option" where
  "RB_MINMAX val s = rb_minmax_loop val 0 (rbh_root s) s"

section \<open>Loops\<close>

text \<open>
  The elements a loop visits. The body of the loops that allow it removes the elements that
  satisfy \<open>rm\<close> from the tree.
\<close>

partial_function (option) rb_foreach_loop :: "u64 \<Rightarrow> rb_state \<Rightarrow> u64 list option" where
  "rb_foreach_loop x s =
     (if x = 0 then Some []
      else do {
        y \<leftarrow> RB_NEXT x s;
        xs \<leftarrow> rb_foreach_loop y s;
        Some (x # xs) })"

definition RB_FOREACH :: "rb_state \<Rightarrow> u64 list option" where
  "RB_FOREACH s = do { x \<leftarrow> RB_MINMAX RB_NEGINF s; rb_foreach_loop x s }"

partial_function (option) RB_FOREACH_FROM :: "(u64 \<Rightarrow> bool) \<Rightarrow> u64 \<Rightarrow> rb_state \<Rightarrow> (u64 list \<times> rb_state) option" where
  "RB_FOREACH_FROM rm x s =
     (if x = 0 then Some ([], s)
      else do {
        y \<leftarrow> RB_NEXT x s;
        s \<leftarrow> (if rm x then do { (_, s) \<leftarrow> RB_REMOVE x s; Some s } else Some s);
        (xs, s) \<leftarrow> RB_FOREACH_FROM rm y s;
        Some (x # xs, s) })"

partial_function (option) RB_FOREACH_REVERSE_FROM ::
  "(u64 \<Rightarrow> bool) \<Rightarrow> u64 \<Rightarrow> rb_state \<Rightarrow> (u64 list \<times> rb_state) option" where
  "RB_FOREACH_REVERSE_FROM rm x s =
     (if x = 0 then Some ([], s)
      else do {
        y \<leftarrow> RB_PREV x s;
        s \<leftarrow> (if rm x then do { (_, s) \<leftarrow> RB_REMOVE x s; Some s } else Some s);
        (xs, s) \<leftarrow> RB_FOREACH_REVERSE_FROM rm y s;
        Some (x # xs, s) })"

definition RB_FOREACH_SAFE :: "(u64 \<Rightarrow> bool) \<Rightarrow> rb_state \<Rightarrow> (u64 list \<times> rb_state) option" where
  "RB_FOREACH_SAFE rm s = do { x \<leftarrow> RB_MINMAX RB_NEGINF s; RB_FOREACH_FROM rm x s }"

section \<open>Neighbours are neighbours in the order\<close>

lemma leftmost_first:
  assumes "rb_tree s (plug k t)" and "t \<noteq> Leaf"
  shows "rb_leftmost (addr t) s = Some (first (ino t))"
  using assms by (rule leftmost) simp

lemma rightmost_final:
  "rb_tree s (plug k t) \<Longrightarrow> t \<noteq> Leaf \<Longrightarrow> rb_rightmost (addr t) s = Some (final (ino t))"
proof (induction t arbitrary: k)
  case (Node l z r)
  obtain a c where z: "z = (a, c)" by (cases z)
  note f = focus_reads [of s k l a c r] and r = addr_ok [of s "InRight l a c # k" r]
  then show ?case
    using Node.IH(2) [of "InRight l a c # k"] Node.prems z
    by (cases "r = Leaf") (simp_all add: rb_rightmost.simps [of a] first_append)
qed simp

lemma right_child:
  "rb_tree s (plug (InLeft a c r # k) t) \<Longrightarrow> RB_RIGHT a s = Some (addr r)"
  "rb_tree s (plug (InRight l a c # k) t) \<Longrightarrow> RB_RIGHT a s = Some (addr t)"
  using focus_reads(2) by auto

lemma siblings_differ_left:
  assumes "rb_tree s (plug (InLeft a c r # k) t)" and "t \<noteq> Leaf"
  shows "addr t \<noteq> addr r"
  using assms addr_in [of r] by (cases t rule: addr.cases) (auto simp: rb_tree_plug okp_def)

lemma frame_ok:
  "rb_tree s (plug (InLeft a c r # k) t) \<Longrightarrow> a \<noteq> 0" "rb_tree s (plug (InRight l a c # k) t) \<Longrightarrow> a \<noteq> 0"
  using focus_reads(5) by (auto simp: okp_def)

lemma climb_right:
  "rb_tree s (plug k t) \<Longrightarrow> t \<noteq> Leaf \<Longrightarrow> rb_climb_right (addr t) s = Some (first (rights k))"
proof (induction k t rule: plug.induct)
  case (1 t)
  then show ?case using hole_reads [of s "[]" t] by (simp add: rb_climb_right.simps [of "addr t"])
next
  case (2 a c r k t)
  then show ?case
    using hole_reads [OF 2(2,3)] siblings_differ_left [OF 2(2,3)] right_child(1) [OF 2(2)] frame_ok(1) [OF 2(2)]
    by (simp add: rb_climb_right.simps [of "addr t"])
next
  case (3 l a c k t)
  then show ?case
    using hole_reads [OF 3(2,3)] right_child(2) [OF 3(2)] frame_ok(2) [OF 3(2)]
    by (simp add: rb_climb_right.simps [of "addr t"])
qed

lemma climb_left:
  "rb_tree s (plug k t) \<Longrightarrow> t \<noteq> Leaf \<Longrightarrow> rb_climb_left (addr t) s = Some (final (lefts k))"
proof (induction k t rule: plug.induct)
  case (1 t)
  then show ?case using hole_reads [of s "[]" t] by (simp add: rb_climb_left.simps [of "addr t"])
next
  case (2 a c r k t)
  then show ?case
    using hole_reads [OF 2(2,3)] left_child(1) [OF 2(2)] frame_ok(1) [OF 2(2)]
    by (simp add: rb_climb_left.simps [of "addr t"])
next
  case (3 l a c k t)
  then show ?case
    using hole_reads [OF 3(2,3)] siblings_differ [OF 3(2,3)] left_child(2) [OF 3(2)] frame_ok(2) [OF 3(2)]
    by (simp add: rb_climb_left.simps [of "addr t"] first_append)
qed

lemma next_focus:
  assumes "rb_tree s (plug k (Node l (a, c) r))"
  shows "RB_NEXT a s = Some (first (ino r @ rights k))"
proof (cases "r = Leaf")
  case True
  note f = focus_reads [OF assms] and c = climb_right [OF assms]
  show ?thesis
  proof (cases k rule: parent_of.cases)
    case (2 b d q j)
    then show ?thesis using True f c left_child(1) [of s b d q j "Node l (a, c) r"] assms
      by (simp add: RB_NEXT_def)
  next
    case (3 q b d j)
    then show ?thesis using True f c left_child(2) [of s q b d j "Node l (a, c) r"] assms
        siblings_differ [of s q b d j "Node l (a, c) r"]
      by (simp add: RB_NEXT_def)
  qed (use True f c in \<open>simp add: RB_NEXT_def\<close>)
next
  case False
  then show ?thesis
    using focus_reads(2) [OF assms] addr_ok [of s "InRight l a c # k" r] leftmost_first [of s "InRight l a c # k" r] assms
    by (simp add: RB_NEXT_def first_append)
qed

lemma prev_focus:
  assumes "rb_tree s (plug k (Node l (a, c) r))"
  shows "RB_PREV a s = Some (final (lefts k @ ino l))"
proof (cases "l = Leaf")
  case True
  note f = focus_reads [OF assms] and c = climb_left [OF assms]
  show ?thesis
  proof (cases k rule: parent_of.cases)
    case (2 b d q j)
    then show ?thesis using True f c right_child(1) [of s b d q j "Node l (a, c) r"] assms
        siblings_differ_left [of s b d q j "Node l (a, c) r"]
      by (simp add: RB_PREV_def)
  next
    case (3 q b d j)
    then show ?thesis using True f c right_child(2) [of s q b d j "Node l (a, c) r"] assms
      by (simp add: RB_PREV_def first_append)
  qed (use True f c in \<open>simp add: RB_PREV_def\<close>)
next
  case False
  then show ?thesis
    using focus_reads(1) [OF assms] addr_ok [of s "InLeft a c r # k" l] rightmost_final [of s "InLeft a c r # k" l] assms
    by (simp add: RB_PREV_def first_append)
qed

text \<open>Splitting the sequence at an element.\<close>

lemma rb_adjacent:
  assumes "rb_tree s t" and "ino t = xs @ a # ys"
  shows "RB_NEXT a s = Some (first ys)" and "RB_PREV a s = Some (final xs)" and "a \<noteq> 0"
proof -
  have "a \<in> addrs t" using assms(2) addrs_ino [of t] by simp
  then obtain k l c r where t: "t = plug k (Node l (a, c) r)" using focus_ex by blast
  have h: "rb_tree s (plug k (Node l (a, c) r))" using assms(1) unfolding t .
  have e: "xs @ a # ys = (lefts k @ ino l) @ a # (ino r @ rights k)" using assms(2) t by simp
  have "distinct (ino t)" using assms(1) by (simp add: rb_tree_def)
  then have "distinct (xs @ a # ys)" unfolding assms(2) .
  from distinct_split [OF this e] have "xs = lefts k @ ino l" "ys = ino r @ rights k" by simp_all
  then show "RB_NEXT a s = Some (first ys)" and "RB_PREV a s = Some (final xs)"
    using next_focus [OF h] prev_focus [OF h] by simp_all
  show "a \<noteq> 0" using focus_reads(5) [OF h] by (simp add: okp_def)
qed

lemma minmax_loop:
  "rb_tree s (plug k t) \<Longrightarrow> rb_minmax_loop val p (addr t) s =
     Some (if t = Leaf then p else if val < 0 then first (ino t) else final (ino t))"
proof (induction t arbitrary: k p)
  case (Node l z r)
  obtain a c where z: "z = (a, c)" by (cases z)
  note f = focus_reads [of s k l a c r]
  then show ?case
    using Node.IH(1) [of "InLeft a c r # k" a] Node.IH(2) [of "InRight l a c # k" a] Node.prems z
    by (cases "l = Leaf"; cases "r = Leaf")
      (simp_all add: rb_minmax_loop.simps [of val p a] first_append okp_def)
qed (simp add: rb_minmax_loop.simps)

lemma holds_minmax:
  assumes "rb_holds cmp s xs"
  shows "RB_MINMAX RB_NEGINF s = Some (first xs)" and "RB_MINMAX RB_INF s = Some (final xs)"
proof -
  obtain t where t: "rb_tree s t" "ino t = xs" using assms unfolding rb_holds_def by blast
  then have "rb_tree s (plug [] t)" "rbh_root s = addr t" by (simp_all add: rb_tree_def)
  with minmax_loop [of s "[]" t] t(2) show "RB_MINMAX RB_NEGINF s = Some (first xs)" "RB_MINMAX RB_INF s = Some (final xs)"
    by (auto simp: RB_MINMAX_def RB_NEGINF_def RB_INF_def)
qed

lemma holds_neighbours:
  assumes "rb_holds cmp s (us @ a # vs)"
  shows "RB_NEXT a s = Some (first vs)" and "RB_PREV a s = Some (final us)" and "a \<noteq> 0"
proof -
  obtain t where "rb_tree s t" "ino t = us @ a # vs" using assms unfolding rb_holds_def by blast
  then show "RB_NEXT a s = Some (first vs)" and "RB_PREV a s = Some (final us)" and "a \<noteq> 0"
    by (rule rb_adjacent)+
qed

section \<open>The loops visit every element once\<close>

lemma foreach_loop:
  "rb_holds cmp s (us @ vs) \<Longrightarrow> rb_foreach_loop (first vs) s = Some vs"
proof (induction vs arbitrary: us)
  case (Cons a vs)
  then show ?case using Cons.IH [of "us @ [a]"] holds_neighbours [OF Cons.prems]
    by (simp add: rb_foreach_loop.simps [of a])
qed (simp add: rb_foreach_loop.simps)

lemma holds_remove:
  assumes "cmp_order cmp" and "rb_holds cmp s (us @ a # vs)"
  obtains s' where "RB_REMOVE a s = Some (a, s')" and "rb_holds cmp s' (us @ vs)"
proof -
  have "distinct (us @ a # vs)" using assms ordered_distinct unfolding rb_holds_def by blast
  then have "remove1 a (us @ a # vs) = us @ vs" by (simp add: remove1_append)
  then show ?thesis using removed [OF assms(2), of a] that by auto
qed

lemma foreach_from:
  assumes "cmp_order cmp"
  shows "rb_holds cmp s (us @ vs) \<Longrightarrow> \<exists>s'. RB_FOREACH_FROM rm (first vs) s = Some (vs, s') \<and>
    rb_holds cmp s' (us @ filter (\<lambda>a. \<not> rm a) vs)"
proof (induction vs arbitrary: us s)
  case (Cons a vs)
  note n = holds_neighbours [OF Cons.prems]
  show ?case
  proof (cases "rm a")
    case True
    obtain s1 where "RB_REMOVE a s = Some (a, s1)" "rb_holds cmp s1 (us @ vs)"
      by (rule holds_remove [OF assms Cons.prems]) (rule that; assumption)
    then show ?thesis using True n Cons.IH [of s1 us] by (auto simp: RB_FOREACH_FROM.simps [of rm a])
  next
    case False
    then show ?thesis using n Cons.IH [of s "us @ [a]"] Cons.prems by (auto simp: RB_FOREACH_FROM.simps [of rm a])
  qed
qed (simp add: RB_FOREACH_FROM.simps)

lemma foreach_reverse_from:
  assumes "cmp_order cmp"
  shows "rb_holds cmp s (us @ vs) \<Longrightarrow> \<exists>s'. RB_FOREACH_REVERSE_FROM rm (final us) s = Some (rev us, s') \<and>
    rb_holds cmp s' (filter (\<lambda>a. \<not> rm a) us @ vs)"
proof (induction us arbitrary: vs s rule: rev_induct)
  case (snoc a us)
  then have h: "rb_holds cmp s (us @ a # vs)" by simp
  note n = holds_neighbours [OF h]
  show ?case
  proof (cases "rm a")
    case True
    obtain s1 where "RB_REMOVE a s = Some (a, s1)" "rb_holds cmp s1 (us @ vs)"
      by (rule holds_remove [OF assms h]) (rule that; assumption)
    then show ?thesis using True n snoc.IH [of s1 vs] by (auto simp: RB_FOREACH_REVERSE_FROM.simps [of rm a] first_append)
  next
    case False
    then show ?thesis using n snoc.IH [of s "a # vs"] h
      by (auto simp: RB_FOREACH_REVERSE_FROM.simps [of rm a] first_append)
  qed
qed (simp add: RB_FOREACH_REVERSE_FROM.simps)

text \<open>
  The loops over a red-black tree return and visit each element once, in order. The loops that
  hold the next element before the body runs may have a body that removes the element it is given:
  they still visit every element, and the tree ends with those that were not removed. A loop
  that starts at an element visits it and all that follow, or precede, it.
\<close>

lemma rb_foreach_correct:
  assumes "cmp_order cmp" and "rb_holds cmp s (us @ vs)"
  shows "RB_FOREACH s = Some (us @ vs) \<and>
    (\<exists>s'. RB_FOREACH_SAFE rm s = Some (us @ vs, s') \<and> rb_holds cmp s' (filter (\<lambda>a. \<not> rm a) (us @ vs))) \<and>
    (\<exists>s'. RB_FOREACH_FROM rm (first vs) s = Some (vs, s') \<and> rb_holds cmp s' (us @ filter (\<lambda>a. \<not> rm a) vs)) \<and>
    (\<exists>s'. RB_FOREACH_REVERSE_FROM rm (final us) s = Some (rev us, s') \<and>
       rb_holds cmp s' (filter (\<lambda>a. \<not> rm a) us @ vs))"
proof -
  note m = holds_minmax(1) [OF assms(2)]
  have h: "rb_holds cmp s ([] @ us @ vs)" using assms(2) by simp
  show ?thesis
    using m foreach_loop [OF h] foreach_from [OF assms(1) h, of rm] foreach_from [OF assms, of rm]
      foreach_reverse_from [OF assms, of rm]
    by (simp add: RB_FOREACH_def RB_FOREACH_SAFE_def)
qed

end
