(* ===== verification/OrderedStore.thy ===== *)
theory OrderedStore
  imports CmpOrder "HOL-Library.Monad_Syntax"
begin

text \<open>
  What the two search trees of \<^verbatim>\<open>libkern/tree.h\<close> promise their clients, as one interface: requests to
  insert, remove and find an element and to visit all of them, and the answers the increasing sequence of the
  elements gives. An implementation that answers single requests like the sequence answers every series
  of requests like it. Nothing in this theory models code.
\<close>

datatype request = Insert u64 | Remove u64 | Find u64 | Visit

text \<open>An insertion answers with the equal element that is there already, or null.\<close>

definition put_elm :: "elm_cmp \<Rightarrow> u64 \<Rightarrow> u64 list \<Rightarrow> u64 \<times> u64 list" where
  "put_elm cmp x xs = (case find (\<lambda>a. cmp x a = 0) xs of Some a \<Rightarrow> (a, xs) | None \<Rightarrow> (0, insert_elm cmp x xs))"

fun answer :: "elm_cmp \<Rightarrow> request \<Rightarrow> u64 list \<Rightarrow> u64 list \<times> u64 list" where
  "answer cmp (Insert x) xs = ([fst (put_elm cmp x xs)], snd (put_elm cmp x xs))"
| "answer cmp (Remove x) xs = ([x], remove1 x xs)"
| "answer cmp (Find x) xs = ([pick 0 (\<lambda>a. cmp x a = 0) xs], xs)"
| "answer cmp Visit xs = (xs, xs)"

text \<open>An element can be inserted when it is a usable address and not linked, and removed when it is linked.\<close>

fun legal :: "(u64 \<Rightarrow> bool) \<Rightarrow> request \<Rightarrow> u64 list \<Rightarrow> bool" where
  "legal ok (Insert x) xs \<longleftrightarrow> ok x \<and> x \<notin> set xs"
| "legal ok (Remove x) xs \<longleftrightarrow> x \<in> set xs"
| "legal ok r xs \<longleftrightarrow> True"

fun all_answers :: "elm_cmp \<Rightarrow> request list \<Rightarrow> u64 list \<Rightarrow> u64 list list \<times> u64 list" where
  "all_answers cmp [] xs = ([], xs)"
| "all_answers cmp (r # rs) xs = (let (a, xs) = answer cmp r xs; (as, xs) = all_answers cmp rs xs in (a # as, xs))"

fun all_legal :: "(u64 \<Rightarrow> bool) \<Rightarrow> elm_cmp \<Rightarrow> request list \<Rightarrow> u64 list \<Rightarrow> bool" where
  "all_legal ok cmp [] xs \<longleftrightarrow> True"
| "all_legal ok cmp (r # rs) xs \<longleftrightarrow> legal ok r xs \<and> all_legal ok cmp rs (snd (answer cmp r xs))"

text \<open>Serving requests with the operations of an implementation.\<close>

type_synonym 'st op = "elm_cmp \<Rightarrow> u64 \<Rightarrow> 'st \<Rightarrow> (u64 \<times> 'st) option"
type_synonym 'st walk = "elm_cmp \<Rightarrow> 'st \<Rightarrow> (u64 list \<times> 'st) option"

fun serve1 :: "'st op \<Rightarrow> 'st op \<Rightarrow> 'st op \<Rightarrow> 'st walk \<Rightarrow> elm_cmp \<Rightarrow> request \<Rightarrow> 'st \<Rightarrow> (u64 list \<times> 'st) option" where
  "serve1 ins del fnd vis cmp (Insert x) s = map_option (apfst (\<lambda>a. [a])) (ins cmp x s)"
| "serve1 ins del fnd vis cmp (Remove x) s = map_option (apfst (\<lambda>a. [a])) (del cmp x s)"
| "serve1 ins del fnd vis cmp (Find x) s = map_option (apfst (\<lambda>a. [a])) (fnd cmp x s)"
| "serve1 ins del fnd vis cmp Visit s = vis cmp s"

fun serve ::
  "'st op \<Rightarrow> 'st op \<Rightarrow> 'st op \<Rightarrow> 'st walk \<Rightarrow> elm_cmp \<Rightarrow> request list \<Rightarrow> 'st \<Rightarrow> (u64 list list \<times> 'st) option" where
  "serve ins del fnd vis cmp [] s = Some ([], s)"
| "serve ins del fnd vis cmp (r # rs) s = do {
     (a, s) \<leftarrow> serve1 ins del fnd vis cmp r s;
     (as, s) \<leftarrow> serve ins del fnd vis cmp rs s;
     Some (a # as, s) }"

text \<open>\<open>holds cmp s xs\<close>: the state \<open>s\<close> represents the increasing sequence \<open>xs\<close>.\<close>

locale ordered_store =
  fixes holds :: "elm_cmp \<Rightarrow> 'st \<Rightarrow> u64 list \<Rightarrow> bool"
    and ok :: "u64 \<Rightarrow> bool"
    and ins :: "'st op" and del :: "'st op" and fnd :: "'st op" and vis :: "'st walk"
  assumes ins_law: "cmp_order cmp \<Longrightarrow> holds cmp s xs \<Longrightarrow> ok x \<Longrightarrow> x \<notin> set xs \<Longrightarrow>
      \<exists>s'. ins cmp x s = Some (fst (put_elm cmp x xs), s') \<and> holds cmp s' (snd (put_elm cmp x xs))"
    and del_law: "cmp_order cmp \<Longrightarrow> holds cmp s xs \<Longrightarrow> x \<in> set xs \<Longrightarrow>
      \<exists>s'. del cmp x s = Some (x, s') \<and> holds cmp s' (remove1 x xs)"
    and fnd_law: "cmp_order cmp \<Longrightarrow> holds cmp s xs \<Longrightarrow>
      \<exists>s'. fnd cmp x s = Some (pick 0 (\<lambda>a. cmp x a = 0) xs, s') \<and> holds cmp s' xs"
    and vis_law: "cmp_order cmp \<Longrightarrow> holds cmp s xs \<Longrightarrow> \<exists>s'. vis cmp s = Some (xs, s') \<and> holds cmp s' xs"
begin

lemma serve1_answer:
  assumes "cmp_order cmp" and "holds cmp s xs" and "legal ok r xs"
  shows "\<exists>s'. serve1 ins del fnd vis cmp r s = Some (fst (answer cmp r xs), s') \<and> holds cmp s' (snd (answer cmp r xs))"
proof (cases r)
  case (Insert x)
  then show ?thesis using ins_law [OF assms(1,2), of x] assms(3) by auto
next
  case (Remove x)
  then show ?thesis using del_law [OF assms(1,2), of x] assms(3) by auto
next
  case (Find x)
  then show ?thesis using fnd_law [OF assms(1,2), of x] by auto
next
  case Visit
  then show ?thesis using vis_law [OF assms(1,2)] by simp
qed

lemma serve_all:
  assumes "cmp_order cmp"
  shows "holds cmp s xs \<Longrightarrow> all_legal ok cmp rs xs \<Longrightarrow>
    \<exists>s'. serve ins del fnd vis cmp rs s = Some (fst (all_answers cmp rs xs), s') \<and> holds cmp s' (snd (all_answers cmp rs xs))"
proof (induction rs arbitrary: s xs)
  case (Cons r rs)
  obtain s1 where "serve1 ins del fnd vis cmp r s = Some (fst (answer cmp r xs), s1)" "holds cmp s1 (snd (answer cmp r xs))"
    using serve1_answer [OF assms Cons.prems(1)] Cons.prems(2) by auto
  with Cons.IH [of s1 "snd (answer cmp r xs)"] Cons.prems(2) show ?case
    by (auto split: prod.splits)
qed simp

end

end
