(* ===== verification/RbSet.thy ===== *)
theory RbSet
  imports RbIter OrderedStore
begin

text \<open>
  The red-black trees of \<^verbatim>\<open>libkern/tree.h\<close> as an implementation of the ordered store, and the number of
  rounds their searches take.
\<close>

section \<open>Series of requests\<close>

definition rb_delete :: "rb_state op" where
  "rb_delete cmp x s = RB_REMOVE x s"

definition rb_lookup :: "rb_state op" where
  "rb_lookup cmp x s = map_option (\<lambda>a. (a, s)) (RB_FIND cmp x s)"

lemma rb_init_holds: "rb_holds cmp (RB_INIT s) []"
  unfolding rb_holds_def by (intro conjI exI [of _ Leaf]) (simp_all add: RB_INIT_def rb_tree_def rbt_def)

definition rb_walk :: "rb_state walk" where
  "rb_walk cmp s = map_option (\<lambda>xs. (xs, s)) (RB_FOREACH s)"

interpretation rb: ordered_store rb_holds okp RB_INSERT rb_delete rb_lookup rb_walk
proof
  fix cmp s xs x
  assume "cmp_order cmp" and h: "rb_holds cmp s xs" and "okp x" and "x \<notin> set xs"
  then show "\<exists>s'. RB_INSERT cmp x s = Some (fst (put_elm cmp x xs), s') \<and> rb_holds cmp s' (snd (put_elm cmp x xs))"
    using inserted [of cmp s xs x] by (auto simp: put_elm_def split: option.splits)
next
  fix cmp s xs x
  assume "rb_holds cmp s xs" and "x \<in> set xs"
  then show "\<exists>s'. rb_delete cmp x s = Some (x, s') \<and> rb_holds cmp s' (remove1 x xs)"
    using removed [of cmp s xs x] by (auto simp: rb_delete_def)
next
  fix cmp s xs x
  assume "cmp_order cmp" and "rb_holds cmp s xs"
  then show "\<exists>s'. rb_lookup cmp x s = Some (pick 0 (\<lambda>a. cmp x a = 0) xs, s') \<and> rb_holds cmp s' xs"
    using searched [of cmp s xs x] by (auto simp: rb_lookup_def)
next
  fix cmp s xs
  assume "cmp_order cmp" and "rb_holds cmp s xs"
  then show "\<exists>s'. rb_walk cmp s = Some (xs, s') \<and> rb_holds cmp s' xs"
    using rb_foreach_correct [of cmp s xs "[]"] by (simp add: rb_walk_def)
qed

section \<open>Rounds of a search\<close>

text \<open>The loop of the search, with the number of its rounds beside its result.\<close>

partial_function (option) rb_find_rounds :: "elm_cmp \<Rightarrow> u64 \<Rightarrow> u64 \<Rightarrow> rb_state \<Rightarrow> (u64 \<times> nat) option" where
  "rb_find_rounds cmp elm tmp s =
     (if tmp = 0 then Some (0, 0)
      else do {
        let ord = cmp elm tmp;
        (if ord < 0 then do { l \<leftarrow> RB_LEFT tmp s; (a, n) \<leftarrow> rb_find_rounds cmp elm l s; Some (a, Suc n) }
         else if ord > 0 then do { r \<leftarrow> RB_RIGHT tmp s; (a, n) \<leftarrow> rb_find_rounds cmp elm r s; Some (a, Suc n) }
         else Some (tmp, 1)) })"

lemma find_rounds:
  "rb_tree s (plug k t) \<Longrightarrow> \<exists>a n. n \<le> height t \<and> rb_find_rounds cmp x (addr t) s = Some (a, n) \<and>
     rb_find_loop cmp x (addr t) s = Some a"
proof (induction t arbitrary: k)
  case (Node l z r)
  obtain a c where z: "z = (a, c)" by (cases z)
  have h: "rb_tree s (plug k (Node l (a, c) r))" using Node.prems z by simp
  note f = focus_reads [OF h]
  have a: "a \<noteq> 0" using f(5) by (simp add: okp_def)
  obtain b n d m where "n \<le> height l" "rb_find_rounds cmp x (addr l) s = Some (b, n)" "rb_find_loop cmp x (addr l) s = Some b"
      "m \<le> height r" "rb_find_rounds cmp x (addr r) s = Some (d, m)" "rb_find_loop cmp x (addr r) s = Some d"
    using Node.IH(1) [of "InLeft a c r # k"] Node.IH(2) [of "InRight l a c # k"] h by auto
  with f a z show ?case
    by (cases "cmp x a" "0 :: int" rule: linorder_cases)
      (auto simp: Let_def rb_find_rounds.simps [of cmp x a] rb_find_loop.simps [of cmp x a])
qed (simp add: rb_find_rounds.simps rb_find_loop.simps)

lemma find_bounded:
  assumes "rb_holds cmp s xs"
  shows "\<exists>a n. RB_FIND cmp x s = Some a \<and> rb_find_rounds cmp x (rbh_root s) s = Some (a, n) \<and> 2 ^ n \<le> (length xs + 1)\<^sup>2"
proof -
  obtain t where t: "rb_tree s (plug [] t)" "rbt t" "ino t = xs" using assms unfolding rb_holds_def by auto
  then have r: "rbh_root s = addr t" by (simp add: rb_tree_def)
  obtain a n where n: "n \<le> height t" "rb_find_rounds cmp x (addr t) s = Some (a, n)" "rb_find_loop cmp x (addr t) s = Some a"
    using find_rounds [OF t(1)] by blast
  have "(2::nat) ^ n \<le> 2 ^ height t" using n(1) by simp
  also have "\<dots> \<le> (size1 t)\<^sup>2" using t(2) by (rule rbt_height)
  also have "size1 t = length xs + 1" using t(3) by (metis length_inorder length_map size1_size)
  finally show ?thesis using n(2,3) r by (auto simp: RB_FIND_def)
qed

text \<open>
  Searches in a red-black tree: the exact search returns the element that compares equal, or null; the other one
  the least element that is not below the key, or null. In a tree of \<open>n\<close> elements the search takes at most
  \<open>2 * log2 (n + 1)\<close> rounds, the bound the header states.
\<close>

lemma rb_search_correct:
  assumes "cmp_order cmp" and "rb_holds cmp s xs"
  shows "RB_FIND cmp x s = Some (pick 0 (\<lambda>a. cmp x a = 0) xs) \<and>
    RB_NFIND cmp x s = Some (pick 0 (\<lambda>a. cmp x a \<le> 0) xs) \<and>
    (\<exists>n. rb_find_rounds cmp x (rbh_root s) s = Some (pick 0 (\<lambda>a. cmp x a = 0) xs, n) \<and> 2 ^ n \<le> (length xs + 1)\<^sup>2)"
  using searched [OF assms] find_bounded [OF assms(2), of x] by auto

end
