(* ===== verification/SplayTree.thy ===== *)
theory SplayTree
  imports OrderedStore "HOL-Library.Tree"
begin

text \<open>
  The splay trees of \<^verbatim>\<open>libkern/tree.h\<close> on a store of entries. The client's comparison is the
  parameter \<open>cmp\<close>; \<open>nd\<close> is the address of the local variable \<^verbatim>\<open>__node\<close> of the splay operations,
  whose two fields collect the parts taken off the tree. An operation that dereferences the null pointer
  has no result, and neither has a loop that does not end.
\<close>

section \<open>Entries\<close>

record splay_entry =
  spe_left :: u64
  spe_right :: u64

record splay_state =
  sph_root :: u64
  sp_mem :: "u64 \<Rightarrow> splay_entry"

definition SPLAY_INIT :: "splay_state \<Rightarrow> splay_state" where
  "SPLAY_INIT s = s\<lparr>sph_root := 0\<rparr>"

definition SPLAY_LEFT :: "u64 \<Rightarrow> splay_state \<Rightarrow> u64 option" where
  "SPLAY_LEFT elm s = (if elm = 0 then None else Some (spe_left (sp_mem s elm)))"

definition SPLAY_RIGHT :: "u64 \<Rightarrow> splay_state \<Rightarrow> u64 option" where
  "SPLAY_RIGHT elm s = (if elm = 0 then None else Some (spe_right (sp_mem s elm)))"

definition set_SPLAY_LEFT :: "u64 \<Rightarrow> u64 \<Rightarrow> splay_state \<Rightarrow> splay_state option" where
  "set_SPLAY_LEFT elm v s = (if elm = 0 then None
     else Some (s\<lparr>sp_mem := (sp_mem s)(elm := (sp_mem s elm)\<lparr>spe_left := v\<rparr>)\<rparr>))"

definition set_SPLAY_RIGHT :: "u64 \<Rightarrow> u64 \<Rightarrow> splay_state \<Rightarrow> splay_state option" where
  "set_SPLAY_RIGHT elm v s = (if elm = 0 then None
     else Some (s\<lparr>sp_mem := (sp_mem s)(elm := (sp_mem s elm)\<lparr>spe_right := v\<rparr>)\<rparr>))"

definition SPLAY_EMPTY :: "splay_state \<Rightarrow> bool" where
  "SPLAY_EMPTY s \<longleftrightarrow> sph_root s = 0"

section \<open>Steps of the splay operation\<close>

definition SPLAY_ROTATE_RIGHT :: "u64 \<Rightarrow> splay_state \<Rightarrow> splay_state option" where
  "SPLAY_ROTATE_RIGHT tmp s = do {
     v \<leftarrow> SPLAY_RIGHT tmp s;
     s \<leftarrow> set_SPLAY_LEFT (sph_root s) v s;
     s \<leftarrow> set_SPLAY_RIGHT tmp (sph_root s) s;
     Some (s\<lparr>sph_root := tmp\<rparr>) }"

definition SPLAY_ROTATE_LEFT :: "u64 \<Rightarrow> splay_state \<Rightarrow> splay_state option" where
  "SPLAY_ROTATE_LEFT tmp s = do {
     v \<leftarrow> SPLAY_LEFT tmp s;
     s \<leftarrow> set_SPLAY_RIGHT (sph_root s) v s;
     s \<leftarrow> set_SPLAY_LEFT tmp (sph_root s) s;
     Some (s\<lparr>sph_root := tmp\<rparr>) }"

text \<open>Both links return the new value of the pointer they are given.\<close>

definition SPLAY_LINKLEFT :: "u64 \<Rightarrow> splay_state \<Rightarrow> (u64 \<times> splay_state) option" where
  "SPLAY_LINKLEFT tmp s = do {
     s \<leftarrow> set_SPLAY_LEFT tmp (sph_root s) s;
     let tmp = sph_root s;
     l \<leftarrow> SPLAY_LEFT (sph_root s) s;
     Some (tmp, s\<lparr>sph_root := l\<rparr>) }"

definition SPLAY_LINKRIGHT :: "u64 \<Rightarrow> splay_state \<Rightarrow> (u64 \<times> splay_state) option" where
  "SPLAY_LINKRIGHT tmp s = do {
     s \<leftarrow> set_SPLAY_RIGHT tmp (sph_root s) s;
     let tmp = sph_root s;
     r \<leftarrow> SPLAY_RIGHT (sph_root s) s;
     Some (tmp, s\<lparr>sph_root := r\<rparr>) }"

definition SPLAY_ASSEMBLE :: "u64 \<Rightarrow> u64 \<Rightarrow> u64 \<Rightarrow> splay_state \<Rightarrow> splay_state option" where
  "SPLAY_ASSEMBLE node lft rgt s = do {
     v \<leftarrow> SPLAY_LEFT (sph_root s) s;
     s \<leftarrow> set_SPLAY_RIGHT lft v s;
     v \<leftarrow> SPLAY_RIGHT (sph_root s) s;
     s \<leftarrow> set_SPLAY_LEFT rgt v s;
     v \<leftarrow> SPLAY_RIGHT node s;
     s \<leftarrow> set_SPLAY_LEFT (sph_root s) v s;
     v \<leftarrow> SPLAY_LEFT node s;
     set_SPLAY_RIGHT (sph_root s) v s }"

text \<open>
  The two branches of the loop, for a comparison \<open>f\<close> with the key: whether the loop goes on, and the
  new value of \<^verbatim>\<open>__right\<close> or \<^verbatim>\<open>__left\<close>.
\<close>

definition splay_lower :: "(u64 \<Rightarrow> int) \<Rightarrow> u64 \<Rightarrow> splay_state \<Rightarrow> (bool \<times> u64 \<times> splay_state) option" where
  "splay_lower f rgt s = do {
     tmp \<leftarrow> SPLAY_LEFT (sph_root s) s;
     (if tmp = 0 then Some (False, rgt, s)
      else do {
        (stop, s) \<leftarrow> (if f tmp < 0 then do {
            s \<leftarrow> SPLAY_ROTATE_RIGHT tmp s;
            l \<leftarrow> SPLAY_LEFT (sph_root s) s;
            Some (l = 0, s) }
          else Some (False, s));
        (if stop then Some (False, rgt, s)
         else do {
           (rgt, s) \<leftarrow> SPLAY_LINKLEFT rgt s;
           Some (True, rgt, s) }) }) }"

definition splay_higher :: "(u64 \<Rightarrow> int) \<Rightarrow> u64 \<Rightarrow> splay_state \<Rightarrow> (bool \<times> u64 \<times> splay_state) option" where
  "splay_higher f lft s = do {
     tmp \<leftarrow> SPLAY_RIGHT (sph_root s) s;
     (if tmp = 0 then Some (False, lft, s)
      else do {
        (stop, s) \<leftarrow> (if f tmp > 0 then do {
            s \<leftarrow> SPLAY_ROTATE_LEFT tmp s;
            r \<leftarrow> SPLAY_RIGHT (sph_root s) s;
            Some (r = 0, s) }
          else Some (False, s));
        (if stop then Some (False, lft, s)
         else do {
           (lft, s) \<leftarrow> SPLAY_LINKRIGHT lft s;
           Some (True, lft, s) }) }) }"

text \<open>The comparison reads the key of the root.\<close>

partial_function (option) splay_loop ::
  "elm_cmp \<Rightarrow> u64 \<Rightarrow> u64 \<Rightarrow> u64 \<Rightarrow> splay_state \<Rightarrow> (u64 \<times> u64 \<times> splay_state) option" where
  "splay_loop cmp elm lft rgt s =
     (if sph_root s = 0 then None
      else do {
        let ord = cmp elm (sph_root s);
        (if ord < 0 then do {
           (go, rgt, s) \<leftarrow> splay_lower (cmp elm) rgt s;
           (if go then splay_loop cmp elm lft rgt s else Some (lft, rgt, s)) }
         else if ord > 0 then do {
           (go, lft, s) \<leftarrow> splay_higher (cmp elm) lft s;
           (if go then splay_loop cmp elm lft rgt s else Some (lft, rgt, s)) }
         else Some (lft, rgt, s)) })"

definition SPLAY :: "u64 \<Rightarrow> elm_cmp \<Rightarrow> u64 \<Rightarrow> splay_state \<Rightarrow> splay_state option" where
  "SPLAY nd cmp elm s = do {
     s \<leftarrow> set_SPLAY_RIGHT nd 0 s;
     s \<leftarrow> set_SPLAY_LEFT nd 0 s;
     (lft, rgt, s) \<leftarrow> splay_loop cmp elm nd nd s;
     SPLAY_ASSEMBLE nd lft rgt s }"

partial_function (option) splay_minmax_loop ::
  "int \<Rightarrow> u64 \<Rightarrow> u64 \<Rightarrow> splay_state \<Rightarrow> (u64 \<times> u64 \<times> splay_state) option" where
  "splay_minmax_loop val lft rgt s =
     (if val < 0 then do {
        (go, rgt, s) \<leftarrow> splay_lower (\<lambda>_. val) rgt s;
        (if go then splay_minmax_loop val lft rgt s else Some (lft, rgt, s)) }
      else if val > 0 then do {
        (go, lft, s) \<leftarrow> splay_higher (\<lambda>_. val) lft s;
        (if go then splay_minmax_loop val lft rgt s else Some (lft, rgt, s)) }
      else splay_minmax_loop val lft rgt s)"

definition SPLAY_MINMAX :: "u64 \<Rightarrow> int \<Rightarrow> splay_state \<Rightarrow> splay_state option" where
  "SPLAY_MINMAX nd val s = do {
     s \<leftarrow> set_SPLAY_RIGHT nd 0 s;
     s \<leftarrow> set_SPLAY_LEFT nd 0 s;
     (lft, rgt, s) \<leftarrow> splay_minmax_loop val nd nd s;
     SPLAY_ASSEMBLE nd lft rgt s }"

section \<open>Operations\<close>

definition SPLAY_FIND :: "u64 \<Rightarrow> elm_cmp \<Rightarrow> u64 \<Rightarrow> splay_state \<Rightarrow> (u64 \<times> splay_state) option" where
  "SPLAY_FIND nd cmp elm s =
     (if SPLAY_EMPTY s then Some (0, s)
      else do {
        s \<leftarrow> SPLAY nd cmp elm s;
        (if cmp elm (sph_root s) = 0 then Some (sph_root s, s) else Some (0, s)) })"

partial_function (option) splay_leftmost :: "u64 \<Rightarrow> splay_state \<Rightarrow> u64 option" where
  "splay_leftmost elm s = do {
     l \<leftarrow> SPLAY_LEFT elm s;
     (if l \<noteq> 0 then splay_leftmost l s else Some elm) }"

definition SPLAY_NEXT :: "u64 \<Rightarrow> elm_cmp \<Rightarrow> u64 \<Rightarrow> splay_state \<Rightarrow> (u64 \<times> splay_state) option" where
  "SPLAY_NEXT nd cmp elm s = do {
     s \<leftarrow> SPLAY nd cmp elm s;
     r \<leftarrow> SPLAY_RIGHT elm s;
     (if r \<noteq> 0 then do { elm \<leftarrow> splay_leftmost r s; Some (elm, s) } else Some (0, s)) }"

definition SPLAY_MIN_MAX :: "u64 \<Rightarrow> int \<Rightarrow> splay_state \<Rightarrow> (u64 \<times> splay_state) option" where
  "SPLAY_MIN_MAX nd val s = do { s \<leftarrow> SPLAY_MINMAX nd val s; Some (sph_root s, s) }"

definition SPLAY_NEGINF :: int where
  "SPLAY_NEGINF = -1"

definition SPLAY_INF :: int where
  "SPLAY_INF = 1"

definition SPLAY_MIN :: "u64 \<Rightarrow> splay_state \<Rightarrow> (u64 \<times> splay_state) option" where
  "SPLAY_MIN nd s = (if SPLAY_EMPTY s then Some (0, s) else SPLAY_MIN_MAX nd SPLAY_NEGINF s)"

definition SPLAY_MAX :: "u64 \<Rightarrow> splay_state \<Rightarrow> (u64 \<times> splay_state) option" where
  "SPLAY_MAX nd s = (if SPLAY_EMPTY s then Some (0, s) else SPLAY_MIN_MAX nd SPLAY_INF s)"

definition SPLAY_INSERT :: "u64 \<Rightarrow> elm_cmp \<Rightarrow> u64 \<Rightarrow> splay_state \<Rightarrow> (u64 \<times> splay_state) option" where
  "SPLAY_INSERT nd cmp elm s =
     (if SPLAY_EMPTY s then do {
        s \<leftarrow> set_SPLAY_RIGHT elm 0 s;
        s \<leftarrow> set_SPLAY_LEFT elm 0 s;
        Some (0, s\<lparr>sph_root := elm\<rparr>) }
      else do {
        s \<leftarrow> SPLAY nd cmp elm s;
        let ord = cmp elm (sph_root s);
        (if ord < 0 then do {
           v \<leftarrow> SPLAY_LEFT (sph_root s) s;
           s \<leftarrow> set_SPLAY_LEFT elm v s;
           s \<leftarrow> set_SPLAY_RIGHT elm (sph_root s) s;
           s \<leftarrow> set_SPLAY_LEFT (sph_root s) 0 s;
           Some (0, s\<lparr>sph_root := elm\<rparr>) }
         else if ord > 0 then do {
           v \<leftarrow> SPLAY_RIGHT (sph_root s) s;
           s \<leftarrow> set_SPLAY_RIGHT elm v s;
           s \<leftarrow> set_SPLAY_LEFT elm (sph_root s) s;
           s \<leftarrow> set_SPLAY_RIGHT (sph_root s) 0 s;
           Some (0, s\<lparr>sph_root := elm\<rparr>) }
         else Some (sph_root s, s)) })"

definition SPLAY_REMOVE :: "u64 \<Rightarrow> elm_cmp \<Rightarrow> u64 \<Rightarrow> splay_state \<Rightarrow> (u64 \<times> splay_state) option" where
  "SPLAY_REMOVE nd cmp elm s =
     (if SPLAY_EMPTY s then Some (0, s)
      else do {
        s \<leftarrow> SPLAY nd cmp elm s;
        (if cmp elm (sph_root s) = 0 then do {
           l \<leftarrow> SPLAY_LEFT (sph_root s) s;
           s \<leftarrow> (if l = 0 then do {
               r \<leftarrow> SPLAY_RIGHT (sph_root s) s;
               Some (s\<lparr>sph_root := r\<rparr>) }
             else do {
               tmp \<leftarrow> SPLAY_RIGHT (sph_root s) s;
               l \<leftarrow> SPLAY_LEFT (sph_root s) s;
               s \<leftarrow> SPLAY nd cmp elm (s\<lparr>sph_root := l\<rparr>);
               set_SPLAY_RIGHT (sph_root s) tmp s });
           Some (elm, s) }
         else Some (0, s)) })"

text \<open>The elements the loop visits: its step splays the tree.\<close>

partial_function (option) splay_foreach_loop ::
  "u64 \<Rightarrow> elm_cmp \<Rightarrow> u64 \<Rightarrow> splay_state \<Rightarrow> (u64 list \<times> splay_state) option" where
  "splay_foreach_loop nd cmp x s =
     (if x = 0 then Some ([], s)
      else do {
        (y, s) \<leftarrow> SPLAY_NEXT nd cmp x s;
        (xs, s) \<leftarrow> splay_foreach_loop nd cmp y s;
        Some (x # xs, s) })"

definition SPLAY_FOREACH :: "u64 \<Rightarrow> elm_cmp \<Rightarrow> splay_state \<Rightarrow> (u64 list \<times> splay_state) option" where
  "SPLAY_FOREACH nd cmp s = do { (x, s) \<leftarrow> SPLAY_MIN nd s; splay_foreach_loop nd cmp x s }"

section \<open>What a splay does to a tree\<close>

text \<open>
  The parts taken off: below each node of \<open>ls\<close> hangs its left subtree, and the next part hangs to
  its right; the last part comes first. Dually for \<open>rs\<close>.
\<close>

type_synonym lparts = "(u64 tree \<times> u64) list"
type_synonym rparts = "(u64 \<times> u64 tree) list"

fun joinl :: "lparts \<Rightarrow> u64 tree \<Rightarrow> u64 tree" where
  "joinl [] t = t"
| "joinl ((l, a) # ls) t = joinl ls (Node l a t)"

fun joinr :: "rparts \<Rightarrow> u64 tree \<Rightarrow> u64 tree" where
  "joinr [] t = t"
| "joinr ((a, r) # rs) t = joinr rs (Node t a r)"

fun seql :: "lparts \<Rightarrow> u64 list" where
  "seql [] = []"
| "seql ((l, a) # ls) = seql ls @ inorder l @ [a]"

fun seqr :: "rparts \<Rightarrow> u64 list" where
  "seqr [] = []"
| "seqr ((a, r) # rs) = a # inorder r @ seqr rs"

text \<open>Rounds and the loop, for the comparison \<open>f\<close> with the key.\<close>

fun lower :: "(u64 \<Rightarrow> int) \<Rightarrow> u64 tree \<Rightarrow> rparts \<Rightarrow> bool \<times> u64 tree \<times> rparts" where
  "lower f (Node (Node ll b lr) a r) rs =
     (if f b < 0 then
        if ll = Leaf then (False, Node Leaf b (Node lr a r), rs) else (True, ll, (b, Node lr a r) # rs)
      else (True, Node ll b lr, (a, r) # rs))"
| "lower f t rs = (False, t, rs)"

fun higher :: "(u64 \<Rightarrow> int) \<Rightarrow> u64 tree \<Rightarrow> lparts \<Rightarrow> bool \<times> u64 tree \<times> lparts" where
  "higher f (Node l a (Node rl b rr)) ls =
     (if f b > 0 then
        if rr = Leaf then (False, Node (Node l a rl) b Leaf, ls) else (True, rr, (Node l a rl, b) # ls)
      else (True, Node rl b rr, (l, a) # ls))"
| "higher f t ls = (False, t, ls)"

lemma lower_size: "lower f t rs = (True, t', rs') \<Longrightarrow> size t' < size t"
  by (induction f t rs rule: lower.induct) (auto split: if_splits)

lemma higher_size: "higher f t ls = (True, t', ls') \<Longrightarrow> size t' < size t"
  by (induction f t ls rule: higher.induct) (auto split: if_splits)

function splayed :: "(u64 \<Rightarrow> int) \<Rightarrow> lparts \<Rightarrow> u64 tree \<Rightarrow> rparts \<Rightarrow> lparts \<times> u64 tree \<times> rparts" where
  "splayed f ls Leaf rs = (ls, Leaf, rs)"
| "splayed f ls (Node l a r) rs =
     (if f a < 0 then
        case lower f (Node l a r) rs of (go, t, rs') \<Rightarrow> if go then splayed f ls t rs' else (ls, t, rs')
      else if f a > 0 then
        case higher f (Node l a r) ls of (go, t, ls') \<Rightarrow> if go then splayed f ls' t rs else (ls', t, rs)
      else (ls, Node l a r, rs))"
  by pat_completeness auto
termination
  by (relation "measure (\<lambda>(f, ls, t, rs). size t)") (auto dest!: lower_size [OF sym] higher_size [OF sym])

fun assemble :: "lparts \<times> u64 tree \<times> rparts \<Rightarrow> u64 tree" where
  "assemble (ls, Node l a r, rs) = Node (joinl ls l) a (joinr rs r)"
| "assemble (ls, Leaf, rs) = Leaf"

definition splay_top :: "(u64 \<Rightarrow> int) \<Rightarrow> u64 tree \<Rightarrow> u64 tree" where
  "splay_top f t = assemble (splayed f [] t [])"

text \<open>The key has a place in the sequence.\<close>

definition cut :: "(u64 \<Rightarrow> int) \<Rightarrow> u64 list \<Rightarrow> bool" where
  "cut f xs \<longleftrightarrow> sorted_wrt (\<lambda>b c. (f b \<le> 0 \<longrightarrow> f c < 0) \<and> (0 \<le> f c \<longrightarrow> 0 < f b)) xs"

lemma cut_append: "cut f (xs @ ys) \<longleftrightarrow> cut f xs \<and> cut f ys \<and>
    (\<forall>b\<in>set xs. \<forall>c\<in>set ys. (f b \<le> 0 \<longrightarrow> f c < 0) \<and> (0 \<le> f c \<longrightarrow> 0 < f b))"
  by (simp add: cut_def sorted_wrt_append)

lemma cut_simps [simp]: "cut f []" "cut f (x # xs) \<longleftrightarrow>
    (\<forall>c\<in>set xs. (f x \<le> 0 \<longrightarrow> f c < 0) \<and> (0 \<le> f c \<longrightarrow> 0 < f x)) \<and> cut f xs"
  by (simp_all add: cut_def)

lemma joinl_inorder [simp]: "inorder (joinl ls t) = seql ls @ inorder t"
  by (induction ls t rule: joinl.induct) simp_all

lemma joinr_inorder [simp]: "inorder (joinr rs t) = inorder t @ seqr rs"
  by (induction rs t rule: joinr.induct) simp_all

lemma lower_seq: "lower f t rs = (go, t', rs') \<Longrightarrow> inorder t' @ seqr rs' = inorder t @ seqr rs \<and> (t' = Leaf \<longleftrightarrow> t = Leaf)"
  by (induction f t rs rule: lower.induct) (auto split: if_splits)

lemma higher_seq: "higher f t ls = (go, t', ls') \<Longrightarrow> seql ls' @ inorder t' = seql ls @ inorder t \<and> (t' = Leaf \<longleftrightarrow> t = Leaf)"
  by (induction f t ls rule: higher.induct) (auto split: if_splits)

lemma lower_side:
  assumes "lower f (Node l a r) rs = (go, t', rs')" and "f a < 0" and "cut f (inorder (Node l a r))"
    and "\<forall>b\<in>set (seqr rs). f b < 0"
  shows "\<forall>b\<in>set (seqr rs'). f b < 0" and "cut f (inorder t')"
    and "\<not> go \<Longrightarrow> \<exists>b r'. t' = Node Leaf b r' \<and> f b < 0 \<and> (\<forall>c\<in>set_tree r'. f c < 0)"
  using assms by (auto elim!: lower.elims split: if_splits simp: cut_append)

lemma higher_side:
  assumes "higher f (Node l a r) ls = (go, t', ls')" and "0 < f a" and "cut f (inorder (Node l a r))"
    and "\<forall>b\<in>set (seql ls). 0 < f b"
  shows "\<forall>b\<in>set (seql ls'). 0 < f b" and "cut f (inorder t')"
    and "\<not> go \<Longrightarrow> \<exists>b l'. t' = Node l' b Leaf \<and> 0 < f b \<and> (\<forall>c\<in>set_tree l'. 0 < f c)"
  using assms by (auto elim!: higher.elims split: if_splits simp: cut_append)

lemma splayed_seq:
  "splayed f ls t rs = (ls', t', rs') \<Longrightarrow>
   seql ls' @ inorder t' @ seqr rs' = seql ls @ inorder t @ seqr rs \<and> (t' = Leaf \<longleftrightarrow> t = Leaf)"
proof (induction f ls t rs arbitrary: ls' t' rs' rule: splayed.induct)
  case (2 f ls l a r rs)
  then show ?case
    by (auto split: if_splits prod.splits dest!: lower_seq higher_seq)
qed auto

lemma splayed_side:
  "splayed f ls t rs = (ls', Node l' b r', rs') \<Longrightarrow> cut f (inorder t) \<Longrightarrow>
   \<forall>c\<in>set (seql ls). 0 < f c \<Longrightarrow> \<forall>c\<in>set (seqr rs). f c < 0 \<Longrightarrow>
   (\<forall>c\<in>set (seql ls' @ inorder l'). 0 < f c) \<and> (\<forall>c\<in>set (inorder r' @ seqr rs'). f c < 0)"
proof (induction f ls t rs arbitrary: ls' l' b r' rs' rule: splayed.induct)
  case (2 f ls l a r rs)
  note p = 2(3-) and IH2 = 2(2)
  consider "f a < 0" | "0 < f a" | "f a = 0" by linarith
  then show ?case
  proof cases
    case 1
    obtain go t1 rs1 where lo: "lower f (Node l a r) rs = (go, t1, rs1)" by (metis prod_cases3)
    note side = lower_side [OF lo 1 p(2,4)]
    show ?thesis
    proof (cases go)
      case True
      then show ?thesis using 2(1) [of go "(t1, rs1)" t1 rs1] side(1,2) 1 lo p by auto
    qed (use side 1 lo p in auto)
  next
    case 2
    then have n: "\<not> f a < 0" by simp
    obtain go t1 ls1 where hi: "higher f (Node l a r) ls = (go, t1, ls1)" by (metis prod_cases3)
    note side = higher_side [OF hi 2 p(2,3)]
    show ?thesis
    proof (cases go)
      case True
      then show ?thesis using IH2 [of go "(t1, ls1)" t1 ls1] side(1,2) 2 n hi p by auto
    qed (use side 2 n hi p in auto)
  next
    case 3
    then show ?thesis using p by (auto simp: cut_append)
  qed
qed simp

lemma splay_top_parts:
  assumes "t \<noteq> Leaf" and "cut f (inorder t)"
  obtains l a r where "splay_top f t = Node l a r" and "inorder t = inorder l @ a # inorder r"
    and "\<And>b. b \<in> set_tree l \<Longrightarrow> 0 < f b" and "\<And>b. b \<in> set_tree r \<Longrightarrow> f b < 0"
proof -
  obtain ls t' rs where s: "splayed f [] t [] = (ls, t', rs)" by (metis prod_cases3)
  note q = splayed_seq [OF s]
  then obtain l a r where t': "t' = Node l a r" using assms(1) by (cases t') auto
  have p: "(\<forall>c\<in>set (seql ls @ inorder l). 0 < f c) \<and> (\<forall>c\<in>set (inorder r @ seqr rs). f c < 0)"
    by (rule splayed_side [of f "[]" t "[]"]) (use s t' assms(2) in simp_all)
  then have "0 < f b" if "b \<in> set_tree (joinl ls l)" for b
    using that unfolding set_inorder [symmetric] joinl_inorder by blast
  moreover have "f b < 0" if "b \<in> set_tree (joinr rs r)" for b
    using p that unfolding set_inorder [symmetric] joinr_inorder by blast
  ultimately show ?thesis using q s t' that [of "joinl ls l" a "joinr rs r"] by (simp add: splay_top_def)
qed

section \<open>Trees and parts in the store\<close>

fun top_of :: "u64 tree \<Rightarrow> u64" where
  "top_of Leaf = 0"
| "top_of (Node l a r) = a"

fun sp_at :: "(u64 \<Rightarrow> splay_entry) \<Rightarrow> u64 tree \<Rightarrow> bool" where
  "sp_at m Leaf = True"
| "sp_at m (Node l a r) \<longleftrightarrow> a \<noteq> 0 \<and> m a = \<lparr>spe_left = top_of l, spe_right = top_of r\<rparr> \<and> sp_at m l \<and> sp_at m r"

fun lptr :: "u64 \<Rightarrow> lparts \<Rightarrow> u64" where
  "lptr nd [] = nd"
| "lptr nd ((l, a) # ls) = a"

fun rptr :: "u64 \<Rightarrow> rparts \<Rightarrow> u64" where
  "rptr nd [] = nd"
| "rptr nd ((a, r) # rs) = a"

text \<open>The right link of the last left part is still to be set, and the left link of the last right part.\<close>

fun segl :: "(u64 \<Rightarrow> splay_entry) \<Rightarrow> u64 \<Rightarrow> lparts \<Rightarrow> bool" where
  "segl m nd [] = True"
| "segl m nd ((l, a) # ls) \<longleftrightarrow> a \<noteq> 0 \<and> spe_left (m a) = top_of l \<and> sp_at m l \<and>
     spe_right (m (lptr nd ls)) = a \<and> segl m nd ls"

fun segr :: "(u64 \<Rightarrow> splay_entry) \<Rightarrow> u64 \<Rightarrow> rparts \<Rightarrow> bool" where
  "segr m nd [] = True"
| "segr m nd ((a, r) # rs) \<longleftrightarrow> a \<noteq> 0 \<and> spe_right (m a) = top_of r \<and> sp_at m r \<and>
     spe_left (m (rptr nd rs)) = a \<and> segr m nd rs"

lemma sp_at_cong: "(\<And>a. a \<in> set_tree t \<Longrightarrow> m' a = m a) \<Longrightarrow> sp_at m' t = sp_at m t"
  by (induction m t rule: sp_at.induct) auto

lemma lptr_in: "lptr nd ls = nd \<or> lptr nd ls \<in> set (seql ls)"
  by (cases ls rule: seql.cases) auto

lemma rptr_in: "rptr nd rs = nd \<or> rptr nd rs \<in> set (seqr rs)"
  by (cases rs rule: seqr.cases) auto

lemma lptr_out: "nd \<notin> set (seql ls) \<Longrightarrow> ls \<noteq> [] \<Longrightarrow> lptr nd ls \<noteq> nd"
  by (cases ls rule: seql.cases) auto

lemma rptr_out: "nd \<notin> set (seqr rs) \<Longrightarrow> rs \<noteq> [] \<Longrightarrow> rptr nd rs \<noteq> nd"
  by (cases rs rule: seqr.cases) auto

lemma segl_cong:
  assumes "\<And>a. a \<in> set (seql ls) \<Longrightarrow> m' a = m a" and "spe_right (m' nd) = spe_right (m nd)"
  shows "segl m' nd ls = segl m nd ls"
  using assms(1)
proof (induction ls)
  case (Cons x ls)
  obtain l a where x: "x = (l, a)" by (cases x)
  have "spe_right (m' (lptr nd ls)) = spe_right (m (lptr nd ls))"
    using lptr_in [of nd ls] Cons.prems assms(2) x by auto
  moreover have "sp_at m' l = sp_at m l" by (rule sp_at_cong) (use Cons.prems x in auto)
  ultimately show ?case using Cons x by simp
qed simp

lemma segr_cong:
  assumes "\<And>a. a \<in> set (seqr rs) \<Longrightarrow> m' a = m a" and "spe_left (m' nd) = spe_left (m nd)"
  shows "segr m' nd rs = segr m nd rs"
  using assms(1)
proof (induction rs)
  case (Cons x rs)
  obtain a r where x: "x = (a, r)" by (cases x)
  have "spe_left (m' (rptr nd rs)) = spe_left (m (rptr nd rs))"
    using rptr_in [of nd rs] Cons.prems assms(2) x by auto
  moreover have "sp_at m' r = sp_at m r" by (rule sp_at_cong) (use Cons.prems x in auto)
  ultimately show ?case using Cons x by simp
qed simp

text \<open>The links that are still to be set may change.\<close>

lemma segl_end:
  assumes "distinct (nd # seql ls)" and "\<And>a. a \<in> set (seql ls) \<Longrightarrow> a \<noteq> lptr nd ls \<Longrightarrow> m' a = m a"
    and "ls \<noteq> [] \<Longrightarrow> spe_right (m' nd) = spe_right (m nd)" and "ls \<noteq> [] \<Longrightarrow> spe_left (m' (lptr nd ls)) = spe_left (m (lptr nd ls))"
  shows "segl m' nd ls = segl m nd ls"
proof (cases ls rule: seql.cases)
  case (2 l a ks)
  have "segl m' nd ks = segl m nd ks"
    by (rule segl_cong) (use assms 2 in auto)
  moreover have "sp_at m' l = sp_at m l" by (rule sp_at_cong) (use assms(1,2) 2 in auto)
  moreover have "lptr nd ks \<noteq> a" using lptr_in [of nd ks] assms(1) 2 by auto
  moreover have "spe_right (m' (lptr nd ks)) = spe_right (m (lptr nd ks))"
    using lptr_in [of nd ks] assms(2) [of "lptr nd ks"] assms(1,3) 2 \<open>lptr nd ks \<noteq> a\<close> by auto
  ultimately show ?thesis using assms(4) 2 by simp
qed simp

lemma segr_end:
  assumes "distinct (nd # seqr rs)" and "\<And>a. a \<in> set (seqr rs) \<Longrightarrow> a \<noteq> rptr nd rs \<Longrightarrow> m' a = m a"
    and "rs \<noteq> [] \<Longrightarrow> spe_left (m' nd) = spe_left (m nd)" and "rs \<noteq> [] \<Longrightarrow> spe_right (m' (rptr nd rs)) = spe_right (m (rptr nd rs))"
  shows "segr m' nd rs = segr m nd rs"
proof (cases rs rule: seqr.cases)
  case (2 a r ks)
  have "segr m' nd ks = segr m nd ks"
    by (rule segr_cong) (use assms 2 in auto)
  moreover have "sp_at m' r = sp_at m r" by (rule sp_at_cong) (use assms(1,2) 2 in auto)
  moreover have "rptr nd ks \<noteq> a" using rptr_in [of nd ks] assms(1) 2 by auto
  moreover have "spe_left (m' (rptr nd ks)) = spe_left (m (rptr nd ks))"
    using rptr_in [of nd ks] assms(2) [of "rptr nd ks"] assms(1,3) 2 \<open>rptr nd ks \<noteq> a\<close> by auto
  ultimately show ?thesis using assms(4) 2 by simp
qed simp

lemma segl_join:
  "segl m nd ls \<Longrightarrow> spe_right (m (lptr nd ls)) = top_of t \<Longrightarrow> sp_at m t \<Longrightarrow>
   sp_at m (joinl ls t) \<and> spe_right (m nd) = top_of (joinl ls t)"
proof (induction ls t rule: joinl.induct)
  case (2 l a ls t)
  then show ?case by (cases "m a") auto
qed simp

lemma segr_join:
  "segr m nd rs \<Longrightarrow> spe_left (m (rptr nd rs)) = top_of t \<Longrightarrow> sp_at m t \<Longrightarrow>
   sp_at m (joinr rs t) \<and> spe_left (m nd) = top_of (joinr rs t)"
proof (induction rs t rule: joinr.induct)
  case (2 a r rs t)
  then show ?case by (cases "m a") auto
qed simp

definition spl :: "u64 \<Rightarrow> splay_state \<Rightarrow> lparts \<Rightarrow> u64 tree \<Rightarrow> rparts \<Rightarrow> bool" where
  "spl nd s ls t rs \<longleftrightarrow> sph_root s = top_of t \<and> sp_at (sp_mem s) t \<and> segl (sp_mem s) nd ls \<and> segr (sp_mem s) nd rs \<and>
     nd \<noteq> 0 \<and> distinct (nd # seql ls @ inorder t @ seqr rs)"

definition sp_keeps :: "u64 list \<Rightarrow> splay_state \<Rightarrow> splay_state \<Rightarrow> bool" where
  "sp_keeps xs s s' \<longleftrightarrow> (\<forall>p. p \<notin> set xs \<longrightarrow> sp_mem s' p = sp_mem s p)"

lemma keeps_refl [simp]: "sp_keeps xs s s"
  by (simp add: sp_keeps_def)

lemma keeps_trans: "sp_keeps xs s s1 \<Longrightarrow> sp_keeps xs s1 s2 \<Longrightarrow> sp_keeps xs s s2"
  by (simp add: sp_keeps_def)

lemmas splay_links = SPLAY_LEFT_def SPLAY_RIGHT_def set_SPLAY_LEFT_def set_SPLAY_RIGHT_def

lemma spl_parts:
  assumes "spl nd s ls t rs"
  shows "nd \<noteq> 0" and "lptr nd ls \<noteq> 0" and "rptr nd rs \<noteq> 0" and "lptr nd ls \<notin> set_tree t" and "rptr nd rs \<notin> set_tree t"
    and "lptr nd ls \<notin> set (seqr rs)" and "rptr nd rs \<notin> set (seql ls)"
proof -
  show "nd \<noteq> 0" using assms by (simp add: spl_def)
  show "lptr nd ls \<noteq> 0" using assms by (cases ls rule: seql.cases) (auto simp: spl_def)
  show "rptr nd rs \<noteq> 0" using assms by (cases rs rule: seqr.cases) (auto simp: spl_def)
  show "lptr nd ls \<notin> set_tree t" "lptr nd ls \<notin> set (seqr rs)"
    using assms lptr_in [of nd ls] by (auto simp: spl_def)
  show "rptr nd rs \<notin> set_tree t" "rptr nd rs \<notin> set (seql ls)"
    using assms rptr_in [of nd rs] by (auto simp: spl_def)
qed

lemma spl_same:
  assumes "spl nd s ls t rs" and "sph_root s' = top_of t'" and "sp_at (sp_mem s') t'"
    and "inorder t' = inorder t" and "sp_keeps (inorder t) s s'"
  shows "spl nd s' ls t' rs"
proof -
  have "nd \<notin> set_tree t" "\<And>a. a \<in> set (seql ls) \<union> set (seqr rs) \<Longrightarrow> a \<notin> set_tree t"
    using assms(1) by (auto simp: spl_def)
  then have k: "sp_mem s' nd = sp_mem s nd" "\<And>a. a \<in> set (seql ls) \<union> set (seqr rs) \<Longrightarrow> sp_mem s' a = sp_mem s a"
    using assms(5) by (auto simp: sp_keeps_def)
  have "segl (sp_mem s') nd ls = segl (sp_mem s) nd ls" by (rule segl_cong) (use k in auto)
  moreover have "segr (sp_mem s') nd rs = segr (sp_mem s) nd rs" by (rule segr_cong) (use k in auto)
  ultimately show ?thesis using assms(1-4) by (simp add: spl_def)
qed

lemma spl_rotate_right:
  assumes "spl nd s ls (Node (Node ll b lr) a r) rs"
  obtains s' where "SPLAY_ROTATE_RIGHT b s = Some s'" and "spl nd s' ls (Node ll b (Node lr a r)) rs" and "sp_keeps [a, b] s s'"
proof -
  let ?m = "(sp_mem s)(a := \<lparr>spe_left = top_of lr, spe_right = top_of r\<rparr>, b := \<lparr>spe_left = top_of ll, spe_right = a\<rparr>)"
  let ?s = "s\<lparr>sp_mem := ?m, sph_root := b\<rparr>"
  have d: "a \<noteq> b" "\<And>c. c \<in> set_tree ll \<union> set_tree lr \<union> set_tree r \<Longrightarrow> c \<noteq> a \<and> c \<noteq> b"
    using assms by (auto simp: spl_def)
  have r: "SPLAY_ROTATE_RIGHT b s = Some ?s"
    using assms d(1) by (simp add: SPLAY_ROTATE_RIGHT_def splay_links spl_def)
  have "sp_at ?m ll = sp_at (sp_mem s) ll" "sp_at ?m lr = sp_at (sp_mem s) lr" "sp_at ?m r = sp_at (sp_mem s) r"
    by (rule sp_at_cong; use d in auto)+
  then have "sp_at ?m (Node ll b (Node lr a r))" using assms d(1) by (simp add: spl_def)
  moreover have k: "sp_keeps [a, b] s ?s" by (simp add: sp_keeps_def)
  ultimately have "spl nd ?s ls (Node ll b (Node lr a r)) rs"
    by (intro spl_same [OF assms]) (auto simp: sp_keeps_def)
  with r k show ?thesis using that by blast
qed

lemma spl_rotate_left:
  assumes "spl nd s ls (Node l a (Node rl b rr)) rs"
  obtains s' where "SPLAY_ROTATE_LEFT b s = Some s'" and "spl nd s' ls (Node (Node l a rl) b rr) rs" and "sp_keeps [a, b] s s'"
proof -
  let ?m = "(sp_mem s)(a := \<lparr>spe_left = top_of l, spe_right = top_of rl\<rparr>, b := \<lparr>spe_left = a, spe_right = top_of rr\<rparr>)"
  let ?s = "s\<lparr>sp_mem := ?m, sph_root := b\<rparr>"
  have d: "a \<noteq> b" "\<And>c. c \<in> set_tree l \<union> set_tree rl \<union> set_tree rr \<Longrightarrow> c \<noteq> a \<and> c \<noteq> b"
    using assms by (auto simp: spl_def)
  have r: "SPLAY_ROTATE_LEFT b s = Some ?s"
    using assms d(1) by (simp add: SPLAY_ROTATE_LEFT_def splay_links spl_def)
  have "sp_at ?m l = sp_at (sp_mem s) l" "sp_at ?m rl = sp_at (sp_mem s) rl" "sp_at ?m rr = sp_at (sp_mem s) rr"
    by (rule sp_at_cong; use d in auto)+
  then have "sp_at ?m (Node (Node l a rl) b rr)" using assms d(1) by (simp add: spl_def)
  moreover have k: "sp_keeps [a, b] s ?s" by (simp add: sp_keeps_def)
  ultimately have "spl nd ?s ls (Node (Node l a rl) b rr) rs"
    by (intro spl_same [OF assms]) (auto simp: sp_keeps_def)
  with r k show ?thesis using that by blast
qed

lemma linkleft:
  assumes "spl nd s ls (Node l a r) rs"
  obtains s' where "SPLAY_LINKLEFT (rptr nd rs) s = Some (a, s')" and "spl nd s' ls l ((a, r) # rs)"
    and "sp_keeps [rptr nd rs] s s'"
proof -
  note p = spl_parts [OF assms]
  let ?m = "(sp_mem s)(rptr nd rs := (sp_mem s (rptr nd rs))\<lparr>spe_left := a\<rparr>)"
  have a: "a \<noteq> rptr nd rs" using p by auto
  have "segl ?m nd ls = segl (sp_mem s) nd ls" by (rule segl_cong) (use p in auto)
  moreover have "segr ?m nd rs = segr (sp_mem s) nd rs"
    by (rule segr_end) (use assms in \<open>auto simp: spl_def split: if_splits elim: segr.elims\<close>)
  moreover have "sp_at ?m l = sp_at (sp_mem s) l" "sp_at ?m r = sp_at (sp_mem s) r"
    by (rule sp_at_cong; use p in auto)+
  moreover have "SPLAY_LINKLEFT (rptr nd rs) s = Some (a, s\<lparr>sp_mem := ?m, sph_root := top_of l\<rparr>)"
    using assms p a by (simp add: SPLAY_LINKLEFT_def splay_links spl_def)
  ultimately show ?thesis using that [of "s\<lparr>sp_mem := ?m, sph_root := top_of l\<rparr>"] assms a by (auto simp: spl_def sp_keeps_def)
qed

lemma linkright:
  assumes "spl nd s ls (Node l a r) rs"
  obtains s' where "SPLAY_LINKRIGHT (lptr nd ls) s = Some (a, s')" and "spl nd s' ((l, a) # ls) r rs"
    and "sp_keeps [lptr nd ls] s s'"
proof -
  note p = spl_parts [OF assms]
  let ?m = "(sp_mem s)(lptr nd ls := (sp_mem s (lptr nd ls))\<lparr>spe_right := a\<rparr>)"
  have a: "a \<noteq> lptr nd ls" using p by auto
  have "segr ?m nd rs = segr (sp_mem s) nd rs" by (rule segr_cong) (use p in auto)
  moreover have "segl ?m nd ls = segl (sp_mem s) nd ls"
    by (rule segl_end) (use assms in \<open>auto simp: spl_def split: if_splits elim: segl.elims\<close>)
  moreover have "sp_at ?m l = sp_at (sp_mem s) l" "sp_at ?m r = sp_at (sp_mem s) r"
    by (rule sp_at_cong; use p in auto)+
  moreover have "SPLAY_LINKRIGHT (lptr nd ls) s = Some (a, s\<lparr>sp_mem := ?m, sph_root := top_of r\<rparr>)"
    using assms p a by (simp add: SPLAY_LINKRIGHT_def splay_links spl_def)
  ultimately show ?thesis using that [of "s\<lparr>sp_mem := ?m, sph_root := top_of r\<rparr>"] assms a by (auto simp: spl_def sp_keeps_def)
qed

lemma assemble_store:
  assumes "spl nd s ls (Node l a r) rs"
  obtains s' where "SPLAY_ASSEMBLE nd (lptr nd ls) (rptr nd rs) s = Some s'"
    and "sph_root s' = a" and "sp_at (sp_mem s') (Node (joinl ls l) a (joinr rs r))"
    and "sp_keeps [a, lptr nd ls, rptr nd rs] s s'"
proof -
  note p = spl_parts [OF assms]
  let ?m1 = "(sp_mem s)(lptr nd ls := (sp_mem s (lptr nd ls))\<lparr>spe_right := top_of l\<rparr>)"
  let ?m = "?m1(rptr nd rs := (?m1 (rptr nd rs))\<lparr>spe_left := top_of r\<rparr>)"
  let ?m' = "?m(a := \<lparr>spe_left = spe_right (?m nd), spe_right = spe_left (?m nd)\<rparr>)"
  have a: "a \<noteq> lptr nd ls" "a \<noteq> rptr nd rs" "a \<noteq> nd" using p assms by (auto simp: spl_def)
  have "sp_at ?m l = sp_at (sp_mem s) l" "sp_at ?m r = sp_at (sp_mem s) r"
    by (rule sp_at_cong; use p in auto)+
  moreover have "segl ?m nd ls = segl (sp_mem s) nd ls"
    by (rule segl_end) (use assms p lptr_out [of nd ls] lptr_in [of nd ls] in \<open>auto simp: spl_def\<close>)
  moreover have "segr ?m nd rs = segr (sp_mem s) nd rs"
    by (rule segr_end) (use assms p rptr_out [of nd rs] rptr_in [of nd rs] in \<open>auto simp: spl_def\<close>)
  ultimately have "sp_at ?m (joinl ls l) \<and> spe_right (?m nd) = top_of (joinl ls l)"
      "sp_at ?m (joinr rs r) \<and> spe_left (?m nd) = top_of (joinr rs r)"
    using assms by (intro segl_join segr_join; auto simp: spl_def)+
  moreover have "sp_at ?m' (joinl ls l) = sp_at ?m (joinl ls l)" "sp_at ?m' (joinr rs r) = sp_at ?m (joinr rs r)"
    by (rule sp_at_cong; use assms in \<open>auto simp: spl_def set_inorder [symmetric] simp del: set_inorder\<close>)+
  moreover have "SPLAY_ASSEMBLE nd (lptr nd ls) (rptr nd rs) s = Some (s\<lparr>sp_mem := ?m'\<rparr>)"
    using assms p a by (simp add: SPLAY_ASSEMBLE_def splay_links spl_def)
  ultimately show ?thesis using that [of "s\<lparr>sp_mem := ?m'\<rparr>"] assms a by (simp add: spl_def sp_keeps_def)
qed

lemma keeps_mono: "sp_keeps ys s s' \<Longrightarrow> set ys \<subseteq> set xs \<Longrightarrow> sp_keeps xs s s'"
  by (auto simp: sp_keeps_def)

lemma keeps_one: "sp_keeps xs s s1 \<Longrightarrow> sp_keeps [p] s1 s2 \<Longrightarrow> p \<in> set xs \<Longrightarrow> sp_keeps xs s s2"
  by (auto simp: sp_keeps_def)

lemma spl_root: "spl nd s ls (Node l a r) rs \<Longrightarrow> sph_root s = a \<and> a \<noteq> 0 \<and> SPLAY_LEFT a s = Some (top_of l) \<and> SPLAY_RIGHT a s = Some (top_of r)"
  by (simp add: spl_def splay_links)

lemma spl_child: "spl nd s ls (Node (Node ll b lr) a r) rs \<Longrightarrow> b \<noteq> 0" "spl nd s ls (Node l a (Node rl b rr)) rs \<Longrightarrow> b \<noteq> 0"
  by (simp_all add: spl_def)

lemma top_zero: "sp_at m t \<Longrightarrow> top_of t = 0 \<longleftrightarrow> t = Leaf"
  by (cases t) auto

lemma lower_store:
  assumes "spl nd s ls (Node l a r) rs" and "lower f (Node l a r) rs = (go, t', rs')"
  obtains s' where "splay_lower f (rptr nd rs) s = Some (go, rptr nd rs', s')" and "spl nd s' ls t' rs'"
    and "sp_keeps (nd # seql ls @ inorder (Node l a r) @ seqr rs) s s'"
proof (cases l)
  case Leaf
  then show ?thesis using assms that [of s] spl_root [OF assms(1)] by (simp add: splay_lower_def)
next
  case (Node ll b lr)
  note h = assms(1) [unfolded Node] and e = assms(2) [unfolded Node]
  have q: "rptr nd rs \<in> set (nd # seql ls @ inorder (Node l a r) @ seqr rs)" using rptr_in [of nd rs] by auto
  show ?thesis
  proof (cases "f b < 0")
    case True
    obtain s1 where s1: "SPLAY_ROTATE_RIGHT b s = Some s1" "spl nd s1 ls (Node ll b (Node lr a r)) rs" "sp_keeps [a, b] s s1"
      by (rule spl_rotate_right [OF h]) (rule that; assumption)
    have z: "top_of ll = 0 \<longleftrightarrow> ll = Leaf" using s1(2) by (intro top_zero [of "sp_mem s1"]) (simp add: spl_def)
    have k: "sp_keeps (nd # seql ls @ inorder (Node l a r) @ seqr rs) s s1" using s1(3) Node by (auto intro: keeps_mono)
    show ?thesis
    proof (cases "ll = Leaf")
      case True
      with \<open>f b < 0\<close> s1(1,2) k e z that [of s1] show ?thesis
        using spl_root [OF h] spl_child(1) [OF h] spl_root [OF s1(2)] by (auto simp: splay_lower_def Node)
    next
      case False
      obtain s2 where s2: "SPLAY_LINKLEFT (rptr nd rs) s1 = Some (b, s2)" "spl nd s2 ls ll ((b, Node lr a r) # rs)"
          "sp_keeps [rptr nd rs] s1 s2"
        by (rule linkleft [OF s1(2)]) (rule that; assumption)
      have "sp_keeps (nd # seql ls @ inorder (Node l a r) @ seqr rs) s s2"
        using k s2(3) q by (rule keeps_one)
      with False \<open>f b < 0\<close> s1(1) s2(1,2) e z that [of s2] show ?thesis
        using spl_root [OF h] spl_child(1) [OF h] spl_root [OF s1(2)] by (auto simp: splay_lower_def Node)
    qed
  next
    case False
    obtain s2 where s2: "SPLAY_LINKLEFT (rptr nd rs) s = Some (a, s2)" "spl nd s2 ls (Node ll b lr) ((a, r) # rs)"
        "sp_keeps [rptr nd rs] s s2"
      by (rule linkleft [OF h]) (rule that; assumption)
    have "sp_keeps (nd # seql ls @ inorder (Node l a r) @ seqr rs) s s2"
      using keeps_refl s2(3) q by (rule keeps_one)
    with False s2(1,2) e that [of s2] show ?thesis
      using spl_root [OF h] spl_child(1) [OF h] by (auto simp: splay_lower_def Node)
  qed
qed

lemma higher_store:
  assumes "spl nd s ls (Node l a r) rs" and "higher f (Node l a r) ls = (go, t', ls')"
  obtains s' where "splay_higher f (lptr nd ls) s = Some (go, lptr nd ls', s')" and "spl nd s' ls' t' rs"
    and "sp_keeps (nd # seql ls @ inorder (Node l a r) @ seqr rs) s s'"
proof (cases r)
  case Leaf
  then show ?thesis using assms that [of s] spl_root [OF assms(1)] by (simp add: splay_higher_def)
next
  case (Node rl b rr)
  note h = assms(1) [unfolded Node] and e = assms(2) [unfolded Node]
  have q: "lptr nd ls \<in> set (nd # seql ls @ inorder (Node l a r) @ seqr rs)" using lptr_in [of nd ls] by auto
  show ?thesis
  proof (cases "0 < f b")
    case True
    obtain s1 where s1: "SPLAY_ROTATE_LEFT b s = Some s1" "spl nd s1 ls (Node (Node l a rl) b rr) rs" "sp_keeps [a, b] s s1"
      by (rule spl_rotate_left [OF h]) (rule that; assumption)
    have z: "top_of rr = 0 \<longleftrightarrow> rr = Leaf" using s1(2) by (intro top_zero [of "sp_mem s1"]) (simp add: spl_def)
    have k: "sp_keeps (nd # seql ls @ inorder (Node l a r) @ seqr rs) s s1" using s1(3) Node by (auto intro: keeps_mono)
    show ?thesis
    proof (cases "rr = Leaf")
      case True
      with \<open>0 < f b\<close> s1(1,2) k e z that [of s1] show ?thesis
        using spl_root [OF h] spl_child(2) [OF h] spl_root [OF s1(2)] by (auto simp: splay_higher_def Node)
    next
      case False
      obtain s2 where s2: "SPLAY_LINKRIGHT (lptr nd ls) s1 = Some (b, s2)" "spl nd s2 ((Node l a rl, b) # ls) rr rs"
          "sp_keeps [lptr nd ls] s1 s2"
        by (rule linkright [OF s1(2)]) (rule that; assumption)
      have "sp_keeps (nd # seql ls @ inorder (Node l a r) @ seqr rs) s s2"
        using k s2(3) q by (rule keeps_one)
      with False \<open>0 < f b\<close> s1(1) s2(1,2) e z that [of s2] show ?thesis
        using spl_root [OF h] spl_child(2) [OF h] spl_root [OF s1(2)] by (auto simp: splay_higher_def Node)
    qed
  next
    case False
    obtain s2 where s2: "SPLAY_LINKRIGHT (lptr nd ls) s = Some (a, s2)" "spl nd s2 ((l, a) # ls) (Node rl b rr) rs"
        "sp_keeps [lptr nd ls] s s2"
      by (rule linkright [OF h]) (rule that; assumption)
    have "sp_keeps (nd # seql ls @ inorder (Node l a r) @ seqr rs) s s2"
      using keeps_refl s2(3) q by (rule keeps_one)
    with False s2(1,2) e that [of s2] show ?thesis
      using spl_root [OF h] spl_child(2) [OF h] by (auto simp: splay_higher_def Node)
  qed
qed

end
