(* ===== verification/SplayOps.thy ===== *)
theory SplayOps
  imports SplayTree
begin

text \<open>
  The operations of the splay trees of \<^verbatim>\<open>libkern/tree.h\<close> are correct: a splay moves the element a key
  belongs to, or a neighbour of its place, to the top without changing the sequence of the elements, and every
  operation does to that sequence what it should. The trees implement the ordered store.
\<close>

section \<open>The loops\<close>

text \<open>The loop of a splay that ends with \<open>(ls', t', rs')\<close>.\<close>

definition ends_with :: "u64 \<Rightarrow> splay_state \<Rightarrow> u64 list \<Rightarrow> (u64 \<times> u64 \<times> splay_state) option \<Rightarrow> lparts \<times> u64 tree \<times> rparts \<Rightarrow> bool" where
  "ends_with nd s xs r = (\<lambda>(ls, t, rs). \<exists>s'. r = Some (lptr nd ls, rptr nd rs, s') \<and> spl nd s' ls t rs \<and> sp_keeps (nd # xs) s s')"

lemma ends_with_trans:
  "sp_keeps (nd # xs) s s1 \<Longrightarrow> ends_with nd s1 ys r q \<Longrightarrow> xs = ys \<Longrightarrow> ends_with nd s xs r q"
  by (cases q) (auto simp: ends_with_def intro: keeps_trans)

text \<open>
  Both loops satisfy the same equations, for the comparison with a key and for the sign of the end that is asked
  for.
\<close>

lemma loop_store:
  assumes stop: "\<And>s ls l a r rs L R. spl nd s ls (Node l a r) rs \<Longrightarrow> f a = 0 \<Longrightarrow> lp L R s = Some (L, R, s)"
    and low: "\<And>s ls l a r rs L R. spl nd s ls (Node l a r) rs \<Longrightarrow> f a < 0 \<Longrightarrow>
      lp L R s = splay_lower f R s \<bind> (\<lambda>(go, R, s). if go then lp L R s else Some (L, R, s))"
    and high: "\<And>s ls l a r rs L R. spl nd s ls (Node l a r) rs \<Longrightarrow> 0 < f a \<Longrightarrow>
      lp L R s = splay_higher f L s \<bind> (\<lambda>(go, L, s). if go then lp L R s else Some (L, R, s))"
  shows "spl nd s ls t rs \<Longrightarrow> t \<noteq> Leaf \<Longrightarrow>
    ends_with nd s (seql ls @ inorder t @ seqr rs) (lp (lptr nd ls) (rptr nd rs) s) (splayed f ls t rs)"
proof (induction t arbitrary: s ls rs rule: measure_induct_rule [of size])
  case (less t)
  then obtain l a r where t: "t = Node l a r" by (cases t) auto
  note p = less.prems(1) [unfolded t]
  let ?xs = "seql ls @ inorder t @ seqr rs"
  consider "f a < 0" | "0 < f a" | "f a = 0" by linarith
  then show ?case
  proof cases
    case 1
    obtain go t1 rs1 where lo: "lower f (Node l a r) rs = (go, t1, rs1)" by (metis prod_cases3)
    obtain s1 where s1: "splay_lower f (rptr nd rs) s = Some (go, rptr nd rs1, s1)" "spl nd s1 ls t1 rs1"
        and k: "sp_keeps (nd # seql ls @ inorder (Node l a r) @ seqr rs) s s1"
      by (rule lower_store [OF p lo]) (rule that; assumption)
    note q = lower_seq [OF lo]
    have e: "lp (lptr nd ls) (rptr nd rs) s =
        (if go then lp (lptr nd ls) (rptr nd rs1) s1 else Some (lptr nd ls, rptr nd rs1, s1))"
      using low [OF p 1, of "lptr nd ls" "rptr nd rs"] s1(1) by simp
    have "ends_with nd s ?xs (lp (lptr nd ls) (rptr nd rs1) s1) (splayed f ls t1 rs1)" if go
    proof (rule ends_with_trans [where s = s and ?s1.0 = s1])
      show "ends_with nd s1 (seql ls @ inorder t1 @ seqr rs1) (lp (lptr nd ls) (rptr nd rs1) s1) (splayed f ls t1 rs1)"
        using that lo q s1(2) by (intro less.IH) (auto simp: t dest: lower_size)
    qed (use k q in \<open>simp_all add: t\<close>)
    then show ?thesis using 1 lo s1(2) k by (cases go) (simp_all add: e t ends_with_def)
  next
    case 2
    obtain go t1 ls1 where hi: "higher f (Node l a r) ls = (go, t1, ls1)" by (metis prod_cases3)
    obtain s1 where s1: "splay_higher f (lptr nd ls) s = Some (go, lptr nd ls1, s1)" "spl nd s1 ls1 t1 rs"
        and k: "sp_keeps (nd # seql ls @ inorder (Node l a r) @ seqr rs) s s1"
      by (rule higher_store [OF p hi]) (rule that; assumption)
    note q = higher_seq [OF hi]
    have e: "lp (lptr nd ls) (rptr nd rs) s =
        (if go then lp (lptr nd ls1) (rptr nd rs) s1 else Some (lptr nd ls1, rptr nd rs, s1))"
      using high [OF p 2, of "lptr nd ls" "rptr nd rs"] s1(1) by simp
    have "ends_with nd s ?xs (lp (lptr nd ls1) (rptr nd rs) s1) (splayed f ls1 t1 rs)" if go
    proof (rule ends_with_trans [where s = s and ?s1.0 = s1])
      show "ends_with nd s1 (seql ls1 @ inorder t1 @ seqr rs) (lp (lptr nd ls1) (rptr nd rs) s1) (splayed f ls1 t1 rs)"
        using that hi q s1(2) by (intro less.IH) (auto simp: t dest: higher_size)
      show "?xs = seql ls1 @ inorder t1 @ seqr rs" using q by (simp add: t)
    qed (use k in \<open>simp add: t\<close>)
    then show ?thesis using 2 hi s1(2) k by (cases go) (simp_all add: e t ends_with_def)
  next
    case 3
    then show ?thesis using p stop [OF p 3] by (simp add: t ends_with_def)
  qed
qed

lemma splay_loop_store:
  "spl nd s ls t rs \<Longrightarrow> t \<noteq> Leaf \<Longrightarrow>
   ends_with nd s (seql ls @ inorder t @ seqr rs) (splay_loop cmp x (lptr nd ls) (rptr nd rs) s) (splayed (cmp x) ls t rs)"
  by (rule loop_store [where lp = "splay_loop cmp x"]; (subst splay_loop.simps)?) (auto dest!: spl_root)

lemma minmax_loop_store:
  "val \<noteq> 0 \<Longrightarrow> spl nd s ls t rs \<Longrightarrow> t \<noteq> Leaf \<Longrightarrow>
   ends_with nd s (seql ls @ inorder t @ seqr rs) (splay_minmax_loop val (lptr nd ls) (rptr nd rs) s) (splayed (\<lambda>_. val) ls t rs)"
  by (rule loop_store [where lp = "splay_minmax_loop val"]; (subst splay_minmax_loop.simps)?) simp_all

section \<open>Splaying a tree in the store\<close>

definition sp_tree :: "splay_state \<Rightarrow> u64 tree \<Rightarrow> bool" where
  "sp_tree s t \<longleftrightarrow> sph_root s = top_of t \<and> sp_at (sp_mem s) t \<and> distinct (inorder t)"

lemma sp_tree_root: "sp_tree s (Node l a r) \<Longrightarrow> sph_root s = a \<and> a \<noteq> 0 \<and> SPLAY_LEFT a s = Some (top_of l) \<and> SPLAY_RIGHT a s = Some (top_of r)"
  by (simp add: sp_tree_def splay_links)

lemma run_store:
  assumes "sp_tree s t" and "t \<noteq> Leaf" and "nd \<noteq> 0" and "nd \<notin> set_tree t"
    and "\<And>s. spl nd s [] t [] \<Longrightarrow> ends_with nd s (inorder t) (lp nd nd s) (splayed f [] t [])"
  obtains s' where "do { s \<leftarrow> set_SPLAY_RIGHT nd 0 s; s \<leftarrow> set_SPLAY_LEFT nd 0 s;
      (lft, rgt, s) \<leftarrow> lp nd nd s; SPLAY_ASSEMBLE nd lft rgt s } = Some s'"
    and "sp_tree s' (splay_top f t)" and "sp_keeps (nd # inorder t) s s'"
proof -
  let ?s = "s\<lparr>sp_mem := (sp_mem s)(nd := \<lparr>spe_left = 0, spe_right = 0\<rparr>)\<rparr>"
  have i: "(set_SPLAY_RIGHT nd 0 s \<bind> set_SPLAY_LEFT nd 0) = Some ?s" using assms(3) by (cases "sp_mem s nd") (simp add: splay_links)
  have "sp_at (sp_mem ?s) t = sp_at (sp_mem s) t" by (rule sp_at_cong) (use assms(4) in auto)
  then have "spl nd ?s [] t []" using assms by (simp add: spl_def sp_tree_def)
  from assms(5) [OF this] obtain ls t' rs s1 where q: "splayed f [] t [] = (ls, t', rs)"
      and s1: "lp nd nd ?s = Some (lptr nd ls, rptr nd rs, s1)" "spl nd s1 ls t' rs" "sp_keeps (nd # inorder t) ?s s1"
    by (auto simp: ends_with_def split: prod.splits)
  note e = splayed_seq [OF q]
  then obtain l a r where t': "t' = Node l a r" using assms(2) by (cases t') auto
  obtain s2 where s2: "SPLAY_ASSEMBLE nd (lptr nd ls) (rptr nd rs) s1 = Some s2" "sph_root s2 = a"
      "sp_at (sp_mem s2) (Node (joinl ls l) a (joinr rs r))" "sp_keeps [a, lptr nd ls, rptr nd rs] s1 s2"
    by (rule assemble_store [OF s1(2) [unfolded t']]) (rule that; assumption)
  have "set [a, lptr nd ls, rptr nd rs] \<subseteq> set (nd # seql ls @ inorder t' @ seqr rs)"
    using lptr_in [of nd ls] rptr_in [of nd rs] t' by auto
  then have "sp_keeps (nd # inorder t) s1 s2" using s2(4) e by (auto intro: keeps_mono)
  moreover have "sp_keeps (nd # inorder t) s ?s" by (simp add: sp_keeps_def)
  ultimately have k: "sp_keeps (nd # inorder t) s s2" using s1(3) keeps_trans by blast
  have "inorder (Node (joinl ls l) a (joinr rs r)) = inorder t" using e t' by simp
  then have "sp_tree s2 (splay_top f t)"
    using s2 assms(1) q t' unfolding sp_tree_def splay_top_def by simp
  with that [of s2] i s1(1) s2(1) k show ?thesis by (simp add: bind_eq_Some_conv) (auto simp: bind_eq_Some_conv)
qed

lemma splay_store:
  assumes "sp_tree s t" and "t \<noteq> Leaf" and "nd \<noteq> 0" and "nd \<notin> set_tree t"
  obtains s' where "SPLAY nd cmp x s = Some s'" and "sp_tree s' (splay_top (cmp x) t)" and "sp_keeps (nd # inorder t) s s'"
proof (rule run_store [OF assms, of "splay_loop cmp x" "cmp x"])
  show "ends_with nd s (inorder t) (splay_loop cmp x nd nd s) (splayed (cmp x) [] t [])" if "spl nd s [] t []" for s
    using splay_loop_store [OF that assms(2), of cmp x] by simp
qed (rule that, simp_all add: SPLAY_def)

lemma minmax_store:
  assumes "sp_tree s t" and "t \<noteq> Leaf" and "nd \<noteq> 0" and "nd \<notin> set_tree t" and "val \<noteq> 0"
  obtains s' where "SPLAY_MINMAX nd val s = Some s'" and "sp_tree s' (splay_top (\<lambda>_. val) t)" and "sp_keeps (nd # inorder t) s s'"
proof (rule run_store [OF assms(1-4), of "splay_minmax_loop val" "\<lambda>_. val"])
  show "ends_with nd s (inorder t) (splay_minmax_loop val nd nd s) (splayed (\<lambda>_. val) [] t [])" if "spl nd s [] t []" for s
    using minmax_loop_store [OF assms(5) that assms(2)] by simp
qed (rule that, simp_all add: SPLAY_MINMAX_def)

section \<open>The operations\<close>

text \<open>The store holds the increasing sequence \<open>xs\<close>, and the local variable is apart from it.\<close>

definition splay_holds :: "u64 \<Rightarrow> elm_cmp \<Rightarrow> splay_state \<Rightarrow> u64 list \<Rightarrow> bool" where
  "splay_holds nd cmp s xs \<longleftrightarrow> (\<exists>t. sp_tree s t \<and> inorder t = xs) \<and> ordered cmp xs \<and> nd \<noteq> 0 \<and> nd \<notin> set xs"

lemma holds_tree: "splay_holds nd cmp s xs \<Longrightarrow> sp_tree s' t \<Longrightarrow> inorder t = xs \<Longrightarrow> splay_holds nd cmp s' xs"
  by (auto simp: splay_holds_def)

lemma ordered_cut:
  assumes "cmp_order cmp" and "ordered cmp xs"
  shows "cut (cmp x) xs"
  using assms(2) unfolding cut_def ordered_def
proof (rule sorted_wrt_mono_rel [rotated])
  fix b c assume "cmp b c < 0"
  then show "(cmp x b \<le> 0 \<longrightarrow> cmp x c < 0) \<and> (0 \<le> cmp x c \<longrightarrow> 0 < cmp x b)"
    using cmp_trans [OF assms(1)] cmp_flip(1) [OF assms(1), of x c] cmp_flip(1) [OF assms(1), of b x]
      cmp_flip(1) [OF assms(1), of c x] by (meson not_less)
qed

lemma cut_const: "val \<noteq> 0 \<Longrightarrow> cut (\<lambda>_. val) xs"
  by (auto simp: cut_def intro: sorted_wrt_mono_rel [of _ "\<lambda>_ _. True"])

lemma empty_holds: "splay_holds nd cmp s xs \<Longrightarrow> SPLAY_EMPTY s \<longleftrightarrow> xs = []"
  by (auto simp: splay_holds_def sp_tree_def SPLAY_EMPTY_def dest: top_zero)

lemma holds_splay:
  assumes "cmp_order cmp" and "splay_holds nd cmp s xs" and "xs \<noteq> []"
  obtains s' l a r where "SPLAY nd cmp x s = Some s'" and "sp_tree s' (Node l a r)" and "xs = inorder l @ a # inorder r"
    and "\<And>b. b \<in> set_tree l \<Longrightarrow> 0 < cmp x b" and "\<And>b. b \<in> set_tree r \<Longrightarrow> cmp x b < 0" and "sp_keeps (nd # xs) s s'"
proof -
  obtain t where t: "sp_tree s t" "inorder t = xs" and o: "ordered cmp xs" and n: "nd \<noteq> 0" "nd \<notin> set_tree t"
    using assms(2) by (auto simp: splay_holds_def)
  have l: "t \<noteq> Leaf" using t(2) assms(3) by auto
  obtain s' where s': "SPLAY nd cmp x s = Some s'" "sp_tree s' (splay_top (cmp x) t)" "sp_keeps (nd # inorder t) s s'"
    by (rule splay_store [OF t(1) l n]) (rule that; assumption)
  have "cut (cmp x) (inorder t)" using ordered_cut [OF assms(1) o] t(2) by simp
  from splay_top_parts [OF l this] show ?thesis using s' t(2) that by metis
qed

text \<open>The element the key belongs to is on top.\<close>

lemma top_is:
  assumes "cmp_order cmp" and "x \<in> set (inorder l @ a # inorder r)"
    and "\<And>b. b \<in> set_tree l \<Longrightarrow> 0 < cmp x b" and "\<And>b. b \<in> set_tree r \<Longrightarrow> cmp x b < 0"
  shows "a = x"
  using assms(2-4) cmp_refl [OF assms(1), of x] by fastforce

lemma find_skip: "(\<And>b. b \<in> set xs \<Longrightarrow> \<not> P b) \<Longrightarrow> find P (xs @ ys) = find P ys"
  by (induction xs) auto

lemma top_equal:
  assumes "\<And>b. b \<in> set_tree l \<Longrightarrow> 0 < cmp x b" and "\<And>b. b \<in> set_tree r \<Longrightarrow> (cmp x b :: int) < 0"
  shows "find (\<lambda>b. cmp x b = 0) (inorder l @ a # inorder r) = (if cmp x a = 0 then Some a else None)"
proof -
  have "find (\<lambda>b. cmp x b = 0) (inorder l @ ys) = find (\<lambda>b. cmp x b = 0) ys" for ys
    using assms(1) by (intro find_skip) fastforce
  moreover have "find (\<lambda>b. cmp x b = 0) (inorder r) = None"
    using assms(2) by (fastforce simp: find_None_iff)
  ultimately show ?thesis by simp
qed

lemma found:
  assumes "cmp_order cmp" and "splay_holds nd cmp s xs"
  shows "\<exists>s'. SPLAY_FIND nd cmp x s = Some (pick 0 (\<lambda>a. cmp x a = 0) xs, s') \<and> splay_holds nd cmp s' xs \<and>
    sp_keeps (nd # xs) s s'"
proof (cases "xs = []")
  case True
  then show ?thesis using assms(2) empty_holds [OF assms(2)] by (simp add: SPLAY_FIND_def)
next
  case False
  obtain s' l a r where s': "SPLAY nd cmp x s = Some s'" "sp_tree s' (Node l a r)" "xs = inorder l @ a # inorder r"
      and d: "\<And>b. b \<in> set_tree l \<Longrightarrow> 0 < cmp x b" "\<And>b. b \<in> set_tree r \<Longrightarrow> cmp x b < 0" and k: "sp_keeps (nd # xs) s s'"
    by (rule holds_splay [OF assms False]) (rule that; assumption)
  have "splay_holds nd cmp s' xs" using assms(2) s'(2,3) by (auto intro: holds_tree)
  moreover have "pick 0 (\<lambda>a. cmp x a = 0) xs = (if cmp x a = 0 then a else 0)"
    using top_equal [of l cmp x r a, OF d] s'(3) by (simp add: pick_def)
  ultimately show ?thesis using False empty_holds [OF assms(2)] s'(1) sp_tree_root [OF s'(2)] k
    by (simp add: SPLAY_FIND_def)
qed

text \<open>Hanging a new element on top of the two halves of a splayed tree.\<close>

lemma new_top_low:
  assumes "sp_tree s (Node l a r)" and "x \<noteq> 0" and "x \<notin> set_tree (Node l a r)"
  obtains s' where "do { v \<leftarrow> SPLAY_LEFT (sph_root s) s; s \<leftarrow> set_SPLAY_LEFT x v s; s \<leftarrow> set_SPLAY_RIGHT x (sph_root s) s;
      s \<leftarrow> set_SPLAY_LEFT (sph_root s) 0 s; Some (0, s\<lparr>sph_root := x\<rparr>) } = Some (0::u64, s')"
    and "sp_tree s' (Node l x (Node Leaf a r))" and "sp_keeps [x, a] s s'"
proof -
  let ?m = "(sp_mem s)(x := \<lparr>spe_left = top_of l, spe_right = a\<rparr>, a := \<lparr>spe_left = 0, spe_right = top_of r\<rparr>)"
  have a: "a \<noteq> x" using assms(3) by auto
  have "sp_at ?m l = sp_at (sp_mem s) l" "sp_at ?m r = sp_at (sp_mem s) r"
    by (rule sp_at_cong; use assms in \<open>auto simp: sp_tree_def\<close>)+
  then have "sp_tree (s\<lparr>sp_mem := ?m, sph_root := x\<rparr>) (Node l x (Node Leaf a r))"
    using assms by (auto simp: sp_tree_def)
  moreover have "sp_keeps [x, a] s (s\<lparr>sp_mem := ?m, sph_root := x\<rparr>)" by (simp add: sp_keeps_def)
  ultimately show ?thesis using that [of "s\<lparr>sp_mem := ?m, sph_root := x\<rparr>"] assms a
    by (cases "sp_mem s x") (simp add: sp_tree_def splay_links)
qed

lemma new_top_high:
  assumes "sp_tree s (Node l a r)" and "x \<noteq> 0" and "x \<notin> set_tree (Node l a r)"
  obtains s' where "do { v \<leftarrow> SPLAY_RIGHT (sph_root s) s; s \<leftarrow> set_SPLAY_RIGHT x v s; s \<leftarrow> set_SPLAY_LEFT x (sph_root s) s;
      s \<leftarrow> set_SPLAY_RIGHT (sph_root s) 0 s; Some (0, s\<lparr>sph_root := x\<rparr>) } = Some (0::u64, s')"
    and "sp_tree s' (Node (Node l a Leaf) x r)" and "sp_keeps [x, a] s s'"
proof -
  let ?m = "(sp_mem s)(x := \<lparr>spe_left = a, spe_right = top_of r\<rparr>, a := \<lparr>spe_left = top_of l, spe_right = 0\<rparr>)"
  have a: "a \<noteq> x" using assms(3) by auto
  have "sp_at ?m l = sp_at (sp_mem s) l" "sp_at ?m r = sp_at (sp_mem s) r"
    by (rule sp_at_cong; use assms in \<open>auto simp: sp_tree_def\<close>)+
  then have "sp_tree (s\<lparr>sp_mem := ?m, sph_root := x\<rparr>) (Node (Node l a Leaf) x r)"
    using assms by (auto simp: sp_tree_def)
  moreover have "sp_keeps [x, a] s (s\<lparr>sp_mem := ?m, sph_root := x\<rparr>)" by (simp add: sp_keeps_def)
  ultimately show ?thesis using that [of "s\<lparr>sp_mem := ?m, sph_root := x\<rparr>"] assms a
    by (cases "sp_mem s x") (simp add: sp_tree_def splay_links)
qed

lemma insert_holds:
  assumes "cmp_order cmp" and "splay_holds nd cmp s xs" and "x \<noteq> nd" and "\<And>b. b \<in> set xs \<Longrightarrow> cmp x b \<noteq> 0"
    and "sp_tree s' t" and "inorder t = insert_elm cmp x xs"
  shows "splay_holds nd cmp s' (insert_elm cmp x xs)"
  using assms ordered_insert_elm [OF assms(1) _ assms(4)] by (auto simp: splay_holds_def)

lemma splay_inserted:
  assumes "cmp_order cmp" and "splay_holds nd cmp s xs" and "x \<noteq> 0" and "x \<noteq> nd" and "x \<notin> set xs"
  shows "\<exists>s'. SPLAY_INSERT nd cmp x s = Some (fst (put_elm cmp x xs), s') \<and>
    splay_holds nd cmp s' (snd (put_elm cmp x xs)) \<and> sp_keeps (nd # x # xs) s s'"
proof (cases "xs = []")
  case True
  let ?s = "s\<lparr>sp_mem := (sp_mem s)(x := \<lparr>spe_left = 0, spe_right = 0\<rparr>), sph_root := x\<rparr>"
  have "sp_tree ?s (Node Leaf x Leaf)" using assms(3) by (simp add: sp_tree_def)
  then have "splay_holds nd cmp ?s [x]" using assms(2,4) unfolding splay_holds_def by (auto intro!: exI [of _ "Node Leaf x Leaf"])
  then show ?thesis using True assms(3) empty_holds [OF assms(2)]
    by (cases "sp_mem s x") (simp add: SPLAY_INSERT_def splay_links insert_elm_def put_elm_def sp_keeps_def)
next
  case False
  obtain s1 l a r where s1: "SPLAY nd cmp x s = Some s1" "sp_tree s1 (Node l a r)" and xs: "xs = inorder l @ a # inorder r"
      and d: "\<And>b. b \<in> set_tree l \<Longrightarrow> 0 < cmp x b" "\<And>b. b \<in> set_tree r \<Longrightarrow> cmp x b < 0" and k: "sp_keeps (nd # xs) s s1"
    by (rule holds_splay [OF assms(1,2) False]) (rule that; assumption)
  have e: "\<not> SPLAY_EMPTY s" using False empty_holds [OF assms(2)] by simp
  have x: "x \<notin> set_tree (Node l a r)" using assms(5) xs by simp
  note f = top_equal [of l cmp x r a, OF d, folded xs] and t = sp_tree_root [OF s1(2)]
  have flip: "cmp b x < 0 \<longleftrightarrow> 0 < cmp x b" for b by (rule cmp_flip(1) [OF assms(1)])
  have n: "cmp x b \<noteq> 0" if "cmp x a \<noteq> 0" "b \<in> set xs" for b using that d xs by fastforce
  consider "cmp x a < 0" | "0 < cmp x a" | "cmp x a = 0" by linarith
  then show ?thesis
  proof cases
    case 1
    obtain s2 where s2: "do { v \<leftarrow> SPLAY_LEFT (sph_root s1) s1; s \<leftarrow> set_SPLAY_LEFT x v s1; s \<leftarrow> set_SPLAY_RIGHT x (sph_root s) s;
        s \<leftarrow> set_SPLAY_LEFT (sph_root s) 0 s; Some (0, s\<lparr>sph_root := x\<rparr>) } = Some (0::u64, s2)"
        "sp_tree s2 (Node l x (Node Leaf a r))" "sp_keeps [x, a] s1 s2"
      by (rule new_top_low [OF s1(2) assms(3) x]) (rule that; assumption)
    have i: "insert_elm cmp x xs = inorder l @ x # a # inorder r"
      unfolding xs by (rule insert_elm_at) (use 1 in \<open>auto simp: flip dest!: d\<close>)
    then have "splay_holds nd cmp s2 (insert_elm cmp x xs)"
      using n 1 by (intro insert_holds [OF assms(1,2,4) _ s2(2)]) simp_all
    moreover have "sp_keeps (nd # x # xs) s s2" using k s2(3) xs by (auto simp: sp_keeps_def)
    ultimately show ?thesis using e s1(1) s2(1) t f 1 by (simp add: SPLAY_INSERT_def Let_def put_elm_def)
  next
    case 2
    obtain s2 where s2: "do { v \<leftarrow> SPLAY_RIGHT (sph_root s1) s1; s \<leftarrow> set_SPLAY_RIGHT x v s1; s \<leftarrow> set_SPLAY_LEFT x (sph_root s) s;
        s \<leftarrow> set_SPLAY_RIGHT (sph_root s) 0 s; Some (0, s\<lparr>sph_root := x\<rparr>) } = Some (0::u64, s2)"
        "sp_tree s2 (Node (Node l a Leaf) x r)" "sp_keeps [x, a] s1 s2"
      by (rule new_top_high [OF s1(2) assms(3) x]) (rule that; assumption)
    have "insert_elm cmp x ((inorder l @ [a]) @ inorder r) = (inorder l @ [a]) @ x # inorder r"
      by (rule insert_elm_at) (use 2 in \<open>auto simp: flip dest!: d\<close>)
    then have i: "insert_elm cmp x xs = inorder l @ a # x # inorder r" using xs by simp
    then have "splay_holds nd cmp s2 (insert_elm cmp x xs)"
      using n 2 by (intro insert_holds [OF assms(1,2,4) _ s2(2)]) simp_all
    moreover have "sp_keeps (nd # x # xs) s s2" using k s2(3) xs by (auto simp: sp_keeps_def)
    ultimately show ?thesis using e s1(1) s2(1) t f 2 by (simp add: SPLAY_INSERT_def Let_def put_elm_def)
  next
    case 3
    then show ?thesis using e s1 t f xs k assms(2) by (auto simp: SPLAY_INSERT_def put_elm_def sp_keeps_def intro: holds_tree)
  qed
qed

text \<open>Cutting the top off a splayed tree.\<close>

lemma join_halves:
  assumes "cmp_order cmp" and "sp_tree s (Node l a r)" and "l \<noteq> Leaf" and "nd \<noteq> 0" and "nd \<notin> set_tree (Node l a r)"
    and "ordered cmp (inorder l)" and "\<And>b. b \<in> set_tree l \<Longrightarrow> 0 < cmp x b"
  obtains s' t where "do { s \<leftarrow> SPLAY nd cmp x (s\<lparr>sph_root := top_of l\<rparr>); set_SPLAY_RIGHT (sph_root s) (top_of r) s } = Some s'"
    and "sp_tree s' t" and "inorder t = inorder l @ inorder r" and "sp_keeps (nd # inorder l) s s'"
proof -
  let ?s = "s\<lparr>sph_root := top_of l\<rparr>"
  have h: "splay_holds nd cmp ?s (inorder l)" using assms(2,4-6) by (auto simp: splay_holds_def sp_tree_def)
  have n: "inorder l \<noteq> []" using assms(3) by simp
  obtain s1 l1 b r1 where s1: "SPLAY nd cmp x ?s = Some s1" "sp_tree s1 (Node l1 b r1)" and i: "inorder l = inorder l1 @ b # inorder r1"
      and d: "\<And>b. b \<in> set_tree r1 \<Longrightarrow> cmp x b < 0" and k: "sp_keeps (nd # inorder l) ?s s1"
    by (rule holds_splay [OF assms(1) h n]) (rule that; assumption)
  have "c \<in> set_tree l" if "c \<in> set_tree r1" for c
    using that i unfolding set_inorder [symmetric] by simp
  then have r1: "r1 = Leaf" using d assms(7) by (cases r1) fastforce+
  let ?s' = "s1\<lparr>sp_mem := (sp_mem s1)(b := \<lparr>spe_left = top_of l1, spe_right = top_of r\<rparr>)\<rparr>"
  have b: "b \<in> set_tree l" using i unfolding set_inorder [symmetric] by simp
  have "sp_at (sp_mem ?s') r = sp_at (sp_mem s) r" by (rule sp_at_cong) (use k b assms(2,5) in \<open>auto simp: sp_keeps_def sp_tree_def\<close>)
  moreover have "sp_at (sp_mem ?s') l1 = sp_at (sp_mem s1) l1" by (rule sp_at_cong) (use s1(2) in \<open>auto simp: sp_tree_def\<close>)
  moreover have "distinct (inorder l @ inorder r)" using assms(2) by (simp add: sp_tree_def)
  ultimately have "sp_tree ?s' (Node l1 b r)" using assms(2) s1(2) i r1 by (simp add: sp_tree_def)
  moreover have "sp_keeps (nd # inorder l) s ?s'" using k b by (auto simp: sp_keeps_def)
  moreover have "do { s \<leftarrow> SPLAY nd cmp x ?s; set_SPLAY_RIGHT (sph_root s) (top_of r) s } = Some ?s'"
    using s1 r1 by (simp add: sp_tree_def splay_links)
  ultimately show ?thesis using that [of ?s' "Node l1 b r"] i r1 by simp
qed

text \<open>
  Removing by key: the element that compares equal is no longer in the sequence, all others are, in their order.
  The answer is the argument of the call when there was such an element, whether or not it is that element
  itself, and null when there was none.
\<close>

lemma splay_removed:
  assumes "cmp_order cmp" and "splay_holds nd cmp s xs"
  shows "\<exists>s'. SPLAY_REMOVE nd cmp x s = Some (if \<exists>a\<in>set xs. cmp x a = 0 then x else 0, s') \<and>
    splay_holds nd cmp s' (filter (\<lambda>a. cmp x a \<noteq> 0) xs) \<and> sp_keeps (nd # xs) s s'"
proof (cases "xs = []")
  case True
  then show ?thesis using assms(2) empty_holds [OF assms(2)] by (simp add: SPLAY_REMOVE_def)
next
  case False
  obtain s1 l a r where s1: "SPLAY nd cmp x s = Some s1" "sp_tree s1 (Node l a r)" and xs: "xs = inorder l @ a # inorder r"
      and d: "\<And>b. b \<in> set_tree l \<Longrightarrow> 0 < cmp x b" "\<And>b. b \<in> set_tree r \<Longrightarrow> cmp x b < 0" and k: "sp_keeps (nd # xs) s s1"
    by (rule holds_splay [OF assms False]) (rule that; assumption)
  have e: "\<not> SPLAY_EMPTY s" using False empty_holds [OF assms(2)] by simp
  have n: "cmp x b \<noteq> 0" if "b \<in> set_tree l \<union> set_tree r" for b using that d by fastforce
  note t = sp_tree_root [OF s1(2)]
  show ?thesis
  proof (cases "cmp x a = 0")
    case True
    have f: "filter (\<lambda>a. cmp x a \<noteq> 0) xs = inorder l @ inorder r" "\<exists>a\<in>set xs. cmp x a = 0"
      using True n xs by (auto simp: filter_id_conv)
    have o: "ordered cmp xs" "nd \<noteq> 0" "nd \<notin> set xs" using assms(2) by (auto simp: splay_holds_def)
    have h: "splay_holds nd cmp s' (inorder l @ inorder r)" if "sp_tree s' t" "inorder t = inorder l @ inorder r" for s' t
      using that o ordered_remove [of cmp "inorder l" a "inorder r"] xs by (auto simp: splay_holds_def)
    show ?thesis
    proof (cases "l = Leaf")
      case l: True
      let ?s = "s1\<lparr>sph_root := top_of r\<rparr>"
      have "sp_tree ?s r" using s1(2) by (simp add: sp_tree_def)
      then have "splay_holds nd cmp ?s (inorder l @ inorder r)" using l by (intro h) simp_all
      moreover have "sp_keeps (nd # xs) s ?s" using k by (simp add: sp_keeps_def)
      ultimately show ?thesis using True f e s1(1) t l by (simp add: SPLAY_REMOVE_def)
    next
      case l: False
      have "top_of l \<noteq> 0" using l s1(2) by (cases l) (auto simp: sp_tree_def)
      moreover obtain s2 u where s2: "do { s \<leftarrow> SPLAY nd cmp x (s1\<lparr>sph_root := top_of l\<rparr>);
          set_SPLAY_RIGHT (sph_root s) (top_of r) s } = Some s2"
          "sp_tree s2 u" "inorder u = inorder l @ inorder r" "sp_keeps (nd # inorder l) s1 s2"
        by (rule join_halves [OF assms(1) s1(2) l, of nd x]) (use o d xs in \<open>auto simp: ordered_append intro: that\<close>)
      moreover have "sp_keeps (nd # xs) s s2" using k s2(4) xs by (auto simp: sp_keeps_def)
      ultimately show ?thesis using True f e s1(1) t h [OF s2(2,3)] by (simp add: SPLAY_REMOVE_def)
    qed
  next
    case False
    then have "filter (\<lambda>a. cmp x a \<noteq> 0) xs = xs" "\<not> (\<exists>a\<in>set xs. cmp x a = 0)" using n xs by (auto simp: filter_id_conv)
    then show ?thesis using False e s1 t k assms(2) xs by (auto simp: SPLAY_REMOVE_def intro: holds_tree)
  qed
qed

section \<open>Ends and neighbours\<close>

lemma zero_out: "sp_at m t \<Longrightarrow> 0 \<notin> set_tree t"
  by (induction m t rule: sp_at.induct) auto

lemma holds_nonzero: "splay_holds nd cmp s xs \<Longrightarrow> 0 \<notin> set xs"
  by (auto simp: splay_holds_def sp_tree_def dest: zero_out)

lemma splay_leftmost_first: "sp_at (sp_mem s) t \<Longrightarrow> t \<noteq> Leaf \<Longrightarrow> splay_leftmost (top_of t) s = Some (first (inorder t))"
proof (induction t)
  case (Node l a r)
  then show ?case using top_zero [of "sp_mem s" l]
    by (cases "l = Leaf") (simp_all add: splay_leftmost.simps [of a] splay_links first_append)
qed simp

lemma splay_next:
  assumes "cmp_order cmp" and "splay_holds nd cmp s (us @ x # vs)"
  shows "\<exists>s'. SPLAY_NEXT nd cmp x s = Some (first vs, s') \<and> splay_holds nd cmp s' (us @ x # vs) \<and> sp_keeps (nd # us @ x # vs) s s'"
proof -
  have n: "us @ x # vs \<noteq> []" by simp
  obtain s1 l a r where s1: "SPLAY nd cmp x s = Some s1" "sp_tree s1 (Node l a r)" and xs: "us @ x # vs = inorder l @ a # inorder r"
      and d: "\<And>b. b \<in> set_tree l \<Longrightarrow> 0 < cmp x b" "\<And>b. b \<in> set_tree r \<Longrightarrow> cmp x b < 0" and k: "sp_keeps (nd # us @ x # vs) s s1"
    by (rule holds_splay [OF assms n]) (rule that; assumption)
  have "x \<in> set (inorder l @ a # inorder r)" unfolding xs [symmetric] by simp
  from top_is [OF assms(1) this d] have a: "a = x" .
  have "distinct (us @ x # vs)" using s1(2) unfolding xs by (simp add: sp_tree_def)
  from distinct_split [OF this xs [unfolded a]] have v: "vs = inorder r" by simp
  have "splay_holds nd cmp s1 (us @ x # vs)" using assms(2) s1(2) xs by (auto intro: holds_tree)
  moreover have "sp_at (sp_mem s1) r" using s1(2) by (simp add: sp_tree_def)
  ultimately show ?thesis
    using s1(1) sp_tree_root [OF s1(2)] a k v top_zero [of "sp_mem s1" r] splay_leftmost_first [of s1 r]
    by (cases "r = Leaf") (simp_all add: SPLAY_NEXT_def)
qed

lemma holds_end:
  assumes "splay_holds nd cmp s xs" and "xs \<noteq> []" and "val \<noteq> 0"
  shows "\<exists>s' l a r. SPLAY_MIN_MAX nd val s = Some (a, s') \<and> xs = inorder l @ a # inorder r \<and> splay_holds nd cmp s' xs \<and>
    sp_keeps (nd # xs) s s' \<and> (0 < val \<or> l = Leaf) \<and> (val < 0 \<or> r = Leaf)"
proof -
  obtain t where t: "sp_tree s t" "inorder t = xs" and n: "nd \<noteq> 0" "nd \<notin> set_tree t"
    using assms by (auto simp: splay_holds_def)
  have l: "t \<noteq> Leaf" using t(2) assms(2) by auto
  obtain s' where s': "SPLAY_MINMAX nd val s = Some s'" "sp_tree s' (splay_top (\<lambda>_. val) t)" "sp_keeps (nd # inorder t) s s'"
    by (rule minmax_store [OF t(1) l n assms(3)]) (rule that; assumption)
  obtain l a r where p: "splay_top (\<lambda>_. val) t = Node l a r" "inorder t = inorder l @ a # inorder r"
      "\<And>b. b \<in> set_tree l \<Longrightarrow> 0 < val" "\<And>b. b \<in> set_tree r \<Longrightarrow> val < 0"
    by (rule splay_top_parts [OF l cut_const [OF assms(3)]]) (rule that; assumption)
  have "0 < val \<or> l = Leaf" using p(3) by (cases l) auto
  moreover have "val < 0 \<or> r = Leaf" using p(4) by (cases r) auto
  moreover have "splay_holds nd cmp s' xs" using assms(1) s'(2) p(1,2) t(2) by (auto intro: holds_tree)
  moreover have "sph_root s' = a" using s'(2) p(1) by (simp add: sp_tree_def)
  ultimately show ?thesis using s'(1,3) p(2) t(2)
    by (intro exI [of _ s'] exI [of _ l] exI [of _ a] exI [of _ r]) (simp add: SPLAY_MIN_MAX_def)
qed

lemma splay_ends:
  assumes "splay_holds nd cmp s xs"
  shows "\<exists>s'. SPLAY_MIN nd s = Some (first xs, s') \<and> splay_holds nd cmp s' xs \<and> sp_keeps (nd # xs) s s'"
    and "\<exists>s'. SPLAY_MAX nd s = Some (final xs, s') \<and> splay_holds nd cmp s' xs \<and> sp_keeps (nd # xs) s s'"
proof -
  have "\<exists>s'. SPLAY_MIN_MAX nd SPLAY_NEGINF s = Some (first xs, s') \<and> splay_holds nd cmp s' xs \<and> sp_keeps (nd # xs) s s'"
    if "xs \<noteq> []" using holds_end [OF assms that, of SPLAY_NEGINF] by (auto simp: SPLAY_NEGINF_def)
  moreover have "\<exists>s'. SPLAY_MIN_MAX nd SPLAY_INF s = Some (final xs, s') \<and> splay_holds nd cmp s' xs \<and> sp_keeps (nd # xs) s s'"
    if "xs \<noteq> []" using holds_end [OF assms that, of SPLAY_INF] by (auto simp: SPLAY_INF_def first_append)
  ultimately show "\<exists>s'. SPLAY_MIN nd s = Some (first xs, s') \<and> splay_holds nd cmp s' xs \<and> sp_keeps (nd # xs) s s'"
    "\<exists>s'. SPLAY_MAX nd s = Some (final xs, s') \<and> splay_holds nd cmp s' xs \<and> sp_keeps (nd # xs) s s'"
    using empty_holds [OF assms] assms by (cases "xs = []"; simp add: SPLAY_MIN_def SPLAY_MAX_def)+
qed

lemma splay_visits:
  assumes "cmp_order cmp"
  shows "splay_holds nd cmp s (us @ vs) \<Longrightarrow> \<exists>s'. splay_foreach_loop nd cmp (first vs) s = Some (vs, s') \<and>
    splay_holds nd cmp s' (us @ vs) \<and> sp_keeps (nd # us @ vs) s s'"
proof (induction vs arbitrary: us s)
  case (Cons a vs)
  obtain s1 where s1: "SPLAY_NEXT nd cmp a s = Some (first vs, s1)" "splay_holds nd cmp s1 (us @ a # vs)" "sp_keeps (nd # us @ a # vs) s s1"
    using splay_next [OF assms Cons.prems] by blast
  have "a \<noteq> 0" using holds_nonzero [OF Cons.prems] by auto
  then show ?case using s1 Cons.IH [of s1 "us @ [a]"]
    by (auto simp: splay_foreach_loop.simps [of nd cmp a] intro: keeps_trans)
qed (simp add: splay_foreach_loop.simps)

text \<open>
  The loop over a splay tree returns and visits every element once, in order, although each of its steps
  rearranges the tree; the tree still holds the same sequence afterwards, and no entry outside the tree and the local
  variable is written.
\<close>

lemma splay_foreach_correct:
  assumes "cmp_order cmp" and "splay_holds nd cmp s xs"
  shows "\<exists>s'. SPLAY_FOREACH nd cmp s = Some (xs, s') \<and> splay_holds nd cmp s' xs \<and>
    (\<forall>p. p \<notin> set (nd # xs) \<longrightarrow> sp_mem s' p = sp_mem s p)"
proof -
  obtain s1 where s1: "SPLAY_MIN nd s = Some (first xs, s1)" "splay_holds nd cmp s1 xs" "sp_keeps (nd # xs) s s1"
    using splay_ends(1) [OF assms(2)] by blast
  then show ?thesis using splay_visits [OF assms(1), of nd s1 "[]" xs] keeps_trans [OF s1(3)]
    by (auto simp: SPLAY_FOREACH_def sp_keeps_def)
qed

section \<open>Series of requests\<close>

text \<open>An element of a tree is neither null nor the local variable.\<close>

definition off_local :: "u64 \<Rightarrow> u64 \<Rightarrow> bool" where
  "off_local nd x \<longleftrightarrow> x \<noteq> 0 \<and> x \<noteq> nd"

lemma splay_init_holds: "nd \<noteq> 0 \<Longrightarrow> splay_holds nd cmp (SPLAY_INIT s) []"
  unfolding splay_holds_def by (intro conjI exI [of _ Leaf]) (simp_all add: SPLAY_INIT_def sp_tree_def)

lemma filter_remove1:
  assumes "cmp_order cmp" and "ordered cmp xs" and "x \<in> set xs"
  shows "filter (\<lambda>a. cmp x a \<noteq> 0) xs = remove1 x xs"
proof -
  have "filter (\<lambda>a. cmp x a \<noteq> 0) xs = filter (\<lambda>a. a \<noteq> x) xs"
    using ordered_unique [OF assms] cmp_refl [OF assms(1), of x] by (intro filter_cong) auto
  also have "\<dots> = remove1 x xs" using distinct_remove1_removeAll [OF ordered_distinct [OF assms(1,2)], of x]
    by (simp add: removeAll_filter_not_eq eq_commute)
  finally show ?thesis .
qed

interpretation spt: ordered_store "splay_holds nd" "off_local nd" "SPLAY_INSERT nd" "SPLAY_REMOVE nd" "SPLAY_FIND nd" "SPLAY_FOREACH nd" for nd
proof
  fix cmp s xs x
  assume "cmp_order cmp" and "splay_holds nd cmp s xs" and "off_local nd x" and "x \<notin> set xs"
  then show "\<exists>s'. SPLAY_INSERT nd cmp x s = Some (fst (put_elm cmp x xs), s') \<and>
      splay_holds nd cmp s' (snd (put_elm cmp x xs))"
    using splay_inserted [of cmp nd s xs x] unfolding off_local_def by blast
next
  fix cmp s xs x
  assume h: "cmp_order cmp" "splay_holds nd cmp s xs" and x: "x \<in> set xs"
  have "ordered cmp xs" using h(2) by (simp add: splay_holds_def)
  then show "\<exists>s'. SPLAY_REMOVE nd cmp x s = Some (x, s') \<and> splay_holds nd cmp s' (remove1 x xs)"
    using splay_removed [OF h, of x] filter_remove1 [OF h(1) _ x] x cmp_refl [OF h(1), of x] by auto
next
  fix cmp s xs x
  assume "cmp_order cmp" and "splay_holds nd cmp s xs"
  then show "\<exists>s'. SPLAY_FIND nd cmp x s = Some (pick 0 (\<lambda>a. cmp x a = 0) xs, s') \<and> splay_holds nd cmp s' xs"
    using found by blast
next
  fix cmp s xs
  assume "cmp_order cmp" and "splay_holds nd cmp s xs"
  then show "\<exists>s'. SPLAY_FOREACH nd cmp s = Some (xs, s') \<and> splay_holds nd cmp s' xs"
    using splay_foreach_correct by blast
qed

end
