(* ===== verification/SearchTrees.thy ===== *)
theory SearchTrees
  imports RbSet SplayOps
begin

text \<open>
  The red-black trees and the splay trees of \<^verbatim>\<open>libkern/tree.h\<close> side by side, as implementations of
  the same store.
\<close>

lemma legal_mono: "(\<And>x. ok x \<Longrightarrow> ok' x) \<Longrightarrow> legal ok r xs \<Longrightarrow> legal ok' r xs"
  by (cases r) auto

lemma all_legal_mono: "(\<And>x. ok x \<Longrightarrow> ok' x) \<Longrightarrow> all_legal ok cmp rs xs \<Longrightarrow> all_legal ok' cmp rs xs"
  by (induction rs arbitrary: xs) (auto intro: legal_mono)

text \<open>
  C39. The two trees of \<^verbatim>\<open>libkern/tree.h\<close> answer alike. For every comparison that orders the
  elements and every series of insertions, removals, searches and walks over all elements that links no element
  twice and removes only linked ones, starting from an initialised head: each operation returns, and
  red-black tree and splay tree give the answers of the increasing sequence of the linked elements and
  represent that sequence afterwards. A later search in the red-black tree of \<open>n\<close> elements takes at most
  \<open>2 * log2 (n + 1)\<close> rounds, the bound the header states.
\<close>

theorem trees_serve:
  assumes "cmp_order cmp" and "nd \<noteq> 0" and "all_legal (\<lambda>x. okp x \<and> x \<noteq> nd) cmp rs []"
    and "all_answers cmp rs [] = (as, xs)"
  shows "(\<exists>s'. serve RB_INSERT rb_delete rb_lookup rb_walk cmp rs (RB_INIT s) = Some (as, s') \<and> rb_holds cmp s' xs \<and>
      (\<forall>x. \<exists>a n. rb_find_rounds cmp x (rbh_root s') s' = Some (a, n) \<and> RB_FIND cmp x s' = Some a \<and>
        2 ^ n \<le> (length xs + 1)\<^sup>2)) \<and>
    (\<exists>t'. serve (SPLAY_INSERT nd) (SPLAY_REMOVE nd) (SPLAY_FIND nd) (SPLAY_FOREACH nd) cmp rs (SPLAY_INIT t) =
      Some (as, t') \<and> splay_holds nd cmp t' xs)"
proof -
  have l: "all_legal okp cmp rs []" "all_legal (off_local nd) cmp rs []"
    using all_legal_mono [OF _ assms(3)] by (auto simp: off_local_def okp_def)
  obtain s' where s': "serve RB_INSERT rb_delete rb_lookup rb_walk cmp rs (RB_INIT s) = Some (as, s')" "rb_holds cmp s' xs"
    using rb.serve_all [OF assms(1) rb_init_holds l(1)] assms(4) by auto
  moreover obtain t' where "serve (SPLAY_INSERT nd) (SPLAY_REMOVE nd) (SPLAY_FIND nd) (SPLAY_FOREACH nd) cmp rs (SPLAY_INIT t) =
      Some (as, t')" "splay_holds nd cmp t' xs"
    using spt.serve_all [OF assms(1) splay_init_holds [OF assms(2)] l(2)] assms(4) by auto
  ultimately show ?thesis using find_bounded [OF s'(2)] by blast
qed

theorem trees_serve_witness:
  "let rs = [Insert 16, Insert 8, Find 8, Insert 24, Remove 16, Find 16, Insert 32, Visit];
       as = [[0], [0], [8], [0], [16], [0], [0], [8, 24, 32]];
       e = \<lparr>rbh_root = 0, rb_mem = \<lambda>_. \<lparr>rbe_left = 0, rbe_right = 0, rbe_parent = 0\<rparr>\<rparr>;
       f = \<lparr>sph_root = 0, sp_mem = \<lambda>_. \<lparr>spe_left = 0, spe_right = 0\<rparr>\<rparr>
   in (\<exists>s'. serve RB_INSERT rb_delete rb_lookup rb_walk by_address rs (RB_INIT e) = Some (as, s')) \<and>
      (\<exists>t'. serve (SPLAY_INSERT 4096) (SPLAY_REMOVE 4096) (SPLAY_FIND 4096) (SPLAY_FOREACH 4096) by_address rs (SPLAY_INIT f) =
        Some (as, t'))"
proof -
  let ?rs = "[Insert 16, Insert 8, Find 8, Insert 24, Remove 16, Find 16, Insert 32, Visit]"
  have l: "all_legal (\<lambda>x. okp x \<and> x \<noteq> 4096) by_address ?rs []"
    by (simp add: okp_def put_elm_def by_address_def insert_elm_def)
  have a: "all_answers by_address ?rs [] = ([[0], [0], [8], [0], [16], [0], [0], [8, 24, 32]], [8, 24, 32])"
    by (simp add: put_elm_def by_address_def insert_elm_def)
  show ?thesis unfolding Let_def using trees_serve [OF by_address_order _ l a] by fastforce
qed

end
