(* ===== verification/Spec2Isabelle.thy ===== *)
theory Spec2Isabelle
  imports DriverProps StrictMode Registry PciConfig Xectl CircleQueue PriorityQueue KernBits KernArith ByteOrder KcdataIter
    SearchTrees
begin

text \<open>
  XePCI is a macOS kernel extension that attaches to an Intel Xe graphics device on the PCI
  bus, maps its register BAR and offers a small, mostly read-only interface to user space; a
  command line tool talks to it. The repository carries the kernel SDK headers the extension
  is compiled against. This library models both: the driver with its tool, and those SDK
  headers that contain code or data formats.

  \<^bold>\<open>The parts and how they interact.\<close> IOKit creates an \<^verbatim>\<open>XeService\<close> (\<^verbatim>\<open>kexts/XeService.cpp\<close>)
  and calls \<open>init\<close>, \<open>probe\<close> and \<open>start\<close>. \<open>init\<close> parses the boot argument
  (\<^verbatim>\<open>kexts/XeBootArgs.cpp\<close>) into global flags. \<open>start\<close> maps BAR0, dumps power, translation
  table (\<^verbatim>\<open>kexts/XeGGTT.hpp\<close>) and display registers unless the flags forbid it, creates the
  registry of buffer objects and publishes the service. \<^verbatim>\<open>newUserClient\<close> creates an
  \<^verbatim>\<open>XeUserClient\<close> (\<^verbatim>\<open>kexts/XeUserClient.cpp\<close>), whose \<^verbatim>\<open>externalMethod\<close> dispatches six
  selectors to handlers that call back into the service. Submission goes through
  \<^verbatim>\<open>XeCommandStream\<close> (\<^verbatim>\<open>kexts/XeCommandStream.cpp\<close>), which holds the device awake with a
  \<^verbatim>\<open>ForcewakeGuard\<close> (\<^verbatim>\<open>kexts/ForcewakeGuard.hpp\<close>) while it reads the ring. \<open>stop\<close> releases the
  buffers, the registry and the mapping; clients may still call afterwards. The tool
  (\<^verbatim>\<open>userspace/xectl.c\<close>) opens the service and issues one call.

  \<^bold>\<open>How code is represented.\<close> An operation of the driver is a computation in the library's
  state monad over \<open>world\<close>: the boot flags, the fields of the service object, and the trace of
  everything done to the outside (register loads and stores, allocations, releases, log
  lines, calls into IOKit). Answers of the kernel and the device are a parameter
  \<open>kernel_env\<close>, whose fields are functions of the trace, so that an answer may depend on
  everything that happened before and no two calls need to agree. Access outside an array is
  the event \<open>Fault\<close>. Integers are words of their width. In the SDK part, undefined behaviour,
  accesses outside an object and loops that do not end are the value \<open>None\<close>; hence a theorem that
  an operation has a value also says that it is defined and returns.

  \<^bold>\<open>The driver's theories.\<close>
  \<^item> \<open>XePrelude\<close>: word types, rule collections, generic facts, a small Hoare calculus.
  \<^item> \<open>HwOffsets\<close>, \<open>ReturnCodes\<close>, \<open>PciConfig\<close>: the constants of \<^verbatim>\<open>kexts/xe_hw_offsets.hpp\<close>,
    \<^verbatim>\<open>mach/error.h\<close>, \<^verbatim>\<open>IOKit/IOReturn.h\<close>, \<^verbatim>\<open>libkern/OSReturn.h\<close> and the PCI headers. Shown:
    registers are distinct, aligned and inside the aperture; error codes compose, decompose and
    differ; address packing is invertible.
  \<^item> \<open>KernelModel\<close>: flags, service record, events, \<open>world\<close>, \<open>kernel_env\<close>; the judgement
    \<open>safe I P m\<close> (the computation \<open>m\<close> keeps \<open>I\<close> and emits only events in \<open>P\<close>); the locale \<open>guarded_reader\<close>,
    the contract of a checked register read, interpreted by the readers of the guard (\<open>fw\<close>), the
    translation table (\<open>gr\<close>), the command stream (\<open>sr\<close>) and the service (\<open>rr\<close>).
  \<^item> \<open>BootArgs\<close>: the parser over its 128-byte buffer. It never leaves the buffer, ends, and
    computes \<open>boot_spec\<close>, which splits the argument at commas.
  \<^item> \<open>Forcewake\<close>, \<open>GGTT\<close>, \<open>CommandStream\<close>: results and footprint of each operation. The poll
    loop is bounded by the 50 iterations of the source, and its outcome is given in terms of the
    device's answers; the request bit after the guard's scope; the no-op batch in the buffer.
  \<^item> \<open>Service\<close>, \<open>ServiceCalls\<close>, \<open>UserClient\<close>: the life cycle, the registry, the methods behind
    the selectors, the handlers, dispatch table, factory and client.
  \<^item> \<open>MmioSafety\<close>, \<open>Ledger\<close>, \<open>LedgerCalls\<close>: every operation keeps its register accesses inside a
    live mapping, and the reference counts computed from the trace agree with the fields of
    the service. The locales \<open>mmio_client\<close> and \<open>mapped_client\<close> state what a caller of the
    register accessors must keep.
  \<^item> \<open>DriverSystem\<close>, \<open>DriverProps\<close>: the state machine of life cycle phases and interleaved client
    calls, its invariant by rule induction, and what follows for every reachable state. \<open>StrictMode\<close>:
    which registers the driver can touch at all when the boot flag \<^verbatim>\<open>strictsafe\<close> is set.
  \<^item> \<open>Registry\<close>: the buffer registry as a table of cookies, with the locale \<open>cookie_table\<close>
    interpreted (\<open>bo\<close>) by the array of the service. \<open>ReadOut\<close>: what the read-out handlers return.
  \<^item> \<open>Xectl\<close>: the tool, composed with the whole call path of the driver.

  \<^bold>\<open>The SDK theories.\<close>
  \<^item> \<open>KernQueue\<close>: \<^verbatim>\<open>kern/queue.h\<close> on an explicit store of linked entries, both kinds of chain; the
    locale \<open>deque\<close> is interpreted for each (\<open>links\<close>, \<open>elems\<close>). Shown: each operation's effect on
    the sequence of members, that other queues are untouched, that iteration ends and visits every member,
    also when the visited member is removed.
  \<^item> \<open>CircleQueue\<close>: \<^verbatim>\<open>kern/circle_queue.h\<close>, on top of the rings of \<open>KernQueue\<close>. Shown: edits, rotation
    and loops on the sequence of members.
  \<^item> \<open>PriorityQueue\<close>: \<^verbatim>\<open>kern/priority_queue.h\<close>, pairing heaps in a store with packed pointers. The
    locale \<open>comparator\<close> is what the operations need of a comparison, interpreted for both comparators of
    the header (\<open>maxh\<close>, \<open>minh\<close>) and for those a client makes (\<open>gen\<close>). The kernel function
    \<^verbatim>\<open>pqueue_pair_meld\<close> is a parameter with the contract \<open>melds\<close>. Shown: each operation's effect on the
    set of entries, heap order, memory outside untouched; and which keys and uses the comments allow but the code
    does not support.
  \<^item> \<open>KernBits\<close>: \<^verbatim>\<open>kern/bits.h\<close>. Shown: searches return the highest or lowest bit, updates
    change one bit, and no operation shifts too far or leaves the bitmap.
  \<^item> \<open>KernArith\<close>: \<^verbatim>\<open>os/overflow.h\<close>, \<^verbatim>\<open>kern/arithmetic_128.h\<close>, \<^verbatim>\<open>mach/time_value.h\<close>. Shown: what composed
    overflow checks report, that the two 128-bit products agree, exact time sums.
  \<^item> \<open>CMemory\<close>, \<open>ByteOrder\<close>: C objects as bytes; \<^verbatim>\<open>libkern/OSByteOrder.h\<close> and its parts. Shown: the
    constant swaps equal the byte reversal, reads undo writes.
  \<^item> \<open>KcdataFormat\<close>, \<open>KcdataIter\<close>: \<^verbatim>\<open>kern/kcdata.h\<close>, the item format and the iterators. Shown:
    a walk over arbitrary bytes stays inside the buffer, ends and agrees with a parser of item lists;
    subtype descriptors return the sizes put into them.
  \<^item> \<open>CmpOrder\<close>, \<open>OrderedStore\<close>: what a client's comparison must satisfy, and the locale
    \<open>ordered_store\<close>, what a search tree promises: single requests are answered like the increasing sequence of
    its elements, hence every series of requests is.
  \<^item> \<open>TreeZipper\<close>, \<open>RbTree\<close>, \<open>RbInsert\<close>, \<open>RbRemove\<close>, \<open>RbIter\<close>, \<open>RbSet\<close>: the red-black trees of
    \<^verbatim>\<open>libkern/tree.h\<close> on a store of entries whose parent pointer carries the colour. \<open>TreeZipper\<close> has the
    abstract trees, with a focus on the place a repair loop has reached. Shown: rotations, insertion and removal
    act on the store as on the abstract tree and keep it balanced; searches, neighbours and loops agree with
    the sequence of elements, also when the body of a loop removes them; a search is logarithmic. The
    trees interpret \<open>ordered_store\<close> (\<open>rb\<close>).
  \<^item> \<open>SplayTree\<close>, \<open>SplayOps\<close>: the splay trees of the same header, with the local node that collects the parts of the
    tree at an address of its own. Shown: a splay keeps the sequence and brings the wanted element or a
    neighbour to the top; they interpret \<open>ordered_store\<close> (\<open>spt\<close>). \<open>SearchTrees\<close> states what
    holds of both trees.

  \<^bold>\<open>Assumptions and bounds.\<close> \<open>env_ok\<close> collects what the driver relies on: the boot argument fits its buffer with its
  terminator, as \<^verbatim>\<open>PE_parse_boot_argn\<close> documents; \<^verbatim>\<open>IOUserClient::externalMethod\<close> checks the
  argument counts against the dispatch entry (\<open>dispatch_contract\<close>). Nothing is assumed about
  the size of BAR0: the code only warns about a small one and reads some registers without a length check, the
  highest ending at 0x100008 (\<open>bar_needed\<close>), so C1 bounds accesses by the mapping or that address, and by the
  mapping alone when it is large enough. Cookies are positions as 32-bit
  counts, so the registry's theorems ask for room below that width. The kcdata theorems ask that a
  buffer end at least 4 GiB below the top of the address space (\<open>placed\<close>), because the code adds a
  32-bit size to a pointer before comparing; the bitmap theorems ask for at most \<open>2 ^ 31\<close> bits, the
  range of the \<^verbatim>\<open>int\<close> results. Queue theorems ask that entries at different addresses do not overlap. The trees' elements lie at even addresses, which leaves the
  lowest bit to the colour, and differ from the local node of a splay. Loops over
  queues, trees and kcdata items are partial functions without fuel, with termination proved
  where the structure is well formed.

  \<^bold>\<open>Not modelled.\<close> \<^verbatim>\<open>kexts/ForcewakeGuard.cpp\<close> and \<^verbatim>\<open>kexts/XeGGTT.cpp\<close> contain no code. The
  classes of IOKit and libkern are declarations whose implementation is in the kernel. The
  big-endian branches of the byte order headers are not compiled for this target. The layout of
  log messages is not modelled, only which message is logged with which arguments. Operations run to completion one
  after another: the sources take no lock and the trace has no finer interleaving. In the SDK part
  assertions are taken as enabled, a failing one has no value. The kernel's own \<^verbatim>\<open>pqueue_pair_meld\<close> and
  \<^verbatim>\<open>pqueue_destroy\<close> are not in the repository. Of \<^verbatim>\<open>kern/kcdata.h\<close> the tables of item numbers and the structures
  no function of the header uses are left out. The list macros of \<^verbatim>\<open>sys/queue.h\<close> and the inline accessors of the network and processor headers are not used by the driver
  and left out; the other headers of the SDK are declarations and constants.
\<close>

section \<open>Coming up\<close>

text \<open>
  An environment in which nothing fails: the superclass methods and all allocations succeed, the
  provider is a PCI device, and BAR0 is mapped somewhere.
\<close>

definition grants :: "kernel_env \<Rightarrow> bool" where
  "grants K \<longleftrightarrow> is_IOPCIDevice K \<and> (\<forall>h. super_start K h \<and> new_array K h \<and> new_client K h \<and>
     client_super_init K h \<and> client_attach K h \<and> client_super_start K h \<and>
     (case map_bar0 K h of None \<Rightarrow> False | Some (b, len) \<Rightarrow> b \<noteq> 0 \<and> len \<noteq> 0))"

lemma start_map_granted:
  assumes "grants K" and "run_state (start_map K) w = (ok, w')"
  shows "ok"
proof -
  have "case map_bar0 K h of None \<Rightarrow> False | Some (b, len) \<Rightarrow> b \<noteq> 0 \<and> len \<noteq> 0" for h
    using assms(1) by (simp add: grants_def)
  from this [of "trace w @ [Log XeService_cpp 93 [], PciMemoryEnable True, PciIOEnable True,
      PciBusMasterEnable True, Log XeService_cpp 99 []]"] assms(2)
  show ?thesis by (auto simp: start_map_def split: option.splits if_splits)
qed

lemma start_publish_granted:
  assumes "grants K" and "run_state (start_publish K v d r) w = (ok, w')"
  shows "ok" and "RegisterService \<in> set (trace w')" and "\<exists>a. m_boList (svc w') = Some (a, [])"
  using assms by (auto simp: start_publish_def grants_def)

lemma start_granted:
  assumes g: "grants K" and run: "run_state (XeService_start K) w = (ok, w')"
  shows "ok" and "RegisterService \<in> set (trace w')" and "\<exists>a. m_boList (svc w') = Some (a, [])"
proof -
  let ?w0 = "w\<lparr>trace := trace w @ [Log XeService_cpp 79 []], svc := (svc w)\<lparr>pci := True\<rparr>\<rparr>"
  obtain mp w1 where 1: "run_state (start_map K) ?w0 = (mp, w1)" by (rule prod.exhaust)
  obtain v d r w2 where 2: "run_state (start_read K) w1 = ((v, d, r), w2)" by (metis prod.exhaust)
  have "run_state (start_publish K v d r) w2 = (ok, w')"
    using run g start_map_granted [OF g 1] 1 2 by (simp add: XeService_start_def grants_def)
  from start_publish_granted [OF g this]
  show "ok" "RegisterService \<in> set (trace w')" "\<exists>a. m_boList (svc w') = Some (a, [])" .
qed

lemma open_granted:
  assumes "grants K"
  obtains uc w' where "run_state (XeService_newUserClient K task type) w = ((kIOReturnSuccess, Some uc), w')"
    and "providerSvc uc" and "clientTask uc = task" and "svc w' = svc w"
  using assms
  by (auto simp: grants_def XeService_newUserClient_def XeCreateUserClient_def XeUserClient_start_def
      XeUserClient_initWithTask_def)

text \<open>
  C6. When the environment grants what the driver asks for, an initialized driver comes up: \<open>start\<close>
  returns true, publishes the service and leaves it with a mapping and an empty registry,
  and the first client that opens it gets a client object of its own; from there the system is
  running with that client.
\<close>

theorem service_comes_up:
  assumes "env_ok super K" and "grants K" and "sys_reach super K s" and "sys_phase s = Initialized"
  shows "\<exists>w' w'' uc. run_state (XeService_start K) (sys_world s) = (True, w') \<and>
    RegisterService \<in> set (trace w') \<and>
    mmio (svc w') \<noteq> 0 \<and> bar0 (svc w') \<noteq> None \<and> (\<exists>a. m_boList (svc w') = Some (a, [])) \<and>
    run_state (XeService_newUserClient K task type) w' = ((kIOReturnSuccess, Some uc), w'') \<and>
    clientTask uc = task \<and>
    sys_reach super K \<lparr>sys_phase = Running, sys_world = w'', sys_clients = uc # sys_clients s\<rparr>"
proof -
  obtain w cs where s: "s = \<lparr>sys_phase = Initialized, sys_world = w, sys_clients = cs\<rparr>"
    using assms(4) by (cases s) simp
  obtain ok w' where 1: "run_state (XeService_start K) w = (ok, w')" by (rule prod.exhaust)
  note up = start_granted [OF assms(2) 1]
  with 1 have t: "run_state (XeService_start K) w = (True, w')" by simp
  have r: "sys_reach super K \<lparr>sys_phase = Running, sys_world = w', sys_clients = cs\<rparr>"
    using sys_reach_step [OF assms(3) [unfolded s] step_start [OF t]] by simp
  from sys_inv_reach [OF assms(1) r] have inv: "mmio (svc w') \<noteq> 0" "bar0 (svc w') \<noteq> None"
    by (simp_all add: sys_inv_def)
  obtain uc w'' where c: "run_state (XeService_newUserClient K task type) w' = ((kIOReturnSuccess, Some uc), w'')"
      "clientTask uc = task"
    by (rule open_granted [OF assms(2)])
  from sys_reach_step [OF r step_open [OF c(1)]]
  have "sys_reach super K \<lparr>sys_phase = Running, sys_world = w'', sys_clients = uc # cs\<rparr>" by simp
  with t up inv c show ?thesis unfolding s by auto
qed

theorem service_comes_up_witness:
  "\<exists>w w' w'' uc. sys_reach super_checked kernel_ok \<lparr>sys_phase = Initialized, sys_world = w, sys_clients = []\<rparr> \<and>
     run_state (XeService_start kernel_ok) w = (True, w') \<and> RegisterService \<in> set (trace w') \<and>
     run_state (XeService_newUserClient kernel_ok 7 0) w' = ((kIOReturnSuccess, Some uc), w'') \<and> clientTask uc = 7"
proof -
  obtain w where r: "sys_reach super_checked kernel_ok \<lparr>sys_phase = Initialized, sys_world = w, sys_clients = []\<rparr>"
    by (rule reach_initialized [of kernel_ok]) (simp add: kernel_ok_def)
  have "grants kernel_ok" by (simp add: grants_def kernel_ok_def)
  from service_comes_up [OF kernel_ok_env this r, of 7 0] r show ?thesis by auto
qed

end
